(* ===== verification/Prelude.thy ===== *)
theory Prelude
  imports Main "HOL-Library.Word"
begin

text \<open>
  Shared vocabulary of the development: results (\<open>Result<T, E>\<close> is the sum
  type with \<open>Inl\<close> the error), the u16/u64 arithmetic the Rust sources use
  (checked, saturating and wrapping operations on natural numbers below the
  width), fixed-width byte arrays as lists of 8-bit words, and the generic
  lemmas the components share.  The collection \<open>result_simps\<close> unfolds
  the error plumbing, \<open>u64_simps\<close> the integer operations.
\<close>

named_theorems result_simps
named_theorems u64_simps


section \<open>Results\<close>

type_synonym ('e, 'a) result = "'e + 'a"

definition rbind :: "('e, 'a) result \<Rightarrow> ('a \<Rightarrow> ('e, 'b) result) \<Rightarrow> ('e, 'b) result" where
  "rbind m f = (case m of Inl e \<Rightarrow> Inl e | Inr x \<Rightarrow> f x)"

definition map_err :: "('e \<Rightarrow> 'f) \<Rightarrow> ('e, 'a) result \<Rightarrow> ('f, 'a) result" where
  "map_err g m = (case m of Inl e \<Rightarrow> Inl (g e) | Inr x \<Rightarrow> Inr x)"

definition ok_or :: "'a option \<Rightarrow> 'e \<Rightarrow> ('e, 'a) result" where
  "ok_or m e = (case m of None \<Rightarrow> Inl e | Some x \<Rightarrow> Inr x)"

definition ensure :: "bool \<Rightarrow> 'e \<Rightarrow> ('e, unit) result" where
  "ensure b e = (if b then Inr () else Inl e)"

definition is_ok :: "('e, 'a) result \<Rightarrow> bool" where
  "is_ok m = (case m of Inl _ \<Rightarrow> False | Inr _ \<Rightarrow> True)"

text \<open>The \<open>try_fold\<close> of an iterator: a left fold that stops at the first error.\<close>

fun try_fold :: "('s \<Rightarrow> 'a \<Rightarrow> ('e, 's) result) \<Rightarrow> 's \<Rightarrow> 'a list \<Rightarrow> ('e, 's) result" where
  "try_fold f s [] = Inr s"
| "try_fold f s (x # xs) = rbind (f s x) (\<lambda>s'. try_fold f s' xs)"

text \<open>Collecting an iterator of results: the first error wins.\<close>

fun traverse :: "('a \<Rightarrow> ('e, 'b) result) \<Rightarrow> 'a list \<Rightarrow> ('e, 'b list) result" where
  "traverse f [] = Inr []"
| "traverse f (x # xs) = rbind (f x) (\<lambda>y. rbind (traverse f xs) (\<lambda>ys. Inr (y # ys)))"

lemma rbind_simps [simp, result_simps]:
  "rbind (Inl e) f = Inl e"
  "rbind (Inr x) f = f x"
  by (simp_all add: rbind_def)

lemma map_err_simps [simp, result_simps]:
  "map_err g (Inl e) = Inl (g e)"
  "map_err g (Inr x) = Inr x"
  by (simp_all add: map_err_def)

lemma ok_or_simps [simp, result_simps]:
  "ok_or None e = Inl e"
  "ok_or (Some x) e = Inr x"
  by (simp_all add: ok_or_def)

lemma ensure_simps [simp, result_simps]:
  "ensure True e = Inr ()"
  "ensure False e = Inl e"
  by (simp_all add: ensure_def)

lemma is_ok_simps [simp, result_simps]:
  "is_ok (Inl e) = False"
  "is_ok (Inr x) = True"
  by (simp_all add: is_ok_def)

lemma rbind_eq_Inr [result_simps]:
  "rbind m f = Inr y \<longleftrightarrow> (\<exists>x. m = Inr x \<and> f x = Inr y)"
  by (cases m) auto

lemma rbind_eq_Inl [result_simps]:
  "rbind m f = Inl e \<longleftrightarrow> m = Inl e \<or> (\<exists>x. m = Inr x \<and> f x = Inl e)"
  by (cases m) auto

lemma map_err_eq_Inr [result_simps]: "map_err g m = Inr y \<longleftrightarrow> m = Inr y"
  by (cases m) auto

lemma map_err_eq_Inl [result_simps]: "map_err g m = Inl e \<longleftrightarrow> (\<exists>d. m = Inl d \<and> e = g d)"
  by (cases m) auto

lemma ok_or_eq_Inr [result_simps]: "ok_or m e = Inr y \<longleftrightarrow> m = Some y"
  by (cases m) auto

lemma ok_or_eq_Inl [result_simps]: "ok_or m e = Inl d \<longleftrightarrow> m = None \<and> d = e"
  by (cases m) auto

lemma ensure_eq_Inr [result_simps]: "ensure b e = Inr u \<longleftrightarrow> b"
  by (cases b) auto

lemma ensure_eq_Inl [result_simps]: "ensure b e = Inl d \<longleftrightarrow> \<not> b \<and> d = e"
  by (cases b) auto

lemma rbind_assoc: "rbind (rbind m f) g = rbind m (\<lambda>x. rbind (f x) g)"
  by (cases m) auto

lemma rbind_cong [fundef_cong]:
  assumes "m = m'" and "\<And>x. m' = Inr x \<Longrightarrow> f x = f' x"
  shows "rbind m f = rbind m' f'"
  using assms by (cases m') auto

lemma try_fold_append:
  "try_fold f s (xs @ ys) = rbind (try_fold f s xs) (\<lambda>s'. try_fold f s' ys)"
  by (induction xs arbitrary: s) (auto simp: rbind_assoc)

text \<open>An invariant of the step is an invariant of a successful fold.\<close>

lemma try_fold_invariant:
  assumes "try_fold f s xs = Inr t" and "P s"
    and "\<And>s x s'. P s \<Longrightarrow> x \<in> set xs \<Longrightarrow> f s x = Inr s' \<Longrightarrow> P s'"
  shows "P t"
  using assms
proof (induction xs arbitrary: s)
  case Nil
  then show ?case by simp
next
  case (Cons x xs)
  from Cons.prems(1) obtain s' where s': "f s x = Inr s'" "try_fold f s' xs = Inr t"
    by (auto simp: rbind_eq_Inr)
  have "P s'" using Cons.prems(3)[OF Cons.prems(2) _ s'(1)] by simp
  with s'(2) show ?case
  proof (rule Cons.IH)
    fix r y r' assume "P r" "y \<in> set xs" "f r y = Inr r'"
    then show "P r'" using Cons.prems(3)[of r y r'] by simp
  qed
qed

lemma traverse_length: "traverse f xs = Inr ys \<Longrightarrow> length ys = length xs"
  by (induction xs arbitrary: ys) (auto simp: rbind_eq_Inr)

lemma traverse_nth:
  "traverse f xs = Inr ys \<Longrightarrow> i < length xs \<Longrightarrow> f (xs ! i) = Inr (ys ! i)"
  by (induction xs arbitrary: ys i) (auto simp: rbind_eq_Inr nth_Cons split: nat.split)

lemma traverse_total:
  "(\<And>x. x \<in> set xs \<Longrightarrow> f x = Inr (g x)) \<Longrightarrow> traverse f xs = Inr (map g xs)"
  by (induction xs) auto


text \<open>
  The contract of a fallible step that cannot fail on good data: hashing steps,
  cursor moves and counters all have it, and a fold over good data then returns.
\<close>

locale total_step =
  fixes f :: "'s \<Rightarrow> 'a \<Rightarrow> ('e, 's) result"
    and good_state :: "'s \<Rightarrow> bool"
    and good_input :: "'a \<Rightarrow> bool"
  assumes step_total: "good_state s \<Longrightarrow> good_input x \<Longrightarrow> \<exists>s'. f s x = Inr s' \<and> good_state s'"
begin

lemma fold_total:
  "good_state s \<Longrightarrow> \<forall>x \<in> set xs. good_input x \<Longrightarrow> \<exists>s'. try_fold f s xs = Inr s' \<and> good_state s'"
proof (induction xs arbitrary: s)
  case Nil
  then show ?case by simp
next
  case (Cons x xs)
  obtain s' where "f s x = Inr s'" "good_state s'" using step_total[of s x] Cons.prems by auto
  then show ?case using Cons.IH[of s'] Cons.prems(2) by auto
qed

end


section \<open>Machine integers\<close>

text \<open>
  A \<open>u64\<close> is a natural number below \<open>2 ^ 64\<close>; the operations below are
  the ones the sources call.  \<open>wrapping_add\<close> is the plain \<open>+\<close> of a release
  build.
\<close>

definition u64_limit :: nat where "u64_limit = 2 ^ 64"
definition u16_limit :: nat where "u16_limit = 2 ^ 16"

abbreviation u64_ok :: "nat \<Rightarrow> bool" where "u64_ok n \<equiv> n < u64_limit"
abbreviation u16_ok :: "nat \<Rightarrow> bool" where "u16_ok n \<equiv> n < u16_limit"

definition u64_max :: nat where "u64_max = u64_limit - 1"

definition checked_add :: "nat \<Rightarrow> nat \<Rightarrow> nat option" where
  "checked_add a b = (if a + b < u64_limit then Some (a + b) else None)"

definition checked_add_u16 :: "nat \<Rightarrow> nat \<Rightarrow> nat option" where
  "checked_add_u16 a b = (if a + b < u16_limit then Some (a + b) else None)"

definition checked_sub :: "nat \<Rightarrow> nat \<Rightarrow> nat option" where
  "checked_sub a b = (if b \<le> a then Some (a - b) else None)"

definition checked_mul :: "nat \<Rightarrow> nat \<Rightarrow> nat option" where
  "checked_mul a b = (if a * b < u64_limit then Some (a * b) else None)"

definition saturating_add :: "nat \<Rightarrow> nat \<Rightarrow> nat" where
  "saturating_add a b = min (a + b) u64_max"

definition saturating_mul :: "nat \<Rightarrow> nat \<Rightarrow> nat" where
  "saturating_mul a b = min (a * b) u64_max"

definition saturating_sub :: "nat \<Rightarrow> nat \<Rightarrow> nat" where
  "saturating_sub a b = (if b \<le> a then a - b else 0)"

definition wrapping_add :: "nat \<Rightarrow> nat \<Rightarrow> nat" where
  "wrapping_add a b = (a + b) mod u64_limit"

definition wrapping_mul :: "nat \<Rightarrow> nat \<Rightarrow> nat" where
  "wrapping_mul a b = (a * b) mod u64_limit"

definition div_ceil :: "nat \<Rightarrow> nat \<Rightarrow> nat" where
  "div_ceil a b = (if a mod b = 0 then a div b else a div b + 1)"

lemma u64_limit_pos [simp]: "0 < u64_limit"
  by (simp add: u64_limit_def)

lemma u64_max_less [simp]: "u64_max < u64_limit"
  by (simp add: u64_max_def)

lemma less_limit_le_max: "u64_ok n \<longleftrightarrow> n \<le> u64_max"
  using u64_limit_pos unfolding u64_max_def by linarith

lemma checked_add_eq_Some [u64_simps]: "checked_add a b = Some c \<longleftrightarrow> c = a + b \<and> u64_ok c"
  by (auto simp: checked_add_def)

lemma checked_add_eq_None [u64_simps]: "checked_add a b = None \<longleftrightarrow> \<not> u64_ok (a + b)"
  by (auto simp: checked_add_def)

lemma checked_add_u16_eq_Some [u64_simps]:
  "checked_add_u16 a b = Some c \<longleftrightarrow> c = a + b \<and> u16_ok c"
  by (auto simp: checked_add_u16_def)

lemma checked_sub_eq_Some [u64_simps]: "checked_sub a b = Some c \<longleftrightarrow> b \<le> a \<and> c = a - b"
  by (auto simp: checked_sub_def)

lemma checked_sub_eq_None [u64_simps]: "checked_sub a b = None \<longleftrightarrow> a < b"
  by (auto simp: checked_sub_def)

lemma checked_mul_eq_Some [u64_simps]: "checked_mul a b = Some c \<longleftrightarrow> c = a * b \<and> u64_ok c"
  by (auto simp: checked_mul_def)

lemma saturating_sub_eq [simp, u64_simps]: "saturating_sub a b = a - b"
  by (simp add: saturating_sub_def)

lemma saturating_add_ok [simp]: "u64_ok (saturating_add a b)"
  unfolding saturating_add_def using u64_max_less by linarith

lemma saturating_mul_ok [simp]: "u64_ok (saturating_mul a b)"
  unfolding saturating_mul_def using u64_max_less by linarith

lemma saturating_add_exact: "u64_ok (a + b) \<Longrightarrow> saturating_add a b = a + b"
  by (simp add: saturating_add_def less_limit_le_max)

lemma saturating_mul_exact: "u64_ok (a * b) \<Longrightarrow> saturating_mul a b = a * b"
  by (simp add: saturating_mul_def less_limit_le_max)

lemma saturating_add_mono: "a \<le> a' \<Longrightarrow> b \<le> b' \<Longrightarrow> saturating_add a b \<le> saturating_add a' b'"
  by (simp add: saturating_add_def min_def)

lemma saturating_mul_mono: "a \<le> a' \<Longrightarrow> b \<le> b' \<Longrightarrow> saturating_mul a b \<le> saturating_mul a' b'"
  unfolding saturating_mul_def by (meson min.mono mult_le_mono order_refl)

lemma wrapping_add_exact [simp]: "u64_ok (a + b) \<Longrightarrow> wrapping_add a b = a + b"
  by (simp add: wrapping_add_def)

lemma wrapping_mul_exact [simp]: "u64_ok (a * b) \<Longrightarrow> wrapping_mul a b = a * b"
  by (simp add: wrapping_mul_def)

lemma div_ceil_bounds:
  assumes "0 < b"
  shows "a \<le> div_ceil a b * b" "div_ceil a b * b < a + b"
proof -
  have eq: "a div b * b + a mod b = a" by simp
  have lt: "a mod b < b" using assms by simp
  have up: "div_ceil a b * b = (if a mod b = 0 then a div b * b else a div b * b + b)"
    by (simp add: div_ceil_def)
  show "a \<le> div_ceil a b * b"
  proof (cases "a mod b = 0")
    case True
    then have "div_ceil a b * b = a div b * b" using up by simp
    then show ?thesis using eq True by linarith
  next
    case False
    then have "div_ceil a b * b = a div b * b + b" using up by simp
    then show ?thesis using eq lt by linarith
  qed
  show "div_ceil a b * b < a + b"
  proof (cases "a mod b = 0")
    case True
    then have "div_ceil a b * b = a div b * b" using up by simp
    then show ?thesis using eq assms by linarith
  next
    case False
    then have "div_ceil a b * b = a div b * b + b" using up by simp
    then show ?thesis using eq False by linarith
  qed
qed


section \<open>Bytes and slices\<close>

type_synonym byte = "8 word"
type_synonym bytes = "byte list"

text \<open>Slice access that reports an index out of range, \<open>slice.get(i)\<close>.\<close>

definition get :: "'a list \<Rightarrow> nat \<Rightarrow> 'a option" where
  "get xs i = (if i < length xs then Some (xs ! i) else None)"

lemma get_eq_Some [result_simps]: "get xs i = Some x \<longleftrightarrow> i < length xs \<and> xs ! i = x"
  by (auto simp: get_def)

lemma get_eq_None [result_simps]: "get xs i = None \<longleftrightarrow> length xs \<le> i"
  by (auto simp: get_def)

definition zero32 :: bytes where "zero32 = replicate 32 0"

lemma length_zero32 [simp]: "length zero32 = 32"
  by (simp add: zero32_def)

fun to_le_bytes :: "nat \<Rightarrow> nat \<Rightarrow> bytes" where
  "to_le_bytes 0 v = []"
| "to_le_bytes (Suc n) v = of_nat (v mod 256) # to_le_bytes n (v div 256)"

fun from_le_bytes :: "bytes \<Rightarrow> nat" where
  "from_le_bytes [] = 0"
| "from_le_bytes (b # bs) = unat b + 256 * from_le_bytes bs"

definition to_be_bytes :: "nat \<Rightarrow> nat \<Rightarrow> bytes" where
  "to_be_bytes n v = rev (to_le_bytes n v)"

definition from_be_bytes :: "bytes \<Rightarrow> nat" where
  "from_be_bytes bs = from_le_bytes (rev bs)"

lemma length_to_le_bytes [simp]: "length (to_le_bytes n v) = n"
  by (induction n arbitrary: v) auto

lemma length_to_be_bytes [simp]: "length (to_be_bytes n v) = n"
  by (simp add: to_be_bytes_def)

lemma to_le_bytes_zero: "to_le_bytes n 0 = replicate n 0"
  by (induction n) auto

lemma to_be_bytes_zero: "to_be_bytes n 0 = replicate n 0"
  by (simp add: to_be_bytes_def to_le_bytes_zero)

lemma unat_of_nat_byte: "unat (of_nat (v mod 256) :: byte) = v mod 256"
  by (simp add: unat_of_nat)

lemma from_to_le_bytes: "v < 256 ^ n \<Longrightarrow> from_le_bytes (to_le_bytes n v) = v"
proof (induction n arbitrary: v)
  case 0
  then show ?case by simp
next
  case (Suc n)
  have "v div 256 < 256 ^ n" using Suc.prems by (simp add: less_mult_imp_div_less mult.commute)
  then show ?case using Suc.IH by (simp add: unat_of_nat_byte)
qed

lemma from_to_be_bytes: "v < 256 ^ n \<Longrightarrow> from_be_bytes (to_be_bytes n v) = v"
  by (simp add: from_be_bytes_def to_be_bytes_def from_to_le_bytes)

lemma byte_unat_less: "unat (b :: byte) < 256"
  using unsigned_less[of b, where ?'a = nat] by simp

lemma to_from_le_bytes: "to_le_bytes (length bs) (from_le_bytes bs) = bs"
proof (induction bs)
  case Nil
  then show ?case by simp
next
  case (Cons b bs)
  have "(unat b + 256 * from_le_bytes bs) mod 256 = unat b"
    "(unat b + 256 * from_le_bytes bs) div 256 = from_le_bytes bs"
    using byte_unat_less[of b] by simp_all
  then show ?case using Cons.IH by simp
qed

lemma from_le_bytes_less: "from_le_bytes bs < 256 ^ length bs"
proof (induction bs)
  case Nil
  then show ?case by simp
next
  case (Cons b bs)
  have "(256 :: nat) ^ length (b # bs) = 256 * 256 ^ length bs" by simp
  moreover have "from_le_bytes (b # bs) = unat b + 256 * from_le_bytes bs" by simp
  ultimately show ?case using Cons.IH byte_unat_less[of b] by linarith
qed

lemma from_be_bytes_less: "from_be_bytes bs < 256 ^ length bs"
  using from_le_bytes_less[of "rev bs"] unfolding from_be_bytes_def length_rev .

lemma from_le_bytes_inj:
  "length xs = length ys \<Longrightarrow> from_le_bytes xs = from_le_bytes ys \<Longrightarrow> xs = ys"
  using to_from_le_bytes[of xs] to_from_le_bytes[of ys] by argo

lemma from_be_bytes_inj:
  "length xs = length ys \<Longrightarrow> from_be_bytes xs = from_be_bytes ys \<Longrightarrow> xs = ys"
  using from_le_bytes_inj[of "rev xs" "rev ys"] by (simp add: from_be_bytes_def)

text \<open>The derived ordering of byte arrays is lexicographic.\<close>

fun bytes_less :: "bytes \<Rightarrow> bytes \<Rightarrow> bool" where
  "bytes_less [] ys = (ys \<noteq> [])"
| "bytes_less (x # xs) [] = False"
| "bytes_less (x # xs) (y # ys) = (x < y \<or> x = y \<and> bytes_less xs ys)"

lemma from_le_bytes_append:
  "from_le_bytes (xs @ ys) = from_le_bytes xs + 256 ^ length xs * from_le_bytes ys"
  by (induction xs) (simp_all add: algebra_simps)

lemma from_be_bytes_Cons:
  "from_be_bytes (b # bs) = unat b * 256 ^ length bs + from_be_bytes bs"
  by (simp add: from_be_bytes_def from_le_bytes_append mult.commute)

lemma digit_less:
  fixes a b m x y :: nat
  assumes "x < m" "y < m"
  shows "a * m + x < b * m + y \<longleftrightarrow> a < b \<or> a = b \<and> x < y"
proof (cases a b rule: linorder_cases)
  case less
  then have "(a + 1) * m \<le> b * m" by (intro mult_right_mono) auto
  then show ?thesis using less assms by (simp add: algebra_simps)
next
  case greater
  then have "(b + 1) * m \<le> a * m" by (intro mult_right_mono) auto
  then show ?thesis using greater assms by (simp add: algebra_simps)
qed simp

lemma bytes_less_iff:
  "length xs = length ys \<Longrightarrow> bytes_less xs ys \<longleftrightarrow> from_be_bytes xs < from_be_bytes ys"
proof (induction xs ys rule: bytes_less.induct)
  case (3 x xs y ys)
  then have len: "length xs = length ys" by simp
  have "from_be_bytes xs < 256 ^ length ys" "from_be_bytes ys < 256 ^ length ys"
    using from_be_bytes_less[of xs] from_be_bytes_less[of ys] len by simp_all
  then show ?case
    using 3 len by (simp add: from_be_bytes_Cons digit_less word_less_nat_alt word_unat_eq_iff)
qed (auto simp: from_be_bytes_def)

end
