(* ===== verification/Hasher.thy ===== *)
theory Hasher
  imports Prelude
begin

text \<open>
  The crate \<open>program-libs/hasher\<close>: the Poseidon hash chains that build every
  public-input hash, the precomputed folds of all-zero suffixes, and the
  field-element primitives.  The Poseidon permutation itself and SHA-256 are
  runtime syscalls, so they are parameters: \<open>P\<close> is \<open>Poseidon::hashv\<close>,
  \<open>sha\<close> is \<open>Sha256::hashv\<close>.  What the code relies on is stated by
  \<open>poseidon_ok\<close> (hashing one to twelve canonical field elements succeeds
  and gives a canonical field element) and \<open>zero_suffix_ok\<close> (the committed
  table holds the folds its comment says it holds).
\<close>

section \<open>Errors and the syscall wrapper\<close>

datatype poseidon_syscall_error =
    InvalidParameters | InvalidEndianness | InvalidNumberOfInputs | EmptyInput
  | InvalidInputLengthSyscall | BytesToPrimeFieldElement | InputLargerThanModulus
  | VecToArray | U64Tou8 | BytesToBigInt | InvalidWidthCircom | Unexpected

fun poseidon_syscall_error_of_u64 :: "nat \<Rightarrow> poseidon_syscall_error" where
  "poseidon_syscall_error_of_u64 n =
    (if n = 1 then InvalidParameters else if n = 2 then InvalidEndianness
     else if n = 3 then InvalidNumberOfInputs else if n = 4 then EmptyInput
     else if n = 5 then InvalidInputLengthSyscall else if n = 6 then BytesToPrimeFieldElement
     else if n = 7 then InputLargerThanModulus else if n = 8 then VecToArray
     else if n = 9 then U64Tou8 else if n = 10 then BytesToBigInt
     else if n = 11 then InvalidWidthCircom else Unexpected)"

fun u64_of_poseidon_syscall_error :: "poseidon_syscall_error \<Rightarrow> nat" where
  "u64_of_poseidon_syscall_error InvalidParameters = 1"
| "u64_of_poseidon_syscall_error InvalidEndianness = 2"
| "u64_of_poseidon_syscall_error InvalidNumberOfInputs = 3"
| "u64_of_poseidon_syscall_error EmptyInput = 4"
| "u64_of_poseidon_syscall_error InvalidInputLengthSyscall = 5"
| "u64_of_poseidon_syscall_error BytesToPrimeFieldElement = 6"
| "u64_of_poseidon_syscall_error InputLargerThanModulus = 7"
| "u64_of_poseidon_syscall_error VecToArray = 8"
| "u64_of_poseidon_syscall_error U64Tou8 = 9"
| "u64_of_poseidon_syscall_error BytesToBigInt = 10"
| "u64_of_poseidon_syscall_error InvalidWidthCircom = 11"
| "u64_of_poseidon_syscall_error Unexpected = 12"

datatype hasher_error =
    HasherIntegerOverflow
  | PoseidonSyscall poseidon_syscall_error
  | UnknownSolanaSyscall nat
  | InvalidInputLength nat nat
  | InvalidNumFields

fun hasher_error_code :: "hasher_error \<Rightarrow> nat" where
  "hasher_error_code HasherIntegerOverflow = 8001"
| "hasher_error_code (PoseidonSyscall e) = u64_of_poseidon_syscall_error e"
| "hasher_error_code (UnknownSolanaSyscall e) = (if e < 2 ^ 32 then e else 8004)"
| "hasher_error_code (InvalidInputLength _ _) = 8005"
| "hasher_error_code InvalidNumFields = 8006"

type_synonym hash_fn = "bytes list \<Rightarrow> (hasher_error, bytes) result"

text \<open>
  The on-chain branch of \<open>Poseidon::hashv\<close>; \<open>sol_poseidon\<close> is the
  syscall, returning a status word and the output buffer.
\<close>

definition poseidon_hashv :: "(bytes list \<Rightarrow> nat \<times> bytes) \<Rightarrow> hash_fn" where
  "poseidon_hashv sol_poseidon vals =
    (case find (\<lambda>v. length v \<noteq> 32) vals of
       Some v \<Rightarrow> Inl (InvalidInputLength (length v) 32)
     | None \<Rightarrow>
        (case sol_poseidon vals of (r, h) \<Rightarrow>
           if r = 0 then Inr h else Inl (PoseidonSyscall (poseidon_syscall_error_of_u64 r))))"

text \<open>\<open>Sha256BE\<close> clears the leading byte of the digest.\<close>

definition sha256be_hashv :: "(bytes list \<Rightarrow> (hasher_error, bytes) result) \<Rightarrow> hash_fn" where
  "sha256be_hashv sha vals = rbind (sha vals) (\<lambda>d. Inr (d[0 := 0]))"


section \<open>Field elements\<close>

definition BN254_SCALAR_MODULUS_BE :: bytes where
  "BN254_SCALAR_MODULUS_BE =
    [0x30, 0x64, 0x4e, 0x72, 0xe1, 0x31, 0xa0, 0x29, 0xb8, 0x50, 0x45, 0xb6, 0x81, 0x81, 0x58, 0x5d,
     0x28, 0x33, 0xe8, 0x48, 0x79, 0xb9, 0x70, 0x91, 0x43, 0xe1, 0xf5, 0x93, 0xf0, 0x00, 0x00, 0x01]"

definition is_canonical_bn254_scalar_be :: "bytes \<Rightarrow> bool" where
  "is_canonical_bn254_scalar_be bs = bytes_less bs BN254_SCALAR_MODULUS_BE"

definition is_canonical_x25519_public_key :: "bytes \<Rightarrow> bool" where
  "is_canonical_x25519_public_key bs =
    bytes_less (rev bs) (rev ((replicate 32 0xff)[0 := 0xed, 31 := 0x7f]))"

definition right_align :: "bytes \<Rightarrow> bytes" where
  "right_align bs = replicate (32 - length bs) 0 @ bs"

definition pack_chunk :: "bytes \<Rightarrow> bytes" where
  "pack_chunk chunk = replicate (32 - length chunk) 0 @ chunk"

definition PACK_BE_CHUNK_BYTES :: nat where "PACK_BE_CHUNK_BYTES = 31"

definition pack_be_chunks :: "nat \<Rightarrow> nat" where
  "pack_be_chunks len = div_ceil len PACK_BE_CHUNK_BYTES"

text \<open>\<open>slice.chunks(n)\<close>: consecutive pieces of \<open>n\<close> elements, the last may be short.\<close>

function chunks :: "nat \<Rightarrow> 'a list \<Rightarrow> 'a list list" where
  "chunks n xs = (if xs = [] \<or> n = 0 then [] else take n xs # chunks n (drop n xs))"
  by pat_completeness auto
termination by (relation "measure (\<lambda>(n, xs). length xs)") auto

declare chunks.simps [simp del]

definition pack_be :: "bytes \<Rightarrow> bytes list" where
  "pack_be bs = map (\<lambda>c. replicate (32 - length c) 0 @ c) (chunks PACK_BE_CHUNK_BYTES bs)"

definition hash_bytes :: "hash_fn \<Rightarrow> bytes \<Rightarrow> (hasher_error, bytes) result" where
  "hash_bytes P bs =
    (case chunks PACK_BE_CHUNK_BYTES bs of
       [] \<Rightarrow> Inr zero32
     | first # rest \<Rightarrow>
         try_fold (\<lambda>acc chunk. P [acc, pack_chunk chunk]) (pack_chunk first) rest)"

definition SOLANA_OWNER_TAG :: byte where "SOLANA_OWNER_TAG = 0x53"

definition tagged_identity :: "hash_fn \<Rightarrow> byte \<Rightarrow> bytes \<Rightarrow> (hasher_error, bytes) result" where
  "tagged_identity P tag key = hash_bytes P (tag # key)"

definition solana_owner_identity :: "hash_fn \<Rightarrow> bytes \<Rightarrow> (hasher_error, bytes) result" where
  "solana_owner_identity P pk = tagged_identity P SOLANA_OWNER_TAG pk"

text \<open>Minimal byte string of a big integer; zero is one zero byte.\<close>

fun bigint_bytes_le :: "nat \<Rightarrow> bytes" where
  "bigint_bytes_le v = (if v < 256 then [of_nat v] else of_nat (v mod 256) # bigint_bytes_le (v div 256))"

declare bigint_bytes_le.simps [simp del]

definition bigint_to_le_bytes_array :: "nat \<Rightarrow> nat \<Rightarrow> (hasher_error, bytes) result" where
  "bigint_to_le_bytes_array n v =
    (let bs = bigint_bytes_le v in
     if n < length bs then Inl (InvalidInputLength n (length bs))
     else Inr (bs @ replicate (n - length bs) 0))"

definition bigint_to_be_bytes_array :: "nat \<Rightarrow> nat \<Rightarrow> (hasher_error, bytes) result" where
  "bigint_to_be_bytes_array n v =
    (let bs = rev (bigint_bytes_le v) in
     if n < length bs then Inl (InvalidInputLength n (length bs))
     else Inr (replicate (n - length bs) 0 @ bs))"


section \<open>Hash chains\<close>

definition create_hash_chain :: "hash_fn \<Rightarrow> bytes list \<Rightarrow> (hasher_error, bytes) result" where
  "create_hash_chain P inputs =
    (case inputs of
       [] \<Rightarrow> Inr zero32
     | first # rest \<Rightarrow> try_fold (\<lambda>h x. P [h, x]) first rest)"

definition create_right_hash_chain_from_slice :: "hash_fn \<Rightarrow> bytes list \<Rightarrow> (hasher_error, bytes) result" where
  "create_right_hash_chain_from_slice P inputs =
    (if inputs = [] then Inr zero32
     else try_fold (\<lambda>h x. P [x, h]) (last inputs) (rev (butlast inputs)))"

definition create_nonzero_hash_chain_from_slice :: "hash_fn \<Rightarrow> bytes list \<Rightarrow> (hasher_error, bytes) result" where
  "create_nonzero_hash_chain_from_slice P inputs =
    try_fold (\<lambda>h x. if h = zero32 then Inr x else P [h, x]) zero32
      (filter (\<lambda>x. x \<noteq> zero32) inputs)"

text \<open>The loop of \<open>create_hash_chain_4\<close>: three elements per step, missing ones are zero.\<close>

fun hash_chain_4_loop :: "hash_fn \<Rightarrow> bytes \<Rightarrow> bytes list \<Rightarrow> (hasher_error, bytes) result" where
  "hash_chain_4_loop P h [] = Inr h"
| "hash_chain_4_loop P h [g0] = P [h, g0, zero32, zero32]"
| "hash_chain_4_loop P h [g0, g1] = P [h, g0, g1, zero32]"
| "hash_chain_4_loop P h (g0 # g1 # g2 # rest) =
    rbind (P [h, g0, g1, g2]) (\<lambda>h'. hash_chain_4_loop P h' rest)"

definition create_hash_chain_4 :: "hash_fn \<Rightarrow> bytes list \<Rightarrow> (hasher_error, bytes) result" where
  "create_hash_chain_4 P inputs =
    (case inputs of [] \<Rightarrow> Inr zero32 | first # rest \<Rightarrow> hash_chain_4_loop P first rest)"

text \<open>\<open>slice.rchunks(n)\<close>: pieces of \<open>n\<close> elements from the right, the leftmost may be short.\<close>

function rchunks :: "nat \<Rightarrow> 'a list \<Rightarrow> 'a list list" where
  "rchunks n xs =
    (if xs = [] \<or> n = 0 then []
     else drop (length xs - n) xs # rchunks n (take (length xs - n) xs))"
  by pat_completeness auto
termination by (relation "measure (\<lambda>(n, xs). length xs)") auto

declare rchunks.simps [simp del]

definition padded_get :: "bytes list \<Rightarrow> nat \<Rightarrow> bytes" where
  "padded_get g i = (case get g i of Some x \<Rightarrow> x | None \<Rightarrow> zero32)"

definition create_right_hash_chain_4_from_seed ::
  "hash_fn \<Rightarrow> bytes list \<Rightarrow> bytes \<Rightarrow> (hasher_error, bytes) result" where
  "create_right_hash_chain_4_from_seed P prefix seed =
    try_fold (\<lambda>h g. P [padded_get g 0, padded_get g 1, padded_get g 2, h]) seed (rchunks 3 prefix)"

definition create_right_hash_chain_4_from_slice :: "hash_fn \<Rightarrow> bytes list \<Rightarrow> (hasher_error, bytes) result" where
  "create_right_hash_chain_4_from_slice P inputs =
    (if inputs = [] then Inr zero32
     else create_right_hash_chain_4_from_seed P (butlast inputs) (last inputs))"

definition create_two_inputs_hash_chain ::
  "hash_fn \<Rightarrow> bytes list \<Rightarrow> bytes list \<Rightarrow> (hasher_error, bytes) result" where
  "create_two_inputs_hash_chain P xs ys =
    (if length xs \<noteq> length ys then Inl (InvalidInputLength (length xs) (length ys))
     else if xs = [] then Inr zero32
     else rbind (P [xs ! 0, ys ! 0]) (\<lambda>h.
       if length xs = 1 then Inr h
       else try_fold (\<lambda>h i. P [h, xs ! i, ys ! i]) h [1..<length xs]))"


section \<open>Precomputed all-zero suffixes\<close>

definition ZERO_SUFFIX_CHAIN_MAX_WIDTH :: nat where "ZERO_SUFFIX_CHAIN_MAX_WIDTH = 54"

definition ZERO_SUFFIX_GROUPS :: nat where
  "ZERO_SUFFIX_GROUPS = div_ceil (ZERO_SUFFIX_CHAIN_MAX_WIDTH - 1) 3"

definition ZERO_SUFFIX_CHAINS :: "bytes list" where
  "ZERO_SUFFIX_CHAINS = map (to_be_bytes 32)
    [0,
     0x0532fd436e19c70e51209694d9c215250937921b8b79060488c1206db73e9946,
     0x222cfa7d71f774d4487b280c0cc08e3cd2b9a86ef55ead0c0b795c3ff18b1218,
     0x05ffd3791fc65890b6cdd82c6ca36e3b897c1996cab034019ff01a683d462054,
     0x0ba4c4ef2b93cc95e67e42deedfc2d44128cc7824ab372524da35d9058abb8df,
     0x2b9fb731be7da203d67475eab641459910393a6588c05a47ff03d8d1fa2289e1,
     0x1d953d02fdb11e8940ceb2607bf2ee3b732cf67faa2f474f064092d2ef2e9a75,
     0x20ef7efce9a1c51a4bf201e1780795093ee31f2a6c327da3d0cfc0e72e1595c3,
     0x2d6fd572bf9ce28a14fc9332b18a012d61fb2d04dac22de154324ed3af4153c3,
     0x0fd2857c4e79f293f2b6e280d44b53533c0f235c46fd768d450bff196db0c481,
     0x1b73406f050ea1f202cba6ef9c0023f019b2df15194457ed6ea6ffac3a693809,
     0x0ac24d49d1d471af6592906ae02264726efbdc14036054ea6512b652fe251913,
     0x03a463c6bcdae725457ed4280e8a96c67dfeee0857568da813766235b5de031a,
     0x13a4d31c87628aaf35500bddff64129d4b6f37944059d3938ead6e6c866a9184,
     0x26072fda7ccca890ccfff2a314b9a2ada24f5122c611e153f9d94ca0665070ab,
     0x00ed391a98c0bcbfb2c3d0e07be56e8059c2848a2935bdba0b1fd56704533208,
     0x1a323c8c2b0e9395a3705dd8b4d8cee34f8eebd5fef167237a2a06eab6a87019,
     0x0103172d6deb6743eebd5b0e1bbae0e2eaefa55d74f757c94f393803cf4e027d,
     0x05711f600e6a01d2fd02ffdb11a38887f298a04e650dad6cb7b3748a0ea3bb11]"

definition create_zero_suffix_right_hash_chain_4 :: "hash_fn \<Rightarrow> bytes list \<Rightarrow> (hasher_error, bytes) result" where
  "create_zero_suffix_right_hash_chain_4 P values =
    (if values = [] then Inr zero32
     else let lst = last values; prefix = butlast values in
       if lst \<noteq> zero32 then create_right_hash_chain_4_from_seed P prefix lst
       else
         let skipped = length (takeWhile (\<lambda>g. \<forall>slot \<in> set g. slot = zero32) (rchunks 3 prefix)) in
         rbind (ok_or (get ZERO_SUFFIX_CHAINS skipped) (InvalidInputLength ZERO_SUFFIX_GROUPS skipped))
           (\<lambda>seed. create_right_hash_chain_4_from_seed P
              (take (saturating_sub (length prefix) (3 * skipped)) prefix) seed))"

text \<open>The slot-filling loop of \<open>create_padded_right_hash_chain_4\<close>.\<close>

fun fill_slots :: "nat \<Rightarrow> bytes list \<Rightarrow> bytes list \<Rightarrow> (hasher_error, bytes list) result" where
  "fill_slots i slots [] = Inr slots"
| "fill_slots i slots (v # vs) =
    (if i < length slots then fill_slots (i + 1) (slots[i := v]) vs
     else Inl (InvalidInputLength (length slots) (i + 1)))"

definition create_padded_right_hash_chain_4 ::
  "hash_fn \<Rightarrow> bytes list \<Rightarrow> nat \<Rightarrow> (hasher_error, bytes) result" where
  "create_padded_right_hash_chain_4 P sent width =
    (if ZERO_SUFFIX_CHAIN_MAX_WIDTH < width
     then Inl (InvalidInputLength ZERO_SUFFIX_CHAIN_MAX_WIDTH width)
     else rbind (fill_slots 0 (replicate width zero32) sent)
            (create_zero_suffix_right_hash_chain_4 P))"

text \<open>\<open>Poseidon::zero_bytes()\<close>: entry \<open>k\<close> is the root of an empty subtree of height \<open>k\<close>.\<close>

definition ZERO_BYTES :: "bytes list" where
  "ZERO_BYTES = map (to_be_bytes 32)
    [0,
     0x2098f5fb9e239eab3ceac3f27b81e481dc3124d55ffed523a839ee8446b64864,
     0x1069673dcdb12263df301a6ff584a7ec261a44cb9dc68df067a4774460b1f1e1,
     0x18f43331537ee2af2e3d758d50f72106467c6eea50371dd528d57eb2b856d238,
     0x07f9d837cb17b0d36320ffe93ba52345f1b728571a568265caac97559dbc952a,
     0x2b94cf5e8746b3f5c9631f4c5df32907a699c58c94b2ad4d7b5cec1639183f55,
     0x2dee93c5a666459646ea7d22cca9e1bcfed71e6951b953611d11dda32ea09d78,
     0x078295e5a22b84e982cf601eb639597b8b0515a88cb5ac7fa8a4aabe3c87349d,
     0x2fa5e5f18f6027a6501bec864564472a616b2e274a41211a444cbe3a99f3cc61,
     0x0e884376d0d8fd21ecb780389e941f66e45e7acce3e228ab3e2156a614fcd747,
     0x1b7201da72494f1e28717ad1a52eb469f95892f957713533de6175e5da190af2,
     0x1f8d8822725e36385200c0b201249819a6e6e1e4650808b5bebc6bface7d7636,
     0x2c5d82f66c914bafb9701589ba8cfcfb6162b0a12acf88a8d0879a0471b5f85a,
     0x14c54148a0940bb820957f5adf3fa1134ef5c4aaa113f4646458f270e0bfbfd0,
     0x190d33b12f986f961e10c0ee44d8b9af11be25588cad89d416118e4bf4ebe80c,
     0x22f98aa9ce704152ac17354914ad73ed1167ae6596af510aa5b3649325e06c92,
     0x2a7c7c9b6ce5880b9f6f228d72bf6a575a526f29c66ecceef8b753d38bba7323,
     0x2e8186e558698ec1c67af9c14d463ffc470043c9c2988b954d75dd643f36b992,
     0x0f57c5571e9a4eab49e2c8cf050dae948aef6ead647392273546249d1c1ff10f,
     0x1830ee67b5fb554ad5f63d4388800e1cfe78e310697d46e43c9ce36134f72cca,
     0x2134e76ac5d21aab186c2be1dd8f84ee880a1e46eaf712f9d371b6df22191f3e,
     0x19df90ec844ebc4ffeebd866f33859b0c051d8c958ee3aa88f8f8df3db91a5b1,
     0x18cca2a66b5c0787981e69aefd84852d74af0e93ef4912b4648c05f722efe52b,
     0x2388909415230d1b4d1304d2d54f473a628338f2efad83fadf05644549d2538d,
     0x27171fb4a97b6cc0e9e8f543b5294de866a2af2c9c8d0b1d96e673e4529ed540,
     0x2ff6650540f629fd5711a0bc74fc0d28dcb230b9392583e5f8d59696dde6ae21,
     0x120c58f143d491e95902f7f5277778a2e0ad5168f6add75669932630ce611518,
     0x1f21feb70d3f21b07bf853d5e5db03071ec495a0a565a21da2d665d279483795,
     0x24be905fa71335e14c638cc0f66a8623a826e768068a9e968bb1a1dde18a72d2,
     0x0f8666b62ed17491c50ceadead57d4cd597ef3821d65c328744c74e553dac26d,
     0x0918d46bf52d98b034413f4a1a1c41594e7a7a3f6ae08cb43d1a2a230e1959ef,
     0x1bbeb01b4c479ecde76917645e404dfa2e26f90d0afc5a65128513ad375c5ff2,
     0x2f68a1c58e257e42a17a6c61dff5551ed560b9922ab119d5ac8e184c9734ead9,
     0x1102d2f8db05e4af4842e8ad3d85ed45eb28447eb7212235a2281d5ab5d81d11,
     0x2af8c1caf560dd41f997a01ff895b21e0d1fedb786e7cad29901e12310638bdc,
     0x011d923bc14b5a13972ac7dfe6420b15b0425c98ba80edaf5e0291b4a265e0a5,
     0x224ccc25981822d4c5b6fc199fbc74828488741c7151a6159ecfaab7c2a8bac9,
     0x27e839f6f555feae824ab433e34b1c0e64ce5c75962dffc13c68571d6b4a610e,
     0x2aba203fbd04bfabc86b4d50d6abadc3c24f37efa00e700ef4d17764c2ccd57c,
     0x11eff4f60c2cdcc548c1e0770c3d64b49c01e34da4af29cfea575a19befa669c,
     0x1334fa4b552f00ef403361c935c1abcf896851003c40daa93bb0fd0a0bb9a881]"


section \<open>Assumptions on the external hash functions\<close>

abbreviation field_element :: "bytes \<Rightarrow> bool" where
  "field_element x \<equiv> length x = 32 \<and> is_canonical_bn254_scalar_be x"

definition poseidon_ok :: "hash_fn \<Rightarrow> bool" where
  "poseidon_ok P =
    (\<forall>xs. xs \<noteq> [] \<and> length xs \<le> 12 \<and> (\<forall>x \<in> set xs. field_element x)
       \<longrightarrow> (\<exists>y. P xs = Inr y \<and> field_element y))"

definition zero_suffix_ok :: "hash_fn \<Rightarrow> bool" where
  "zero_suffix_ok P =
    (\<forall>k < ZERO_SUFFIX_GROUPS.
       P [zero32, zero32, zero32, ZERO_SUFFIX_CHAINS ! k] = Inr (ZERO_SUFFIX_CHAINS ! Suc k))"

definition zero_bytes_ok :: "hash_fn \<Rightarrow> bool" where
  "zero_bytes_ok P =
    (\<forall>k < 40. P [ZERO_BYTES ! k, ZERO_BYTES ! k] = Inr (ZERO_BYTES ! Suc k))"


section \<open>Shared facts\<close>

lemma syscall_error_roundtrip:
  "poseidon_syscall_error_of_u64 (u64_of_poseidon_syscall_error e) = e"
  by (cases e) simp_all

lemma poseidon_okD:
  assumes "poseidon_ok P" "xs \<noteq> []" "length xs \<le> 12" "\<And>x. x \<in> set xs \<Longrightarrow> field_element x"
  obtains y where "P xs = Inr y" "field_element y"
  using assms unfolding poseidon_ok_def by blast

lemma rchunks_Nil [simp]: "rchunks n [] = []"
  by (simp add: rchunks.simps)

lemma drop_rchunks:
  assumes "0 < n"
  shows "drop k (rchunks n xs) = rchunks n (take (length xs - n * k) xs)"
  using assms
proof (induction n xs arbitrary: k rule: rchunks.induct)
  case (1 n xs)
  show ?case
  proof (cases "xs = [] \<or> k = 0")
    case True
    then show ?thesis by auto
  next
    case False
    then obtain k' where k: "k = Suc k'" and xs: "xs \<noteq> []" using not0_implies_Suc by auto
    let ?ys = "take (length xs - n) xs"
    have "drop k (rchunks n xs) = drop k' (rchunks n ?ys)"
      using xs k 1(2) by (simp add: rchunks.simps[of n xs])
    also have "\<dots> = rchunks n (take (length ?ys - n * k') ?ys)"
      using 1 xs by simp
    also have "take (length ?ys - n * k') ?ys = take (length xs - n * k) xs"
      using k by (simp add: min_absorb1 min_absorb2)
    finally show ?thesis .
  qed
qed

lemma length_rchunks:
  assumes "0 < n"
  shows "n * length (rchunks n xs) < length xs + n"
  using assms
proof (induction n xs rule: rchunks.induct)
  case (1 n xs)
  show ?case
  proof (cases "xs = []")
    case True
    then show ?thesis using 1(2) by simp
  next
    case False
    have step: "n * length (rchunks n xs) = n + n * length (rchunks n (take (length xs - n) xs))"
      using False 1(2) by (simp add: rchunks.simps[of n xs])
    have IH: "n * length (rchunks n (take (length xs - n) xs)) < (length xs - n) + n"
      using 1 False by (simp add: min_absorb2)
    show ?thesis
    proof (cases "length xs \<le> n")
      case True
      then show ?thesis using step False 1(2) by auto
    next
      case False
      then show ?thesis using step IH by simp
    qed
  qed
qed

lemma padded_get_zero: "\<forall>slot \<in> set g. slot = zero32 \<Longrightarrow> padded_get g i = zero32"
  by (auto simp: padded_get_def get_def)

lemma ZERO_SUFFIX_GROUPS_eq: "ZERO_SUFFIX_GROUPS = 18"
  by (simp add: ZERO_SUFFIX_GROUPS_def ZERO_SUFFIX_CHAIN_MAX_WIDTH_def div_ceil_def)

lemma ZERO_SUFFIX_CHAINS_0: "ZERO_SUFFIX_CHAINS ! 0 = zero32"
  by (simp add: ZERO_SUFFIX_CHAINS_def to_be_bytes_zero zero32_def)

lemma ZERO_BYTES_0: "ZERO_BYTES ! 0 = zero32"
  by (simp add: ZERO_BYTES_def to_be_bytes_zero zero32_def)

lemma length_ZERO_BYTES: "length ZERO_BYTES = 41"
  by (simp add: ZERO_BYTES_def)

lemma length_ZERO_SUFFIX_CHAINS: "length ZERO_SUFFIX_CHAINS = Suc ZERO_SUFFIX_GROUPS"
  by (simp add: ZERO_SUFFIX_CHAINS_def ZERO_SUFFIX_GROUPS_eq)

text \<open>Folding all-zero groups walks along the table.\<close>

lemma fold_zero_groups:
  assumes "zero_suffix_ok P" "\<forall>g \<in> set gs. \<forall>slot \<in> set g. slot = zero32"
    "j + length gs \<le> ZERO_SUFFIX_GROUPS"
  shows "try_fold (\<lambda>h g. P [padded_get g 0, padded_get g 1, padded_get g 2, h])
           (ZERO_SUFFIX_CHAINS ! j) gs = Inr (ZERO_SUFFIX_CHAINS ! (j + length gs))"
  using assms(2,3)
proof (induction gs arbitrary: j)
  case Nil
  then show ?case by simp
next
  case (Cons g gs)
  have "P [zero32, zero32, zero32, ZERO_SUFFIX_CHAINS ! j] = Inr (ZERO_SUFFIX_CHAINS ! Suc j)"
    using assms(1) Cons.prems(2) by (simp add: zero_suffix_ok_def)
  then show ?case using Cons.IH[of "Suc j"] Cons.prems by (simp add: padded_get_zero)
qed

lemma zero_suffix_chain_equals_full_fold:
  assumes "zero_suffix_ok P" "length values \<le> ZERO_SUFFIX_CHAIN_MAX_WIDTH"
  shows "create_zero_suffix_right_hash_chain_4 P values = create_right_hash_chain_4_from_slice P values"
proof (cases "values = [] \<or> last values \<noteq> zero32")
  case True
  then show ?thesis
    by (auto simp: create_zero_suffix_right_hash_chain_4_def create_right_hash_chain_4_from_slice_def Let_def)
next
  case False
  define prefix where "prefix = butlast values"
  define gs where "gs = rchunks 3 prefix"
  define zs where "zs = takeWhile (\<lambda>g. \<forall>slot \<in> set g. slot = zero32) gs"
  let ?f = "\<lambda>h g. P [padded_get g 0, padded_get g 1, padded_get g 2, h]"
  have "length prefix \<le> 53" using assms(2) by (simp add: prefix_def ZERO_SUFFIX_CHAIN_MAX_WIDTH_def)
  then have "length gs \<le> 18" using length_rchunks[of 3 prefix] by (simp add: gs_def)
  moreover have "length zs \<le> length gs" unfolding zs_def by (rule length_takeWhile_le)
  ultimately have zlen: "0 + length zs \<le> ZERO_SUFFIX_GROUPS" by (simp add: ZERO_SUFFIX_GROUPS_eq)
  have zz: "\<forall>g \<in> set zs. \<forall>slot \<in> set g. slot = zero32"
    unfolding zs_def by (blast dest: set_takeWhileD)
  have split: "gs = zs @ drop (length zs) gs"
    using append_take_drop_id[of "length zs" gs] takeWhile_eq_take[of _ gs] unfolding zs_def by simp
  have rest: "drop (length zs) gs = rchunks 3 (take (length prefix - 3 * length zs) prefix)"
    unfolding gs_def by (rule drop_rchunks) simp
  have "try_fold ?f zero32 gs = rbind (try_fold ?f zero32 zs) (\<lambda>h. try_fold ?f h (drop (length zs) gs))"
    using try_fold_append[of ?f zero32 zs "drop (length zs) gs"] split by simp
  also have "try_fold ?f zero32 zs = Inr (ZERO_SUFFIX_CHAINS ! length zs)"
    using fold_zero_groups[OF assms(1) zz zlen] by (simp add: ZERO_SUFFIX_CHAINS_0)
  finally have "try_fold ?f zero32 gs = try_fold ?f (ZERO_SUFFIX_CHAINS ! length zs) (drop (length zs) gs)"
    by simp
  moreover have "get ZERO_SUFFIX_CHAINS (length zs) = Some (ZERO_SUFFIX_CHAINS ! length zs)"
    using zlen by (simp add: get_def length_ZERO_SUFFIX_CHAINS)
  ultimately show ?thesis
    using False rest
    by (simp add: create_zero_suffix_right_hash_chain_4_def create_right_hash_chain_4_from_slice_def
        create_right_hash_chain_4_from_seed_def Let_def flip: prefix_def gs_def zs_def)
qed

lemma fill_slots_eq:
  assumes "i \<le> length slots"
  shows "fill_slots i slots vs =
    (if i + length vs \<le> length slots then Inr (take i slots @ vs @ drop (i + length vs) slots)
     else Inl (InvalidInputLength (length slots) (length slots + 1)))"
  using assms
proof (induction i slots vs rule: fill_slots.induct)
  case (2 i slots v vs)
  then show ?case by (auto simp: take_Suc_conv_app_nth)
qed auto

text \<open>Padding at the end of the instruction's values is the fold over the padded vector.\<close>

lemma padded_chain_eq:
  assumes "zero_suffix_ok P" "width \<le> ZERO_SUFFIX_CHAIN_MAX_WIDTH" "length sent \<le> width"
  shows "create_padded_right_hash_chain_4 P sent width =
    create_right_hash_chain_4_from_slice P (sent @ replicate (width - length sent) zero32)"
  using assms
  by (simp add: create_padded_right_hash_chain_4_def fill_slots_eq zero_suffix_chain_equals_full_fold)

lemma padded_chain_error:
  "width < length sent \<Longrightarrow> width \<le> ZERO_SUFFIX_CHAIN_MAX_WIDTH \<Longrightarrow>
     create_padded_right_hash_chain_4 P sent width = Inl (InvalidInputLength width (width + 1))"
  "ZERO_SUFFIX_CHAIN_MAX_WIDTH < width \<Longrightarrow>
     create_padded_right_hash_chain_4 P sent width
       = Inl (InvalidInputLength ZERO_SUFFIX_CHAIN_MAX_WIDTH width)"
  by (simp_all add: create_padded_right_hash_chain_4_def fill_slots_eq)


section \<open>Canonical field elements\<close>

definition bn254_modulus :: nat where
  "bn254_modulus = 0x30644e72e131a029b85045b68181585d2833e84879b9709143e1f593f0000001"

lemma from_be_modulus: "from_be_bytes BN254_SCALAR_MODULUS_BE = bn254_modulus"
  by (simp add: BN254_SCALAR_MODULUS_BE_def from_be_bytes_def bn254_modulus_def)

lemma length_modulus: "length BN254_SCALAR_MODULUS_BE = 32"
  by (simp add: BN254_SCALAR_MODULUS_BE_def)

lemma canonical_iff_below_modulus:
  "length bs = 32 \<Longrightarrow> is_canonical_bn254_scalar_be bs \<longleftrightarrow> from_be_bytes bs < bn254_modulus"
  by (simp add: is_canonical_bn254_scalar_be_def bytes_less_iff length_modulus from_be_modulus)

lemma leading_zero_canonical: "is_canonical_bn254_scalar_be (0 # bs)"
  by (simp add: is_canonical_bn254_scalar_be_def BN254_SCALAR_MODULUS_BE_def)

lemma zero32_Cons: "zero32 = 0 # replicate 31 0"
  using replicate_Suc[of 31 "0 :: byte"] by (simp add: zero32_def)

lemma field_element_zero32 [simp]: "is_canonical_bn254_scalar_be zero32"
  by (simp add: zero32_Cons leading_zero_canonical)

lemma length_right_align: "length bs \<le> 32 \<Longrightarrow> length (right_align bs) = 32"
  by (simp add: right_align_def)

lemma pack_chunk_eq: "pack_chunk = right_align"
  by (simp add: fun_eq_iff pack_chunk_def right_align_def)

lemma right_align_field_element:
  assumes "length bs \<le> 31"
  shows "field_element (right_align bs)"
proof -
  have "32 - length bs = Suc (31 - length bs)" using assms by simp
  then show ?thesis
    using assms leading_zero_canonical by (simp add: right_align_def)
qed

lemma from_be_bytes_replicate_zero: "from_be_bytes (replicate n 0 @ bs) = from_be_bytes bs"
  by (induction n) (simp_all add: from_be_bytes_Cons)

lemma from_be_right_align: "from_be_bytes (right_align bs) = from_be_bytes bs"
  by (simp add: right_align_def from_be_bytes_replicate_zero)

lemma sha256be_field_element:
  assumes "sha256be_hashv sha vals = Inr h" "\<And>d. sha vals = Inr d \<Longrightarrow> length d = 32"
  shows "field_element h"
proof -
  obtain d where d: "sha vals = Inr d" "h = d[0 := 0]"
    using assms(1) by (auto simp: sha256be_hashv_def result_simps)
  obtain x xs where "d = x # xs" using assms(2)[OF d(1)] by (cases d) auto
  then show ?thesis using assms(2)[OF d(1)] d(2) leading_zero_canonical by simp
qed


section \<open>The chains return on field elements\<close>

lemma set_rchunks: "g \<in> set (rchunks n xs) \<Longrightarrow> set g \<subseteq> set xs"
proof (induction n xs rule: rchunks.induct)
  case (1 n xs)
  show ?case
  proof (cases "xs = [] \<or> n = 0")
    case True
    then show ?thesis using 1(2) by (simp add: rchunks.simps[of n xs])
  next
    case False
    then have "g = drop (length xs - n) xs \<or> g \<in> set (rchunks n (take (length xs - n) xs))"
      using 1(2) by (simp add: rchunks.simps[of n xs])
    then show ?thesis
      using 1(1)[OF False] set_drop_subset[of "length xs - n" xs] set_take_subset[of "length xs - n" xs]
      by blast
  qed
qed

lemma padded_get_field_element:
  "\<forall>x \<in> set g. field_element x \<Longrightarrow> field_element (padded_get g i)"
  by (auto simp: padded_get_def get_def)

lemma hash_step_total:
  assumes "poseidon_ok P" "xs \<noteq> []" "length xs \<le> 12" "\<forall>x \<in> set xs. field_element x"
  shows "\<exists>y. P xs = Inr y \<and> poseidon_ok P \<and> field_element y"
  using assms poseidon_okD by metis

interpretation left_chain: total_step "\<lambda>h x. P [h, x]"
  "\<lambda>h. poseidon_ok P \<and> field_element h" field_element for P
  by unfold_locales (rule hash_step_total, auto)

interpretation right_chain: total_step "\<lambda>h x. P [x, h]"
  "\<lambda>h. poseidon_ok P \<and> field_element h" field_element for P
  by unfold_locales (rule hash_step_total, auto)

interpretation right_chain_4: total_step
  "\<lambda>h g. P [padded_get g 0, padded_get g 1, padded_get g 2, h]"
  "\<lambda>h. poseidon_ok P \<and> field_element h" "\<lambda>g. \<forall>x \<in> set g. field_element x" for P
  by unfold_locales (rule hash_step_total, auto simp: padded_get_field_element)

lemma create_hash_chain_total:
  assumes "poseidon_ok P" "\<forall>x \<in> set xs. field_element x"
  shows "\<exists>h. create_hash_chain P xs = Inr h \<and> field_element h"
  using assms left_chain.fold_total[of P "hd xs" "tl xs"]
  by (cases xs) (auto simp: create_hash_chain_def)

lemma create_right_hash_chain_total:
  assumes "poseidon_ok P" "\<forall>x \<in> set xs. field_element x"
  shows "\<exists>h. create_right_hash_chain_from_slice P xs = Inr h \<and> field_element h"
proof -
  have "\<forall>x \<in> set (rev (butlast xs)). field_element x"
    using assms(2) in_set_butlastD by fastforce
  then show ?thesis
    using assms right_chain.fold_total[of P "last xs" "rev (butlast xs)"]
    by (auto simp: create_right_hash_chain_from_slice_def)
qed

lemma create_right_hash_chain_4_total:
  assumes "poseidon_ok P" "\<forall>x \<in> set xs. field_element x"
  shows "\<exists>h. create_right_hash_chain_4_from_slice P xs = Inr h \<and> field_element h"
proof (cases "xs = []")
  case True
  then show ?thesis by (simp add: create_right_hash_chain_4_from_slice_def)
next
  case False
  have "\<forall>g \<in> set (rchunks 3 (butlast xs)). \<forall>x \<in> set g. field_element x"
    using assms(2) set_rchunks in_set_butlastD by fastforce
  moreover have "field_element (last xs)" using assms(2) False by simp
  ultimately show ?thesis
    using right_chain_4.fold_total[of P "last xs" "rchunks 3 (butlast xs)"] assms(1) False
    by (auto simp: create_right_hash_chain_4_from_slice_def create_right_hash_chain_4_from_seed_def)
qed

lemma hash_chain_4_loop_total:
  assumes "poseidon_ok P" "field_element h" "\<forall>x \<in> set xs. field_element x"
  shows "\<exists>y. hash_chain_4_loop P h xs = Inr y \<and> field_element y"
  using assms
proof (induction P h xs rule: hash_chain_4_loop.induct)
  case (2 P h g0)
  then show ?case using hash_step_total[of P "[h, g0, zero32, zero32]"] by auto
next
  case (3 P h g0 g1)
  then show ?case using hash_step_total[of P "[h, g0, g1, zero32]"] by auto
next
  case (4 P h g0 g1 g2 rest)
  then obtain y where "P [h, g0, g1, g2] = Inr y" "field_element y"
    using hash_step_total[of P "[h, g0, g1, g2]"] by auto
  then show ?case using 4 by auto
qed auto

lemma create_hash_chain_4_total:
  assumes "poseidon_ok P" "\<forall>x \<in> set xs. field_element x"
  shows "\<exists>h. create_hash_chain_4 P xs = Inr h \<and> field_element h"
  using assms hash_chain_4_loop_total[of P "hd xs" "tl xs"]
  by (cases xs) (auto simp: create_hash_chain_4_def)



section \<open>A hash function meeting the assumptions\<close>

text \<open>
  The assumptions are consistent: the function below has both committed tables as
  its values on empty subtrees and on zero suffixes, and a small polynomial
  digest elsewhere.  The concrete instances of the properties are evaluated with it.
\<close>

definition demo_table :: "(bytes list \<times> bytes) list" where
  "demo_table =
    zip (map (\<lambda>z. [z, z]) (butlast ZERO_BYTES)) (tl ZERO_BYTES) @
    zip (map (\<lambda>z. [zero32, zero32, zero32, z]) (butlast ZERO_SUFFIX_CHAINS)) (tl ZERO_SUFFIX_CHAINS)"

definition demo_digest :: "bytes list \<Rightarrow> nat" where
  "demo_digest xs = foldl (\<lambda>acc x. (acc * 257 + from_be_bytes x + 1) mod 2 ^ 128) (length xs) xs mod 2 ^ 128"

definition demo_poseidon :: hash_fn where
  "demo_poseidon xs =
    (case map_of demo_table xs of Some y \<Rightarrow> Inr y | None \<Rightarrow> Inr (to_be_bytes 32 (demo_digest xs)))"

lemma to_be_bytes_field_element: "n < bn254_modulus \<Longrightarrow> field_element (to_be_bytes 32 n)"
proof -
  assume n: "n < bn254_modulus"
  then have "n < 256 ^ 32" by (simp add: bn254_modulus_def)
  then show ?thesis using n by (simp add: canonical_iff_below_modulus from_to_be_bytes)
qed

lemma ZERO_BYTES_field_element: "\<forall>x \<in> set ZERO_BYTES. field_element x"
  unfolding ZERO_BYTES_def set_map
  by (intro ballI, elim imageE, hypsubst, rule to_be_bytes_field_element)
    (simp only: set_simps insert_iff empty_iff bn254_modulus_def, elim disjE, simp_all)

lemma ZERO_SUFFIX_CHAINS_field_element: "\<forall>x \<in> set ZERO_SUFFIX_CHAINS. field_element x"
  unfolding ZERO_SUFFIX_CHAINS_def set_map
  by (intro ballI, elim imageE, hypsubst, rule to_be_bytes_field_element)
    (simp only: set_simps insert_iff empty_iff bn254_modulus_def, elim disjE, simp_all)

lemma to_be_bytes_inj_on: "inj_on (to_be_bytes n) {v. v < 256 ^ n}"
  by (rule inj_onI) (metis from_to_be_bytes mem_Collect_eq)

lemma distinct_ZERO_BYTES: "distinct ZERO_BYTES"
  unfolding ZERO_BYTES_def
  by (subst distinct_map, intro conjI, simp, rule inj_on_subset[OF to_be_bytes_inj_on]) auto

lemma distinct_ZERO_SUFFIX_CHAINS: "distinct ZERO_SUFFIX_CHAINS"
  unfolding ZERO_SUFFIX_CHAINS_def
  by (subst distinct_map, intro conjI, simp, rule inj_on_subset[OF to_be_bytes_inj_on]) auto

lemmas table_lengths = length_ZERO_BYTES length_ZERO_SUFFIX_CHAINS ZERO_SUFFIX_GROUPS_eq

lemma distinct_demo_table: "distinct (map fst demo_table)"
proof -
  have "map fst demo_table = map (\<lambda>z. [z, z]) (butlast ZERO_BYTES) @
      map (\<lambda>z. [zero32, zero32, zero32, z]) (butlast ZERO_SUFFIX_CHAINS)"
    by (simp add: demo_table_def table_lengths)
  then show ?thesis
    using distinct_ZERO_BYTES distinct_ZERO_SUFFIX_CHAINS
    by (auto simp: distinct_map distinct_butlast intro!: inj_onI)
qed

lemma demo_poseidon_table: "(xs, y) \<in> set demo_table \<Longrightarrow> demo_poseidon xs = Inr y"
  using map_of_is_SomeI[OF distinct_demo_table] by (simp add: demo_poseidon_def)

lemma zip_tables_mem:
  assumes "Suc k < length zs"
  shows "(f (zs ! k), zs ! Suc k) \<in> set (zip (map f (butlast zs)) (tl zs))"
proof -
  let ?z = "zip (map f (butlast zs)) (tl zs)"
  have k: "k < length ?z" using assms by simp
  have "?z ! k = (f (zs ! k), zs ! Suc k)" using assms by (simp add: nth_butlast nth_tl)
  then show ?thesis using nth_mem[OF k] by simp
qed

lemma zero_bytes_ok_demo: "zero_bytes_ok demo_poseidon"
  unfolding zero_bytes_ok_def
proof (intro allI impI demo_poseidon_table)
  fix k :: nat assume "k < 40"
  then have "Suc k < length ZERO_BYTES" by (simp add: table_lengths)
  from zip_tables_mem[OF this, of "\<lambda>z. [z, z]"]
  show "([ZERO_BYTES ! k, ZERO_BYTES ! k], ZERO_BYTES ! Suc k) \<in> set demo_table"
    unfolding demo_table_def by (simp only: set_append Un_iff simp_thms)
qed

lemma zero_suffix_ok_demo: "zero_suffix_ok demo_poseidon"
  unfolding zero_suffix_ok_def
proof (intro allI impI demo_poseidon_table)
  fix k :: nat assume "k < ZERO_SUFFIX_GROUPS"
  then have "Suc k < length ZERO_SUFFIX_CHAINS" by (simp add: table_lengths)
  from zip_tables_mem[OF this, of "\<lambda>z. [zero32, zero32, zero32, z]"]
  show "([zero32, zero32, zero32, ZERO_SUFFIX_CHAINS ! k], ZERO_SUFFIX_CHAINS ! Suc k) \<in> set demo_table"
    unfolding demo_table_def by (simp only: set_append Un_iff simp_thms)
qed

lemma demo_table_field_element: "(xs, y) \<in> set demo_table \<Longrightarrow> field_element y"
proof -
  assume "(xs, y) \<in> set demo_table"
  then have "y \<in> set (tl ZERO_BYTES) \<union> set (tl ZERO_SUFFIX_CHAINS)"
    by (auto simp: demo_table_def dest: set_zip_rightD)
  then have "y \<in> set ZERO_BYTES \<union> set ZERO_SUFFIX_CHAINS"
    using list.set_sel(2) by (metis Un_iff list.sel(2) list.set_sel(2))
  then show ?thesis
    using ZERO_BYTES_field_element ZERO_SUFFIX_CHAINS_field_element by blast
qed

lemma poseidon_ok_demo: "poseidon_ok demo_poseidon"
  unfolding poseidon_ok_def
proof (intro allI impI)
  fix xs :: "bytes list"
  show "\<exists>y. demo_poseidon xs = Inr y \<and> field_element y"
  proof (cases "map_of demo_table xs")
    case None
    have "demo_digest xs < 2 ^ 128" by (simp add: demo_digest_def)
    then have "demo_digest xs < bn254_modulus" by (simp add: bn254_modulus_def)
    then show ?thesis using None to_be_bytes_field_element by (simp add: demo_poseidon_def)
  next
    case (Some y)
    then show ?thesis using demo_table_field_element map_of_SomeD by (fastforce simp: demo_poseidon_def)
  qed
qed

lemmas demo_poseidon_laws = poseidon_ok_demo zero_bytes_ok_demo zero_suffix_ok_demo

end
