(* ===== verification/Hash_Encodings.thy ===== *)
theory Hash_Encodings
  imports Hasher
begin

text \<open>
  Correctness of the byte encodings and folds of the hasher crate: big-integer
  conversion, packing of byte strings into field elements, and the optimised
  zero-suffix fold against its reference definition.
\<close>

section \<open>Big integers\<close>

lemma bigint_bytes_le_value: "from_le_bytes (bigint_bytes_le v) = v"
proof (induction v rule: bigint_bytes_le.induct)
  case (1 v)
  show ?case
  proof (cases "v < 256")
    case True
    then have "unat (of_nat v :: byte) = v" using unat_of_nat_byte[of v] by simp
    then show ?thesis using True by (simp add: bigint_bytes_le.simps[of v])
  next
    case False
    then show ?thesis using 1 by (simp add: bigint_bytes_le.simps[of v] unat_of_nat_byte)
  qed
qed

lemma bigint_bytes_le_length:
  "length (bigint_bytes_le v) \<le> n \<longleftrightarrow> 0 < n \<and> v < 256 ^ n"
proof (induction v arbitrary: n rule: bigint_bytes_le.induct)
  case (1 v)
  show ?case
  proof (cases n)
    case 0
    then show ?thesis by (simp add: bigint_bytes_le.simps[of v])
  next
    case (Suc m)
    show ?thesis
    proof (cases "v < 256")
      case True
      then have "v < 256 ^ Suc m" using less_le_trans[OF True, of "256 ^ Suc m"] by simp
      then show ?thesis using True Suc by (simp add: bigint_bytes_le.simps[of v])
    next
      case False
      have "v div 256 < 256 ^ m \<longleftrightarrow> v < 256 ^ Suc m" by (simp add: div_less_iff_less_mult mult.commute)
      moreover have "0 < v div 256" using False by (simp add: div_greater_zero_iff)
      ultimately show ?thesis using False Suc 1[OF False, of m] by (cases m) (auto simp: bigint_bytes_le.simps[of v])
    qed
  qed
qed

lemma from_le_bytes_pad: "from_le_bytes (bs @ replicate k 0) = from_le_bytes bs"
  using from_be_bytes_replicate_zero[of k "rev bs"] by (simp add: from_be_bytes_def)

text \<open>
  Big-integer conversion round trip.  A value converts to an \<open>n\<close>-byte big-endian or
  little-endian array exactly when it fits, and reading the array back gives
  the value.
\<close>
theorem bigint_array_roundtrip:
  "case bigint_to_be_bytes_array n v of
     Inr bs \<Rightarrow> length bs = n \<and> from_be_bytes bs = v \<and> bigint_to_le_bytes_array n v = Inr (rev bs)
   | Inl e \<Rightarrow> \<not> (0 < n \<and> v < 256 ^ n) \<and> bigint_to_le_bytes_array n v = Inl e"
proof (cases "n < length (bigint_bytes_le v)")
  case True
  then show ?thesis
    using bigint_bytes_le_length[of v n]
    by (auto simp: bigint_to_be_bytes_array_def bigint_to_le_bytes_array_def Let_def)
next
  case False
  then show ?thesis
    using bigint_bytes_le_value[of v]
    by (simp add: bigint_to_be_bytes_array_def bigint_to_le_bytes_array_def Let_def from_be_bytes_replicate_zero)
      (simp add: from_be_bytes_def)
qed


section \<open>Packing bytes into field elements\<close>

lemma chunks_Nil [simp]: "chunks n [] = []"
  by (simp add: chunks.simps)

lemma chunks_step: "0 < n \<Longrightarrow> xs \<noteq> [] \<Longrightarrow> chunks n xs = take n xs # chunks n (drop n xs)"
  by (simp add: chunks.simps[of n xs])

lemma concat_chunks: "0 < n \<Longrightarrow> concat (chunks n xs) = xs"
proof (induction n xs rule: chunks.induct)
  case (1 n xs)
  then show ?case by (cases "xs = []") (simp_all add: chunks_step)
qed

lemma div_ceil_step: "0 < n \<Longrightarrow> 0 < m \<Longrightarrow> div_ceil m n = Suc (div_ceil (m - n) n)"
proof (cases "n \<le> m")
  case True
  assume n: "0 < n"
  obtain k where "m = k + n" using True by (metis le_add_diff_inverse2)
  then show ?thesis using n by (simp add: div_ceil_def div_add_self2)
next
  case False
  assume "0 < n" "0 < m"
  then show ?thesis using False by (simp add: div_ceil_def)
qed

lemma length_chunks: "0 < n \<Longrightarrow> length (chunks n xs) = div_ceil (length xs) n"
proof (induction n xs rule: chunks.induct)
  case (1 n xs)
  show ?case
  proof (cases "xs = []")
    case True
    then show ?thesis by (simp add: div_ceil_def)
  next
    case False
    have "length (chunks n (drop n xs)) = div_ceil (length (drop n xs)) n"
      by (rule 1(1)) (use 1(2) False in auto)
    moreover have "div_ceil (length xs) n = Suc (div_ceil (length xs - n) n)"
      using 1(2) False by (intro div_ceil_step) auto
    ultimately show ?thesis unfolding chunks_step[OF 1(2) False] by (simp only: list.size length_drop)
  qed
qed

lemma chunks_elems: "0 < n \<Longrightarrow> c \<in> set (chunks n xs) \<Longrightarrow> length c \<le> n \<and> c \<noteq> []"
proof (induction n xs rule: chunks.induct)
  case (1 n xs)
  then show ?case by (cases "xs = []") (auto simp: chunks_step)
qed

lemma chunk_lengths: "length xs = length ys \<Longrightarrow> map length (chunks n xs) = map length (chunks n ys)"
proof (induction n xs arbitrary: ys rule: chunks.induct)
  case (1 n xs)
  show ?case
  proof (cases "xs = [] \<or> n = 0")
    case True
    then show ?thesis using 1(2) by (auto simp: chunks.simps[of n xs] chunks.simps[of n ys])
  next
    case False
    then have "ys \<noteq> []" using 1(2) by auto
    then show ?thesis using 1(1)[OF False, of "drop n ys"] 1(2) False by (simp add: chunks_step)
  qed
qed

lemma map_pad_inj:
  "map length as = map length bs \<Longrightarrow>
   map (\<lambda>c. replicate (32 - length c) (0 :: byte) @ c) as = map (\<lambda>c. replicate (32 - length c) 0 @ c) bs \<Longrightarrow> as = bs"
proof (induction as arbitrary: bs)
  case (Cons a as)
  then show ?case by (cases bs) auto
qed simp

text \<open>
  C21. Packing is faithful.  A byte string packs into \<open>pack_be_chunks\<close> field elements, and two
  byte strings of the same length pack alike only if they are equal.
\<close>
theorem pack_be_faithful:
  "length (pack_be bs) = pack_be_chunks (length bs) \<and> (\<forall>x \<in> set (pack_be bs). field_element x)
   \<and> (length bs = length cs \<and> pack_be bs = pack_be cs \<longrightarrow> bs = cs)"
proof (intro conjI ballI impI)
  show "length (pack_be bs) = pack_be_chunks (length bs)"
    by (simp add: pack_be_def pack_be_chunks_def length_chunks PACK_BE_CHUNK_BYTES_def)
next
  fix x assume "x \<in> set (pack_be bs)"
  then obtain c where c: "c \<in> set (chunks 31 bs)" "x = right_align c"
    by (auto simp: pack_be_def PACK_BE_CHUNK_BYTES_def right_align_def)
  then have "length c \<le> 31" using chunks_elems[of 31 c bs] by simp
  from right_align_field_element[OF this]
  show "length x = 32" "is_canonical_bn254_scalar_be x" unfolding c(2) by blast+
next
  assume a: "length bs = length cs \<and> pack_be bs = pack_be cs"
  have "chunks 31 bs = chunks 31 cs"
  proof (rule map_pad_inj)
    show "map length (chunks 31 bs) = map length (chunks 31 cs)" using a by (intro chunk_lengths) blast
  qed (use a in \<open>simp only: pack_be_def PACK_BE_CHUNK_BYTES_def\<close>)
  then have "concat (chunks 31 bs) = concat (chunks 31 cs)" by (rule arg_cong)
  then show "bs = cs" unfolding concat_chunks[of 31, simplified] .
qed

definition short_bytes :: bytes where "short_bytes = [1, 2, 3]"

theorem pack_be_faithful_witness:
  "length (pack_be short_bytes) = 1 \<and> field_element (hd (pack_be short_bytes))"
proof -
  have "pack_be_chunks (length short_bytes) = 1"
    by (simp add: pack_be_chunks_def div_ceil_def PACK_BE_CHUNK_BYTES_def short_bytes_def)
  then have "length (pack_be short_bytes) = 1" "\<forall>x \<in> set (pack_be short_bytes). field_element x"
    using pack_be_faithful[of short_bytes short_bytes] by simp_all
  then show ?thesis by (cases "pack_be short_bytes") auto
qed


section \<open>Right folds\<close>

text \<open>
  C18. The padded fold is the full fold.  Hashing the sent values with the precomputed all-zero
  suffixes equals folding the whole zero-padded vector; too wide or
  overfull inputs are refused.
\<close>
theorem padded_chain_is_full_fold:
  assumes "zero_suffix_ok P"
  shows "create_padded_right_hash_chain_4 P sent width =
    (if ZERO_SUFFIX_CHAIN_MAX_WIDTH < width then Inl (InvalidInputLength ZERO_SUFFIX_CHAIN_MAX_WIDTH width)
     else if width < length sent then Inl (InvalidInputLength width (width + 1))
     else create_right_hash_chain_4_from_slice P (sent @ replicate (width - length sent) zero32))"
  using padded_chain_eq[OF assms, of width sent] padded_chain_error[where width = width and sent = sent and P = P] by (auto simp: not_less)

theorem padded_chain_is_full_fold_witness:
  "create_padded_right_hash_chain_4 demo_poseidon [to_be_bytes 32 5] 54
    = create_right_hash_chain_4_from_slice demo_poseidon (to_be_bytes 32 5 # replicate 53 zero32)
   \<and> create_padded_right_hash_chain_4 demo_poseidon [] 55 = Inl (InvalidInputLength 54 55)"
  using padded_chain_is_full_fold[OF zero_suffix_ok_demo, of "[to_be_bytes 32 5]" 54]
    padded_chain_is_full_fold[OF zero_suffix_ok_demo, of "[]" 55]
  by (simp add: ZERO_SUFFIX_CHAIN_MAX_WIDTH_def)

lemma rchunks_short: "xs \<noteq> [] \<Longrightarrow> length xs \<le> 3 \<Longrightarrow> rchunks 3 xs = [xs]"
  by (simp add: rchunks.simps[of 3 xs])


lemma rchunks_zeros: "rchunks 3 (replicate (3 * k) zero32) = replicate k (replicate 3 zero32)"
proof (induction k)
  case (Suc k)
  have "rchunks 3 (replicate (3 + 3 * k) zero32)
      = replicate 3 zero32 # rchunks 3 (replicate (3 * k) zero32)"
    by (subst rchunks.simps) simp
  then show ?case using Suc by simp
qed simp



end
