(* ===== verification/Nullifier_Batch.thy ===== *)
theory Nullifier_Batch
  imports Hasher
begin

text \<open>
  One queue batch of the nullifier tree, \<open>nullifier_tree/batch.rs\<close>: counters,
  the state machine \<open>Fill \<rightarrow> Full \<rightarrow> Inserted \<rightarrow> Fill\<close>, one hash chain per
  ZKP batch and one cached tree update per ZKP batch.  The operations that take
  \<open>&mut self\<close> return the updated batch or the error; an error aborts the
  instruction, so the state written before it is not observable.

  The main result is that the incrementally maintained chain is the
  \<open>hash_chain_4\<close> of the values in insertion order.
\<close>

definition NUM_BATCHES :: nat where "NUM_BATCHES = 2"

datatype nullifier_tree_error =
    BatchNotReady | BatchAlreadyInserted | BatchSizeNotDivisibleByZkpBatchSize
  | InvalidBatchIndex | InvalidIndex | InvalidBatchState | InvalidBatchConfiguration
  | NullifierTreeIsFull | NonCanonicalFieldElement | ArithmeticOverflow
  | ZkpBatchIndexOutOfRange | HashChainNotReady | HashChainFull | InvalidHeight
  | InvalidRootHistoryCapacity | InvalidAccountSize | DecompressG1Failed
  | CreateGroth16VerifierFailed | ProofVerificationFailed | InvalidBatchSize
  | NullifierHasher hasher_error

datatype batch_state = Fill | Inserted | Full

fun batch_state_to_u64 :: "batch_state \<Rightarrow> nat" where
  "batch_state_to_u64 Fill = 0"
| "batch_state_to_u64 Inserted = 1"
| "batch_state_to_u64 Full = 2"

definition batch_state_from_u64 :: "nat \<Rightarrow> batch_state option" where
  "batch_state_from_u64 v =
    (if v = 0 then Some Fill else if v = 1 then Some Inserted else if v = 2 then Some Full else None)"

record cached_tree_update =
  old_root :: bytes
  new_root :: bytes
  occupied :: nat

definition is_occupied :: "cached_tree_update \<Rightarrow> bool" where
  "is_occupied u = (occupied u \<noteq> 0)"

definition empty_update :: cached_tree_update where
  "empty_update = \<lparr>old_root = zero32, new_root = zero32, occupied = 0\<rparr>"

record batch =
  num_inserted :: nat
  state_word :: nat
  num_full_zkp_batches :: nat
  num_inserted_zkp_batches :: nat
  b_batch_size :: nat
  b_zkp_batch_size :: nat
  start_index :: nat
  pending_values :: "bytes \<times> bytes"
  hash_chains :: "bytes list"
  cached_tree_updates :: "cached_tree_update list"

type_synonym 'a ntres = "(nullifier_tree_error, 'a) result"

definition batch_reset :: "nat \<Rightarrow> nat \<Rightarrow> nat \<Rightarrow> batch \<Rightarrow> batch" where
  "batch_reset bsize zsize start b =
    b\<lparr>num_inserted := 0, state_word := batch_state_to_u64 Fill, num_full_zkp_batches := 0,
      num_inserted_zkp_batches := 0, b_batch_size := bsize, b_zkp_batch_size := zsize,
      start_index := start\<rparr>"

definition batch_init :: "nat \<Rightarrow> nat \<Rightarrow> nat \<Rightarrow> batch \<Rightarrow> batch" where
  "batch_init bsize zsize start b = batch_reset bsize zsize start b"

definition hash_chain :: "batch \<Rightarrow> nat \<Rightarrow> bytes option" where
  "hash_chain b i = get (hash_chains b) i"

definition cached_tree_update_at :: "batch \<Rightarrow> nat \<Rightarrow> cached_tree_update option" where
  "cached_tree_update_at b i =
    (case get (cached_tree_updates b) i of
       Some u \<Rightarrow> if is_occupied u then Some u else None
     | None \<Rightarrow> None)"

definition cache_tree_update :: "nat \<Rightarrow> cached_tree_update \<Rightarrow> batch \<Rightarrow> batch ntres" where
  "cache_tree_update i u b =
    (if i < length (cached_tree_updates b)
     then Inr (b\<lparr>cached_tree_updates := (cached_tree_updates b)[i := u]\<rparr>)
     else Inl ZkpBatchIndexOutOfRange)"

definition evict_cached_tree_update :: "nat \<Rightarrow> batch \<Rightarrow> batch ntres" where
  "evict_cached_tree_update i b = cache_tree_update i empty_update b"

definition clear_cached_tree_update :: "nat \<Rightarrow> batch \<Rightarrow> batch ntres" where
  "clear_cached_tree_update i b =
    rbind (evict_cached_tree_update i b) (\<lambda>b1.
      if i < length (hash_chains b1)
      then Inr (b1\<lparr>hash_chains := (hash_chains b1)[i := zero32]\<rparr>)
      else Inl ZkpBatchIndexOutOfRange)"

definition try_get_state :: "batch \<Rightarrow> batch_state option" where
  "try_get_state b = batch_state_from_u64 (state_word b)"

definition checked_state :: "batch \<Rightarrow> batch_state ntres" where
  "checked_state b = ok_or (try_get_state b) InvalidBatchState"

definition end_index :: "batch \<Rightarrow> nat ntres" where
  "end_index b = ok_or (checked_add (start_index b) (b_batch_size b)) ArithmeticOverflow"

definition is_reclaimable :: "batch \<Rightarrow> nat \<Rightarrow> bool" where
  "is_reclaimable b close_before =
    (case end_index b of Inr e \<Rightarrow> e \<le> close_before | Inl _ \<Rightarrow> False)"

definition advance_state_to_fill :: "nat \<Rightarrow> batch \<Rightarrow> batch ntres" where
  "advance_state_to_fill start b =
    rbind (checked_state b) (\<lambda>st.
      if st \<noteq> Inserted then Inl BatchNotReady
      else Inr (batch_reset (b_batch_size b) (b_zkp_batch_size b) start b))"

definition ensure_ready_to_fill :: "nat \<Rightarrow> batch \<Rightarrow> batch ntres" where
  "ensure_ready_to_fill bsize b =
    rbind (checked_state b) (\<lambda>st. case st of
      Fill \<Rightarrow> Inr b
    | Inserted \<Rightarrow>
        rbind (ok_or (checked_add (start_index b) (wrapping_mul bsize NUM_BATCHES)) ArithmeticOverflow)
          (\<lambda>start. advance_state_to_fill start b)
    | Full \<Rightarrow> Inl BatchNotReady)"

definition advance_state_to_inserted :: "batch \<Rightarrow> batch ntres" where
  "advance_state_to_inserted b =
    rbind (checked_state b) (\<lambda>st.
      if st = Full then Inr (b\<lparr>state_word := batch_state_to_u64 Inserted\<rparr>) else Inl BatchNotReady)"

definition advance_state_to_full :: "batch \<Rightarrow> batch ntres" where
  "advance_state_to_full b =
    rbind (checked_state b) (\<lambda>st.
      if st = Fill then Inr (b\<lparr>state_word := batch_state_to_u64 Full\<rparr>) else Inl BatchNotReady)"

definition batch_is_ready_to_insert :: "batch \<Rightarrow> bool" where
  "batch_is_ready_to_insert b = (num_inserted_zkp_batches b < num_full_zkp_batches b)"

definition get_first_ready_zkp_batch :: "batch \<Rightarrow> nat ntres" where
  "get_first_ready_zkp_batch b =
    rbind (checked_state b) (\<lambda>st.
      if st = Inserted then Inl BatchAlreadyInserted
      else if batch_is_ready_to_insert b then Inr (num_inserted_zkp_batches b)
      else Inl BatchNotReady)"

definition get_num_ready_zkp_updates :: "batch \<Rightarrow> nat" where
  "get_num_ready_zkp_updates b = saturating_sub (num_full_zkp_batches b) (num_inserted_zkp_batches b)"

definition get_num_inserted_elements :: "batch \<Rightarrow> nat" where
  "get_num_inserted_elements b =
    wrapping_add (wrapping_mul (num_full_zkp_batches b) (b_zkp_batch_size b)) (num_inserted b)"

definition batch_num_zkp_batches :: "batch \<Rightarrow> nat" where
  "batch_num_zkp_batches b = b_batch_size b div b_zkp_batch_size b"

definition num_pending :: "batch \<Rightarrow> nat" where
  "num_pending b = saturating_sub (num_inserted b) 1 mod 3"

text \<open>Step 3 of \<open>add_to_hash_chain\<close>: the four inputs of the absorbing hash.\<close>

definition absorb_inputs :: "batch \<Rightarrow> bytes \<Rightarrow> bytes \<Rightarrow> bytes list" where
  "absorb_inputs b chain value =
    (case pending_values b of (first, second) \<Rightarrow>
       if num_pending b = 0 then [chain, value, zero32, zero32]
       else if num_pending b = 1 then [chain, first, value, zero32]
       else [chain, first, second, value])"

text \<open>Steps 4 and 5: closing a full ZKP batch, and the batch with its last one.\<close>

definition finish_insertion :: "nat \<Rightarrow> bool \<Rightarrow> batch \<Rightarrow> batch ntres" where
  "finish_insertion n zkp_batch_is_full b =
    (let b1 = b\<lparr>num_inserted := n\<rparr> in
     if zkp_batch_is_full then
       let b2 = b1\<lparr>num_full_zkp_batches := wrapping_add (num_full_zkp_batches b1) 1, num_inserted := 0\<rparr> in
       if num_full_zkp_batches b2 = batch_num_zkp_batches b2 then advance_state_to_full b2 else Inr b2
     else Inr b1)"

definition add_to_hash_chain :: "hash_fn \<Rightarrow> bytes \<Rightarrow> batch \<Rightarrow> batch ntres" where
  "add_to_hash_chain P value b =
    rbind (checked_state b) (\<lambda>st.
      if st \<noteq> Fill then Inl BatchNotReady
      else let i = num_full_zkp_batches b;
               n = wrapping_add (num_inserted b) 1;
               zkp_batch_is_full = (n = b_zkp_batch_size b) in
        rbind (ok_or (get (hash_chains b) i) HashChainFull) (\<lambda>chain.
          if num_inserted b = 0
          then finish_insertion n zkp_batch_is_full (b\<lparr>hash_chains := (hash_chains b)[i := value]\<rparr>)
          else if num_pending b = 2 \<or> zkp_batch_is_full
          then rbind (map_err NullifierHasher (P (absorb_inputs b chain value))) (\<lambda>h.
                 finish_insertion n zkp_batch_is_full (b\<lparr>hash_chains := (hash_chains b)[i := h]\<rparr>))
          else finish_insertion n zkp_batch_is_full
                 (b\<lparr>pending_values := (if num_pending b = 0 then (value, snd (pending_values b))
                                      else (fst (pending_values b), value))\<rparr>)))"

definition mark_as_inserted_in_merkle_tree :: "batch \<Rightarrow> (batch \<times> batch_state) ntres" where
  "mark_as_inserted_in_merkle_tree b =
    rbind (get_first_ready_zkp_batch b) (\<lambda>_.
      let b1 = b\<lparr>num_inserted_zkp_batches := wrapping_add (num_inserted_zkp_batches b) 1\<rparr> in
      rbind (if num_inserted_zkp_batches b1 = batch_num_zkp_batches b
             then advance_state_to_inserted b1 else Inr b1) (\<lambda>b2.
        rbind (checked_state b2) (\<lambda>st. Inr (b2, st))))"


section \<open>The incremental chain\<close>

lemma batch_state_roundtrip [simp]: "batch_state_from_u64 (batch_state_to_u64 st) = Some st"
  by (cases st) (simp_all add: batch_state_from_u64_def)

lemma hash_chain_4_loop_append:
  "length xs mod 3 = 0 \<Longrightarrow>
     hash_chain_4_loop P h (xs @ ys) = rbind (hash_chain_4_loop P h xs) (\<lambda>h'. hash_chain_4_loop P h' ys)"
proof (induction P h xs rule: hash_chain_4_loop.induct)
  case (4 P h g0 g1 g2 rest)
  then have "length rest mod 3 = 0" by simp
  then show ?case using 4 by (cases "P [h, g0, g1, g2]") auto
qed auto

text \<open>
  \<open>open_chain P os chain pend\<close>: \<open>chain\<close> and the pending buffer \<open>pend\<close>
  together represent the values \<open>os\<close> of the ZKP batch being filled.
\<close>

definition open_chain :: "hash_fn \<Rightarrow> bytes list \<Rightarrow> bytes \<Rightarrow> bytes \<times> bytes \<Rightarrow> bool" where
  "open_chain P os chain pend =
    (case os of [] \<Rightarrow> True
     | v0 # rest \<Rightarrow> let k = 3 * (length rest div 3) in
         hash_chain_4_loop P v0 (take k rest) = Inr chain \<and>
         drop k rest = take (length rest mod 3) [fst pend, snd pend])"

lemma open_chain_start: "open_chain P [v] v pend"
  by (simp add: open_chain_def)

lemma open_chain_absorb:
  assumes "open_chain P (v0 # rest) chain (pending_values b)" "num_pending b = length rest mod 3"
  shows "P (absorb_inputs b chain v) = hash_chain_4_loop P v0 (rest @ [v])"
proof -
  let ?k = "3 * (length rest div 3)"
  have chain: "hash_chain_4_loop P v0 (take ?k rest) = Inr chain"
    and pend: "drop ?k rest = take (length rest mod 3) [fst (pending_values b), snd (pending_values b)]"
    using assms(1) by (auto simp: open_chain_def Let_def)
  have "?k \<le> length rest" by simp
  then have "length (take ?k rest) mod 3 = 0" by simp
  then have "hash_chain_4_loop P v0 (take ?k rest @ drop ?k rest @ [v])
      = hash_chain_4_loop P chain (drop ?k rest @ [v])"
    using hash_chain_4_loop_append[of "take ?k rest" P v0 "drop ?k rest @ [v]"] chain by simp
  then have loop: "hash_chain_4_loop P v0 (rest @ [v]) = hash_chain_4_loop P chain (drop ?k rest @ [v])"
    by (metis append_assoc append_take_drop_id)
  obtain x y where pv: "pending_values b = (x, y)" by (cases "pending_values b")
  consider "length rest mod 3 = 0" | "length rest mod 3 = 1" | "length rest mod 3 = 2" by linarith
  then show ?thesis
  proof cases
    case 1
    then show ?thesis using loop pend assms(2) pv by (simp add: absorb_inputs_def)
  next
    case 2
    then show ?thesis using loop pend assms(2) pv by (simp add: absorb_inputs_def)
  next
    case 3
    have "P [chain, x, y, v] = rbind (P [chain, x, y, v]) Inr" by (cases "P [chain, x, y, v]") auto
    then show ?thesis using 3 loop pend assms(2) pv by (simp add: absorb_inputs_def numeral_2_eq_2)
  qed
qed

lemma open_chain_group:
  assumes "hash_chain_4_loop P v0 (rest @ [v]) = Inr h" "length rest mod 3 = 2"
  shows "open_chain P (v0 # rest @ [v]) h pend"
proof -
  have "(length rest + 1) mod 3 = 0" "3 * ((length rest + 1) div 3) = length rest + 1"
    using assms(2) by presburger+
  then show ?thesis using assms(1) by (simp add: open_chain_def Let_def)
qed

lemma open_chain_push:
  assumes "open_chain P (v0 # rest) chain pend" "length rest mod 3 = m" "m \<noteq> 2"
  shows "open_chain P (v0 # rest @ [v]) chain (if m = 0 then (v, snd pend) else (fst pend, v))"
proof -
  have "m < 3" using assms(2) by auto
  then have m: "m = 0 \<or> m = 1" using assms(3) by linarith
  have k: "(length rest + 1) div 3 = length rest div 3" "(length rest + 1) mod 3 = m + 1"
    using m assms(2) by presburger+
  show ?thesis using assms(1,2) m k by (auto simp: open_chain_def Let_def)
qed


section \<open>What a batch represents\<close>

text \<open>
  \<open>batch_repr P K Z b vs ins\<close>: the batch \<open>b\<close> of \<open>K\<close> ZKP batches of
  \<open>Z\<close> values holds the values \<open>vs\<close>, of whose complete ZKP batches the
  first \<open>ins\<close> have been applied to the tree.
\<close>

definition zkp_values :: "nat \<Rightarrow> bytes list \<Rightarrow> nat \<Rightarrow> bytes list" where
  "zkp_values Z vs z = take Z (drop (z * Z) vs)"

definition batch_shape :: "nat \<Rightarrow> nat \<Rightarrow> batch \<Rightarrow> bool" where
  "batch_shape K Z b \<longleftrightarrow>
     0 < Z \<and> 0 < K \<and> u64_ok (K * Z) \<and> b_batch_size b = K * Z \<and> b_zkp_batch_size b = Z \<and>
     length (hash_chains b) = K \<and> length (cached_tree_updates b) = K"

definition batch_counters :: "nat \<Rightarrow> nat \<Rightarrow> batch \<Rightarrow> nat \<Rightarrow> nat \<Rightarrow> bool" where
  "batch_counters K Z b f ins \<longleftrightarrow>
     f \<le> K * Z \<and> ins \<le> f div Z \<and>
     num_full_zkp_batches b = f div Z \<and> num_inserted b = f mod Z \<and> num_inserted_zkp_batches b = ins \<and>
     state_word b = batch_state_to_u64 (if f < K * Z then Fill else if ins = K then Inserted else Full)"

definition batch_chains :: "hash_fn \<Rightarrow> nat \<Rightarrow> nat \<Rightarrow> batch \<Rightarrow> bytes list \<Rightarrow> nat \<Rightarrow> bool" where
  "batch_chains P K Z b vs ins \<longleftrightarrow>
     (\<forall>z. ins \<le> z \<and> z < length vs div Z \<longrightarrow>
        create_hash_chain_4 P (zkp_values Z vs z) = Inr (hash_chains b ! z)) \<and>
     (length vs < K * Z \<longrightarrow>
        open_chain P (drop (length vs div Z * Z) vs) (hash_chains b ! (length vs div Z)) (pending_values b))"

definition batch_repr :: "hash_fn \<Rightarrow> nat \<Rightarrow> nat \<Rightarrow> batch \<Rightarrow> bytes list \<Rightarrow> nat \<Rightarrow> bool" where
  "batch_repr P K Z b vs ins \<longleftrightarrow>
     batch_shape K Z b \<and> batch_counters K Z b (length vs) ins \<and> batch_chains P K Z b vs ins"

lemmas batch_repr_defs = batch_repr_def batch_shape_def batch_counters_def batch_chains_def

lemma checked_state_eq:
  "state_word b = batch_state_to_u64 st \<Longrightarrow> checked_state b = Inr st"
  by (simp add: checked_state_def try_get_state_def)

lemma batch_repr_state:
  "batch_repr P K Z b vs ins \<Longrightarrow>
     checked_state b = Inr (if length vs < K * Z then Fill else if ins = K then Inserted else Full)"
  unfolding batch_repr_defs by (intro checked_state_eq) simp

lemma div_less_batches: "f < K * Z \<Longrightarrow> f div Z < (K :: nat)"
  by (simp add: less_mult_imp_div_less)

lemma num_pending_eq: "num_inserted b = Suc (length rest) \<Longrightarrow> num_pending b = length rest mod 3"
  by (simp add: num_pending_def)

lemma open_values_length: "length (drop (length vs div Z * Z) vs) = length vs mod Z"
  by (simp add: minus_div_mult_eq_mod)

lemma add_chain_step:
  assumes repr: "batch_repr P K Z b vs ins" and room: "length vs < K * Z"
    and add: "add_to_hash_chain P v b = Inr b'"
  defines "q \<equiv> length vs div Z" and "os \<equiv> drop (length vs div Z * Z) vs"
  obtains c pend where
    "finish_insertion (length os + 1) (length os + 1 = Z)
       (b\<lparr>hash_chains := (hash_chains b)[q := c], pending_values := pend\<rparr>) = Inr b'"
    "length os + 1 = Z \<Longrightarrow> create_hash_chain_4 P (os @ [v]) = Inr c"
    "length os + 1 \<noteq> Z \<Longrightarrow> open_chain P (os @ [v]) c pend"
proof -
  have shape: "0 < Z" "u64_ok (K * Z)" "b_zkp_batch_size b = Z" "length (hash_chains b) = K" "0 < K"
    and cnt: "num_full_zkp_batches b = q" "num_inserted b = length os"
    and oc: "open_chain P os (hash_chains b ! q) (pending_values b)"
    using repr room by (auto simp: batch_repr_defs q_def os_def minus_div_mult_eq_mod)
  have q: "q < K" unfolding q_def by (rule div_less_batches[OF room])
  have os: "length os < Z" using shape(1) by (simp add: os_def minus_div_mult_eq_mod)
  have "Z \<le> K * Z" using shape(5) by simp
  then have wrap: "wrapping_add (length os) 1 = length os + 1"
    using os shape(2) by (intro wrapping_add_exact) linarith
  have get: "get (hash_chains b) q = Some (hash_chains b ! q)" using q shape(4) by (simp add: get_def)
  have st: "checked_state b = Inr Fill" using batch_repr_state[OF repr] room by simp
  note step = add[unfolded add_to_hash_chain_def Let_def, simplified st cnt get wrap shape(3), simplified]
  show thesis
  proof (cases os)
    case Nil
    show thesis
    proof (rule that[where c = v and pend = "pending_values b"])
      show "finish_insertion (length os + 1) (length os + 1 = Z)
          (b\<lparr>hash_chains := (hash_chains b)[q := v], pending_values := pending_values b\<rparr>) = Inr b'"
        using step Nil by simp
    qed (simp_all add: Nil create_hash_chain_4_def open_chain_start)
  next
    case (Cons v0 rest)
    have np: "num_pending b = length rest mod 3" using cnt(2) Cons by (intro num_pending_eq) simp
    have absorb: "P (absorb_inputs b (hash_chains b ! q) v) = hash_chain_4_loop P v0 (rest @ [v])"
      using oc Cons np by (intro open_chain_absorb) simp_all
    show thesis
    proof (cases "num_pending b = 2 \<or> length os + 1 = Z")
      case True
      then obtain h where h: "hash_chain_4_loop P v0 (rest @ [v]) = Inr h"
        "finish_insertion (length os + 1) (length os + 1 = Z) (b\<lparr>hash_chains := (hash_chains b)[q := h]\<rparr>) = Inr b'"
        using step Cons absorb by (auto simp: result_simps split: if_splits)
      show thesis
      proof (rule that[where c = h and pend = "pending_values b"])
        show "finish_insertion (length os + 1) (length os + 1 = Z)
            (b\<lparr>hash_chains := (hash_chains b)[q := h], pending_values := pending_values b\<rparr>) = Inr b'"
          using h(2) by simp
        show "create_hash_chain_4 P (os @ [v]) = Inr h" using h(1) Cons by (simp add: create_hash_chain_4_def)
        show "length os + 1 \<noteq> Z \<Longrightarrow> open_chain P (os @ [v]) h (pending_values b)"
          using h(1) True Cons np by (simp add: open_chain_group)
      qed
    next
      case False
      let ?pend = "if num_pending b = 0 then (v, snd (pending_values b)) else (fst (pending_values b), v)"
      show thesis
      proof (rule that[where c = "hash_chains b ! q" and pend = ?pend])
        show "finish_insertion (length os + 1) (length os + 1 = Z)
            (b\<lparr>hash_chains := (hash_chains b)[q := hash_chains b ! q], pending_values := ?pend\<rparr>) = Inr b'"
          using step Cons False by (simp split: if_splits)
        show "length os + 1 \<noteq> Z \<Longrightarrow> open_chain P (os @ [v]) (hash_chains b ! q) ?pend"
          using open_chain_push[of P v0 rest "hash_chains b ! q" "pending_values b" "num_pending b" v]
            oc Cons np False by simp
      qed (use False in simp)
    qed
  qed
qed

lemma zkp_values_append:
  "(z + 1) * Z \<le> length vs \<Longrightarrow> zkp_values Z (vs @ ws) z = zkp_values Z vs z"
  by (simp add: zkp_values_def)

lemma length_snoc_div_mod:
  assumes "0 < Z"
  shows "(length vs + 1) div Z = (if length vs mod Z + 1 = Z then length vs div Z + 1 else length vs div Z)"
    "(length vs + 1) mod Z = (if length vs mod Z + 1 = Z then 0 else length vs mod Z + 1)"
  using assms by (simp_all add: div_Suc mod_Suc)

lemma finish_insertion_repr:
  assumes repr: "batch_repr P K Z b vs ins" and room: "length vs < K * Z"
  defines "q \<equiv> length vs div Z" and "os \<equiv> drop (length vs div Z * Z) vs"
  assumes fin: "finish_insertion (length os + 1) (length os + 1 = Z)
       (b\<lparr>hash_chains := (hash_chains b)[q := c], pending_values := pend\<rparr>) = Inr b'"
    and full: "length os + 1 = Z \<Longrightarrow> create_hash_chain_4 P (os @ [v]) = Inr c"
    and part: "length os + 1 \<noteq> Z \<Longrightarrow> open_chain P (os @ [v]) c pend"
  shows "batch_repr P K Z b' (vs @ [v]) ins \<and> start_index b' = start_index b
    \<and> cached_tree_updates b' = cached_tree_updates b"
proof -
  have shape: "0 < Z" "0 < K" "u64_ok (K * Z)" "b_batch_size b = K * Z" "b_zkp_batch_size b = Z"
    "length (hash_chains b) = K" "length (cached_tree_updates b) = K"
    and cnt: "ins \<le> q" "num_full_zkp_batches b = q" "num_inserted_zkp_batches b = ins" "state_word b = 0"
    and chains: "\<And>z. ins \<le> z \<Longrightarrow> z < q \<Longrightarrow> create_hash_chain_4 P (zkp_values Z vs z) = Inr (hash_chains b ! z)"
    using repr room by (auto simp: batch_repr_defs q_def)
  have q: "q < K" unfolding q_def by (rule div_less_batches[OF room])
  have os: "length os = length vs mod Z" unfolding os_def by (simp add: minus_div_mult_eq_mod)
  have split: "drop (q * Z) (vs @ [v]) = os @ [v]"
    unfolding q_def os_def by (simp add: div_times_less_eq_dividend)
  have old: "zkp_values Z (vs @ [v]) z = zkp_values Z vs z" if "z < q" for z
  proof (rule zkp_values_append)
    have "(z + 1) * Z \<le> q * Z" using that by (intro mult_le_mono1) simp
    also have "\<dots> \<le> length vs" by (simp add: q_def div_times_less_eq_dividend)
    finally show "(z + 1) * Z \<le> length vs" .
  qed
  have "K \<le> K * Z" using shape(1) by simp
  then have wrap: "wrapping_add q 1 = q + 1" using q shape(3) by (intro wrapping_add_exact) linarith
  note lens = length_snoc_div_mod[OF shape(1), of vs]
  show ?thesis
  proof (cases "length os + 1 = Z")
    case False
    have b': "b' = b\<lparr>hash_chains := (hash_chains b)[q := c], pending_values := pend, num_inserted := length os + 1\<rparr>"
      using fin False by (simp add: finish_insertion_def Let_def)
    have "length vs + 1 < K * Z"
    proof (rule ccontr)
      assume "\<not> ?thesis"
      then have "length vs + 1 = K * Z" using room by simp
      then have "(length vs + 1) mod Z = 0" by simp
      then show False using lens(2) False os by (simp split: if_splits)
    qed
    then show ?thesis
      using shape cnt chains old q split part[OF False] b' False lens os
      by (simp add: batch_repr_defs q_def)
  next
    case True
    have len: "length vs + 1 = (q + 1) * Z"
    proof -
      have "length vs = q * Z + length vs mod Z" unfolding q_def by simp
      then show ?thesis using True os by simp
    qed
    have last_chain: "zkp_values Z (vs @ [v]) q = os @ [v]"
      using split True by (simp add: zkp_values_def)
    let ?b = "b\<lparr>hash_chains := (hash_chains b)[q := c], pending_values := pend,
        num_full_zkp_batches := q + 1, num_inserted := 0\<rparr>"
    have zb: "batch_num_zkp_batches ?b = K" using shape by (simp add: batch_num_zkp_batches_def)
    have b': "b' = (if q + 1 = K then ?b\<lparr>state_word := batch_state_to_u64 Full\<rparr> else ?b)"
      using fin True wrap zb cnt(2,4)
      by (auto simp: finish_insertion_def Let_def advance_state_to_full_def checked_state_def
          try_get_state_def batch_state_from_u64_def split: if_splits)
    have ch: "create_hash_chain_4 P (zkp_values Z (vs @ [v]) z) = Inr ((hash_chains b)[q := c] ! z)"
      if "ins \<le> z" "z < q + 1" for z
      using that chains old last_chain full[OF True] q shape(6) by (cases "z = q") auto
    have "length vs + 1 < K * Z \<longleftrightarrow> q + 1 < K" unfolding len using shape(1) by (simp only: mult_less_cancel2 simp_thms)
    moreover have "(length vs + 1) div Z = q + 1" "(length vs + 1) mod Z = 0" unfolding len using shape(1) by simp_all
    moreover have "drop ((q + 1) * Z) (vs @ [v]) = []" using len by simp
    moreover have "length vs + 1 \<le> K * Z" using room by simp
    ultimately show ?thesis
      using shape cnt q b' ch
      by (cases "q + 1 = K") (simp_all add: batch_repr_defs open_chain_def)
  qed
qed

lemma add_to_hash_chain_repr:
  assumes "batch_repr P K Z b vs ins" "add_to_hash_chain P v b = Inr b'"
  shows "length vs < K * Z" "batch_repr P K Z b' (vs @ [v]) ins" "start_index b' = start_index b"
    "cached_tree_updates b' = cached_tree_updates b"
proof -
  have "checked_state b = Inr Fill"
    using assms(2) by (auto simp: add_to_hash_chain_def result_simps split: if_splits)
  then show room: "length vs < K * Z" using batch_repr_state[OF assms(1)] by (auto split: if_splits)
  have "batch_repr P K Z b' (vs @ [v]) ins \<and> start_index b' = start_index b
      \<and> cached_tree_updates b' = cached_tree_updates b"
    by (rule add_chain_step[OF assms(1) room assms(2)]) (rule finish_insertion_repr[OF assms(1) room])
  then show "batch_repr P K Z b' (vs @ [v]) ins" "start_index b' = start_index b"
    "cached_tree_updates b' = cached_tree_updates b" by simp_all
qed

text \<open>Adding a field element to a batch with room succeeds.\<close>

lemma finish_insertion_total: "state_word b = 0 \<Longrightarrow> \<exists>b'. finish_insertion n f b = Inr b'"
  by (simp add: finish_insertion_def Let_def advance_state_to_full_def checked_state_def
      try_get_state_def batch_state_from_u64_def)

lemma add_to_hash_chain_total:
  assumes repr: "batch_repr P K Z b vs ins" and room: "length vs < K * Z" and P: "poseidon_ok P"
    and vs: "\<forall>x \<in> set vs. field_element x" and v: "field_element v"
  shows "\<exists>b'. add_to_hash_chain P v b = Inr b'"
proof -
  let ?q = "length vs div Z" and ?os = "drop (length vs div Z * Z) vs"
  have q: "?q < length (hash_chains b)" "num_full_zkp_batches b = ?q" "num_inserted b = length ?os"
    and oc: "open_chain P ?os (hash_chains b ! ?q) (pending_values b)" and w: "state_word b = 0"
    using repr room by (auto simp: batch_repr_defs minus_div_mult_eq_mod div_less_batches)
  have st: "checked_state b = Inr Fill" using batch_repr_state[OF repr] room by simp
  have fin: "\<exists>b'. finish_insertion n f (b\<lparr>hash_chains := hc\<rparr>) = Inr b'"
    "\<exists>b'. finish_insertion n f (b\<lparr>pending_values := pv\<rparr>) = Inr b'" for n f hc pv
    using w by (auto intro!: finish_insertion_total)
  show ?thesis
  proof (cases ?os)
    case Nil
    then show ?thesis using st q fin by (simp add: add_to_hash_chain_def Let_def get_def)
  next
    case (Cons v0 rest)
    have np: "num_pending b = length rest mod 3" using q(3) Cons by (intro num_pending_eq) simp
    have "set ?os \<subseteq> set vs" by (rule set_drop_subset)
    then have "\<forall>x \<in> set (v0 # rest @ [v]). field_element x" using vs v Cons by auto
    then obtain h where "hash_chain_4_loop P v0 (rest @ [v]) = Inr h"
      using hash_chain_4_loop_total[OF P, of v0 "rest @ [v]"] by auto
    then have h: "P (absorb_inputs b (hash_chains b ! ?q) v) = Inr h"
      using open_chain_absorb[of P v0 rest "hash_chains b ! ?q" b v] oc Cons np by simp
    have "num_inserted b \<noteq> 0" using q(3) Cons by simp
    then show ?thesis using st q(1,2) fin h by (simp add: add_to_hash_chain_def Let_def get_def)
  qed
qed

text \<open>Applying the next complete ZKP batch, and reusing an applied batch.\<close>

lemma mark_as_inserted_repr:
  assumes repr: "batch_repr P K Z b vs ins" and ready: "ins < length vs div Z"
  shows "\<exists>b'. mark_as_inserted_in_merkle_tree b = Inr (b', if ins + 1 = K then Inserted
           else if length vs < K * Z then Fill else Full)
      \<and> batch_repr P K Z b' vs (ins + 1) \<and> start_index b' = start_index b
      \<and> cached_tree_updates b' = cached_tree_updates b \<and> hash_chains b' = hash_chains b"
proof -
  have shape: "0 < Z" "0 < K" "u64_ok (K * Z)" "b_batch_size b = K * Z" "b_zkp_batch_size b = Z"
    and cnt: "length vs \<le> K * Z" "num_full_zkp_batches b = length vs div Z" "num_inserted_zkp_batches b = ins"
    and sw: "state_word b = batch_state_to_u64 (if length vs < K * Z then Fill else if ins = K then Inserted else Full)"
    using repr by (auto simp: batch_repr_defs)
  have "length vs div Z \<le> K" using cnt(1) shape(1) by (metis div_le_mono nonzero_mult_div_cancel_right less_not_refl2)
  then have insK: "ins < K" using ready by simp
  have full: "ins + 1 = K \<Longrightarrow> length vs = K * Z"
  proof -
    assume "ins + 1 = K"
    then have "K \<le> length vs div Z" using ready by simp
    then have "K * Z \<le> length vs" by (metis div_times_less_eq_dividend le_trans mult_le_mono1)
    then show ?thesis using cnt(1) by simp
  qed
  have "K \<le> K * Z" using shape(1) by simp
  then have wrap: "wrapping_add ins 1 = ins + 1" using insK shape(3) by (intro wrapping_add_exact) linarith
  have st: "checked_state b = Inr (if length vs < K * Z then Fill else Full)"
    using batch_repr_state[OF repr] insK by simp
  have zb: "batch_num_zkp_batches b = K" using shape by (simp add: batch_num_zkp_batches_def)
  let ?b = "b\<lparr>num_inserted_zkp_batches := ins + 1\<rparr>"
  let ?b' = "if ins + 1 = K then ?b\<lparr>state_word := batch_state_to_u64 Inserted\<rparr> else ?b"
  have "get_first_ready_zkp_batch b = Inr ins"
    using st ready cnt by (simp add: get_first_ready_zkp_batch_def batch_is_ready_to_insert_def)
  moreover have "checked_state ?b = Inr (if length vs < K * Z then Fill else Full)"
    using st by (simp add: checked_state_def try_get_state_def)
  ultimately have "mark_as_inserted_in_merkle_tree b = Inr (?b', if ins + 1 = K then Inserted
      else if length vs < K * Z then Fill else Full)"
    using cnt(3) wrap zb full
    by (auto simp: mark_as_inserted_in_merkle_tree_def Let_def advance_state_to_inserted_def)
      (simp add: checked_state_def try_get_state_def batch_state_from_u64_def)
  moreover have "batch_repr P K Z ?b' vs (ins + 1)"
    using repr ready sw insK full by (auto simp: batch_repr_defs)
  ultimately show ?thesis by auto
qed

lemma ensure_ready_to_fill_repr:
  assumes repr: "batch_repr P K Z b vs ins"
  shows "ensure_ready_to_fill (K * Z) b =
    (if length vs < K * Z then Inr b
     else if ins < K then Inl BatchNotReady
     else if u64_ok (start_index b + wrapping_mul (K * Z) NUM_BATCHES)
     then Inr (batch_reset (K * Z) Z (start_index b + wrapping_mul (K * Z) NUM_BATCHES) b)
     else Inl ArithmeticOverflow)"
proof -
  have "ins \<le> K"
    using repr by (metis batch_counters_def batch_repr_def batch_shape_def div_le_mono le_trans
        nonzero_mult_div_cancel_right less_not_refl2)
  then show ?thesis
    using batch_repr_state[OF repr] repr
    by (auto simp: ensure_ready_to_fill_def advance_state_to_fill_def batch_repr_def batch_shape_def
        checked_add_def)
qed

lemma batch_reset_repr:
  assumes "batch_shape K Z b"
  shows "batch_repr P K Z (batch_reset (K * Z) Z start b) [] 0"
  using assms by (auto simp: batch_repr_defs batch_reset_def open_chain_def)

end
