(* ===== verification/Root_Ring.thy ===== *)
theory Root_Ring
  imports Prelude
begin

text \<open>
  The bounded root histories of the two trees.  Both keep the most recent roots
  in an array written cyclically: \<open>ring_repr cap cursor hist log\<close> says that the
  array \<open>hist\<close> with write cursor \<open>cursor\<close> represents the sequence \<open>log\<close>
  of all roots ever recorded, the last \<open>cap\<close> of them being present.  The
  locale \<open>root_ring\<close> is the contract a spend relies on when it names a root by
  its index; the UTXO tree and the nullifier tree both provide it.
\<close>

definition ring_repr :: "nat \<Rightarrow> nat \<Rightarrow> 'a list \<Rightarrow> 'a list \<Rightarrow> bool" where
  "ring_repr cap cursor hist log \<longleftrightarrow>
     0 < cap \<and> length hist = cap \<and> log \<noteq> [] \<and> cursor = (length log - 1) mod cap \<and>
     (\<forall>k < length log. length log \<le> k + cap \<longrightarrow> hist ! (k mod cap) = log ! k)"

lemma ring_repr_single:
  "0 < cap \<Longrightarrow> length hist = cap \<Longrightarrow> hist ! 0 = x \<Longrightarrow> ring_repr cap 0 hist [x]"
  by (simp add: ring_repr_def)

lemma mod_window_neq:
  fixes k n cap :: nat
  assumes "k < n" "n < k + cap"
  shows "k mod cap \<noteq> n mod cap"
proof
  assume "k mod cap = n mod cap"
  then have "cap dvd n - k" using mod_eq_dvd_iff_nat[of k n cap] assms(1) by auto
  then show False using assms dvd_imp_le[of cap "n - k"] by auto
qed

lemma ring_repr_push:
  assumes "ring_repr cap cursor hist log"
  shows "ring_repr cap ((cursor + 1) mod cap) (hist[(cursor + 1) mod cap := x]) (log @ [x])"
proof -
  have cap: "0 < cap" and len: "length hist = cap" and ne: "log \<noteq> []"
    and cur: "cursor = (length log - 1) mod cap"
    and live: "\<And>k. k < length log \<Longrightarrow> length log \<le> k + cap \<Longrightarrow> hist ! (k mod cap) = log ! k"
    using assms by (auto simp: ring_repr_def)
  have nxt: "(cursor + 1) mod cap = length log mod cap"
    using ne cur by (simp add: mod_simps)
  have "hist[length log mod cap := x] ! (k mod cap) = (log @ [x]) ! k"
    if k: "k < Suc (length log)" "Suc (length log) \<le> k + cap" for k
  proof (cases "k = length log")
    case True
    then show ?thesis using cap len by simp
  next
    case False
    then have k': "k < length log" "length log < k + cap" using k by auto
    then have "k mod cap \<noteq> length log mod cap" by (rule mod_window_neq)
    then show ?thesis using live[of k] k' by (simp add: nth_append)
  qed
  then show ?thesis using cap len nxt by (simp add: ring_repr_def)
qed

lemma ring_repr_replace:
  assumes "ring_repr cap cursor hist log"
  shows "ring_repr cap cursor (hist[cursor := x]) (butlast log @ [x])"
proof -
  let ?n = "length log - 1"
  have cap: "0 < cap" and len: "length hist = cap" and ne: "log \<noteq> []" and cur: "cursor = ?n mod cap"
    and live: "\<And>k. k < length log \<Longrightarrow> length log \<le> k + cap \<Longrightarrow> hist ! (k mod cap) = log ! k"
    using assms by (auto simp: ring_repr_def)
  have "hist[cursor := x] ! (k mod cap) = (butlast log @ [x]) ! k"
    if k: "k < length log" "length log \<le> k + cap" for k
  proof (cases "k = ?n")
    case True
    then show ?thesis using cap len cur by (simp add: nth_append)
  next
    case False
    then have k': "k < ?n" "?n < k + cap" using k ne by auto
    then have "k mod cap \<noteq> cursor" using mod_window_neq cur by blast
    then show ?thesis using live[of k] k k' by (simp add: nth_append nth_butlast)
  qed
  then show ?thesis using cap len cur ne by (simp add: ring_repr_def)
qed

lemma ring_repr_cursor: "ring_repr cap cursor hist log \<Longrightarrow> cursor < cap \<and> hist ! cursor = last log"
proof -
  assume repr: "ring_repr cap cursor hist log"
  then have "log \<noteq> []" "0 < cap" "cursor = (length log - 1) mod cap" by (auto simp: ring_repr_def)
  moreover have "length log - 1 < length log" "length log \<le> length log - 1 + cap"
    using \<open>log \<noteq> []\<close> \<open>0 < cap\<close> by (auto simp: Suc_le_eq)
  ultimately show ?thesis
    using repr by (simp add: ring_repr_def last_conv_nth)
qed

text \<open>Every populated slot of the array holds one of the last \<open>cap\<close> entries.\<close>

lemma ring_repr_slot:
  assumes "ring_repr cap cursor hist log" "i < cap" "cap \<le> length log \<or> i < length log"
  obtains k where "k < length log" "length log \<le> k + cap" "k mod cap = i" "hist ! i = log ! k"
proof -
  have cap: "0 < cap"
    and live: "\<And>k. k < length log \<Longrightarrow> length log \<le> k + cap \<Longrightarrow> hist ! (k mod cap) = log ! k"
    using assms(1) by (auto simp: ring_repr_def)
  show thesis
  proof (cases "cap \<le> length log")
    case False
    then show thesis using that[of i] assms live[of i] by auto
  next
    case True
    define b where "b = length log - cap"
    define k where "k = b + (i + cap - b mod cap) mod cap"
    have "b mod cap < cap" using cap by simp
    then have "k mod cap = (b + (i + cap - b mod cap)) mod cap" unfolding k_def by (simp add: mod_simps)
    also have "b + (i + cap - b mod cap) = (b - b mod cap) + (i + cap)"
      using \<open>b mod cap < cap\<close> mod_less_eq_dividend[of b cap] by linarith
    also have "\<dots> mod cap = i"
      using assms(2) minus_mod_eq_mult_div[of b cap] by simp
    finally have "k mod cap = i" .
    moreover have "k < length log" using cap True mod_less_divisor[OF cap, of "i + cap - b mod cap"]
      unfolding k_def b_def by linarith
    moreover have "length log \<le> k + cap" using True unfolding k_def b_def by linarith
    ultimately show thesis using that live[of k] by auto
  qed
qed


locale root_ring =
  fixes cap :: nat
    and push :: "'r \<Rightarrow> 'a \<Rightarrow> 'r"
    and lookup :: "'r \<Rightarrow> nat \<Rightarrow> 'a option"
    and cursor :: "'r \<Rightarrow> nat"
    and accepted :: "'a \<Rightarrow> bool"
    and repr :: "'r \<Rightarrow> 'a list \<Rightarrow> bool"
  assumes push_repr: "repr r log \<Longrightarrow> repr (push r x) (log @ [x])"
    and cursor_repr: "repr r log \<Longrightarrow> log \<noteq> [] \<and> cursor r = (length log - 1) mod cap"
    and lookup_sound: "repr r log \<Longrightarrow> lookup r i = Some x \<Longrightarrow>
      \<exists>k < length log. length log \<le> k + cap \<and> k mod cap = i \<and> log ! k = x"
    and lookup_complete: "repr r log \<Longrightarrow> k < length log \<Longrightarrow> length log \<le> k + cap \<Longrightarrow>
      accepted (log ! k) \<Longrightarrow> lookup r (k mod cap) = Some (log ! k)"
begin

lemma pushes_repr: "repr r log \<Longrightarrow> repr (foldl push r xs) (log @ xs)"
proof (induction xs arbitrary: r log)
  case (Cons x xs)
  then show ?case using push_repr[of r log x] Cons.IH[of "push r x" "log @ [x]"] by simp
qed simp

text \<open>A root stays available, under the index it was recorded at, for \<open>cap - 1\<close> further records.\<close>

lemma root_stays_available:
  assumes "repr r log" "length xs < cap" "accepted (last log)"
  shows "lookup (foldl push r xs) (cursor r) = Some (last log)"
proof -
  have ne: "log \<noteq> []" and cur: "cursor r = (length log - 1) mod cap"
    using cursor_repr[OF assms(1)] by auto
  let ?k = "length log - 1" and ?all = "log @ xs"
  have nth: "?all ! ?k = last log" using ne by (simp add: nth_append last_conv_nth)
  have "lookup (foldl push r xs) (?k mod cap) = Some (?all ! ?k)"
  proof (rule lookup_complete[OF pushes_repr[OF assms(1)]])
    show "?k < length ?all" using ne by (cases log) auto
    show "length ?all \<le> ?k + cap" using assms(2) ne by (cases log) auto
    show "accepted (?all ! ?k)" using assms(3) nth by simp
  qed
  then show ?thesis using cur nth by simp
qed

text \<open>No index resolves to a root that has been displaced.\<close>

lemma lookup_recent:
  assumes "repr r log" "lookup r i = Some x"
  shows "x \<in> set (drop (length log - cap) log)"
proof -
  obtain k where k: "k < length log" "length log \<le> k + cap" "log ! k = x"
    using lookup_sound[OF assms] by blast
  let ?d = "drop (length log - cap) log"
  have "?d ! (k - (length log - cap)) = x"
    using k by (subst nth_drop) auto
  moreover have "k - (length log - cap) < length ?d" using k by auto
  ultimately show ?thesis using nth_mem by metis
qed

end

end
