(* ===== verification/Nullifier_Tree.thy ===== *)
theory Nullifier_Tree
  imports Nullifier_Batch Root_Ring
begin

text \<open>
  The batched nullifier tree, \<open>program-libs/tree/src/nullifier_tree\<close>: the
  layout with its two queue batches, queue insertion, the verification and
  caching of batch-update proofs, and the application of cached updates with
  the PDA-close watermark.  The Groth16 verifier is external; its three entry
  points are the fields of \<open>groth16\<close>.

  The main results: the two batches together represent the queue of all
  nullifiers ever inserted, split into ZKP batches; the state is determined by
  how many values were queued and how many ZKP batches were applied; no root
  the account still accepts predates a closable nullifier.
\<close>

definition DEFAULT_NULLIFIER_TREE_HEIGHT :: nat where "DEFAULT_NULLIFIER_TREE_HEIGHT = 40"
definition NULLIFIER_TREE_ZKP_BATCHES :: nat where "NULLIFIER_TREE_ZKP_BATCHES = 100"
definition DEFAULT_NULLIFIER_ZKP_BATCH_SIZE :: nat where "DEFAULT_NULLIFIER_ZKP_BATCH_SIZE = 4999"

definition DEFAULT_NULLIFIER_BATCH_SIZE :: nat where
  "DEFAULT_NULLIFIER_BATCH_SIZE = DEFAULT_NULLIFIER_ZKP_BATCH_SIZE * NULLIFIER_TREE_ZKP_BATCHES"

definition NULLIFIER_TREE_INIT_ROOT_40 :: bytes where
  "NULLIFIER_TREE_INIT_ROOT_40 =
    [29, 142, 113, 166, 1, 179, 232, 222, 187, 186, 155, 85, 123, 131, 105, 199, 244, 4, 174, 87,
     190, 191, 8, 82, 35, 107, 7, 40, 32, 149, 66, 119]"

record root_history_region =
  current_index :: nat
  roots :: "bytes list"

record nullifier_tree =
  sequence_number :: nat
  nt_next_index :: nat
  nt_height :: nat
  currently_processing_batch_index :: nat
  nt_capacity :: nat
  nt_batch_size :: nat
  nt_zkp_batch_size :: nat
  pending_batch_index :: nat
  queue_next_index :: nat
  close_before_index :: nat
  nt_root_history :: root_history_region
  batches :: "batch list"

text \<open>The const parameter \<open>ZKP_BATCHES\<close> is the length of the root array.\<close>

definition zkp_batches :: "nullifier_tree \<Rightarrow> nat" where
  "zkp_batches t = length (roots (nt_root_history t))"


section \<open>Layout accessors (layout.rs, access.rs)\<close>

definition get_current_batch :: "nullifier_tree \<Rightarrow> batch ntres" where
  "get_current_batch t = ok_or (get (batches t) (currently_processing_batch_index t)) InvalidBatchIndex"

definition get_pending_batch :: "nullifier_tree \<Rightarrow> batch ntres" where
  "get_pending_batch t = ok_or (get (batches t) (pending_batch_index t)) InvalidBatchIndex"

definition set_current_batch :: "batch \<Rightarrow> nullifier_tree \<Rightarrow> nullifier_tree" where
  "set_current_batch b t = t\<lparr>batches := (batches t)[currently_processing_batch_index t := b]\<rparr>"

definition set_pending_batch :: "batch \<Rightarrow> nullifier_tree \<Rightarrow> nullifier_tree" where
  "set_pending_batch b t = t\<lparr>batches := (batches t)[pending_batch_index t := b]\<rparr>"

definition validate_configuration :: "nat \<Rightarrow> nat \<Rightarrow> nat \<Rightarrow> unit ntres" where
  "validate_configuration zb bsize zsize =
    (if bsize = 0 \<or> zsize = 0 \<or> bsize mod zsize \<noteq> 0 then Inl BatchSizeNotDivisibleByZkpBatchSize
     else if bsize div zsize \<noteq> zb then Inl InvalidRootHistoryCapacity
     else Inr ())"

definition increment_pending_batch_index_if_inserted :: "batch_state \<Rightarrow> nullifier_tree \<Rightarrow> nullifier_tree" where
  "increment_pending_batch_index_if_inserted st t =
    (if st = Inserted then t\<lparr>pending_batch_index := (pending_batch_index t + 1) mod NUM_BATCHES\<rparr> else t)"

definition increment_currently_processing_batch_index_if_full :: "nullifier_tree \<Rightarrow> nullifier_tree ntres" where
  "increment_currently_processing_batch_index_if_full t =
    rbind (get_current_batch t) (\<lambda>b. rbind (checked_state b) (\<lambda>st.
      Inr (if st = Full
           then t\<lparr>currently_processing_batch_index := (currently_processing_batch_index t + 1) mod NUM_BATCHES\<rparr>
           else t)))"

definition nt_validate :: "nullifier_tree \<Rightarrow> unit ntres" where
  "nt_validate t =
    rbind (validate_configuration (zkp_batches t) (nt_batch_size t) (nt_zkp_batch_size t)) (\<lambda>_.
      if zkp_batches t \<le> current_index (nt_root_history t) then Inl InvalidRootHistoryCapacity
      else if NUM_BATCHES \<le> currently_processing_batch_index t \<or> NUM_BATCHES \<le> pending_batch_index t
      then Inl InvalidBatchIndex
      else if \<exists>b \<in> set (batches t).
          b_batch_size b \<noteq> nt_batch_size t \<or> b_zkp_batch_size b \<noteq> nt_zkp_batch_size t
      then Inl InvalidBatchConfiguration
      else Inr ())"

definition latest_root_index :: "nullifier_tree \<Rightarrow> nat" where
  "latest_root_index t =
    (let capacity = length (roots (nt_root_history t)) in
     if capacity = 0 then 0 else (current_index (nt_root_history t) + capacity - 1) mod capacity)"

definition nt_get_root :: "nullifier_tree \<Rightarrow> bytes option" where
  "nt_get_root t = get (roots (nt_root_history t)) (latest_root_index t)"

definition nt_root_by_index :: "nullifier_tree \<Rightarrow> nat \<Rightarrow> bytes option" where
  "nt_root_by_index t i =
    (case get (roots (nt_root_history t)) i of
       None \<Rightarrow> None | Some r \<Rightarrow> if r = zero32 then None else Some r)"

definition tree_is_full :: "nat \<Rightarrow> nullifier_tree \<Rightarrow> bool" where
  "tree_is_full num_leaves t =
    (case checked_add (nt_next_index t) num_leaves of
       Some e \<Rightarrow> nt_capacity t < e | None \<Rightarrow> True)"


section \<open>Initialisation (init.rs)\<close>

record nullifier_tree_init_params =
  input_queue_batch_size :: nat
  input_queue_zkp_batch_size :: nat
  init_height :: nat

definition SUPPORTED_ZKP_BATCH_SIZES :: "nat list" where
  "SUPPORTED_ZKP_BATCH_SIZES = [10, 4999]"

definition hash_chain_groups_are_full :: "nat \<Rightarrow> bool" where
  "hash_chain_groups_are_full zsize = (zsize mod 3 = 1)"

definition match_circuit_size :: "nat \<Rightarrow> bool" where
  "match_circuit_size sz = (sz \<in> set SUPPORTED_ZKP_BATCH_SIZES)"

definition params_valid :: "nullifier_tree_init_params \<Rightarrow> bool" where
  "params_valid p =
    (init_height p = DEFAULT_NULLIFIER_TREE_HEIGHT \<and> match_circuit_size (input_queue_zkp_batch_size p)
     \<and> is_ok (validate_configuration NULLIFIER_TREE_ZKP_BATCHES
               (input_queue_batch_size p) (input_queue_zkp_batch_size p)))"

definition nt_init :: "nat \<Rightarrow> nat \<Rightarrow> nat \<Rightarrow> nullifier_tree \<Rightarrow> nullifier_tree ntres" where
  "nt_init bsize zsize height t =
    rbind (validate_configuration (zkp_batches t) bsize zsize) (\<lambda>_.
      if 64 \<le> height then Inl InvalidHeight
      else if height \<noteq> 40 then Inl InvalidHeight
      else rbind (ok_or (checked_add 1 bsize) ArithmeticOverflow) (\<lambda>second_start.
        if roots (nt_root_history t) = [] then Inl InvalidRootHistoryCapacity
        else Inr (t\<lparr>sequence_number := 0, nt_next_index := 1, nt_height := height,
          nt_capacity := 2 ^ height, close_before_index := 0,
          nt_batch_size := bsize, nt_zkp_batch_size := zsize,
          currently_processing_batch_index := 0, pending_batch_index := 0, queue_next_index := 1,
          batches := map2 (batch_init bsize zsize) [1, second_start] (take 2 (batches t)) @ drop 2 (batches t),
          nt_root_history := \<lparr>current_index = 1 mod zkp_batches t,
            roots = (roots (nt_root_history t))[0 := NULLIFIER_TREE_INIT_ROOT_40]\<rparr>\<rparr>)))"


section \<open>Queue insertion (queue\_insert.rs)\<close>

definition checked_next_queue_index :: "nullifier_tree \<Rightarrow> nat ntres" where
  "checked_next_queue_index t =
    (if nt_capacity t \<le> queue_next_index t then Inl NullifierTreeIsFull else Inr (queue_next_index t))"

definition remaining_queue_capacity :: "nullifier_tree \<Rightarrow> nat ntres" where
  "remaining_queue_capacity t = ok_or (checked_sub (nt_capacity t) (queue_next_index t)) ArithmeticOverflow"

definition insert_nullifier_into_queue :: "hash_fn \<Rightarrow> bytes \<Rightarrow> nullifier_tree \<Rightarrow> (nullifier_tree \<times> nat) ntres" where
  "insert_nullifier_into_queue P nullifier t =
    (if \<not> is_canonical_bn254_scalar_be nullifier then Inl NonCanonicalFieldElement
     else rbind (checked_next_queue_index t) (\<lambda>queue_index.
       rbind (get_current_batch t) (\<lambda>b.
       rbind (ensure_ready_to_fill (nt_batch_size t) b) (\<lambda>b1.
       rbind (add_to_hash_chain P nullifier b1) (\<lambda>b2.
       rbind (increment_currently_processing_batch_index_if_full (set_current_batch b2 t)) (\<lambda>t1.
       Inr (t1\<lparr>queue_next_index := wrapping_add (queue_next_index t1) 1\<rparr>, queue_index)))))))"


section \<open>Proof verification (verify/mod.rs)\<close>

datatype batch_update_key = batch_address_append_40_10 | batch_address_append_40_4999

record nullifier_tree_proof =
  proof_a :: bytes
  proof_b :: bytes
  proof_c :: bytes

text \<open>
  The external Groth16 library: decompression of a G1 point, construction of a
  verifier for the decompressed proof, inputs and key, and the pairing check.
\<close>

record groth16 =
  decompress_g1 :: "bytes \<Rightarrow> bytes option"
  groth16_new :: "bytes \<times> bytes \<times> bytes \<Rightarrow> bytes list \<Rightarrow> batch_update_key \<Rightarrow> bool"
  groth16_verify :: "bytes \<times> bytes \<times> bytes \<Rightarrow> bytes list \<Rightarrow> batch_update_key \<Rightarrow> bool"

definition verify_proof :: "groth16 \<Rightarrow> bytes list \<Rightarrow> nullifier_tree_proof \<Rightarrow> batch_update_key \<Rightarrow> unit ntres" where
  "verify_proof G public_inputs p vk =
    rbind (ok_or (decompress_g1 G (proof_a p)) DecompressG1Failed) (\<lambda>a.
    rbind (ok_or (decompress_g1 G (proof_c p)) DecompressG1Failed) (\<lambda>c.
      if \<not> groth16_new G (a, proof_b p, c) public_inputs vk then Inl CreateGroth16VerifierFailed
      else if \<not> groth16_verify G (a, proof_b p, c) public_inputs vk then Inl ProofVerificationFailed
      else Inr ()))"

definition verify_batch_update :: "groth16 \<Rightarrow> nat \<Rightarrow> bytes \<Rightarrow> nullifier_tree_proof \<Rightarrow> unit ntres" where
  "verify_batch_update G bsize public_input_hash p =
    (if bsize = 10 then verify_proof G [public_input_hash] p batch_address_append_40_10
     else if bsize = 4999 then verify_proof G [public_input_hash] p batch_address_append_40_4999
     else Inl InvalidBatchSize)"


section \<open>Tree updates (merkle\_tree\_update.rs)\<close>

record batch_nullify_inputs =
  in_new_root :: bytes
  in_old_root :: bytes
  in_zkp_batch_index :: nat
  in_proof :: nullifier_tree_proof

record nullifier_tree_update_event =
  merkle_tree_pubkey :: bytes
  ev_zkp_batch_size :: nat
  old_next_index :: nat
  start_sequence_number :: nat
  first_root_index :: nat
  num_update :: nat
  first_zkp_batch_index :: nat
  ev_new_root :: bytes

text \<open>The public-input hash one batch-update proof is verified against.\<close>

definition batch_public_input :: "hash_fn \<Rightarrow> bytes \<Rightarrow> bytes \<Rightarrow> bytes \<Rightarrow> nat \<Rightarrow> bytes ntres" where
  "batch_public_input P old new chain start =
    map_err NullifierHasher (P [old, new, chain, replicate 24 0 @ to_be_bytes 8 start])"

definition verify_proof_cache_update :: "hash_fn \<Rightarrow> groth16 \<Rightarrow> batch_nullify_inputs \<Rightarrow> nullifier_tree
    \<Rightarrow> (nullifier_tree \<times> bool) ntres" where
  "verify_proof_cache_update P G d t =
    rbind (get_pending_batch t) (\<lambda>b.
    rbind (ok_or (hash_chain b (in_zkp_batch_index d)) ZkpBatchIndexOutOfRange) (\<lambda>chain.
      if num_full_zkp_batches b \<le> in_zkp_batch_index d then Inl HashChainNotReady
      else if in_zkp_batch_index d < num_inserted_zkp_batches b then Inr (t, False)
      else rbind (ok_or (checked_mul (in_zkp_batch_index d) (nt_zkp_batch_size t)) ArithmeticOverflow) (\<lambda>n.
           rbind (ok_or (checked_add (start_index b) n) ArithmeticOverflow) (\<lambda>start.
           rbind (batch_public_input P (in_old_root d) (in_new_root d) chain start) (\<lambda>h.
           rbind (verify_batch_update G (nt_zkp_batch_size t) h (in_proof d)) (\<lambda>_.
           rbind (cache_tree_update (in_zkp_batch_index d)
                    \<lparr>old_root = in_old_root d, new_root = in_new_root d, occupied = 1\<rparr> b) (\<lambda>b'.
             Inr (set_pending_batch b' t, True))))))))"

definition append_root :: "bytes \<Rightarrow> nullifier_tree \<Rightarrow> nullifier_tree ntres" where
  "append_root r t =
    (let h = nt_root_history t; i = current_index h; capacity = length (roots h) in
     if i < capacity
     then Inr (t\<lparr>nt_root_history := \<lparr>current_index = (i + 1) mod capacity, roots = (roots h)[i := r]\<rparr>\<rparr>)
     else Inl InvalidRootHistoryCapacity)"

definition advance_nullifier_pda_close_watermark :: "batch_state \<Rightarrow> nullifier_tree \<Rightarrow> nullifier_tree ntres" where
  "advance_nullifier_pda_close_watermark st t =
    (if st \<noteq> Inserted then Inr t
     else rbind (get_pending_batch t) (\<lambda>b.
       Inr (t\<lparr>close_before_index := max (close_before_index t) (start_index b)\<rparr>)))"

text \<open>Steps 3 and 4 of one iteration: apply the cached update of ZKP batch \<open>zi\<close>.\<close>

definition apply_one :: "nat \<Rightarrow> cached_tree_update \<Rightarrow> nullifier_tree \<Rightarrow> nullifier_tree ntres" where
  "apply_one zi cu t =
    (if tree_is_full (nt_zkp_batch_size t) t then Inl NullifierTreeIsFull
     else let t1 = t\<lparr>nt_next_index := wrapping_add (nt_next_index t) (nt_zkp_batch_size t),
                     sequence_number := wrapping_add (sequence_number t) 1\<rparr> in
       rbind (append_root (new_root cu) t1) (\<lambda>t2.
       rbind (get_pending_batch t2) (\<lambda>b.
       rbind (mark_as_inserted_in_merkle_tree b) (\<lambda>(b1, st).
       rbind (clear_cached_tree_update zi b1) (\<lambda>b2.
       rbind (advance_nullifier_pda_close_watermark st (set_pending_batch b2 t2)) (\<lambda>t3.
       Inr (increment_pending_batch_index_if_inserted st t3)))))))"

text \<open>Step 5: the shared fields are fixed by the first applied ZKP batch.\<close>

definition record_update :: "bytes \<Rightarrow> nat \<Rightarrow> cached_tree_update \<Rightarrow> nullifier_tree \<Rightarrow> nullifier_tree
    \<Rightarrow> nullifier_tree_update_event option \<Rightarrow> nullifier_tree_update_event" where
  "record_update pubkey zi cu before after ev =
    (let e = (case ev of Some e \<Rightarrow> e
       | None \<Rightarrow> \<lparr>merkle_tree_pubkey = pubkey, ev_zkp_batch_size = nt_zkp_batch_size before mod 2 ^ 16,
           old_next_index = nt_next_index before, start_sequence_number = sequence_number after,
           first_root_index = latest_root_index after mod 2 ^ 32, num_update = 0,
           first_zkp_batch_index = zi mod 2 ^ 32, ev_new_root = new_root cu\<rparr>)
     in e\<lparr>num_update := (num_update e + 1) mod 2 ^ 32, ev_new_root := new_root cu\<rparr>)"

definition num_cached :: "nullifier_tree \<Rightarrow> nat" where
  "num_cached t = sum_list (map (\<lambda>b. length (filter is_occupied (cached_tree_updates b))) (batches t))"


text \<open>
  The loop of \<open>apply_cached_tree_updates\<close>.  It ends because every iteration
  that continues empties one occupied cache slot.
\<close>

lemma filter_update_less:
  assumes "i < length xs" "p (xs ! i)" "\<not> p y"
  shows "length (filter p (xs[i := y])) < length (filter p xs)"
proof -
  have "filter p (xs[i := y]) = filter p (take i xs) @ filter p (drop (Suc i) xs)"
    using assms by (simp add: upd_conv_take_nth_drop)
  moreover have "filter p xs = filter p (take i xs) @ xs ! i # filter p (drop (Suc i) xs)"
    using assms by (subst id_take_nth_drop[OF assms(1)]) simp
  ultimately show ?thesis by simp
qed

lemma sum_list_update_less:
  fixes f :: "'a \<Rightarrow> nat"
  assumes "i < length xs" "f y < f (xs ! i)"
  shows "sum_list (map f (xs[i := y])) < sum_list (map f xs)"
proof -
  have "sum_list (map f (xs[i := y])) = sum_list (map f (take i xs)) + f y + sum_list (map f (drop (Suc i) xs))"
    using assms by (simp add: upd_conv_take_nth_drop)
  moreover have "sum_list (map f xs) = sum_list (map f (take i xs)) + f (xs ! i) + sum_list (map f (drop (Suc i) xs))"
    using assms by (subst id_take_nth_drop[OF assms(1)]) simp
  ultimately show ?thesis using assms(2) by simp
qed

lemma mark_as_inserted_cache:
  "mark_as_inserted_in_merkle_tree b = Inr (b', st) \<Longrightarrow> cached_tree_updates b' = cached_tree_updates b"
  by (auto simp: mark_as_inserted_in_merkle_tree_def advance_state_to_inserted_def Let_def result_simps
      split: if_splits)

lemma clear_cached_updates:
  "clear_cached_tree_update i b = Inr b' \<Longrightarrow> cached_tree_updates b' = (cached_tree_updates b)[i := empty_update]"
  by (auto simp: clear_cached_tree_update_def evict_cached_tree_update_def cache_tree_update_def result_simps
      split: if_splits)

lemma append_root_frame:
  "append_root r t = Inr t' \<Longrightarrow> batches t' = batches t \<and> pending_batch_index t' = pending_batch_index t"
  by (auto simp: append_root_def Let_def split: if_splits)

lemma watermark_frame:
  "advance_nullifier_pda_close_watermark st t = Inr t' \<Longrightarrow> batches t' = batches t"
  by (auto simp: advance_nullifier_pda_close_watermark_def result_simps split: if_splits)

lemma apply_one_less:
  assumes pb: "get_pending_batch t = Inr b" and cu: "cached_tree_update_at b zi = Some cu"
    and ap: "apply_one zi cu t = Inr t'"
  shows "num_cached t' < num_cached t"
proof -
  let ?i = "pending_batch_index t"
  have i: "?i < length (batches t)" "batches t ! ?i = b"
    using pb by (auto simp: get_pending_batch_def result_simps)
  have z: "zi < length (cached_tree_updates b)" "is_occupied (cached_tree_updates b ! zi)"
    using cu by (auto simp: cached_tree_update_at_def result_simps split: option.splits if_splits)
  let ?t1 = "t\<lparr>nt_next_index := wrapping_add (nt_next_index t) (nt_zkp_batch_size t),
               sequence_number := wrapping_add (sequence_number t) 1\<rparr>"
  obtain t2 b0 b1 st b2 t3 where s: "append_root (new_root cu) ?t1 = Inr t2"
    "get_pending_batch t2 = Inr b0" "mark_as_inserted_in_merkle_tree b0 = Inr (b1, st)"
    "clear_cached_tree_update zi b1 = Inr b2"
    "advance_nullifier_pda_close_watermark st (set_pending_batch b2 t2) = Inr t3"
    "t' = increment_pending_batch_index_if_inserted st t3"
    using ap by (auto simp: apply_one_def Let_def result_simps split: if_splits)
  have t2: "batches t2 = batches t" "pending_batch_index t2 = ?i" using append_root_frame[OF s(1)] by auto
  then have b0: "b0 = b" using s(2) pb by (simp add: get_pending_batch_def)
  have upd: "cached_tree_updates b2 = (cached_tree_updates b)[zi := empty_update]"
    using mark_as_inserted_cache[OF s(3)] clear_cached_updates[OF s(4)] b0 by simp
  have t3: "batches t3 = (batches t)[?i := b2]"
    using watermark_frame[OF s(5)] t2 by (simp add: set_pending_batch_def)
  have bs: "batches t' = (batches t)[?i := b2]"
    using s(6) t3 by (simp add: increment_pending_batch_index_if_inserted_def)
  have "\<not> is_occupied empty_update" by (simp add: is_occupied_def empty_update_def)
  then show ?thesis
    unfolding num_cached_def bs using i upd filter_update_less[where p = is_occupied, OF z] by (intro sum_list_update_less) simp_all
qed

function apply_cached_loop :: "bytes \<Rightarrow> nullifier_tree_update_event option \<Rightarrow> nullifier_tree
    \<Rightarrow> (nullifier_tree \<times> nullifier_tree_update_event option) ntres" where
  "apply_cached_loop pubkey ev t =
    rbind (get_pending_batch t) (\<lambda>b.
      let zi = num_inserted_zkp_batches b in
      case cached_tree_update_at b zi of
        None \<Rightarrow> Inr (t, ev)
      | Some cu \<Rightarrow>
          rbind (ok_or (nt_get_root t) InvalidIndex) (\<lambda>current_root.
            if old_root cu \<noteq> current_root
            then rbind (evict_cached_tree_update zi b) (\<lambda>b'. Inr (set_pending_batch b' t, ev))
            else rbind (apply_one zi cu t) (\<lambda>t'.
                   apply_cached_loop pubkey (Some (record_update pubkey zi cu t t' ev)) t')))"
  by pat_completeness auto
termination
  by (relation "measure (\<lambda>(_, _, t). num_cached t)") (auto dest: apply_one_less)

declare apply_cached_loop.simps [simp del]

definition apply_cached_tree_updates :: "bytes \<Rightarrow> nullifier_tree
    \<Rightarrow> (nullifier_tree \<times> nullifier_tree_update_event option) ntres" where
  "apply_cached_tree_updates pubkey t = apply_cached_loop pubkey None t"

definition update_tree_from_queue :: "hash_fn \<Rightarrow> groth16 \<Rightarrow> bytes \<Rightarrow> batch_nullify_inputs \<Rightarrow> nullifier_tree
    \<Rightarrow> (nullifier_tree \<times> nullifier_tree_update_event option) ntres" where
  "update_tree_from_queue P G pubkey d t =
    (if \<not> is_canonical_bn254_scalar_be (in_old_root d) \<or> \<not> is_canonical_bn254_scalar_be (in_new_root d)
     then Inl NonCanonicalFieldElement
     else rbind (verify_proof_cache_update P G d t) (\<lambda>(t', cached).
       if \<not> cached then Inr (t', None) else apply_cached_tree_updates pubkey t'))"

end
