(* ===== verification/Utxo_Tree.thy ===== *)
theory Utxo_Tree
  imports Hasher Root_Ring
begin

text \<open>
  The append-only UTXO tree, \<open>program-libs/tree/src/smt.rs\<close>.  The account
  keeps, per level, the latest left node (\<open>subtrees\<close>), the current root and a
  ring of recent roots.  \<open>append_batch\<close> walks each leaf up the levels and
  computes a root only for the last leaf of a batch.  The main result is a
  refinement: whatever batches the leaves arrive in, the stored root is the root
  of the binary tree over all leaves appended so far, padded with zero leaves.
\<close>

datatype tree_error =
    InvalidBufferSize | HeightTooLarge | Deserialize | NullifierInit | AlreadyInitialized
  | InvalidOwner | NotWritable | InvalidDiscriminator | Paused | InvalidRootIndex | Borrowed
  | TreeIsFull | InvalidUpdateSlot | InvalidCapacity | FeeOverflow | FeeTooHigh | HashFailed

definition ROOT_HISTORY_CAPACITY :: nat where "ROOT_HISTORY_CAPACITY = 500"

text \<open>
  \<open>UtxoTreeLayout<HEIGHT>\<close>: the const parameter is the length of \<open>subtrees\<close>.
  \<open>next_index\<close>, stored as eight little-endian bytes, is its value.
\<close>

record utxo_tree =
  utxo_next_index :: nat
  utxo_root :: bytes
  root_history_cursor :: nat
  root_history_len :: nat
  root_history_capacity :: nat
  subtrees_len :: nat
  last_update_slot :: nat
  subtrees :: "bytes list"
  root_history :: "bytes list"

definition tree_height :: "utxo_tree \<Rightarrow> nat" where
  "tree_height t = length (subtrees t)"

definition utxo_capacity :: "utxo_tree \<Rightarrow> nat" where
  "utxo_capacity t = 2 ^ tree_height t"

text \<open>Element-wise copy of the leading entries, as \<open>iter_mut().zip(..)\<close> does.\<close>

fun copy_zip :: "'a list \<Rightarrow> 'a list \<Rightarrow> 'a list" where
  "copy_zip (d # ds) (s # ss) = s # copy_zip ds ss"
| "copy_zip ds _ = ds"

definition utxo_init :: "nat \<Rightarrow> utxo_tree \<Rightarrow> utxo_tree \<times> (tree_error, unit) result" where
  "utxo_init height t =
    (if height \<noteq> tree_height t \<or> 256 \<le> height then (t, Inl HeightTooLarge)
     else if u16_limit \<le> ROOT_HISTORY_CAPACITY then (t, Inl InvalidCapacity)
     else case get ZERO_BYTES height of
       None \<Rightarrow> (t, Inl HeightTooLarge)
     | Some empty_root \<Rightarrow>
        (t\<lparr>utxo_next_index := 0, utxo_root := empty_root, root_history_cursor := 0, root_history_len := 1,
           root_history_capacity := ROOT_HISTORY_CAPACITY, subtrees_len := height,
           last_update_slot := 0, subtrees := copy_zip (subtrees t) ZERO_BYTES,
           root_history := (root_history t)[0 := empty_root]\<rparr>, Inr ()))"

definition push_root :: "bytes \<Rightarrow> nat \<Rightarrow> bool \<Rightarrow> utxo_tree \<Rightarrow> utxo_tree" where
  "push_root r slot is_first_update t =
    (let capacity = length (root_history t); cursor = root_history_cursor t in
     if \<not> is_first_update \<and> slot = last_update_slot t
     then t\<lparr>root_history := (root_history t)[cursor := r]\<rparr>
     else let next = (cursor + 1) mod capacity;
              next_len = min (root_history_len t + 1) capacity in
       t\<lparr>root_history := (root_history t)[next := r], root_history_cursor := next,
          root_history_len := next_len, last_update_slot := slot\<rparr>)"

text \<open>
  The inner loop of \<open>append_batch\<close> over the zipped levels: the new subtrees and
  the hash reached, or the failure of a hash with the subtrees written so far.
\<close>

fun append_walk :: "hash_fn \<Rightarrow> bool \<Rightarrow> nat \<Rightarrow> bytes \<Rightarrow> bytes list \<Rightarrow> bytes list
    \<Rightarrow> bytes list \<times> (tree_error, bytes) result" where
  "append_walk P is_last current_index h (s # ss) (z # zs) =
    (if even current_index then
       if \<not> is_last then (h # ss, Inr h)
       else (case P [h, z] of
               Inl _ \<Rightarrow> (h # ss, Inl HashFailed)
             | Inr h' \<Rightarrow> apfst (Cons h) (append_walk P is_last (current_index div 2) h' ss zs))
     else (case P [s, h] of
             Inl _ \<Rightarrow> (s # ss, Inl HashFailed)
           | Inr h' \<Rightarrow> apfst (Cons s) (append_walk P is_last (current_index div 2) h' ss zs)))"
| "append_walk P is_last current_index h ss _ = (ss, Inr h)"

text \<open>The outer loop of \<open>append_batch\<close>; leaves appended before an error stay appended.\<close>

fun append_leaves :: "hash_fn \<Rightarrow> bool \<Rightarrow> nat \<Rightarrow> utxo_tree \<Rightarrow> bytes list
    \<Rightarrow> utxo_tree \<times> (tree_error, unit) result" where
  "append_leaves P is_first_update slot t [] = (t, Inr ())"
| "append_leaves P is_first_update slot t (leaf # leaves) =
    (if utxo_capacity t \<le> utxo_next_index t then (t, Inl TreeIsFull)
     else let is_last = (leaves = []) in
       case append_walk P is_last (utxo_next_index t) leaf (subtrees t) ZERO_BYTES of
         (ss, Inl e) \<Rightarrow> (t\<lparr>subtrees := ss\<rparr>, Inl e)
       | (ss, Inr h) \<Rightarrow>
          let t1 = t\<lparr>subtrees := ss\<rparr>;
              t2 = (if is_last then push_root h slot is_first_update (t1\<lparr>utxo_root := h\<rparr>) else t1)
          in append_leaves P is_first_update slot (t2\<lparr>utxo_next_index := wrapping_add (utxo_next_index t2) 1\<rparr>) leaves)"

definition append_batch :: "hash_fn \<Rightarrow> bytes list \<Rightarrow> nat \<Rightarrow> utxo_tree
    \<Rightarrow> utxo_tree \<times> (tree_error, unit) result" where
  "append_batch P leaves slot t =
    (let is_first_update = (utxo_next_index t = 0) in
     if leaves \<noteq> [] \<and> \<not> is_first_update \<and> slot < last_update_slot t
     then (t, Inl InvalidUpdateSlot)
     else append_leaves P is_first_update slot t leaves)"

definition utxo_append :: "hash_fn \<Rightarrow> bytes \<Rightarrow> nat \<Rightarrow> utxo_tree
    \<Rightarrow> utxo_tree \<times> (tree_error, unit) result" where
  "utxo_append P leaf slot t = append_batch P [leaf] slot t"

definition current_root_index :: "utxo_tree \<Rightarrow> nat" where
  "current_root_index t = root_history_cursor t"

definition root_by_index :: "utxo_tree \<Rightarrow> nat \<Rightarrow> (tree_error, bytes) result" where
  "root_by_index t index =
    (let capacity = length (root_history t); len = root_history_len t in
     if len = 0 \<or> capacity \<le> index then Inl InvalidRootIndex
     else if len < capacity \<and> len \<le> index then Inl InvalidRootIndex
     else rbind (ok_or (get (root_history t) index) InvalidRootIndex) (\<lambda>r.
       if \<forall>b \<in> set r. b = 0 then Inl InvalidRootIndex else Inr r))"


section \<open>Specification: the padded binary tree\<close>

text \<open>
  \<open>tree_root h zs n xs\<close> is the root of the tree of height \<open>n\<close> over the
  leaves \<open>xs\<close>, with \<open>zs ! k\<close> the root of an empty subtree of height \<open>k\<close>.
\<close>

fun tree_root :: "(bytes \<Rightarrow> bytes \<Rightarrow> bytes) \<Rightarrow> bytes list \<Rightarrow> nat \<Rightarrow> bytes list \<Rightarrow> bytes" where
  "tree_root h zs 0 xs = (if xs = [] then zs ! 0 else hd xs)"
| "tree_root h zs (Suc n) xs =
    (if xs = [] then zs ! Suc n
     else h (tree_root h zs n (take (2 ^ n) xs)) (tree_root h zs n (drop (2 ^ n) xs)))"

text \<open>The same root over an explicit list of \<open>2 ^ n\<close> leaves.\<close>

fun full_root :: "(bytes \<Rightarrow> bytes \<Rightarrow> bytes) \<Rightarrow> nat \<Rightarrow> bytes list \<Rightarrow> bytes" where
  "full_root h 0 xs = hd xs"
| "full_root h (Suc n) xs = h (full_root h n (take (2 ^ n) xs)) (full_root h n (drop (2 ^ n) xs))"

definition node_hash :: "hash_fn \<Rightarrow> bytes \<Rightarrow> bytes \<Rightarrow> bytes" where
  "node_hash P a b = (case P [a, b] of Inr y \<Rightarrow> y | Inl _ \<Rightarrow> [])"

lemma tree_root_is_full_root:
  assumes "length xs \<le> 2 ^ n" "\<forall>k < n. h (zs ! k) (zs ! k) = zs ! Suc k"
  shows "tree_root h zs n xs = full_root h n (xs @ replicate (2 ^ n - length xs) (zs ! 0))"
proof -
  have empty: "full_root h m (replicate (2 ^ m) (zs ! 0)) = zs ! m" if "m \<le> n" for m
    using that
  proof (induction m)
    case (Suc m)
    have "(2::nat) ^ Suc m - 2 ^ m = 2 ^ m" by simp
    then show ?case using Suc assms(2) by (simp add: min_def)
  qed simp
  show ?thesis
    using assms(1) empty
  proof (induction n arbitrary: xs)
    case 0
    then show ?case by (cases xs) auto
  next
    case (Suc n)
    show ?case
    proof (cases "xs = []")
      case True
      then show ?thesis using Suc.prems(2)[of "Suc n"] by simp
    next
      case False
      let ?p = "replicate (2 ^ Suc n - length xs) (zs ! 0)"
      have l: "take (2 ^ n) (xs @ ?p) = take (2 ^ n) xs @ replicate (2 ^ n - length (take (2 ^ n) xs)) (zs ! 0)"
        using Suc.prems(1) by (simp add: min_def)
      have r: "drop (2 ^ n) (xs @ ?p) = drop (2 ^ n) xs @ replicate (2 ^ n - length (drop (2 ^ n) xs)) (zs ! 0)"
        using Suc.prems(1) by (simp add: min_def)
      have "tree_root h zs n (take (2 ^ n) xs) = full_root h n (take (2 ^ n) (xs @ ?p))"
        unfolding l using Suc.prems by (intro Suc.IH) auto
      moreover have "tree_root h zs n (drop (2 ^ n) xs) = full_root h n (drop (2 ^ n) (xs @ ?p))"
        unfolding r using Suc.prems by (intro Suc.IH) auto
      ultimately show ?thesis using False by simp
    qed
  qed
qed


section \<open>Climbing level by level\<close>

text \<open>
  One level of the tree seen from below: \<open>pair_up\<close> hashes neighbours and pads an
  odd last node with the zero of the level, \<open>pairs\<close> keeps only the complete
  pairs, and \<open>level_root\<close> climbs through a list of level zeros.
\<close>

fun pair_up :: "(bytes \<Rightarrow> bytes \<Rightarrow> bytes) \<Rightarrow> bytes \<Rightarrow> bytes list \<Rightarrow> bytes list" where
  "pair_up h z [] = []"
| "pair_up h z [x] = [h x z]"
| "pair_up h z (x # y # xs) = h x y # pair_up h z xs"

fun pairs :: "(bytes \<Rightarrow> bytes \<Rightarrow> bytes) \<Rightarrow> bytes list \<Rightarrow> bytes list" where
  "pairs h (x # y # xs) = h x y # pairs h xs"
| "pairs h _ = []"

fun level_root :: "(bytes \<Rightarrow> bytes \<Rightarrow> bytes) \<Rightarrow> bytes list \<Rightarrow> bytes list \<Rightarrow> bytes" where
  "level_root h [] xs = hd xs"
| "level_root h (z # zs) xs = level_root h zs (pair_up h z xs)"

text \<open>
  The subtrees represent the complete nodes of each level: where a level has an
  odd number of them, the stored node is the last one, waiting for its sibling.
\<close>

fun frontier :: "(bytes \<Rightarrow> bytes \<Rightarrow> bytes) \<Rightarrow> bytes list \<Rightarrow> bytes list \<Rightarrow> bool" where
  "frontier h [] xs = True"
| "frontier h (s # ss) xs = ((odd (length xs) \<longrightarrow> s = last xs) \<and> frontier h ss (pairs h xs))"

lemma length_pairs [simp]: "length (pairs h xs) = length xs div 2"
  by (induction h xs rule: pairs.induct) auto

lemma length_pair_up: "length (pair_up h z xs) = (length xs + 1) div 2"
  by (induction h z xs rule: pair_up.induct) auto

lemma pairs_snoc_even: "even (length xs) \<Longrightarrow> pairs h (xs @ [x]) = pairs h xs"
  by (induction h xs rule: pairs.induct) auto

lemma pairs_snoc_odd: "odd (length xs) \<Longrightarrow> pairs h (xs @ [x]) = pairs h xs @ [h (last xs) x]"
  by (induction h xs rule: pairs.induct) auto

lemma pair_up_snoc_even: "even (length xs) \<Longrightarrow> pair_up h z (xs @ [x]) = pairs h xs @ [h x z]"
  by (induction h xs rule: pairs.induct) auto

lemma pair_up_snoc_odd: "odd (length xs) \<Longrightarrow> pair_up h z (xs @ [x]) = pairs h xs @ [h (last xs) x]"
  by (induction h xs rule: pairs.induct) auto

lemma take_pair_up: "take n (pair_up h z xs) = pair_up h z (take (2 * n) xs)"
proof (induction h z xs arbitrary: n rule: pair_up.induct)
  case (2 h z x)
  then show ?case by (cases n) auto
next
  case (3 h z x y xs)
  then show ?case by (cases n) auto
qed simp

lemma drop_pair_up: "drop n (pair_up h z xs) = pair_up h z (drop (2 * n) xs)"
proof (induction h z xs arbitrary: n rule: pair_up.induct)
  case (2 h z x)
  then show ?case by (cases n) auto
next
  case (3 h z x y xs)
  then show ?case by (cases n) auto
qed simp

lemma pair_up_eq_Nil [simp]: "pair_up h z xs = [] \<longleftrightarrow> xs = []"
  by (cases "(h, z, xs)" rule: pair_up.cases) auto

lemma tree_root_step:
  assumes "length xs \<le> 2 ^ Suc n"
  shows "tree_root h (z # zs) (Suc n) xs = tree_root h zs n (pair_up h z xs)"
  using assms
proof (induction n arbitrary: xs)
  case 0
  then show ?case
    by (cases "(h, z, xs)" rule: pair_up.cases) auto
next
  case (Suc n)
  have "tree_root h (z # zs) (Suc n) (take (2 ^ Suc n) xs) = tree_root h zs n (pair_up h z (take (2 ^ Suc n) xs))"
    by (rule Suc.IH) simp
  moreover have "tree_root h (z # zs) (Suc n) (drop (2 ^ Suc n) xs) = tree_root h zs n (pair_up h z (drop (2 ^ Suc n) xs))"
    by (rule Suc.IH) (use Suc.prems in simp)
  ultimately show ?case
    using take_pair_up[of "2 ^ n" h z xs] drop_pair_up[of "2 ^ n" h z xs]
    by (simp only: tree_root.simps pair_up_eq_Nil nth_Cons_Suc power_Suc)
qed

lemma tree_root_level_root:
  assumes "xs \<noteq> []" "length xs \<le> 2 ^ length zs"
  shows "tree_root h (zs @ ys) (length zs) xs = level_root h zs xs"
  using assms
proof (induction zs arbitrary: xs)
  case (Cons z zs)
  have "length (pair_up h z xs) \<le> 2 ^ length zs"
    using Cons.prems(2) by (simp add: length_pair_up)
  then have "tree_root h (zs @ ys) (length zs) (pair_up h z xs) = level_root h zs (pair_up h z xs)"
    using Cons.prems(1) by (intro Cons.IH) simp_all
  moreover have "tree_root h (z # (zs @ ys)) (Suc (length zs)) xs = tree_root h (zs @ ys) (length zs) (pair_up h z xs)"
    by (rule tree_root_step) (use Cons.prems(2) in \<open>simp only: list.size add_Suc_right add_0_right\<close>)
  ultimately show ?case by (simp only: append_Cons list.size add_Suc_right add_0_right level_root.simps)
qed simp


section \<open>The walk keeps the frontier and reaches the root\<close>

lemma node_hash_ok:
  assumes "poseidon_ok P" "field_element a" "field_element b"
  shows "P [a, b] = Inr (node_hash P a b)" "field_element (node_hash P a b)"
proof -
  obtain y where y: "P [a, b] = Inr y" "field_element y"
    by (rule poseidon_okD[OF assms(1), of "[a, b]"]) (use assms(2,3) in auto)
  then show "P [a, b] = Inr (node_hash P a b)" "field_element (node_hash P a b)"
    by (simp_all add: node_hash_def)
qed

lemma field_element_pairs:
  "poseidon_ok P \<Longrightarrow> \<forall>x \<in> set xs. field_element x \<Longrightarrow> \<forall>x \<in> set (pairs (node_hash P) xs). field_element x"
proof (induction "node_hash P" xs rule: pairs.induct)
  case (1 x y xs)
  then show ?case using node_hash_ok(2)[of P x y] by auto
qed auto

text \<open>A leaf that is not the last of its batch stops at the first even level.\<close>

lemma append_walk_inner:
  assumes "poseidon_ok P" "frontier (node_hash P) ss xs" "length ss \<le> length zs"
    "\<forall>x \<in> set xs. field_element x" "\<forall>s \<in> set ss. field_element s" "field_element x"
  shows "\<exists>ss' y. append_walk P False (length xs) x ss zs = (ss', Inr y) \<and> length ss' = length ss
    \<and> frontier (node_hash P) ss' (xs @ [x]) \<and> (\<forall>s \<in> set ss'. field_element s)"
  using assms(2-)
proof (induction ss arbitrary: xs zs x)
  case (Cons s ss)
  obtain z zs' where zs: "zs = z # zs'" using Cons.prems(2) by (cases zs) auto
  show ?case
  proof (cases "even (length xs)")
    case True
    then show ?thesis using Cons.prems zs by (simp add: pairs_snoc_even)
  next
    case False
    then have s: "s = last xs" and "xs \<noteq> []" using Cons.prems(1) by auto
    then have fs: "field_element s" using Cons.prems(3) by simp
    let ?y = "node_hash P s x"
    note y = node_hash_ok[OF assms(1) fs Cons.prems(5)]
    obtain ss' r where IH: "append_walk P False (length (pairs (node_hash P) xs)) ?y ss zs' = (ss', Inr r)"
      "length ss' = length ss" "frontier (node_hash P) ss' (pairs (node_hash P) xs @ [?y])"
      "\<forall>s \<in> set ss'. field_element s"
      using Cons.IH[of "pairs (node_hash P) xs" zs' ?y] Cons.prems y(2) zs
        field_element_pairs[OF assms(1) Cons.prems(3)] by auto
    then show ?thesis
      using False y zs s fs by (simp add: pairs_snoc_odd)
  qed
qed auto

text \<open>
  The last leaf climbs to the top.  Once the node it extends is incomplete
  (\<open>complete = False\<close>), the stored nodes only change where they carry no
  obligation.
\<close>

lemma append_walk_last:
  assumes "poseidon_ok P" "frontier (node_hash P) ss xs" "length ss \<le> length zs"
    "\<forall>x \<in> set xs. field_element x" "\<forall>s \<in> set ss. field_element s" "\<forall>z \<in> set zs. field_element z"
    "field_element x" "length xs < 2 ^ length ss"
  shows "\<exists>ss'. append_walk P True (length xs) x ss zs
      = (ss', Inr (level_root (node_hash P) (take (length ss) zs) (xs @ [x])))
    \<and> length ss' = length ss \<and> (\<forall>s \<in> set ss'. field_element s)
    \<and> frontier (node_hash P) ss' (if complete then xs @ [x] else xs)"
  using assms(2-)
proof (induction ss arbitrary: xs zs x complete)
  case Nil
  then show ?case by simp
next
  case (Cons s ss)
  obtain z zs' where zs: "zs = z # zs'" using Cons.prems(2) by (cases zs) auto
  let ?ps = "pairs (node_hash P) xs"
  have ps: "\<forall>x \<in> set ?ps. field_element x" "length ?ps < 2 ^ length ss"
    using field_element_pairs[OF assms(1) Cons.prems(3)] Cons.prems(7) by auto
  show ?case
  proof (cases "even (length xs)")
    case True
    let ?y = "node_hash P x z"
    have y: "P [x, z] = Inr ?y" "field_element ?y"
      using node_hash_ok[OF assms(1)] Cons.prems(5,6) zs by auto
    obtain ss' where IH: "append_walk P True (length ?ps) ?y ss zs'
        = (ss', Inr (level_root (node_hash P) (take (length ss) zs') (?ps @ [?y])))"
      "length ss' = length ss" "\<forall>s \<in> set ss'. field_element s" "frontier (node_hash P) ss' ?ps"
      using Cons.IH[of ?ps zs' ?y False] Cons.prems y(2) zs ps by auto
    then show ?thesis
      using True y zs Cons.prems(6) by (simp add: pairs_snoc_even pair_up_snoc_even)
  next
    case False
    then have s: "s = last xs" and "xs \<noteq> []" using Cons.prems(1) by auto
    then have fs: "field_element s" using Cons.prems(3) by simp
    let ?y = "node_hash P s x"
    note y = node_hash_ok[OF assms(1) fs Cons.prems(6)]
    obtain ss' where IH: "append_walk P True (length ?ps) ?y ss zs'
        = (ss', Inr (level_root (node_hash P) (take (length ss) zs') (?ps @ [?y])))"
      "length ss' = length ss" "\<forall>s \<in> set ss'. field_element s"
      "frontier (node_hash P) ss' (if complete then ?ps @ [?y] else ?ps)"
      using Cons.IH[of ?ps zs' ?y complete] Cons.prems y(2) zs ps by auto
    then show ?thesis
      using False y zs s fs by (cases complete) (simp_all add: pairs_snoc_odd pair_up_snoc_odd)
  qed
qed


section \<open>Batches of leaves\<close>

text \<open>
  \<open>utxo_core P t xs\<close>: the leaves \<open>xs\<close> are in the tree, level by level.
  \<open>utxo_repr P t xs log\<close> adds the current root and the ring of recorded roots.
\<close>

definition utxo_core :: "hash_fn \<Rightarrow> utxo_tree \<Rightarrow> bytes list \<Rightarrow> bool" where
  "utxo_core P t xs \<longleftrightarrow>
     utxo_next_index t = length xs \<and> length xs \<le> utxo_capacity t \<and> tree_height t \<le> 40 \<and>
     frontier (node_hash P) (subtrees t) xs \<and>
     (\<forall>x \<in> set xs. field_element x) \<and> (\<forall>s \<in> set (subtrees t). field_element s)"

definition spec_root :: "hash_fn \<Rightarrow> utxo_tree \<Rightarrow> bytes list \<Rightarrow> bytes" where
  "spec_root P t xs = tree_root (node_hash P) ZERO_BYTES (tree_height t) xs"

definition utxo_ring :: "utxo_tree \<Rightarrow> bytes list \<Rightarrow> bool" where
  "utxo_ring t log \<longleftrightarrow>
     ring_repr ROOT_HISTORY_CAPACITY (root_history_cursor t) (root_history t) log \<and>
     root_history_len t = min (length log) ROOT_HISTORY_CAPACITY"

definition utxo_repr :: "hash_fn \<Rightarrow> utxo_tree \<Rightarrow> bytes list \<Rightarrow> bytes list \<Rightarrow> bool" where
  "utxo_repr P t xs log \<longleftrightarrow>
     utxo_core P t xs \<and> utxo_root t = spec_root P t xs \<and> utxo_ring t log \<and> last log = utxo_root t"

lemma push_root_frame [simp]:
  "subtrees (push_root r slot f t) = subtrees t"
  "utxo_next_index (push_root r slot f t) = utxo_next_index t"
  "utxo_root (push_root r slot f t) = utxo_root t"
  by (simp_all add: push_root_def Let_def)

lemma push_root_commute:
  "push_root r slot f (t\<lparr>subtrees := ss, utxo_root := x\<rparr>) = (push_root r slot f t)\<lparr>subtrees := ss, utxo_root := x\<rparr>"
  "push_root r slot f (t\<lparr>subtrees := ss, utxo_next_index := n\<rparr>)
     = (push_root r slot f t)\<lparr>subtrees := ss, utxo_next_index := n\<rparr>"
  by (simp_all add: push_root_def Let_def)

lemma spec_root_cong: "length (subtrees t) = length (subtrees t') \<Longrightarrow> spec_root P t = spec_root P t'"
  by (simp add: spec_root_def tree_height_def fun_eq_iff)

lemma core_index_ok: "utxo_core P t xs \<Longrightarrow> u64_ok (utxo_next_index t + 1)"
proof -
  assume c: "utxo_core P t xs"
  then have "length xs \<le> 2 ^ tree_height t" "tree_height t \<le> 40"
    by (auto simp: utxo_core_def utxo_capacity_def)
  moreover have "(2::nat) ^ tree_height t \<le> 2 ^ 40"
    using \<open>tree_height t \<le> 40\<close> by (intro power_increasing) auto
  ultimately have "length xs + 1 < u64_limit" by (simp add: u64_limit_def)
  then show ?thesis using c by (simp add: utxo_core_def)
qed

lemma zero_bytes_prefix:
  assumes "n \<le> 40"
  shows "ZERO_BYTES = take n ZERO_BYTES @ drop n ZERO_BYTES" "length (take n ZERO_BYTES) = n"
  using assms by (simp_all add: length_ZERO_BYTES)

lemma spec_root_snoc:
  assumes "tree_height t \<le> 40" "length xs < 2 ^ tree_height t"
  shows "spec_root P t (xs @ [x])
    = level_root (node_hash P) (take (tree_height t) ZERO_BYTES) (xs @ [x])"
proof -
  note z = zero_bytes_prefix[OF assms(1)]
  have "tree_root (node_hash P) (take (tree_height t) ZERO_BYTES @ drop (tree_height t) ZERO_BYTES)
      (length (take (tree_height t) ZERO_BYTES)) (xs @ [x])
    = level_root (node_hash P) (take (tree_height t) ZERO_BYTES) (xs @ [x])"
    by (rule tree_root_level_root) (use assms(2) z(2) in auto)
  then show ?thesis using z by (simp add: spec_root_def)
qed

lemma append_leaves_correct:
  assumes "poseidon_ok P" "utxo_core P t xs" "ls \<noteq> []" "\<forall>x \<in> set ls. field_element x"
    "length xs + length ls \<le> utxo_capacity t" "r = spec_root P t (xs @ ls)"
  shows "\<exists>ss. append_leaves P f slot t ls =
      ((push_root r slot f t)\<lparr>subtrees := ss, utxo_root := r, utxo_next_index := length (xs @ ls)\<rparr>, Inr ())
    \<and> length ss = length (subtrees t) \<and> frontier (node_hash P) ss (xs @ ls)
    \<and> (\<forall>s \<in> set ss. field_element s)"
  using assms(2-)
proof (induction ls arbitrary: t xs)
  case Nil
  then show ?case by simp
next
  case (Cons x ls)
  have core: "utxo_next_index t = length xs" "frontier (node_hash P) (subtrees t) xs"
    "\<forall>x \<in> set xs. field_element x" "\<forall>s \<in> set (subtrees t). field_element s" "tree_height t \<le> 40"
    using Cons.prems(1) by (auto simp: utxo_core_def)
  have room: "length xs < 2 ^ length (subtrees t)" "\<not> utxo_capacity t \<le> utxo_next_index t"
    using Cons.prems(4) core(1) by (auto simp: utxo_capacity_def tree_height_def)
  have zl: "length (subtrees t) \<le> length ZERO_BYTES"
    using core(5) by (simp add: length_ZERO_BYTES tree_height_def)
  have idx: "wrapping_add (length xs) 1 = length xs + 1"
    using core_index_ok[OF Cons.prems(1)] core(1) by simp
  have fx: "field_element x" using Cons.prems(3) by simp
  show ?case
  proof (cases ls)
    case Nil
    obtain ss where ss: "append_walk P True (length xs) x (subtrees t) ZERO_BYTES
        = (ss, Inr (level_root (node_hash P) (take (length (subtrees t)) ZERO_BYTES) (xs @ [x])))"
      "length ss = length (subtrees t)" "\<forall>s \<in> set ss. field_element s" "frontier (node_hash P) ss (xs @ [x])"
      using append_walk_last[OF assms(1) core(2) zl core(3,4) ZERO_BYTES_field_element fx room(1), of True]
      by auto
    have "level_root (node_hash P) (take (length (subtrees t)) ZERO_BYTES) (xs @ [x]) = r"
      using spec_root_snoc[of t xs P x] core(5) room(1) Cons.prems(5) Nil by (simp add: tree_height_def)
    then show ?thesis
      using ss room(2) core(1) Nil idx by (intro exI[of _ ss]) (simp add: push_root_commute)
  next
    case (Cons y ys)
    obtain ss z where ss: "append_walk P False (length xs) x (subtrees t) ZERO_BYTES = (ss, Inr z)"
      "length ss = length (subtrees t)" "frontier (node_hash P) ss (xs @ [x])" "\<forall>s \<in> set ss. field_element s"
      using append_walk_inner[OF assms(1) core(2) zl core(3,4) fx] by auto
    let ?t = "t\<lparr>subtrees := ss, utxo_next_index := length xs + 1\<rparr>"
    have step: "append_leaves P f slot t (x # ls) = append_leaves P f slot ?t ls"
      using ss(1) room(2) core(1) Cons idx by simp
    have "utxo_core P ?t (xs @ [x])"
      using ss core Cons.prems fx by (auto simp: utxo_core_def utxo_capacity_def tree_height_def)
    then show ?thesis
      using Cons.IH[of ?t "xs @ [x]"] Cons Cons.prems ss(2) step
      by (simp add: push_root_commute utxo_capacity_def spec_root_def tree_height_def)
  qed
qed

lemma push_root_ring:
  assumes "utxo_ring t log"
  shows "utxo_ring (push_root r slot f t)
    (if \<not> f \<and> slot = last_update_slot t then butlast log @ [r] else log @ [r])"
proof (cases "\<not> f \<and> slot = last_update_slot t")
  case True
  have "log \<noteq> []" using assms by (auto simp: utxo_ring_def ring_repr_def)
  then show ?thesis
    using assms True ring_repr_replace[of ROOT_HISTORY_CAPACITY "root_history_cursor t" "root_history t" log r]
    by (simp add: utxo_ring_def push_root_def Let_def)
next
  case False
  have "length (root_history t) = ROOT_HISTORY_CAPACITY"
    using assms by (auto simp: utxo_ring_def ring_repr_def)
  then show ?thesis
    using assms False ring_repr_push[of ROOT_HISTORY_CAPACITY "root_history_cursor t" "root_history t" log r]
    by (auto simp: utxo_ring_def push_root_def Let_def)
qed

lemma copy_zip_take: "length ds \<le> length ss \<Longrightarrow> copy_zip ds ss = take (length ds) ss"
  by (induction ds ss rule: copy_zip.induct) auto

lemma frontier_Nil [simp]: "frontier h ss []"
  by (induction ss) auto

lemma utxo_init_repr:
  assumes "height = tree_height t" "height \<le> 40" "length (root_history t) = ROOT_HISTORY_CAPACITY"
  shows "\<exists>t'. utxo_init height t = (t', Inr ()) \<and> tree_height t' = height
    \<and> utxo_repr P t' [] [ZERO_BYTES ! height]"
proof -
  have h: "get ZERO_BYTES height = Some (ZERO_BYTES ! height)"
    using assms(2) by (simp add: get_def length_ZERO_BYTES)
  have "\<forall>s \<in> set (copy_zip (subtrees t) ZERO_BYTES). field_element s"
    using assms(1,2) ZERO_BYTES_field_element
    by (auto simp: copy_zip_take length_ZERO_BYTES tree_height_def dest: in_set_takeD)
  moreover have "length (copy_zip (subtrees t) ZERO_BYTES) = height"
    using assms(1,2) by (simp add: copy_zip_take length_ZERO_BYTES tree_height_def)
  moreover have "tree_root (node_hash P) ZERO_BYTES height [] = ZERO_BYTES ! height"
    by (cases height) auto
  moreover have "ring_repr ROOT_HISTORY_CAPACITY 0 ((root_history t)[0 := ZERO_BYTES ! height]) [ZERO_BYTES ! height]"
    using assms(3) by (intro ring_repr_single) (auto simp: ROOT_HISTORY_CAPACITY_def)
  ultimately show ?thesis
    using assms h
    by (simp add: utxo_init_def utxo_repr_def utxo_core_def utxo_ring_def spec_root_def tree_height_def
        utxo_capacity_def u16_limit_def ROOT_HISTORY_CAPACITY_def)
qed

lemma append_batch_correct:
  assumes "poseidon_ok P" "utxo_repr P t xs log" "ls \<noteq> []" "\<forall>x \<in> set ls. field_element x"
    "length xs + length ls \<le> utxo_capacity t" "xs = [] \<or> last_update_slot t \<le> slot"
  shows "\<exists>t'. append_batch P ls slot t = (t', Inr ()) \<and> tree_height t' = tree_height t
    \<and> utxo_repr P t' (xs @ ls)
        (if xs \<noteq> [] \<and> slot = last_update_slot t then butlast log @ [spec_root P t (xs @ ls)]
         else log @ [spec_root P t (xs @ ls)])"
proof -
  let ?r = "spec_root P t (xs @ ls)" and ?f = "xs = []"
  have core: "utxo_core P t xs" and ring: "utxo_ring t log" using assms(2) by (auto simp: utxo_repr_def)
  have idx: "utxo_next_index t = length xs" using core by (simp add: utxo_core_def)
  obtain ss where ss: "append_leaves P ?f slot t ls =
      ((push_root ?r slot ?f t)\<lparr>subtrees := ss, utxo_root := ?r, utxo_next_index := length (xs @ ls)\<rparr>, Inr ())"
    "length ss = length (subtrees t)" "frontier (node_hash P) ss (xs @ ls)" "\<forall>s \<in> set ss. field_element s"
    using append_leaves_correct[OF assms(1) core assms(3-5) refl] by blast
  let ?t = "(push_root ?r slot ?f t)\<lparr>subtrees := ss, utxo_root := ?r, utxo_next_index := length (xs @ ls)\<rparr>"
  have "append_batch P ls slot t = (?t, Inr ())"
    using ss(1) assms(6) idx by (auto simp: append_batch_def Let_def)
  moreover have "utxo_core P ?t (xs @ ls)"
    using core ss(2-4) assms(4,5) by (auto simp: utxo_core_def utxo_capacity_def tree_height_def)
  moreover have "spec_root P ?t (xs @ ls) = ?r"
    using ss(2) by (simp add: spec_root_def tree_height_def)
  moreover have "utxo_ring ?t (if xs \<noteq> [] \<and> slot = last_update_slot t then butlast log @ [?r] else log @ [?r])"
    using push_root_ring[OF ring, of ?r slot ?f] by (simp add: utxo_ring_def)
  ultimately show ?thesis using ss(2) by (simp add: utxo_repr_def tree_height_def)
qed

text \<open>A batch that does not fit fills the tree and reports \<open>TreeIsFull\<close>.\<close>

lemma append_leaves_full:
  assumes "poseidon_ok P" "utxo_core P t xs" "\<forall>x \<in> set ls. field_element x"
    "utxo_capacity t < length xs + length ls"
  shows "\<exists>t'. append_leaves P f slot t ls = (t', Inl TreeIsFull) \<and> utxo_next_index t' = utxo_capacity t"
  using assms(2-)
proof (induction ls arbitrary: t xs)
  case Nil
  then show ?case by (simp add: utxo_core_def)
next
  case (Cons x ls)
  have core: "utxo_next_index t = length xs" "frontier (node_hash P) (subtrees t) xs" "length xs \<le> utxo_capacity t"
    "\<forall>x \<in> set xs. field_element x" "\<forall>s \<in> set (subtrees t). field_element s" "tree_height t \<le> 40"
    using Cons.prems(1) by (auto simp: utxo_core_def)
  have fx: "field_element x" using Cons.prems(2) by simp
  have zl: "length (subtrees t) \<le> length ZERO_BYTES"
    using core(6) by (simp add: length_ZERO_BYTES tree_height_def)
  show ?case
  proof (cases "utxo_capacity t \<le> length xs")
    case True
    then show ?thesis using core(1,3) by simp
  next
    case False
    then have ne: "ls \<noteq> []" using Cons.prems(3) by auto
    obtain ss z where ss: "append_walk P False (length xs) x (subtrees t) ZERO_BYTES = (ss, Inr z)"
      "length ss = length (subtrees t)" "frontier (node_hash P) ss (xs @ [x])" "\<forall>s \<in> set ss. field_element s"
      using append_walk_inner[OF assms(1) core(2) zl core(4,5) fx] by auto
    let ?t = "t\<lparr>subtrees := ss, utxo_next_index := length xs + 1\<rparr>"
    have idx: "wrapping_add (length xs) 1 = length xs + 1"
      using core_index_ok[OF Cons.prems(1)] core(1) by simp
    have "append_leaves P f slot t (x # ls) = append_leaves P f slot ?t ls"
      using ss(1) False core(1) ne idx by simp
    moreover have cap: "utxo_capacity ?t = utxo_capacity t"
      using ss(2) by (simp add: utxo_capacity_def tree_height_def)
    moreover have "utxo_core P ?t (xs @ [x])"
      using ss core False fx cap by (auto simp: utxo_core_def tree_height_def)
    ultimately show ?thesis using Cons.IH[of ?t "xs @ [x]"] Cons.prems by auto
  qed
qed

lemma append_batch_full:
  assumes "poseidon_ok P" "utxo_core P t xs" "\<forall>x \<in> set ls. field_element x"
    "utxo_capacity t < length xs + length ls" "xs = [] \<or> last_update_slot t \<le> slot"
  shows "\<exists>t'. append_batch P ls slot t = (t', Inl TreeIsFull) \<and> utxo_next_index t' = utxo_capacity t"
proof -
  have "utxo_next_index t = length xs" using assms(2) by (simp add: utxo_core_def)
  then show ?thesis
    using append_leaves_full[OF assms(1-4)] assms(5) by (auto simp: append_batch_def Let_def)
qed

lemma append_batch_stale_slot:
  "ls \<noteq> [] \<Longrightarrow> utxo_next_index t \<noteq> 0 \<Longrightarrow> slot < last_update_slot t \<Longrightarrow>
     append_batch P ls slot t = (t, Inl InvalidUpdateSlot)"
  by (simp add: append_batch_def)


section \<open>The recorded roots\<close>

definition root_lookup :: "utxo_tree \<Rightarrow> nat \<Rightarrow> bytes option" where
  "root_lookup t i = (case root_by_index t i of Inr r \<Rightarrow> Some r | Inl _ \<Rightarrow> None)"

definition nonzero_root :: "bytes \<Rightarrow> bool" where
  "nonzero_root r = (\<exists>b \<in> set r. b \<noteq> 0)"

definition push_root_new_slot :: "utxo_tree \<Rightarrow> bytes \<Rightarrow> utxo_tree" where
  "push_root_new_slot t r = push_root r (last_update_slot t + 1) False t"

lemma root_by_index_ring:
  assumes "utxo_ring t log" "root_by_index t i = Inr r"
  shows "\<exists>k < length log. length log \<le> k + ROOT_HISTORY_CAPACITY \<and> k mod ROOT_HISTORY_CAPACITY = i \<and> log ! k = r"
proof -
  have ring: "ring_repr ROOT_HISTORY_CAPACITY (root_history_cursor t) (root_history t) log"
    and len: "root_history_len t = min (length log) ROOT_HISTORY_CAPACITY"
    and cap: "length (root_history t) = ROOT_HISTORY_CAPACITY"
    using assms(1) by (auto simp: utxo_ring_def ring_repr_def)
  have i: "i < ROOT_HISTORY_CAPACITY" "ROOT_HISTORY_CAPACITY \<le> length log \<or> i < length log"
    "root_history t ! i = r"
    using assms(2) len cap by (auto simp: root_by_index_def Let_def result_simps split: if_splits)
  show ?thesis by (rule ring_repr_slot[OF ring i(1,2)]) (use i(3) in auto)
qed

lemma root_by_index_live:
  assumes "utxo_ring t log" "k < length log" "length log \<le> k + ROOT_HISTORY_CAPACITY" "nonzero_root (log ! k)"
  shows "root_by_index t (k mod ROOT_HISTORY_CAPACITY) = Inr (log ! k)"
proof -
  have cap: "length (root_history t) = ROOT_HISTORY_CAPACITY" "0 < ROOT_HISTORY_CAPACITY"
    and len: "root_history_len t = min (length log) ROOT_HISTORY_CAPACITY"
    and slot: "root_history t ! (k mod ROOT_HISTORY_CAPACITY) = log ! k"
    using assms(1-3) by (auto simp: utxo_ring_def ring_repr_def)
  let ?i = "k mod ROOT_HISTORY_CAPACITY"
  have i: "?i < ROOT_HISTORY_CAPACITY" using cap(2) by simp
  have "\<not> (root_history_len t < ROOT_HISTORY_CAPACITY \<and> root_history_len t \<le> ?i)"
    using assms(2) len mod_less_eq_dividend[of k ROOT_HISTORY_CAPACITY] by auto
  moreover have "root_history_len t \<noteq> 0" using len cap(2) assms(2) by auto
  moreover have "\<not> (\<forall>b \<in> set (log ! k). b = 0)" using assms(4) by (auto simp: nonzero_root_def)
  ultimately show ?thesis
    using cap(1) slot i by (simp add: root_by_index_def Let_def get_def)
qed

interpretation utxo_roots: root_ring ROOT_HISTORY_CAPACITY push_root_new_slot root_lookup
  root_history_cursor nonzero_root utxo_ring
proof unfold_locales
  fix t log r assume "utxo_ring t log"
  from push_root_ring[OF this, of r "last_update_slot t + 1" False]
  show "utxo_ring (push_root_new_slot t r) (log @ [r])" by (simp add: push_root_new_slot_def)
next
  fix t log assume "utxo_ring t log"
  then show "log \<noteq> [] \<and> root_history_cursor t = (length log - 1) mod ROOT_HISTORY_CAPACITY"
    by (simp add: utxo_ring_def ring_repr_def)
next
  fix t log i r assume "utxo_ring t log" "root_lookup t i = Some r"
  then show "\<exists>k < length log. length log \<le> k + ROOT_HISTORY_CAPACITY
      \<and> k mod ROOT_HISTORY_CAPACITY = i \<and> log ! k = r"
    by (intro root_by_index_ring) (auto simp: root_lookup_def split: sum.splits)
next
  fix t log k assume "utxo_ring t log" "k < length log" "length log \<le> k + ROOT_HISTORY_CAPACITY"
    "nonzero_root (log ! k)"
  then show "root_lookup t (k mod ROOT_HISTORY_CAPACITY) = Some (log ! k)"
    using root_by_index_live by (simp add: root_lookup_def)
qed

text \<open>The states an account goes through: initialisation, then successful batches.\<close>

inductive utxo_reachable :: "hash_fn \<Rightarrow> utxo_tree \<Rightarrow> bytes list \<Rightarrow> bool" for P where
  reach_init: "height = tree_height t0 \<Longrightarrow> height \<le> 40 \<Longrightarrow>
    length (root_history t0) = ROOT_HISTORY_CAPACITY \<Longrightarrow>
    utxo_init height t0 = (t, Inr ()) \<Longrightarrow> utxo_reachable P t []"
| reach_append: "utxo_reachable P t xs \<Longrightarrow> \<forall>x \<in> set ls. field_element x \<Longrightarrow>
    append_batch P ls slot t = (t', Inr ()) \<Longrightarrow> utxo_reachable P t' (xs @ ls)"

definition prefix_root :: "hash_fn \<Rightarrow> utxo_tree \<Rightarrow> bytes list \<Rightarrow> bytes \<Rightarrow> bool" where
  "prefix_root P t xs r = (\<exists>n \<le> length xs. r = spec_root P t (take n xs))"

lemma append_batch_Nil: "append_batch P [] slot t = (t, Inr ())"
  by (simp add: append_batch_def)

lemma append_batch_success:
  assumes "poseidon_ok P" "utxo_core P t xs" "\<forall>x \<in> set ls. field_element x" "ls \<noteq> []"
    "append_batch P ls slot t = (t', Inr ())"
  shows "length xs + length ls \<le> utxo_capacity t" "xs = [] \<or> last_update_slot t \<le> slot"
proof -
  have idx: "utxo_next_index t = length xs" using assms(2) by (simp add: utxo_core_def)
  show slot: "xs = [] \<or> last_update_slot t \<le> slot"
    using append_batch_stale_slot[OF assms(4), of t slot P] assms(5) idx by (cases "slot < last_update_slot t") auto
  show "length xs + length ls \<le> utxo_capacity t"
    using append_batch_full[OF assms(1-3) _ slot] assms(5) by (cases "utxo_capacity t < length xs + length ls") auto
qed

lemma prefix_root_mono:
  assumes "prefix_root P t xs r" "tree_height t' = tree_height t"
  shows "prefix_root P t' (xs @ ls) r"
proof -
  obtain n where n: "n \<le> length xs" "r = spec_root P t (take n xs)"
    using assms(1) by (auto simp: prefix_root_def)
  then have "n \<le> length (xs @ ls)" "r = spec_root P t' (take n (xs @ ls))"
    using assms(2) by (auto simp: spec_root_def)
  then show ?thesis unfolding prefix_root_def by blast
qed

lemma utxo_reachable_repr:
  assumes "poseidon_ok P" "utxo_reachable P t xs"
  shows "\<exists>log. utxo_repr P t xs log \<and> (\<forall>r \<in> set log. prefix_root P t xs r)"
  using assms(2)
proof induction
  case (reach_init height t0 t)
  then have "utxo_repr P t [] [ZERO_BYTES ! height] \<and> tree_height t = height"
    using utxo_init_repr[of height t0 P] by auto
  moreover from this have "prefix_root P t [] (ZERO_BYTES ! height)"
    by (cases height) (auto simp: prefix_root_def spec_root_def)
  ultimately show ?case by (intro exI[of _ "[ZERO_BYTES ! height]"]) simp
next
  case (reach_append t xs ls slot t')
  then obtain log where log: "utxo_repr P t xs log" "\<forall>r \<in> set log. prefix_root P t xs r" by blast
  show ?case
  proof (cases "ls = []")
    case True
    then show ?thesis using reach_append log by (auto simp: append_batch_Nil)
  next
    case False
    have core: "utxo_core P t xs" using log(1) by (simp add: utxo_repr_def)
    note ok = append_batch_success[OF assms(1) core reach_append(2) False reach_append(3)]
    let ?r = "spec_root P t (xs @ ls)"
    let ?log = "if xs \<noteq> [] \<and> slot = last_update_slot t then butlast log @ [?r] else log @ [?r]"
    have t': "utxo_repr P t' (xs @ ls) ?log" "tree_height t' = tree_height t"
      using append_batch_correct[OF assms(1) log(1) False reach_append(2) ok] reach_append(3) by auto
    have "prefix_root P t' (xs @ ls) ?r"
      unfolding prefix_root_def using t'(2)
      by (intro exI[of _ "length (xs @ ls)"]) (simp add: spec_root_def)
    moreover have "\<forall>r \<in> set log. prefix_root P t' (xs @ ls) r"
      using log(2) prefix_root_mono t'(2) by blast
    ultimately have "\<forall>r \<in> set ?log. prefix_root P t' (xs @ ls) r"
      by (auto dest: in_set_butlastD)
    then show ?thesis using t'(1) by blast
  qed
qed

end
