(* ===== verification/Pool_Errors.thy ===== *)
theory Pool_Errors
  imports Nullifier_Tree Utxo_Tree
begin

text \<open>
  Errors of the on-chain program.  \<open>program-libs/interface/src/error.rs\<close> gives
  every pool error its wire code and maps interface and tree errors to it;
  \<open>program-libs/account-checks/src/error.rs\<close> does so for account checks.  A
  handler's failure is a \<open>program_error\<close>: a custom code or one of the runtime's
  builtin errors.
\<close>

datatype interface_error =
    Interface_InvalidDiscriminator | Interface_Unauthorized | Interface_InvalidAccountData
  | Interface_InvalidProtocolConfigData | Interface_AlreadyInitialized

datatype (plugins only: code) shielded_pool_error =
    InvalidInstructionData | InvalidTreeAccounts | NullifierTreeUpdateFailed | UnauthorizedCaller
  | StateAppendFailed | ExpiredTransaction | InvalidTransactShape | InvalidTransactProofEncoding
  | TransactProofVerificationFailed | InvalidSettlementAccounts | PublicSettlementFailed
  | InvalidSplAssetRegistry | InvalidProtocolConfig | TreePaused | InvalidRingConfig
  | StaleNullifierRoot | InvalidPda | MergeEncryptionSchemeMismatch | InvalidUserRecord
  | InvalidMergeShape | RingAuthorityTransactDisabled | OwnerTagAccountMissing | InvalidForesterFee
  | InsufficientForesterFeeBalance | InvalidSystemProgram | EmptyDepositBatch
  | InvalidDepositAssetIndex | DuplicateDepositAsset | DepositAmountOverflow
  | UnreferencedDepositAsset | TooManyDepositAssets | TooManyInterfaceTransfers
  | ZeroInterfaceTransferAmount | TooManyPublicAssets | PublicAssetAmountOverflow
  | MismatchedCircuitType | SplTokenAuthorityMustSign | UnsupportedSplTokenProgram
  | InvalidSplTokenMint | UnsupportedToken2022Extension | ZeroNetInterfaceTransferAmount
  | SplAssetCounterAlreadyInitialized | RingPaused | NullifierAlreadyQueued
  | InsufficientNullifierPdaRent | NullifierPdaNotClosable | InvalidNullifierPda | InvalidTreeId
  | NullifierPdaTreeMismatch | TreeIdOverflow | InvalidReimbursementRecipient
  | NonCanonicalOutputUtxoHash | NonCanonicalInputNullifier | NonCanonicalPrivateTxHash
  | NonCanonicalRingDataHash | NonCanonicalDepositField | NonCanonicalRoot | NoClaimableTreeLamports
  | DepositBlindingDerivationFailed | RingNotActivated | TooManyExternalDataHashSlices
  | InvalidTreeContextCount | InputTreeIndexOutOfRange | UnreferencedTreeContext
  | DuplicateInputTree | InvalidCache | CacheConfigMismatch | CacheSlotEmpty | InvalidCacheSlot
  | InvalidCacheBitmap | CacheTreeMismatch | CacheExpired | CacheNotExpired | CacheExpiryNotInFuture
  | CacheWriteAuthorityMismatch | CacheRentRecipientMismatch | ZeroInputNullifier
  | ZeroOutputUtxoHash | TreeFeeTooHigh | TreeCreationMismatch | NonCanonicalMergeCiphertext
  | CircuitFeatureDisabled

datatype account_error =
    AccountOwnedByWrongProgram | AccountNotMutable | Account_InvalidDiscriminator
  | BorrowAccountDataFailed | Account_AlreadyInitialized | InvalidAccountSize | AccountMutable
  | InvalidAccountBalance | InvalidSigner | InvalidProgramId | ProgramNotExecutable
  | AccountNotZeroed | NotEnoughAccountKeys | InvalidAccount

text \<open>The builtin errors the handlers return or pass on from the runtime.\<close>

datatype program_error =
    Custom nat | IncorrectProgramId | Program_InvalidInstructionData | Program_ArithmeticOverflow
  | Program_InvalidArgument | AccountBorrowFailed | UnsupportedSysvar | Cpi_failed nat | InvalidRealloc
  | Program_NotEnoughAccountKeys | Program_MissingRequiredSignature | Program_AccountAlreadyInitialized | Program_InvalidAccountData
  | Panicked

type_synonym 'a presult = "(program_error, 'a) result"

primrec shielded_pool_error_code :: "shielded_pool_error \<Rightarrow> nat" where
  "shielded_pool_error_code InvalidInstructionData = 7000"
| "shielded_pool_error_code InvalidTreeAccounts = 7001"
| "shielded_pool_error_code NullifierTreeUpdateFailed = 7002"
| "shielded_pool_error_code UnauthorizedCaller = 7003"
| "shielded_pool_error_code StateAppendFailed = 7004"
| "shielded_pool_error_code ExpiredTransaction = 7005"
| "shielded_pool_error_code InvalidTransactShape = 7006"
| "shielded_pool_error_code InvalidTransactProofEncoding = 7007"
| "shielded_pool_error_code TransactProofVerificationFailed = 7008"
| "shielded_pool_error_code InvalidSettlementAccounts = 7009"
| "shielded_pool_error_code PublicSettlementFailed = 7010"
| "shielded_pool_error_code InvalidSplAssetRegistry = 7011"
| "shielded_pool_error_code InvalidProtocolConfig = 7012"
| "shielded_pool_error_code TreePaused = 7013"
| "shielded_pool_error_code InvalidRingConfig = 7014"
| "shielded_pool_error_code StaleNullifierRoot = 7015"
| "shielded_pool_error_code InvalidPda = 7016"
| "shielded_pool_error_code MergeEncryptionSchemeMismatch = 7017"
| "shielded_pool_error_code InvalidUserRecord = 7018"
| "shielded_pool_error_code InvalidMergeShape = 7019"
| "shielded_pool_error_code RingAuthorityTransactDisabled = 7020"
| "shielded_pool_error_code OwnerTagAccountMissing = 7021"
| "shielded_pool_error_code InvalidForesterFee = 7022"
| "shielded_pool_error_code InsufficientForesterFeeBalance = 7023"
| "shielded_pool_error_code InvalidSystemProgram = 7024"
| "shielded_pool_error_code EmptyDepositBatch = 7025"
| "shielded_pool_error_code InvalidDepositAssetIndex = 7026"
| "shielded_pool_error_code DuplicateDepositAsset = 7027"
| "shielded_pool_error_code DepositAmountOverflow = 7028"
| "shielded_pool_error_code UnreferencedDepositAsset = 7029"
| "shielded_pool_error_code TooManyDepositAssets = 7030"
| "shielded_pool_error_code TooManyInterfaceTransfers = 7031"
| "shielded_pool_error_code ZeroInterfaceTransferAmount = 7032"
| "shielded_pool_error_code TooManyPublicAssets = 7033"
| "shielded_pool_error_code PublicAssetAmountOverflow = 7034"
| "shielded_pool_error_code MismatchedCircuitType = 7035"
| "shielded_pool_error_code SplTokenAuthorityMustSign = 7036"
| "shielded_pool_error_code UnsupportedSplTokenProgram = 7037"
| "shielded_pool_error_code InvalidSplTokenMint = 7038"
| "shielded_pool_error_code UnsupportedToken2022Extension = 7039"
| "shielded_pool_error_code ZeroNetInterfaceTransferAmount = 7040"
| "shielded_pool_error_code SplAssetCounterAlreadyInitialized = 7041"
| "shielded_pool_error_code RingPaused = 7042"
| "shielded_pool_error_code NullifierAlreadyQueued = 7043"
| "shielded_pool_error_code InsufficientNullifierPdaRent = 7044"
| "shielded_pool_error_code NullifierPdaNotClosable = 7045"
| "shielded_pool_error_code InvalidNullifierPda = 7046"
| "shielded_pool_error_code InvalidTreeId = 7047"
| "shielded_pool_error_code NullifierPdaTreeMismatch = 7048"
| "shielded_pool_error_code TreeIdOverflow = 7049"
| "shielded_pool_error_code InvalidReimbursementRecipient = 7050"
| "shielded_pool_error_code NonCanonicalOutputUtxoHash = 7051"
| "shielded_pool_error_code NonCanonicalInputNullifier = 7052"
| "shielded_pool_error_code NonCanonicalPrivateTxHash = 7053"
| "shielded_pool_error_code NonCanonicalRingDataHash = 7054"
| "shielded_pool_error_code NonCanonicalDepositField = 7055"
| "shielded_pool_error_code NonCanonicalRoot = 7056"
| "shielded_pool_error_code NoClaimableTreeLamports = 7057"
| "shielded_pool_error_code DepositBlindingDerivationFailed = 7058"
| "shielded_pool_error_code RingNotActivated = 7059"
| "shielded_pool_error_code TooManyExternalDataHashSlices = 7060"
| "shielded_pool_error_code InvalidTreeContextCount = 7061"
| "shielded_pool_error_code InputTreeIndexOutOfRange = 7062"
| "shielded_pool_error_code UnreferencedTreeContext = 7064"
| "shielded_pool_error_code DuplicateInputTree = 7065"
| "shielded_pool_error_code InvalidCache = 7066"
| "shielded_pool_error_code CacheConfigMismatch = 7067"
| "shielded_pool_error_code CacheSlotEmpty = 7068"
| "shielded_pool_error_code InvalidCacheSlot = 7069"
| "shielded_pool_error_code InvalidCacheBitmap = 7070"
| "shielded_pool_error_code CacheTreeMismatch = 7071"
| "shielded_pool_error_code CacheExpired = 7073"
| "shielded_pool_error_code CacheNotExpired = 7074"
| "shielded_pool_error_code CacheExpiryNotInFuture = 7075"
| "shielded_pool_error_code CacheWriteAuthorityMismatch = 7076"
| "shielded_pool_error_code CacheRentRecipientMismatch = 7077"
| "shielded_pool_error_code ZeroInputNullifier = 7078"
| "shielded_pool_error_code ZeroOutputUtxoHash = 7079"
| "shielded_pool_error_code TreeFeeTooHigh = 7080"
| "shielded_pool_error_code TreeCreationMismatch = 7081"
| "shielded_pool_error_code NonCanonicalMergeCiphertext = 7082"
| "shielded_pool_error_code CircuitFeatureDisabled = 7083"

primrec account_error_code :: "account_error \<Rightarrow> nat" where
  "account_error_code Account_InvalidDiscriminator = 20000"
| "account_error_code AccountOwnedByWrongProgram = 20001"
| "account_error_code AccountNotMutable = 20002"
| "account_error_code BorrowAccountDataFailed = 20003"
| "account_error_code InvalidAccountSize = 20004"
| "account_error_code AccountMutable = 20005"
| "account_error_code Account_AlreadyInitialized = 20006"
| "account_error_code InvalidAccountBalance = 20007"
| "account_error_code InvalidSigner = 20009"
| "account_error_code InvalidProgramId = 20011"
| "account_error_code ProgramNotExecutable = 20012"
| "account_error_code AccountNotZeroed = 20013"
| "account_error_code NotEnoughAccountKeys = 20014"
| "account_error_code InvalidAccount = 20015"

definition pool_err :: "shielded_pool_error \<Rightarrow> program_error" where
  "pool_err e = Custom (shielded_pool_error_code e)"

definition account_err :: "account_error \<Rightarrow> program_error" where
  "account_err e = Custom (account_error_code e)"

primrec pool_error_of_interface :: "interface_error \<Rightarrow> shielded_pool_error" where
  "pool_error_of_interface Interface_InvalidDiscriminator = InvalidProtocolConfig"
| "pool_error_of_interface Interface_Unauthorized = UnauthorizedCaller"
| "pool_error_of_interface Interface_InvalidAccountData = InvalidSplAssetRegistry"
| "pool_error_of_interface Interface_InvalidProtocolConfigData = InvalidProtocolConfig"
| "pool_error_of_interface Interface_AlreadyInitialized = SplAssetCounterAlreadyInitialized"

definition pool_error_of_tree :: "Utxo_Tree.tree_error \<Rightarrow> shielded_pool_error" where
  "pool_error_of_tree e =
    (if e = Paused then TreePaused else if e = TreeIsFull then StateAppendFailed
     else if e = FeeOverflow then InvalidForesterFee else if e = FeeTooHigh then TreeFeeTooHigh
     else InvalidTreeAccounts)"

text \<open>The handlers' own mapping (\<open>shared.rs\<close>) also names a stale root.\<close>

definition tree_program_error :: "Utxo_Tree.tree_error \<Rightarrow> program_error" where
  "tree_program_error e =
    (if e = Paused then pool_err TreePaused else if e = InvalidRootIndex then pool_err StaleNullifierRoot
     else if e = TreeIsFull then pool_err StateAppendFailed
     else if e = FeeOverflow then pool_err InvalidForesterFee
     else if e = FeeTooHigh then pool_err TreeFeeTooHigh else pool_err InvalidTreeAccounts)"

definition nullifier_tree_program_error :: "nullifier_tree_error \<Rightarrow> program_error" where
  "nullifier_tree_program_error e =
    (if e = NonCanonicalFieldElement then pool_err NonCanonicalRoot else pool_err NullifierTreeUpdateFailed)"

definition shielded_pool_errors :: "shielded_pool_error list" where
  "shielded_pool_errors =
   [InvalidInstructionData, InvalidTreeAccounts, NullifierTreeUpdateFailed, UnauthorizedCaller
    , StateAppendFailed, ExpiredTransaction, InvalidTransactShape, InvalidTransactProofEncoding
    , TransactProofVerificationFailed, InvalidSettlementAccounts, PublicSettlementFailed
    , InvalidSplAssetRegistry, InvalidProtocolConfig, TreePaused, InvalidRingConfig
    , StaleNullifierRoot, InvalidPda, MergeEncryptionSchemeMismatch, InvalidUserRecord
    , InvalidMergeShape, RingAuthorityTransactDisabled, OwnerTagAccountMissing, InvalidForesterFee
    , InsufficientForesterFeeBalance, InvalidSystemProgram, EmptyDepositBatch
    , InvalidDepositAssetIndex, DuplicateDepositAsset, DepositAmountOverflow
    , UnreferencedDepositAsset, TooManyDepositAssets, TooManyInterfaceTransfers
    , ZeroInterfaceTransferAmount, TooManyPublicAssets, PublicAssetAmountOverflow
    , MismatchedCircuitType, SplTokenAuthorityMustSign, UnsupportedSplTokenProgram
    , InvalidSplTokenMint, UnsupportedToken2022Extension, ZeroNetInterfaceTransferAmount
    , SplAssetCounterAlreadyInitialized, RingPaused, NullifierAlreadyQueued
    , InsufficientNullifierPdaRent, NullifierPdaNotClosable, InvalidNullifierPda, InvalidTreeId
    , NullifierPdaTreeMismatch, TreeIdOverflow, InvalidReimbursementRecipient
    , NonCanonicalOutputUtxoHash, NonCanonicalInputNullifier, NonCanonicalPrivateTxHash
    , NonCanonicalRingDataHash, NonCanonicalDepositField, NonCanonicalRoot, NoClaimableTreeLamports
    , DepositBlindingDerivationFailed, RingNotActivated, TooManyExternalDataHashSlices
    , InvalidTreeContextCount, InputTreeIndexOutOfRange, UnreferencedTreeContext, DuplicateInputTree
    , InvalidCache, CacheConfigMismatch, CacheSlotEmpty, InvalidCacheSlot, InvalidCacheBitmap
    , CacheTreeMismatch, CacheExpired, CacheNotExpired, CacheExpiryNotInFuture
    , CacheWriteAuthorityMismatch, CacheRentRecipientMismatch, ZeroInputNullifier
    , ZeroOutputUtxoHash, TreeFeeTooHigh, TreeCreationMismatch, NonCanonicalMergeCiphertext
    , CircuitFeatureDisabled]"

lemma pool_errors_all: "e \<in> set shielded_pool_errors"
  by (cases e) (simp_all only: shielded_pool_errors_def list.set insert_iff simp_thms)

lemma pool_codes_distinct: "distinct (map shielded_pool_error_code shielded_pool_errors)"
  by (simp add: shielded_pool_errors_def)

lemma pool_err_inj [simp]: "pool_err a = pool_err b \<longleftrightarrow> a = b"
  using pool_codes_distinct pool_errors_all[of a] pool_errors_all[of b]
  by (auto simp: pool_err_def distinct_map inj_on_def)

lemma account_err_inj [simp]: "account_err a = account_err b \<longleftrightarrow> a = b"
  by (cases a; cases b) (simp_all add: account_err_def)

lemma pool_code_range: "7000 \<le> shielded_pool_error_code e \<and> shielded_pool_error_code e < 7084"
  by (cases e) simp_all

lemma account_code_range: "20000 \<le> account_error_code e"
  by (cases e) simp_all

lemma pool_account_err [simp]: "pool_err a \<noteq> account_err b" "account_err b \<noteq> pool_err a"
  using pool_code_range[of a] account_code_range[of b] by (auto simp: pool_err_def account_err_def)


end
