(* ===== verification/Utxo_Reach.thy ===== *)
theory Utxo_Reach
  imports Utxo_Tree
begin

text \<open>
  The UTXO tree over its whole life: every state reached by initialisation and
  successful batches stores the Merkle root of all appended leaves, every root
  it accepts is the root of a prefix of them, and the batching of the leaves
  does not matter.
\<close>

definition padded_root :: "hash_fn \<Rightarrow> nat \<Rightarrow> bytes list \<Rightarrow> bytes" where
  "padded_root P h xs = full_root (node_hash P) h (xs @ replicate (2 ^ h - length xs) zero32)"

lemma node_hash_zero_bytes:
  assumes "zero_bytes_ok P" "k < 40"
  shows "node_hash P (ZERO_BYTES ! k) (ZERO_BYTES ! k) = ZERO_BYTES ! Suc k"
  using assms by (simp add: zero_bytes_ok_def node_hash_def)

lemma spec_root_padded:
  assumes "zero_bytes_ok P" "tree_height t \<le> 40" "length xs \<le> 2 ^ tree_height t"
  shows "spec_root P t xs = padded_root P (tree_height t) xs"
  unfolding spec_root_def padded_root_def
  using tree_root_is_full_root[of xs "tree_height t" "node_hash P" ZERO_BYTES] node_hash_zero_bytes[OF assms(1)] assms(2,3)
  by (simp add: ZERO_BYTES_0)

text \<open>A zeroed account region, initialised, and after one batch.\<close>

definition utxo_zeroed :: "nat \<Rightarrow> utxo_tree" where
  "utxo_zeroed h = \<lparr>utxo_next_index = 0, utxo_root = zero32, root_history_cursor = 0, root_history_len = 0,
    root_history_capacity = 0, subtrees_len = 0, last_update_slot = 0, subtrees = replicate h zero32,
    root_history = replicate ROOT_HISTORY_CAPACITY zero32\<rparr>"

definition utxo_fresh :: "nat \<Rightarrow> utxo_tree" where
  "utxo_fresh h = fst (utxo_init h (utxo_zeroed h))"

lemma utxo_fresh_reachable:
  assumes "h \<le> 40"
  shows "utxo_reachable P (utxo_fresh h) []" "utxo_init h (utxo_zeroed h) = (utxo_fresh h, Inr ())"
    "tree_height (utxo_fresh h) = h" "\<exists>log. utxo_repr P (utxo_fresh h) [] log"
proof -
  have z: "h = tree_height (utxo_zeroed h)" "length (root_history (utxo_zeroed h)) = ROOT_HISTORY_CAPACITY"
    by (simp_all add: utxo_zeroed_def tree_height_def)
  obtain t' where t': "utxo_init h (utxo_zeroed h) = (t', Inr ())" "tree_height t' = h" "utxo_repr P t' [] [ZERO_BYTES ! h]"
    using utxo_init_repr[OF z(1) assms z(2)] by blast
  then show i: "utxo_init h (utxo_zeroed h) = (utxo_fresh h, Inr ())" and "tree_height (utxo_fresh h) = h"
    "\<exists>log. utxo_repr P (utxo_fresh h) [] log" by (auto simp: utxo_fresh_def)
  show "utxo_reachable P (utxo_fresh h) []" by (rule utxo_reachable.reach_init[OF z(1) assms z(2) i])
qed

definition utxo_after :: "nat \<Rightarrow> bytes list \<Rightarrow> nat \<Rightarrow> utxo_tree" where
  "utxo_after h ls slot = fst (append_batch demo_poseidon ls slot (utxo_fresh h))"

lemma utxo_after_reachable:
  assumes "h \<le> 40" "\<forall>x \<in> set ls. field_element x" "ls \<noteq> []" "length ls \<le> 2 ^ h"
  shows "utxo_reachable demo_poseidon (utxo_after h ls slot) ls" "tree_height (utxo_after h ls slot) = h"
    "append_batch demo_poseidon ls slot (utxo_fresh h) = (utxo_after h ls slot, Inr ())"
proof -
  note f = utxo_fresh_reachable(1)[OF assms(1), of demo_poseidon] and h = utxo_fresh_reachable(3)[OF assms(1)]
  obtain log where log: "utxo_repr demo_poseidon (utxo_fresh h) [] log" using utxo_fresh_reachable(4)[OF assms(1)] by blast
  obtain t' where t': "append_batch demo_poseidon ls slot (utxo_fresh h) = (t', Inr ())" "tree_height t' = tree_height (utxo_fresh h)"
    using append_batch_correct[OF poseidon_ok_demo log assms(3,2), of slot] assms(4) h by (auto simp: utxo_capacity_def)
  then show a: "append_batch demo_poseidon ls slot (utxo_fresh h) = (utxo_after h ls slot, Inr ())"
    and "tree_height (utxo_after h ls slot) = h" using h by (simp_all add: utxo_after_def)
  show "utxo_reachable demo_poseidon (utxo_after h ls slot) ls"
    using utxo_reachable.reach_append[OF f assms(2) a] by simp
qed

lemma utxo_after_slot:
  assumes "h \<le> 40" "\<forall>x \<in> set ls. field_element x" "ls \<noteq> []" "length ls \<le> 2 ^ h"
  shows "last_update_slot (utxo_after h ls slot) = slot"
proof -
  let ?t = "utxo_fresh h" and ?r = "spec_root demo_poseidon (utxo_fresh h) ls"
  obtain log where "utxo_repr demo_poseidon ?t [] log" using utxo_fresh_reachable(4)[OF assms(1)] by blast
  then have core: "utxo_core demo_poseidon ?t []" by (simp add: utxo_repr_def)
  then have "utxo_next_index ?t = 0" by (simp add: utxo_core_def)
  then have "append_batch demo_poseidon ls slot ?t = append_leaves demo_poseidon True slot ?t ls"
    by (simp add: append_batch_def)
  moreover obtain ss where "append_leaves demo_poseidon True slot ?t ls =
      ((push_root ?r slot True ?t)\<lparr>subtrees := ss, utxo_root := ?r, utxo_next_index := length ls\<rparr>, Inr ())"
    using append_leaves_correct[OF poseidon_ok_demo core assms(3,2), of ?r True slot] assms(4) utxo_fresh_reachable(3)[OF assms(1)]
    by (auto simp: utxo_capacity_def)
  ultimately show ?thesis by (simp add: utxo_after_def push_root_def Let_def)
qed

lemma utxo_append_more:
  assumes "poseidon_ok P" "utxo_reachable P t xs" "ls \<noteq> []" "\<forall>x \<in> set ls. field_element x"
    "length xs + length ls \<le> utxo_capacity t" "xs = [] \<or> last_update_slot t \<le> slot"
  shows "\<exists>t' log. append_batch P ls slot t = (t', Inr ()) \<and> tree_height t' = tree_height t
    \<and> utxo_reachable P t' (xs @ ls) \<and> utxo_repr P t' (xs @ ls) log"
proof -
  obtain log where r: "utxo_repr P t xs log" using utxo_reachable_repr[OF assms(1,2)] by blast
  obtain t' where "append_batch P ls slot t = (t', Inr ())" "tree_height t' = tree_height t"
    "\<exists>log. utxo_repr P t' (xs @ ls) log"
    using append_batch_correct[OF assms(1) r assms(3-6)] by blast
  then show ?thesis using utxo_reachable.reach_append[OF assms(2,4)] by blast
qed

lemma nonzero_zero_bytes:
  assumes "0 < h" "h \<le> 40"
  shows "nonzero_root (ZERO_BYTES ! h)"
proof -
  have "ZERO_BYTES ! h \<noteq> ZERO_BYTES ! 0"
    using distinct_ZERO_BYTES assms length_ZERO_BYTES by (simp add: nth_eq_iff_index_eq)
  moreover have "field_element (ZERO_BYTES ! h)" using ZERO_BYTES_field_element assms(2) length_ZERO_BYTES by simp
  ultimately show ?thesis
    unfolding nonzero_root_def ZERO_BYTES_0 zero32_def by (metis replicate_eqI)
qed

lemma utxo_after_first_root:
  assumes "0 < h" "h \<le> 40" "\<forall>x \<in> set ls. field_element x" "ls \<noteq> []" "length ls \<le> 2 ^ h"
  shows "root_by_index (utxo_after h ls slot) 0 = Inr (ZERO_BYTES ! h)"
proof -
  have z: "h = tree_height (utxo_zeroed h)" "length (root_history (utxo_zeroed h)) = ROOT_HISTORY_CAPACITY"
    by (simp_all add: utxo_zeroed_def tree_height_def)
  have fresh: "utxo_repr demo_poseidon (utxo_fresh h) [] [ZERO_BYTES ! h]"
    using utxo_init_repr[OF z(1) assms(2) z(2)] utxo_fresh_reachable(2)[OF assms(2)] by auto
  have "\<exists>r. utxo_ring (utxo_after h ls slot) [ZERO_BYTES ! h, r]"
    using append_batch_correct[OF poseidon_ok_demo fresh assms(4,3), of slot] assms(5)
      utxo_fresh_reachable(3)[OF assms(2)] utxo_after_reachable(3)[OF assms(2-5), of slot]
    by (auto simp: utxo_repr_def utxo_capacity_def)
  then obtain r where ring: "utxo_ring (utxo_after h ls slot) [ZERO_BYTES ! h, r]" by blast
  show ?thesis
    using root_by_index_live[OF ring, of 0] nonzero_zero_bytes[OF assms(1,2)] by (simp add: ROOT_HISTORY_CAPACITY_def)
qed

definition leaves3 :: "bytes list" where "leaves3 = map (to_be_bytes 32) [11, 12, 13]"

lemma leaves3_field_element: "\<forall>x \<in> set leaves3. field_element x" "leaves3 \<noteq> []" "length leaves3 = 3"
proof -
  have "field_element (to_be_bytes 32 n)" if "n \<le> 100" for n
    using that by (intro to_be_bytes_field_element) (simp add: bn254_modulus_def)
  then show "\<forall>x \<in> set leaves3. field_element x" by (auto simp: leaves3_def)
qed (simp_all add: leaves3_def)

lemma three_leaves:
  "utxo_reachable demo_poseidon (utxo_after 2 leaves3 slot) leaves3" "tree_height (utxo_after 2 leaves3 slot) = 2"
  "last_update_slot (utxo_after 2 leaves3 slot) = slot"
  using utxo_after_reachable[of 2 leaves3 slot] utxo_after_slot[of 2 leaves3 slot] leaves3_field_element by simp_all


section \<open>Properties\<close>

text \<open>
  C7. The UTXO root is the Merkle root.  In every reachable account the stored root is the root
  of the complete binary tree over all leaves appended so far, in order,
  padded with zero leaves, and the next index is their number.
\<close>
theorem utxo_root_is_merkle_root:
  assumes "poseidon_ok P" "zero_bytes_ok P" "utxo_reachable P t xs"
  shows "utxo_root t = padded_root P (tree_height t) xs \<and> utxo_next_index t = length xs
    \<and> length xs \<le> utxo_capacity t"
proof -
  obtain log where r: "utxo_repr P t xs log" using utxo_reachable_repr[OF assms(1,3)] by blast
  have c: "utxo_next_index t = length xs" "length xs \<le> utxo_capacity t" "tree_height t \<le> 40"
    using r by (auto simp: utxo_repr_def utxo_core_def)
  show ?thesis
    using spec_root_padded[OF assms(2) c(3)] c r by (simp add: utxo_capacity_def utxo_repr_def)
qed

theorem utxo_root_is_merkle_root_witness:
  "utxo_root (utxo_after 2 leaves3 9) = padded_root demo_poseidon 2 leaves3 \<and> utxo_next_index (utxo_after 2 leaves3 9) = 3"
  using utxo_root_is_merkle_root[OF poseidon_ok_demo zero_bytes_ok_demo three_leaves(1)] three_leaves(2)
    leaves3_field_element(3) by simp

text \<open>
  C8. Only roots of the tree are accepted.  Every root a spend can name by index in a reachable
  account is the root the tree had after some prefix of its leaves.
\<close>
theorem accepted_utxo_roots_are_prefix_roots:
  assumes "poseidon_ok P" "zero_bytes_ok P" "utxo_reachable P t xs" "root_by_index t i = Inr r"
  shows "\<exists>n \<le> length xs. r = padded_root P (tree_height t) (take n xs)"
proof -
  obtain log where r: "utxo_repr P t xs log" "\<forall>r \<in> set log. prefix_root P t xs r"
    using utxo_reachable_repr[OF assms(1,3)] by blast
  have ring: "utxo_ring t log" and c: "tree_height t \<le> 40" "length xs \<le> 2 ^ tree_height t"
    using r(1) by (auto simp: utxo_repr_def utxo_core_def utxo_capacity_def)
  have "r \<in> set log" using root_by_index_ring[OF ring assms(4)] nth_mem by blast
  then obtain n where n: "n \<le> length xs" "r = spec_root P t (take n xs)" using r(2) by (auto simp: prefix_root_def)
  then show ?thesis using spec_root_padded[OF assms(2) c(1), of "take n xs"] c(2) by auto
qed

theorem accepted_utxo_roots_are_prefix_roots_witness:
  "root_by_index (utxo_after 2 leaves3 9) 0 = Inr (ZERO_BYTES ! 2) \<and>
   (\<exists>n \<le> 3. ZERO_BYTES ! 2 = padded_root demo_poseidon 2 (take n leaves3))"
proof -
  have r: "root_by_index (utxo_after 2 leaves3 9) 0 = Inr (ZERO_BYTES ! 2)"
    using utxo_after_first_root[of 2 leaves3] leaves3_field_element by simp
  show ?thesis
    using accepted_utxo_roots_are_prefix_roots[OF poseidon_ok_demo zero_bytes_ok_demo three_leaves(1) r]
      three_leaves(2)[of 9] leaves3_field_element(3) r by simp
qed

text \<open>
  Batching does not matter.  Two reachable accounts of the same height that received the
  same leaves in the same order have the same root and next index, however
  the leaves were split into batches and slots.
\<close>
theorem batching_does_not_change_the_root:
  assumes "poseidon_ok P" "utxo_reachable P t xs" "utxo_reachable P t' xs" "tree_height t = tree_height t'"
  shows "utxo_root t = utxo_root t' \<and> utxo_next_index t = utxo_next_index t'"
proof -
  obtain l l' where "utxo_repr P t xs l" "utxo_repr P t' xs l'"
    using utxo_reachable_repr[OF assms(1,2)] utxo_reachable_repr[OF assms(1,3)] by blast
  then show ?thesis using spec_root_cong[of t t' P] assms(4) by (auto simp: utxo_repr_def utxo_core_def tree_height_def)
qed

theorem batching_does_not_change_the_root_witness:
  "\<exists>t. append_batch demo_poseidon (drop 1 leaves3) 12 (utxo_after 2 (take 1 leaves3) 9) = (t, Inr ())
     \<and> utxo_root t = utxo_root (utxo_after 2 leaves3 9)"
proof -
  have one: "\<forall>x \<in> set (take 1 leaves3). field_element x" "take 1 leaves3 \<noteq> []" "length (take 1 leaves3) = 1"
    "\<forall>x \<in> set (drop 1 leaves3). field_element x" "drop 1 leaves3 \<noteq> []" "length (drop 1 leaves3) = 2"
    using leaves3_field_element by (auto dest: in_set_takeD in_set_dropD)
  let ?t = "utxo_after 2 (take 1 leaves3) 9"
  have t: "utxo_reachable demo_poseidon ?t (take 1 leaves3)" "tree_height ?t = 2" "last_update_slot ?t = 9"
    using utxo_after_reachable[of 2 "take 1 leaves3" 9] utxo_after_slot[of 2 "take 1 leaves3" 9] one by simp_all
  have cap: "utxo_capacity ?t = 4" using t(2) by (simp add: utxo_capacity_def)
  obtain t' where t': "append_batch demo_poseidon (drop 1 leaves3) 12 ?t = (t', Inr ())"
    "tree_height t' = tree_height ?t" "utxo_reachable demo_poseidon t' (take 1 leaves3 @ drop 1 leaves3)"
    using utxo_append_more[OF poseidon_ok_demo t(1) one(5,4), of 12] one cap t(3) by auto
  then have "utxo_reachable demo_poseidon t' leaves3" "tree_height t' = tree_height (utxo_after 2 leaves3 9)"
    using t(2) three_leaves(2)[of 9] by (simp_all only: append_take_drop_id)
  from batching_does_not_change_the_root[OF poseidon_ok_demo this(1) three_leaves(1) this(2)]
  show ?thesis using t'(1) by blast
qed

text \<open>
  C16. Batch append on every branch.  A non-empty batch of field elements succeeds exactly when it
  fits and its slot is not older than the last update; a batch that does not
  fit fails with \<open>TreeIsFull\<close>, a stale slot with \<open>InvalidUpdateSlot\<close> and no
  change.
\<close>
theorem append_batch_branches:
  assumes "poseidon_ok P" "utxo_reachable P t xs" "ls \<noteq> []" "\<forall>x \<in> set ls. field_element x"
  shows "if xs \<noteq> [] \<and> slot < last_update_slot t then append_batch P ls slot t = (t, Inl InvalidUpdateSlot)
    else if utxo_capacity t < length xs + length ls then (\<exists>t'. append_batch P ls slot t = (t', Inl TreeIsFull))
    else (\<exists>t'. append_batch P ls slot t = (t', Inr ()) \<and> utxo_reachable P t' (xs @ ls)
           \<and> utxo_root t' = spec_root P t (xs @ ls) \<and> current_root_index t' < ROOT_HISTORY_CAPACITY)"
proof -
  obtain log where r: "utxo_repr P t xs log" using utxo_reachable_repr[OF assms(1,2)] by blast
  have core: "utxo_core P t xs" and idx: "utxo_next_index t = length xs"
    using r by (auto simp: utxo_repr_def utxo_core_def)
  show ?thesis
  proof (cases "xs \<noteq> [] \<and> slot < last_update_slot t")
    case True
    then show ?thesis using append_batch_stale_slot[OF assms(3), of t slot P] idx by simp
  next
    case False
    then have slot: "xs = [] \<or> last_update_slot t \<le> slot" by auto
    show ?thesis
    proof (cases "utxo_capacity t < length xs + length ls")
      case True
      then show ?thesis using append_batch_full[OF assms(1) core assms(4) True slot] False by auto
    next
      case fits: False
      obtain t' log' where t': "append_batch P ls slot t = (t', Inr ())" "tree_height t' = tree_height t"
        "utxo_repr P t' (xs @ ls) log'" "utxo_reachable P t' (xs @ ls)"
        using utxo_append_more[OF assms _ slot] fits by (meson not_less)
      have "utxo_root t' = spec_root P t (xs @ ls)"
        using t'(2,3) spec_root_cong[of t' t P] by (simp add: utxo_repr_def tree_height_def)
      moreover have "current_root_index t' < ROOT_HISTORY_CAPACITY"
        using t'(3) ring_repr_cursor[of ROOT_HISTORY_CAPACITY "root_history_cursor t'"]
        by (auto simp: utxo_repr_def utxo_ring_def current_root_index_def)
      ultimately show ?thesis using False fits t'(1,4) by auto
    qed
  qed
qed

theorem append_batch_branches_witness:
  "append_batch demo_poseidon leaves3 4 (utxo_after 2 leaves3 9) = (utxo_after 2 leaves3 9, Inl InvalidUpdateSlot)
   \<and> (\<exists>t'. append_batch demo_poseidon leaves3 9 (utxo_after 2 leaves3 9) = (t', Inl TreeIsFull))"
proof -
  have r: "utxo_reachable demo_poseidon (utxo_after 2 leaves3 9) leaves3" by (rule three_leaves(1))
  have slot: "last_update_slot (utxo_after 2 leaves3 9) = 9" by (rule three_leaves(3))
  have cap: "utxo_capacity (utxo_after 2 leaves3 9) = 4" using three_leaves(2)[of 9] by (simp add: utxo_capacity_def)
  show ?thesis
    using append_batch_branches[OF poseidon_ok_demo r leaves3_field_element(2,1), of 4]
      append_batch_branches[OF poseidon_ok_demo r leaves3_field_element(2,1), of 9] slot cap leaves3_field_element
    by simp
qed




end
