(* ===== verification/Nullifier_Refinement.thy ===== *)
theory Nullifier_Refinement
  imports Nullifier_Tree
begin

text \<open>
  What the nullifier tree represents.  The abstract state is the list of all
  nullifiers ever queued and the log of all roots the tree has had, one per
  applied ZKP batch; \<open>nt_repr\<close> relates it to the account.  Every operation is
  shown to implement its abstract counterpart: queue insertion appends one
  value, applying a cached update appends one root, caching and eviction leave
  both unchanged.  Reachability, the watermark and the proof obligations of
  each root follow.
\<close>

section \<open>Which batch a queue slot holds\<close>

text \<open>
  Absolute queue batch \<open>j\<close> covers the queued values \<open>j * B ..< (j + 1) * B\<close>
  and lives in slot \<open>j mod 2\<close> until batch \<open>j + 2\<close> is started.
\<close>

definition top_batch :: "nat \<Rightarrow> nat \<Rightarrow> nat" where
  "top_batch B n = max 1 ((n - 1) div B)"

definition held_batch :: "nat \<Rightarrow> nat \<Rightarrow> nat \<Rightarrow> nat" where
  "held_batch B n i = (if top_batch B n mod 2 = i mod 2 then top_batch B n else top_batch B n - 1)"

lemma pred_div:
  assumes "0 < (B :: nat)"
  shows "(n - 1) div B = (if n mod B = 0 then n div B - 1 else n div B)"
proof (cases n)
  case (Suc m)
  then show ?thesis using assms by (auto simp: div_Suc)
qed simp

lemma top_batch_small:
  assumes "n div B \<le> 1"
  shows "top_batch B n = 1"
proof -
  have "(n - 1) div B \<le> n div B" by (intro div_le_mono) simp
  then show ?thesis using assms by (simp add: top_batch_def)
qed

lemma parity_neq: "(a :: nat) mod 2 \<noteq> b mod 2 \<longleftrightarrow> a mod 2 = (b + 1) mod 2"
  by presburger

lemma parity_other: "(i :: nat) < 2 \<Longrightarrow> i \<noteq> c mod 2 \<Longrightarrow> i = (c + 1) mod 2"
  by presburger

lemma held_batch_Suc_current:
  assumes "0 < B" "c = n div B"
  shows "held_batch B (Suc n) (c mod 2) = c"
    "held_batch B n (c mod 2) = (if n mod B = 0 \<and> 2 \<le> c then c - 2 else c)"
proof -
  show "held_batch B (Suc n) (c mod 2) = c"
    using assms(2) by (cases "c = 0") (auto simp: held_batch_def top_batch_def max_def)
  show "held_batch B n (c mod 2) = (if n mod B = 0 \<and> 2 \<le> c then c - 2 else c)"
  proof (cases "c \<le> 1")
    case True
    then have "c = 0 \<or> c = 1" by linarith
    moreover have "top_batch B n = 1" using top_batch_small[of n B] True assms(2) by simp
    ultimately show ?thesis by (elim disjE) (simp_all add: held_batch_def)
  next
    case False
    then obtain d where d: "c = d + 2" by (intro that[of "c - 2"]) simp
    have "(n - 1) div B = (if n mod B = 0 then d + 1 else d + 2)"
      unfolding pred_div[OF assms(1), of n] assms(2)[symmetric] d by simp
    moreover have "(d + 1) mod 2 \<noteq> (d + 2) mod 2" by presburger
    ultimately show ?thesis using d by (auto simp: held_batch_def top_batch_def)
  qed
qed

lemma held_batch_Suc_other:
  assumes "0 < B" "c = n div B"
  shows "held_batch B (Suc n) ((c + 1) mod 2) = held_batch B n ((c + 1) mod 2)"
proof (cases "c \<le> 1")
  case True
  then have "c = 0 \<or> c = 1" by linarith
  moreover have "top_batch B n = 1" using top_batch_small[of n B] True assms(2) by simp
  moreover have "top_batch B (Suc n) = 1" using True assms(2) by (simp add: top_batch_def)
  ultimately show ?thesis by (simp add: held_batch_def)
next
  case False
  then obtain d where d: "c = d + 2" by (intro that[of "c - 2"]) simp
  have "(n - 1) div B = (if n mod B = 0 then d + 1 else d + 2)"
    unfolding pred_div[OF assms(1), of n] assms(2)[symmetric] d by simp
  then have "top_batch B n = d + 1 \<or> top_batch B n = d + 2" "top_batch B (Suc n) = d + 2"
    using assms(2) d by (auto simp: top_batch_def)
  moreover have "(c + 1) mod 2 = (d + 1) mod 2" "(d + 1) mod 2 \<noteq> (d + 2) mod 2" using d by presburger+
  ultimately show ?thesis by (elim disjE) (simp_all add: held_batch_def)
qed

lemma top_batch_Suc: "top_batch B (Suc n) = max 1 (n div B)"
  by (simp add: top_batch_def)

lemma held_batch_range: "held_batch B n i \<le> top_batch B n" "top_batch B n \<le> held_batch B n i + 1"
  by (auto simp: held_batch_def)

lemma held_batch_parity: "held_batch B n i mod 2 = i mod 2"
proof -
  obtain d where "top_batch B n = d + 1" by (intro that[of "top_batch B n - 1"]) (simp add: top_batch_def)
  moreover have "d mod 2 = i mod 2" if "(d + 1) mod 2 \<noteq> i mod 2" using that by presburger
  ultimately show ?thesis by (simp add: held_batch_def)
qed

text \<open>
  The slot the tree updates come from: with \<open>s\<close> ZKP batches applied, it holds
  the batch being applied, or, when everything queued has been applied, the
  batch two before it, which is fully applied.
\<close>

lemma held_batch_pending:
  assumes "a = s div K" "top_batch B n \<le> a + 1" "a \<le> top_batch B n + 1"
  shows "held_batch B n (a mod 2) = a \<or> held_batch B n (a mod 2) + 2 = a"
proof -
  let ?h = "held_batch B n (a mod 2)"
  have "?h mod 2 = a mod 2" using held_batch_parity[of B n "a mod 2"] by simp
  moreover have "?h \<le> a + 1" "a \<le> ?h + 2" using held_batch_range[of B n "a mod 2"] assms by linarith+
  ultimately show ?thesis by presburger
qed

lemma held_batch_not_pending:
  assumes "held_batch B n (a mod 2) = a"
  shows "held_batch B n ((a + 1) mod 2) = a + 1 \<or> held_batch B n ((a + 1) mod 2) + 1 = a"
proof -
  let ?h = "held_batch B n (a mod 2)" and ?g = "held_batch B n ((a + 1) mod 2)"
  have "?g mod 2 = (a + 1) mod 2" using held_batch_parity[of B n "(a + 1) mod 2"] by simp
  moreover have "?g \<le> a + 1" "a \<le> ?g + 1"
    using held_batch_range[of B n "a mod 2"] held_batch_range[of B n "(a + 1) mod 2"] assms by linarith+
  ultimately show ?thesis by presburger
qed


section \<open>The representation invariant\<close>

text \<open>The values of absolute batch \<open>j\<close>, and how many of its ZKP batches are applied.\<close>

definition segment :: "nat \<Rightarrow> bytes list \<Rightarrow> nat \<Rightarrow> bytes list" where
  "segment B vals j = take B (drop (j * B) vals)"

definition applied :: "nat \<Rightarrow> nat \<Rightarrow> nat \<Rightarrow> nat" where
  "applied K s j = min K (s - K * j)"

definition slot_repr :: "hash_fn \<Rightarrow> nat \<Rightarrow> nat \<Rightarrow> bytes list \<Rightarrow> nat \<Rightarrow> batch \<Rightarrow> nat \<Rightarrow> bool" where
  "slot_repr P K Z vals s b j \<longleftrightarrow>
     batch_repr P K Z b (segment (K * Z) vals j) (applied K s j) \<and> start_index b = 1 + j * (K * Z)"

text \<open>
  The proof obligation of ZKP batch \<open>k\<close>: a Groth16 proof was accepted for the
  transition from \<open>old\<close> to \<open>new\<close> that appends exactly the queued values
  \<open>k * Z ..< (k + 1) * Z\<close>, in queue order, at leaf index \<open>1 + k * Z\<close>.
\<close>

definition certified :: "hash_fn \<Rightarrow> groth16 \<Rightarrow> nat \<Rightarrow> bytes list \<Rightarrow> nat \<Rightarrow> bytes \<Rightarrow> bytes \<Rightarrow> bool" where
  "certified P G Z vals k old new \<longleftrightarrow>
     (k + 1) * Z \<le> length vals \<and>
     (\<exists>chain h p. create_hash_chain_4 P (zkp_values Z vals k) = Inr chain \<and>
        batch_public_input P old new chain (1 + k * Z) = Inr h \<and> verify_batch_update G Z h p = Inr ())"

definition cache_certified :: "hash_fn \<Rightarrow> groth16 \<Rightarrow> nat \<Rightarrow> nat \<Rightarrow> bytes list \<Rightarrow> nat \<Rightarrow> batch \<Rightarrow> nat \<Rightarrow> bool" where
  "cache_certified P G K Z vals s b j \<longleftrightarrow>
     (\<forall>z cu. cached_tree_update_at b z = Some cu \<longrightarrow>
        applied K s j \<le> z \<and> certified P G Z vals (j * K + z) (old_root cu) (new_root cu))"

definition nt_ring :: "nat \<Rightarrow> nullifier_tree \<Rightarrow> bytes list \<Rightarrow> bool" where
  "nt_ring K t log \<longleftrightarrow>
     ring_repr K (latest_root_index t) (roots (nt_root_history t)) log \<and>
     current_index (nt_root_history t) = length log mod K \<and>
     (\<forall>i < K. length log \<le> i \<longrightarrow> roots (nt_root_history t) ! i = zero32)"

definition watermark :: "nat \<Rightarrow> nat \<Rightarrow> nat \<Rightarrow> nat" where
  "watermark K Z s = (if s < K then 0 else 1 + (s div K - 1) * (K * Z))"

definition nt_config :: "nat \<Rightarrow> nat \<Rightarrow> nullifier_tree \<Rightarrow> bool" where
  "nt_config K Z t \<longleftrightarrow>
     0 < K \<and> 0 < Z \<and> K * Z \<le> 2 ^ 40 \<and> nt_batch_size t = K * Z \<and> nt_zkp_batch_size t = Z \<and>
     length (batches t) = 2 \<and> nt_capacity t = 2 ^ 40"

definition nt_counters :: "nat \<Rightarrow> nat \<Rightarrow> nullifier_tree \<Rightarrow> nat \<Rightarrow> nat \<Rightarrow> bool" where
  "nt_counters K Z t n s \<longleftrightarrow>
     n < 2 ^ 40 \<and> s * Z \<le> n \<and> K * (top_batch (K * Z) n - 1) \<le> s \<and>
     queue_next_index t = 1 + n \<and> nt_next_index t = 1 + s * Z \<and> sequence_number t = s \<and>
     currently_processing_batch_index t = n div (K * Z) mod 2 \<and>
     pending_batch_index t = s div K mod 2 \<and> close_before_index t = watermark K Z s"

definition nt_slots :: "hash_fn \<Rightarrow> nat \<Rightarrow> nat \<Rightarrow> nullifier_tree \<Rightarrow> bytes list \<Rightarrow> nat \<Rightarrow> bool" where
  "nt_slots P K Z t vals s \<longleftrightarrow>
     (\<forall>i < 2. slot_repr P K Z vals s (batches t ! i) (held_batch (K * Z) (length vals) i))"

definition nt_repr :: "hash_fn \<Rightarrow> nat \<Rightarrow> nat \<Rightarrow> nullifier_tree \<Rightarrow> bytes list \<Rightarrow> bytes list \<Rightarrow> bool" where
  "nt_repr P K Z t vals log \<longleftrightarrow>
     nt_config K Z t \<and> nt_counters K Z t (length vals) (length log - 1) \<and>
     nt_slots P K Z t vals (length log - 1) \<and> nt_ring K t log \<and> (\<forall>v \<in> set vals. field_element v)"

text \<open>Every cached update, and every step of the root log, was proved.\<close>

definition nt_certified :: "hash_fn \<Rightarrow> groth16 \<Rightarrow> nat \<Rightarrow> nat \<Rightarrow> nullifier_tree \<Rightarrow> bytes list \<Rightarrow> bytes list \<Rightarrow> bool" where
  "nt_certified P G K Z t vals log \<longleftrightarrow>
     (\<forall>i < 2. cache_certified P G K Z vals (length log - 1) (batches t ! i) (held_batch (K * Z) (length vals) i)) \<and>
     (\<forall>k. k + 1 < length log \<longrightarrow> certified P G Z vals k (log ! k) (log ! (k + 1)))"

lemmas nt_repr_defs = nt_repr_def nt_config_def nt_counters_def nt_slots_def



section \<open>Segments\<close>

lemma segment_append_full: "(j + 1) * B \<le> length vals \<Longrightarrow> segment B (vals @ ws) j = segment B vals j"
  by (simp add: segment_def)

lemma segment_beyond: "length vals \<le> j * B \<Longrightarrow> segment B vals j = []"
  by (simp add: segment_def)

lemma length_segment_full: "(j + 1) * B \<le> length vals \<Longrightarrow> length (segment B vals j) = B"
  by (simp add: segment_def)

lemma segment_current:
  assumes "0 < B" "c = length vals div B"
  shows "length (segment B vals c) = length vals mod B" "segment B (vals @ [v]) c = segment B vals c @ [v]"
proof -
  have c: "c * B + length vals mod B = length vals" using assms(2) by simp
  have "length vals - c * B = length vals mod B" using c by linarith
  moreover have "length vals mod B < B" using assms(1) by simp
  moreover have "c * B \<le> length vals" using c by linarith
  ultimately show "length (segment B vals c) = length vals mod B"
    "segment B (vals @ [v]) c = segment B vals c @ [v]"
    by (simp_all add: segment_def Suc_le_eq)
qed

lemma zkp_values_segment:
  assumes "z < K"
  shows "zkp_values Z (segment (K * Z) vals j) z = zkp_values Z vals (j * K + z)"
proof -
  have "(z + 1) * Z \<le> K * Z" using assms by (intro mult_le_mono1) simp
  then have "Z \<le> K * Z - z * Z" by simp
  moreover have "z * Z + j * (K * Z) = (j * K + z) * Z" by (simp add: algebra_simps)
  ultimately show ?thesis by (simp add: zkp_values_def segment_def drop_take min_absorb1)
qed

lemma set_segment: "set (segment B vals j) \<subseteq> set vals"
  unfolding segment_def using set_take_subset set_drop_subset by fastforce

lemma held_batch_other:
  assumes "0 < B" "c = n div B"
  shows "held_batch B (Suc n) ((c + 1) mod 2) = (if c = 0 then 1 else c - 1)"
proof (cases c)
  case 0
  then show ?thesis using assms(2) by (simp add: held_batch_def top_batch_Suc)
next
  case (Suc d)
  have "Suc d mod 2 \<noteq> d mod 2" "(c + 1) mod 2 = d mod 2" using Suc by presburger+
  then show ?thesis using Suc assms(2)[symmetric] by (simp add: held_batch_def top_batch_Suc)
qed

text \<open>The values of the slot that is not being filled do not change.\<close>

lemma segment_other_append:
  assumes "0 < B" "c = length vals div B" "j = held_batch B (length vals) ((c + 1) mod 2)"
  shows "segment B (vals @ [v]) j = segment B vals j"
proof (cases "c = 0")
  case True
  have "length vals < B" using True assms(1,2) by (simp add: div_eq_0_iff)
  moreover have "j = 1"
    using True assms(3) held_batch_other[OF assms(1,2)] held_batch_Suc_other[OF assms(1,2)] by simp
  ultimately show ?thesis by (simp add: segment_beyond)
next
  case False
  then have j: "j + 1 = c"
    using assms(3) held_batch_other[OF assms(1,2)] held_batch_Suc_other[OF assms(1,2)] by simp
  have "(j + 1) * B \<le> length vals" unfolding j assms(2) by (rule div_times_less_eq_dividend)
  then show ?thesis by (rule segment_append_full)
qed


section \<open>Queue insertion\<close>

text \<open>
  Insertion needs the slot of the current batch: it is blocked exactly when
  that slot still holds a batch whose ZKP batches are not all in the tree.
\<close>

definition queue_blocked :: "nat \<Rightarrow> nat \<Rightarrow> nat \<Rightarrow> nat \<Rightarrow> bool" where
  "queue_blocked K Z n s \<longleftrightarrow>
     n mod (K * Z) = 0 \<and> 2 \<le> n div (K * Z) \<and> s < K * (n div (K * Z) - 1)"

lemma applied_eq_K: "applied K s j = K \<longleftrightarrow> K * (j + 1) \<le> s \<or> K = 0"
  by (auto simp: applied_def min_def algebra_simps)

lemma applied_less_K: "0 < K \<Longrightarrow> applied K s j < K \<longleftrightarrow> s < K * (j + 1)"
  by (auto simp: applied_def min_def algebra_simps)

lemma applied_current_zero: "s \<le> K * j \<Longrightarrow> applied K s j = 0"
  by (simp add: applied_def)

lemma config_pos: "nt_config K Z t \<Longrightarrow> 0 < K * Z"
  by (simp add: nt_config_def)

lemma slot_ready:
  assumes rep: "nt_repr P K Z t vals log" and c: "c = length vals div (K * Z)" and s: "s = length log - 1"
  shows "if queue_blocked K Z (length vals) s
    then ensure_ready_to_fill (K * Z) (batches t ! (c mod 2)) = Inl BatchNotReady
    else \<exists>b. ensure_ready_to_fill (K * Z) (batches t ! (c mod 2)) = Inr b \<and> slot_repr P K Z vals s b c
      \<and> cached_tree_updates b = cached_tree_updates (batches t ! (c mod 2))"
proof -
  let ?B = "K * Z" and ?n = "length vals" and ?b = "batches t ! (c mod 2)"
  have B: "0 < ?B" "?B \<le> 2 ^ 40" and sn: "s * Z \<le> ?n" "?n < 2 ^ 40"
    using rep s by (auto simp: nt_repr_defs)
  let ?h = "held_batch ?B ?n (c mod 2)"
  have slot: "batch_repr P K Z ?b (segment ?B vals ?h) (applied K s ?h)" "start_index ?b = 1 + ?h * ?B"
    using rep s by (auto simp: nt_repr_def nt_slots_def slot_repr_def)
  have h: "?h = (if ?n mod ?B = 0 \<and> 2 \<le> c then c - 2 else c)"
    by (rule held_batch_Suc_current(2)[OF B(1) c])
  have cB: "c * ?B \<le> ?n" unfolding c by (rule div_times_less_eq_dividend)
  show ?thesis
  proof (cases "?n mod ?B = 0 \<and> 2 \<le> c")
    case False
    then have "\<not> queue_blocked K Z ?n s" using c by (auto simp: queue_blocked_def)
    moreover have "ensure_ready_to_fill ?B ?b = Inr ?b"
      using ensure_ready_to_fill_repr[OF slot(1)] h False segment_current(1)[OF B(1) c] B(1) by simp
    ultimately show ?thesis using slot h False by (auto simp: slot_repr_def)
  next
    case True
    then have hc: "?h = c - 2" "?h + 2 = c" using h by auto
    have "(?h + 1) * ?B \<le> c * ?B" by (intro mult_le_mono1) (use hc in simp)
    then have len: "length (segment ?B vals ?h) = ?B" using cB by (intro length_segment_full) linarith
    have "queue_blocked K Z ?n s \<longleftrightarrow> s < K * (c - 1)" using True by (simp add: queue_blocked_def c)
    also have "c - 1 = ?h + 1" using hc by linarith
    also have "s < K * (?h + 1) \<longleftrightarrow> applied K s ?h < K"
      using applied_less_K[of K s ?h] B(1) by simp
    finally have blocked: "queue_blocked K Z ?n s \<longleftrightarrow> applied K s ?h < K" .
    have wrap: "wrapping_mul ?B NUM_BATCHES = 2 * ?B"
      using B(2) by (simp add: NUM_BATCHES_def wrapping_mul_def u64_limit_def)
    have start: "1 + ?h * ?B + 2 * ?B = 1 + c * ?B" by (subst hc(2)[symmetric]) (simp add: algebra_simps)
    have ok: "u64_ok (1 + c * ?B)" using cB sn(2) by (simp add: u64_limit_def)
    have shape: "batch_shape K Z ?b" using slot(1) by (simp add: batch_repr_def)
    have seg: "segment ?B vals c = []" using True cB segment_current(1)[OF B(1) c] by simp
    have "?n = c * ?B" using True c by (metis div_mult_mod_eq add.right_neutral)
    then have "s * Z \<le> (K * c) * Z" using sn(1) by (simp add: algebra_simps)
    then have ins: "applied K s c = 0" using B(1) by (intro applied_current_zero) simp
    let ?b1 = "batch_reset ?B Z (1 + c * ?B) ?b"
    have "slot_repr P K Z vals s ?b1 c"
      using batch_reset_repr[OF shape, of P "1 + c * ?B"] seg ins by (simp add: slot_repr_def batch_reset_def)
    moreover have "cached_tree_updates ?b1 = cached_tree_updates ?b" by (simp add: batch_reset_def)
    ultimately show ?thesis
      using ensure_ready_to_fill_repr[OF slot(1)] len blocked wrap start ok slot(2) by auto
  qed
qed


lemma less_two_parity: "i < 2 \<Longrightarrow> i = c mod 2 \<or> i = (c + 1) mod (2 :: nat)"
  by presburger

lemma parity_Suc_neq: "(c + 1) mod 2 \<noteq> c mod (2 :: nat)"
  by presburger

lemma two_slots:
  assumes "length bs = 2" "Q (c mod 2) b" "Q ((c + 1) mod 2) (bs ! ((c + 1) mod 2))"
  shows "\<forall>i < 2. Q i (bs[c mod 2 := b] ! i)"
proof (intro allI impI)
  fix i :: nat assume "i < 2"
  then consider "i = c mod 2" | "i = (c + 1) mod 2" "i \<noteq> c mod 2"
    using less_two_parity[of i c] by blast
  then show "Q i (bs[c mod 2 := b] ! i)"
    by cases (use assms in \<open>auto simp: nth_list_update\<close>)
qed

lemma nt_slots_update:
  assumes "length (batches t) = 2" "batches t' = (batches t)[c mod 2 := b]"
    "slot_repr P K Z vals s b (held_batch (K * Z) (length vals) (c mod 2))"
    "slot_repr P K Z vals s (batches t ! ((c + 1) mod 2)) (held_batch (K * Z) (length vals) ((c + 1) mod 2))"
  shows "nt_slots P K Z t' vals s"
  unfolding nt_slots_def assms(2)
  by (rule two_slots[where Q = "\<lambda>i b. slot_repr P K Z vals s b (held_batch (K * Z) (length vals) i)"])
    (use assms in auto)

lemma Suc_div_mod_two:
  assumes "0 < (B :: nat)"
  shows "Suc n div B mod 2 = (if n mod B + 1 = B then (n div B mod 2 + 1) mod 2 else n div B mod 2)"
  using assms by (simp add: div_Suc mod_Suc mod_simps)

lemma get_current_batch_repr:
  "nt_repr P K Z t vals log \<Longrightarrow> get_current_batch t = Inr (batches t ! (length vals div (K * Z) mod 2))"
  by (simp add: nt_repr_defs get_current_batch_def get_def)

text \<open>The filled slot after one more value, and the current batch index.\<close>

lemma slot_extend:
  assumes P: "poseidon_ok P" and rep: "nt_repr P K Z t vals log"
    and c: "c = length vals div (K * Z)" and s: "s = length log - 1"
    and slot: "slot_repr P K Z vals s b c" and v: "field_element v"
  obtains b' where "add_to_hash_chain P v b = Inr b'" "slot_repr P K Z (vals @ [v]) s b' c"
    "cached_tree_updates b' = cached_tree_updates b"
    "checked_state b' = Inr (if length vals mod (K * Z) + 1 = K * Z then Full else Fill)"
proof -
  let ?seg = "segment (K * Z) vals c"
  have B: "0 < K * Z" and fe: "\<forall>x \<in> set vals. field_element x"
    using rep by (auto simp: nt_repr_defs)
  have br: "batch_repr P K Z b ?seg (applied K s c)" and st: "start_index b = 1 + c * (K * Z)"
    using slot by (auto simp: slot_repr_def)
  note seg = segment_current[OF B c]
  have room: "length ?seg < K * Z" using seg(1) B by simp
  obtain b' where b': "add_to_hash_chain P v b = Inr b'"
    using add_to_hash_chain_total[OF br room P _ v] set_segment[of "K * Z" vals c] fe by blast
  note r = add_to_hash_chain_repr[OF br b']
  have "applied K s c \<le> length ?seg div Z" using br by (simp add: batch_repr_defs)
  moreover have "length ?seg div Z < K" using room by (rule div_less_batches)
  ultimately have "applied K s c \<noteq> K" by linarith
  moreover have "length (?seg @ [v]) < K * Z \<longleftrightarrow> length vals mod (K * Z) + 1 \<noteq> K * Z"
    using seg(1) room by auto
  ultimately have "checked_state b' = Inr (if length vals mod (K * Z) + 1 = K * Z then Full else Fill)"
    using batch_repr_state[OF r(2)] by simp
  moreover have "slot_repr P K Z (vals @ [v]) s b' c"
    using r(2,3) st by (simp add: slot_repr_def seg(2))
  ultimately show thesis using that b' r(4) by blast
qed

lemma insert_repr:
  assumes P: "poseidon_ok P" and rep: "nt_repr P K Z t vals log" and s: "s = length log - 1"
    and v: "field_element v" "is_canonical_bn254_scalar_be v"
    and room: "1 + length vals < 2 ^ 40" and free: "\<not> queue_blocked K Z (length vals) s"
  defines "i \<equiv> length vals div (K * Z) mod 2"
  obtains t' b where "insert_nullifier_into_queue P v t = Inr (t', 1 + length vals)"
    "nt_repr P K Z t' (vals @ [v]) log" "batches t' = (batches t)[i := b]"
    "cached_tree_updates b = cached_tree_updates (batches t ! i)"
proof -
  let ?B = "K * Z" and ?n = "length vals"
  define c where "c = ?n div ?B"
  have conf: "nt_config K Z t" and cnt: "nt_counters K Z t ?n s" and slots: "nt_slots P K Z t vals s"
    using rep s by (auto simp: nt_repr_def)
  have B: "0 < ?B" by (rule config_pos[OF conf])
  obtain b1 where b1: "ensure_ready_to_fill ?B (batches t ! i) = Inr b1" "slot_repr P K Z vals s b1 c"
    "cached_tree_updates b1 = cached_tree_updates (batches t ! i)"
    using slot_ready[OF rep c_def s] free by (auto simp: i_def c_def)
  obtain b2 where b2: "add_to_hash_chain P v b1 = Inr b2" "slot_repr P K Z (vals @ [v]) s b2 c"
    "cached_tree_updates b2 = cached_tree_updates b1"
    "checked_state b2 = Inr (if ?n mod ?B + 1 = ?B then Full else Fill)"
    by (rule slot_extend[OF P rep c_def s b1(2) v(1)])
  let ?cur = "if ?n mod ?B + 1 = ?B then (i + 1) mod 2 else i"
  let ?t = "t\<lparr>batches := (batches t)[i := b2], currently_processing_batch_index := ?cur,
             queue_next_index := ?n + 2\<rparr>"
  have i: "i < length (batches t)" "i < 2" "currently_processing_batch_index t = i"
    using conf cnt by (auto simp: nt_config_def nt_counters_def i_def)
  have nxt: "checked_next_queue_index t = Inr (1 + ?n)"
    using conf cnt room by (simp add: nt_config_def nt_counters_def checked_next_queue_index_def)
  have wrap: "wrapping_add (1 + ?n) 1 = ?n + 2"
    using room by (subst wrapping_add_exact) (simp_all add: u64_limit_def)
  have cur: "currently_processing_batch_index ?t = Suc ?n div ?B mod 2"
    using Suc_div_mod_two[OF B, of ?n] by (simp add: i_def)
  have ins: "insert_nullifier_into_queue P v t = Inr (?t, 1 + ?n)"
    using v(2) nxt get_current_batch_repr[OF rep] b1(1) b2(1,4) conf cnt i wrap
    by (simp add: insert_nullifier_into_queue_def increment_currently_processing_batch_index_if_full_def
        get_current_batch_def get_def set_current_batch_def NUM_BATCHES_def i_def[symmetric]
        nt_config_def nt_counters_def)
  have top: "K * (top_batch ?B (Suc ?n) - 1) \<le> s"
  proof (cases "?n mod ?B = 0 \<and> 2 \<le> c")
    case True
    then show ?thesis using free by (simp add: queue_blocked_def c_def top_batch_Suc)
  next
    case False
    then have "c \<le> 1 \<or> top_batch ?B ?n = c" using pred_div[OF B, of ?n] by (auto simp: top_batch_def c_def)
    then show ?thesis
      using cnt by (auto simp: nt_counters_def top_batch_Suc c_def[symmetric] max_def)
  qed
  have other: "slot_repr P K Z (vals @ [v]) s (batches t ! ((c + 1) mod 2)) (held_batch ?B (Suc ?n) ((c + 1) mod 2))"
    using slots segment_other_append[OF B c_def refl, of v] held_batch_Suc_other[OF B c_def]
    by (simp add: nt_slots_def slot_repr_def)
  have "nt_slots P K Z ?t (vals @ [v]) s"
    using conf b2(2) held_batch_Suc_current(1)[OF B c_def] other
    by (intro nt_slots_update[of t ?t c b2]) (simp_all add: i_def c_def[symmetric] nt_config_def)
  moreover have "nt_counters K Z ?t (length (vals @ [v])) s"
    using cnt top room cur by (simp add: nt_counters_def)
  moreover have "nt_ring K ?t log" "\<forall>x \<in> set (vals @ [v]). field_element x"
    using rep v(1) by (auto simp: nt_repr_def nt_ring_def latest_root_index_def Let_def)
  ultimately have "nt_repr P K Z ?t (vals @ [v]) log"
    using conf s by (simp add: nt_repr_def nt_config_def)
  then show thesis using that[OF ins] b1(3) b2(3) by simp
qed


lemma insert_errors:
  assumes rep: "nt_repr P K Z t vals log" and s: "s = length log - 1"
  shows "\<not> is_canonical_bn254_scalar_be v \<Longrightarrow> insert_nullifier_into_queue P v t = Inl NonCanonicalFieldElement"
    "is_canonical_bn254_scalar_be v \<Longrightarrow> 2 ^ 40 \<le> 1 + length vals \<Longrightarrow>
       insert_nullifier_into_queue P v t = Inl NullifierTreeIsFull"
    "is_canonical_bn254_scalar_be v \<Longrightarrow> 1 + length vals < 2 ^ 40 \<Longrightarrow> queue_blocked K Z (length vals) s \<Longrightarrow>
       insert_nullifier_into_queue P v t = Inl BatchNotReady"
  using slot_ready[OF rep refl s] rep get_current_batch_repr[OF rep]
  by (simp_all add: insert_nullifier_into_queue_def checked_next_queue_index_def nt_repr_defs)


section \<open>The root history\<close>

lemma nt_ring_cong: "nt_root_history t' = nt_root_history t \<Longrightarrow> nt_ring K t' log = nt_ring K t log"
  by (simp add: nt_ring_def latest_root_index_def Let_def)

lemma nt_latest:
  assumes "nt_ring K t log"
  shows "nt_get_root t = Some (last log)"
  using assms ring_repr_cursor[of K "latest_root_index t" "roots (nt_root_history t)" log]
  by (auto simp: nt_ring_def nt_get_root_def get_def ring_repr_def)

lemma latest_root_index_ring:
  assumes "length (roots (nt_root_history t)) = K" "0 < K" "current_index (nt_root_history t) = m mod K" "0 < m"
  shows "latest_root_index t = (m - 1) mod K"
proof -
  have "(m mod K + K - 1) mod K = (m mod K + (K - 1)) mod K" using assms(2) by (simp add: Suc_leI)
  also have "\<dots> = (m + (K - 1)) mod K" by (simp add: mod_simps)
  also have "m + (K - 1) = (m - 1) + K" using assms(2,4) by simp
  also have "\<dots> mod K = (m - 1) mod K" by simp
  finally have "(m mod K + K - 1) mod K = (m - 1) mod K" .
  then show ?thesis using assms(1-3) by (simp add: latest_root_index_def Let_def)
qed

lemma append_root_ring:
  assumes ring: "nt_ring K t log"
  obtains t' where "append_root r t = Inr t'" "nt_ring K t' (log @ [r])"
    "t' = t\<lparr>nt_root_history := nt_root_history t'\<rparr>"
proof -
  let ?h = "nt_root_history t"
  let ?h' = "\<lparr>current_index = (current_index ?h + 1) mod K, roots = (roots ?h)[current_index ?h := r]\<rparr>"
  let ?t = "t\<lparr>nt_root_history := ?h'\<rparr>"
  have rr: "ring_repr K (latest_root_index t) (roots ?h) log" and cur: "current_index ?h = length log mod K"
    and zero: "\<And>i. i < K \<Longrightarrow> length log \<le> i \<Longrightarrow> roots ?h ! i = zero32"
    using ring by (auto simp: nt_ring_def)
  have K: "0 < K" "length (roots ?h) = K" "log \<noteq> []" and lat: "latest_root_index t = (length log - 1) mod K"
    using rr by (auto simp: ring_repr_def)
  have nxt: "(latest_root_index t + 1) mod K = length log mod K" using lat K(3) by (simp add: mod_simps)
  have cur': "current_index ?h' = length (log @ [r]) mod K" using cur by (simp add: mod_simps)
  have lat': "latest_root_index ?t = length log mod K"
    using latest_root_index_ring[of ?t K "length (log @ [r])"] K cur' by simp
  have "ring_repr K (length log mod K) ((roots ?h)[length log mod K := r]) (log @ [r])"
    using ring_repr_push[OF rr, of r] nxt by simp
  then have "nt_ring K ?t (log @ [r])"
    using cur cur' lat' zero by (auto simp: nt_ring_def nth_list_update)
  moreover have "append_root r t = Inr ?t"
    using K cur by (simp add: append_root_def Let_def)
  ultimately show thesis using that by simp
qed

lemma nt_root_lookup_sound:
  assumes "nt_ring K t log" "nt_root_by_index t i = Some r"
  shows "\<exists>k < length log. length log \<le> k + K \<and> k mod K = i \<and> log ! k = r"
proof -
  have i: "i < K" "roots (nt_root_history t) ! i = r" "r \<noteq> zero32"
    and rr: "ring_repr K (latest_root_index t) (roots (nt_root_history t)) log"
    using assms by (auto simp: nt_root_by_index_def nt_ring_def ring_repr_def result_simps
        split: option.splits if_splits)
  have "K \<le> length log \<or> i < length log" using assms(1) i by (auto simp: nt_ring_def not_le)
  then show ?thesis using ring_repr_slot[OF rr i(1)] i(2) by metis
qed

definition push_nt_root :: "nullifier_tree \<Rightarrow> bytes \<Rightarrow> nullifier_tree" where
  "push_nt_root t r = (case append_root r t of Inr t' \<Rightarrow> t' | Inl _ \<Rightarrow> t)"

interpretation nullifier_roots: root_ring K push_nt_root nt_root_by_index latest_root_index
  "\<lambda>r. r \<noteq> zero32" "nt_ring K" for K
proof unfold_locales
  fix t log r assume "nt_ring K t log"
  then obtain t' where "append_root r t = Inr t'" "nt_ring K t' (log @ [r])" by (rule append_root_ring)
  then show "nt_ring K (push_nt_root t r) (log @ [r])" by (simp add: push_nt_root_def)
next
  fix t log assume "nt_ring K t log"
  then show "log \<noteq> [] \<and> latest_root_index t = (length log - 1) mod K" by (simp add: nt_ring_def ring_repr_def)
next
  fix t log i r assume "nt_ring K t log" "nt_root_by_index t i = Some r"
  then show "\<exists>k < length log. length log \<le> k + K \<and> k mod K = i \<and> log ! k = r" by (rule nt_root_lookup_sound)
next
  fix t log k assume "nt_ring K t log" "k < length log" "length log \<le> k + K" "log ! k \<noteq> zero32"
  then show "nt_root_by_index t (k mod K) = Some (log ! k)"
    by (auto simp: nt_root_by_index_def nt_ring_def ring_repr_def get_def)
qed



section \<open>Applying one cached update\<close>

lemma clear_repr:
  assumes "batch_repr P K Z b vs ins" "z < ins"
  obtains b' where "clear_cached_tree_update z b = Inr b'" "batch_repr P K Z b' vs ins"
    "start_index b' = start_index b" "cached_tree_updates b' = (cached_tree_updates b)[z := empty_update]"
proof -
  let ?b = "b\<lparr>cached_tree_updates := (cached_tree_updates b)[z := empty_update],
              hash_chains := (hash_chains b)[z := zero32]\<rparr>"
  have "ins \<le> length vs div Z" "length vs \<le> K * Z" "0 < Z" using assms(1) by (auto simp: batch_repr_defs)
  moreover from this have "length vs div Z \<le> K" using div_le_mono[of "length vs" "K * Z" Z] by simp
  ultimately have z: "z < K" "z \<noteq> length vs div Z" using assms(2) by linarith+
  have "clear_cached_tree_update z b = Inr ?b"
    using z(1) assms(1)
    by (simp add: clear_cached_tree_update_def evict_cached_tree_update_def cache_tree_update_def batch_repr_defs)
  moreover have "batch_repr P K Z ?b vs ins"
    using assms z by (auto simp: batch_repr_defs)
  ultimately show thesis by (rule that) simp_all
qed

lemma watermark_step:
  assumes "0 < K" "a = s div K"
  shows "watermark K Z (s + 1) = (if s mod K + 1 = K then max (watermark K Z s) (1 + a * (K * Z)) else watermark K Z s)"
proof -
  have d: "(s + 1) div K = (if s mod K + 1 = K then a + 1 else a)" using assms by (simp add: div_Suc mod_Suc)
  have lt: "m < K \<longleftrightarrow> m div K = 0" for m using assms(1) by (simp add: div_eq_0_iff)
  show ?thesis
  proof (cases "s mod K + 1 = K")
    case True
    have "watermark K Z s \<le> 1 + a * (K * Z)"
      using assms(2) by (simp add: watermark_def diff_mult_distrib)
    then show ?thesis using True d lt[of "s + 1"] by (simp add: watermark_def)
  next
    case False
    then show ?thesis using d lt[of "s + 1"] lt[of s] assms(2) by (simp add: watermark_def)
  qed
qed

lemma applied_step:
  assumes "0 < K" "a = s div K"
  shows "applied K s a = s mod K" "applied K (s + 1) a = s mod K + 1"
    "j + 1 = a \<or> j = a + 1 \<Longrightarrow> applied K (s + 1) j = applied K s j"
proof -
  have s: "K * a + s mod K = s" using assms(2) by simp
  have m: "s mod K < K" using assms(1) by simp
  have d: "s - K * a = s mod K" "s + 1 - K * a = s mod K + 1" using s by linarith+
  show "applied K s a = s mod K" "applied K (s + 1) a = s mod K + 1"
    using d m by (simp_all add: applied_def)
  show "applied K (s + 1) j = applied K s j" if "j + 1 = a \<or> j = a + 1"
    using that
  proof
    assume "j + 1 = a"
    then have "K * a = K * j + K" by (auto simp: algebra_simps)
    then show ?thesis using s by (simp add: applied_def)
  next
    assume "j = a + 1"
    then have "K * j = K * a + K" by (simp add: algebra_simps)
    then show ?thesis using s m by (simp add: applied_def)
  qed
qed

lemma pending_slot:
  assumes rep: "nt_repr P K Z t vals log" and s: "s = length log - 1" and a: "a = s div K"
  shows "get_pending_batch t = Inr (batches t ! (a mod 2))"
    "held_batch (K * Z) (length vals) (a mod 2) = a \<or> held_batch (K * Z) (length vals) (a mod 2) + 2 = a"
proof -
  let ?n = "length vals" and ?B = "K * Z"
  have K: "0 < K" "0 < Z" and sn: "s * Z \<le> ?n" and top: "K * (top_batch ?B ?n - 1) \<le> s"
    using rep s by (auto simp: nt_repr_defs)
  show "get_pending_batch t = Inr (batches t ! (a mod 2))"
    using rep s a by (simp add: nt_repr_defs get_pending_batch_def get_def)
  have "top_batch ?B ?n - 1 \<le> a" using top K a by (simp add: less_eq_div_iff_mult_less_eq mult.commute)
  moreover have "a \<le> top_batch ?B ?n + 1"
  proof -
    have "s \<le> ?n div Z" using sn K(2) by (simp add: less_eq_div_iff_mult_less_eq)
    then have "a \<le> ?n div ?B" unfolding a by (metis div_le_mono div_mult2_eq mult.commute)
    moreover have "?n div ?B \<le> top_batch ?B ?n + 1"
      using pred_div[of ?B ?n] K by (auto simp: top_batch_def split: if_splits)
    ultimately show ?thesis by linarith
  qed
  ultimately show "held_batch ?B ?n (a mod 2) = a \<or> held_batch ?B ?n (a mod 2) + 2 = a"
    by (intro held_batch_pending[OF a]) linarith+
qed


text \<open>The batch side of one application: mark inserted, clear the slot.\<close>

lemma apply_batch:
  assumes slot: "slot_repr P K Z vals s b a" and a: "a = s div K"
    and ready: "s mod K < length (segment (K * Z) vals a) div Z"
  obtains b1 b2 where
    "mark_as_inserted_in_merkle_tree b = Inr (b1, if s mod K + 1 = K then Inserted
       else if length (segment (K * Z) vals a) < K * Z then Fill else Full)"
    "clear_cached_tree_update (s mod K) b1 = Inr b2" "slot_repr P K Z vals (s + 1) b2 a"
    "cached_tree_updates b2 = (cached_tree_updates b)[s mod K := empty_update]"
proof -
  let ?seg = "segment (K * Z) vals a"
  have "batch_repr P K Z b ?seg (applied K s a)" "start_index b = 1 + a * (K * Z)"
    using slot by (auto simp: slot_repr_def)
  moreover from this have K: "0 < K" by (simp add: batch_repr_defs)
  ultimately have br: "batch_repr P K Z b ?seg (s mod K)" "start_index b = 1 + a * (K * Z)"
    using applied_step(1)[OF K a] by auto
  obtain b1 where b1: "mark_as_inserted_in_merkle_tree b = Inr (b1, if s mod K + 1 = K then Inserted
       else if length ?seg < K * Z then Fill else Full)"
    "batch_repr P K Z b1 ?seg (s mod K + 1)" "start_index b1 = start_index b"
    "cached_tree_updates b1 = cached_tree_updates b"
    using mark_as_inserted_repr[OF br(1) ready] by blast
  obtain b2 where b2: "clear_cached_tree_update (s mod K) b1 = Inr b2" "batch_repr P K Z b2 ?seg (s mod K + 1)"
    "start_index b2 = start_index b1" "cached_tree_updates b2 = (cached_tree_updates b1)[s mod K := empty_update]"
    by (rule clear_repr[OF b1(2), of "s mod K"]) auto
  have "slot_repr P K Z vals (s + 1) b2 a"
    using b2(2,3) b1(3) br(2) applied_step(2)[OF K a] by (simp add: slot_repr_def)
  then show thesis using that[OF b1(1) b2(1)] b2(4) b1(4) by simp
qed

lemma nt_slots_nth:
  "nt_slots P K Z t vals s \<Longrightarrow>
     slot_repr P K Z vals s (batches t ! (a mod 2)) (held_batch (K * Z) (length vals) (a mod 2))"
  by (simp add: nt_slots_def)

lemma ready_leaves:
  assumes "0 < Z" "a = s div K" "s mod K < length (segment (K * Z) vals a) div Z"
  shows "(s + 1) * Z \<le> length vals"
proof -
  have "(s mod K + 1) * Z \<le> length (segment (K * Z) vals a)"
    using assms(1,3) less_eq_div_iff_mult_less_eq[of Z "s mod K + 1"] by (simp add: Suc_le_eq)
  also have "\<dots> \<le> length vals - a * (K * Z)" by (simp add: segment_def)
  finally have "(s mod K + 1) * Z \<le> length vals - a * (K * Z)" .
  moreover have "0 < (s mod K + 1) * Z" using assms(1) by simp
  ultimately have "(s mod K + 1) * Z + a * (K * Z) \<le> length vals" by linarith
  moreover have "(s mod K + 1) * Z + a * (K * Z) = (a * K + s mod K + 1) * Z" by (simp add: algebra_simps)
  ultimately show ?thesis using assms(2) by simp
qed

lemma apply_one_repr:
  assumes rep: "nt_repr P K Z t vals log" and s: "s = length log - 1" and a: "a = s div K"
    and held: "held_batch (K * Z) (length vals) (a mod 2) = a"
    and ready: "s mod K < length (segment (K * Z) vals a) div Z"
  obtains t' b where "apply_one (s mod K) cu t = Inr t'" "nt_repr P K Z t' vals (log @ [new_root cu])"
    "batches t' = (batches t)[a mod 2 := b]"
    "cached_tree_updates b = (cached_tree_updates (batches t ! (a mod 2)))[s mod K := empty_update]"
proof -
  let ?B = "K * Z" and ?n = "length vals" and ?i = "a mod 2"
  have conf: "nt_config K Z t" and cnt: "nt_counters K Z t ?n s" and slots: "nt_slots P K Z t vals s"
    and ring: "nt_ring K t log" using rep s by (auto simp: nt_repr_def)
  have K: "0 < K" "0 < Z" using conf by (auto simp: nt_config_def)
  have log: "log \<noteq> []" using ring by (auto simp: nt_ring_def ring_repr_def)
  have i: "?i < length (batches t)" "pending_batch_index t = ?i"
    using conf cnt a by (auto simp: nt_config_def nt_counters_def)
  have slot: "slot_repr P K Z vals s (batches t ! ?i) a" using nt_slots_nth[OF slots, of a] held by simp
  have leaves: "(s + 1) * Z \<le> ?n" by (rule ready_leaves[OF K(2) a ready])
  then have lim: "1 + (s + 1) * Z \<le> 2 ^ 40" "1 + (s + 1) * Z < u64_limit" "s + 1 < u64_limit"
  proof -
    show l: "1 + (s + 1) * Z \<le> 2 ^ 40" using leaves cnt by (simp add: nt_counters_def)
    moreover have "s + 1 \<le> (s + 1) * Z" using K(2) mult_le_mono2[of 1 Z "s + 1"] by simp
    ultimately show "1 + (s + 1) * Z < u64_limit" "s + 1 < u64_limit" by (simp_all add: u64_limit_def)
  qed
  let ?t1 = "t\<lparr>nt_next_index := 1 + (s + 1) * Z, sequence_number := s + 1\<rparr>"
  have nxt: "wrapping_add (nt_next_index t) (nt_zkp_batch_size t) = 1 + (s + 1) * Z"
    "wrapping_add (sequence_number t) 1 = s + 1" "\<not> tree_is_full (nt_zkp_batch_size t) t"
    using conf cnt lim
    by (auto simp: nt_config_def nt_counters_def tree_is_full_def checked_add_def algebra_simps split: option.splits)
  have ring1: "nt_ring K ?t1 log" using ring nt_ring_cong[of ?t1 t] by simp
  obtain t2 where t2: "append_root (new_root cu) ?t1 = Inr t2" "nt_ring K t2 (log @ [new_root cu])"
    "t2 = ?t1\<lparr>nt_root_history := nt_root_history t2\<rparr>"
    by (rule append_root_ring[OF ring1])
  let ?st = "if s mod K + 1 = K then Inserted else if length (segment ?B vals a) < ?B then Fill else Full"
  obtain b1 b2 where b: "mark_as_inserted_in_merkle_tree (batches t ! ?i) = Inr (b1, ?st)"
    "clear_cached_tree_update (s mod K) b1 = Inr b2" "slot_repr P K Z vals (s + 1) b2 a"
    "cached_tree_updates b2 = (cached_tree_updates (batches t ! ?i))[s mod K := empty_update]"
    by (rule apply_batch[OF slot a ready])
  let ?t = "?t1\<lparr>nt_root_history := nt_root_history t2, batches := (batches t)[?i := b2],
     pending_batch_index := (s + 1) div K mod 2, close_before_index := watermark K Z (s + 1)\<rparr>"
  have pend: "(s + 1) div K mod 2 = (if s mod K + 1 = K then (?i + 1) mod 2 else ?i)"
    using Suc_div_mod_two[OF K(1), of s] a by simp
  have start: "start_index b2 = 1 + a * ?B" using b(3) by (simp add: slot_repr_def)
  have f2: "batches t2 = batches t" "pending_batch_index t2 = ?i" "close_before_index t2 = watermark K Z s"
    using arg_cong[OF t2(3), of batches] arg_cong[OF t2(3), of pending_batch_index]
      arg_cong[OF t2(3), of close_before_index] i(2) cnt by (simp_all add: nt_counters_def)
  have gp: "get_pending_batch t2 = Inr (batches t ! ?i)" using f2 i(1) by (simp add: get_pending_batch_def get_def)
  have wm: "advance_nullifier_pda_close_watermark ?st (set_pending_batch b2 t2)
      = Inr (t2\<lparr>batches := (batches t)[?i := b2], close_before_index := watermark K Z (s + 1)\<rparr>)"
    using watermark_step[OF K(1) a, of Z] f2 i(1) start
    by (simp add: advance_nullifier_pda_close_watermark_def set_pending_batch_def get_pending_batch_def get_def)
  have ap: "apply_one (s mod K) cu t = Inr ?t"
  proof -
    let ?t3 = "t2\<lparr>batches := (batches t)[?i := b2], close_before_index := watermark K Z (s + 1)\<rparr>"
    have "apply_one (s mod K) cu t = Inr (increment_pending_batch_index_if_inserted ?st ?t3)"
      unfolding apply_one_def Let_def nxt(1,2) t2(1) rbind_simps gp b(1) prod.case b(2) wm using nxt(3) by simp
    moreover have "increment_pending_batch_index_if_inserted ?st ?t3 = ?t"
      unfolding increment_pending_batch_index_if_inserted_def NUM_BATCHES_def pend
      by (subst (1 2 3) t2(3)) (use i(2) in simp)
    ultimately show ?thesis by simp
  qed
  have "slot_repr P K Z vals (s + 1) (batches t ! ((a + 1) mod 2)) (held_batch ?B ?n ((a + 1) mod 2))"
    using nt_slots_nth[OF slots, of "a + 1"] held_batch_not_pending[OF held]
      applied_step(3)[OF K(1) a, of "held_batch ?B ?n ((a + 1) mod 2)"]
    by (auto simp: slot_repr_def)
  then have "nt_slots P K Z ?t vals (s + 1)"
    using conf b(3) held by (intro nt_slots_update[of t ?t a b2]) (simp_all add: nt_config_def)
  moreover have "nt_counters K Z ?t ?n (s + 1)" using cnt leaves by (simp add: nt_counters_def)
  moreover have "nt_ring K ?t (log @ [new_root cu])" using t2(2) nt_ring_cong[of ?t t2] by simp
  ultimately have "nt_repr P K Z ?t vals (log @ [new_root cu])"
    using conf rep s log by (simp add: nt_repr_def nt_config_def)
  then show thesis using that[OF ap] b(4) by simp
qed



section \<open>Caching an update\<close>

lemma leaves_iff_ready:
  assumes "0 < Z" "z < K"
  shows "z < length (segment (K * Z) vals a) div Z \<longleftrightarrow> (a * K + z + 1) * Z \<le> length vals"
proof -
  have z: "0 < (z + 1) * Z" "(z + 1) * Z \<le> K * Z" using assms by (simp_all add: Suc_le_eq mult_le_mono1 del: mult_Suc)
  have "z < length (segment (K * Z) vals a) div Z \<longleftrightarrow> (z + 1) * Z \<le> length (segment (K * Z) vals a)"
    using assms(1) less_eq_div_iff_mult_less_eq[of Z "z + 1"] by (simp add: Suc_le_eq)
  also have "\<dots> \<longleftrightarrow> (z + 1) * Z \<le> length vals - a * (K * Z)" using z(2) by (auto simp: segment_def)
  also have "\<dots> \<longleftrightarrow> (z + 1) * Z + a * (K * Z) \<le> length vals" using z(1) by linarith
  also have "(z + 1) * Z + a * (K * Z) = (a * K + z + 1) * Z" by (simp add: algebra_simps)
  finally show ?thesis .
qed

lemma slot_repr_cache:
  "slot_repr P K Z vals s b j \<Longrightarrow> length us = K \<Longrightarrow> slot_repr P K Z vals s (b\<lparr>cached_tree_updates := us\<rparr>) j"
  by (auto simp: slot_repr_def batch_repr_defs)

lemma slot_repr_lengths:
  "slot_repr P K Z vals s b j \<Longrightarrow> length (hash_chains b) = K \<and> length (cached_tree_updates b) = K
     \<and> num_inserted_zkp_batches b = applied K s j \<and> 0 < K \<and> 0 < Z"
  by (simp add: slot_repr_def batch_repr_defs)

lemma nt_repr_set_cache:
  assumes rep: "nt_repr P K Z t vals log" and a: "a = (length log - 1) div K" and us: "length us = K"
  defines "t' \<equiv> set_pending_batch ((batches t ! (a mod 2))\<lparr>cached_tree_updates := us\<rparr>) t"
  shows "nt_repr P K Z t' vals log"
    "batches t' = (batches t)[a mod 2 := (batches t ! (a mod 2))\<lparr>cached_tree_updates := us\<rparr>]"
proof -
  have slots: "nt_slots P K Z t vals (length log - 1)" and conf: "length (batches t) = 2"
    and pend: "pending_batch_index t = a mod 2"
    using rep a by (auto simp: nt_repr_def nt_config_def nt_counters_def)
  show b: "batches t' = (batches t)[a mod 2 := (batches t ! (a mod 2))\<lparr>cached_tree_updates := us\<rparr>]"
    using pend by (simp add: t'_def set_pending_batch_def)
  have "nt_slots P K Z t' vals (length log - 1)"
    by (rule nt_slots_update[OF conf b slot_repr_cache[OF nt_slots_nth[OF slots] us] nt_slots_nth[OF slots]])
  then show "nt_repr P K Z t' vals log"
    using rep nt_ring_cong[of t' t K log]
    by (simp add: nt_repr_def nt_config_def nt_counters_def t'_def set_pending_batch_def)
qed

lemma certified_append: "certified P G Z vals k old new \<Longrightarrow> certified P G Z (vals @ ws) k old new"
  by (auto simp: certified_def zkp_values_append)

lemma pending_held:
  assumes rep: "nt_repr P K Z t vals log" and s: "s = length log - 1" and a: "a = s div K"
    and z: "num_inserted_zkp_batches (batches t ! (a mod 2)) \<le> z" "z < K"
  shows "held_batch (K * Z) (length vals) (a mod 2) = a"
proof -
  let ?h = "held_batch (K * Z) (length vals) (a mod 2)"
  have slot: "slot_repr P K Z vals s (batches t ! (a mod 2)) ?h"
    using rep s nt_slots_nth by (auto simp: nt_repr_def)
  have "applied K s ?h < K" using slot_repr_lengths[OF slot] z by simp
  then have "s < K * (?h + 1)" using z applied_less_K[of K s ?h] by simp
  then have "s div K < ?h + 1" by (simp add: less_mult_imp_div_less mult.commute)
  then show ?thesis using pending_slot(2)[OF rep s a] a by linarith
qed

lemma slot_chain:
  assumes slot: "slot_repr P K Z vals s b j" and z: "applied K s j \<le> z" "z < num_full_zkp_batches b" "z < K"
  shows "create_hash_chain_4 P (zkp_values Z vals (j * K + z)) = Inr (hash_chains b ! z)"
    "(j * K + z + 1) * Z \<le> length vals"
proof -
  have br: "batch_repr P K Z b (segment (K * Z) vals j) (applied K s j)" using slot by (simp add: slot_repr_def)
  then have zf: "z < length (segment (K * Z) vals j) div Z" and Z: "0 < Z" using z(2) by (auto simp: batch_repr_defs)
  then have "create_hash_chain_4 P (zkp_values Z (segment (K * Z) vals j) z) = Inr (hash_chains b ! z)"
    using br z(1) by (simp add: batch_repr_defs)
  then show "create_hash_chain_4 P (zkp_values Z vals (j * K + z)) = Inr (hash_chains b ! z)"
    using zkp_values_segment[OF z(3)] by simp
  show "(j * K + z + 1) * Z \<le> length vals" using leaves_iff_ready[OF Z z(3)] zf by blast
qed

lemma verify_cache_repr:
  assumes rep: "nt_repr P K Z t vals log" and s: "s = length log - 1" and a: "a = s div K"
    and ver: "verify_proof_cache_update P G d t = Inr (t', True)"
  defines "z \<equiv> in_zkp_batch_index d" and "b \<equiv> batches t ! (a mod 2)"
  shows "z < K" "s mod K \<le> z" "held_batch (K * Z) (length vals) (a mod 2) = a"
    "certified P G Z vals (a * K + z) (in_old_root d) (in_new_root d)"
    "t' = set_pending_batch (b\<lparr>cached_tree_updates := (cached_tree_updates b)
       [z := \<lparr>old_root = in_old_root d, new_root = in_new_root d, occupied = 1\<rparr>]\<rparr>) t"
proof -
  have pb: "get_pending_batch t = Inr b" using pending_slot(1)[OF rep s a] by (simp add: b_def)
  have zs: "nt_zkp_batch_size t = Z" using rep by (simp add: nt_repr_defs)
  obtain chain n start h where v: "hash_chain b z = Some chain" "z < num_full_zkp_batches b"
    "num_inserted_zkp_batches b \<le> z" "checked_mul z Z = Some n" "checked_add (start_index b) n = Some start"
    "batch_public_input P (in_old_root d) (in_new_root d) chain start = Inr h"
    "verify_batch_update G Z h (in_proof d) = Inr ()"
    "t' = set_pending_batch (b\<lparr>cached_tree_updates := (cached_tree_updates b)
       [z := \<lparr>old_root = in_old_root d, new_root = in_new_root d, occupied = 1\<rparr>]\<rparr>) t"
    using ver pb zs
    by (auto simp: verify_proof_cache_update_def z_def cache_tree_update_def result_simps split: if_splits)
  have slot0: "slot_repr P K Z vals s b (held_batch (K * Z) (length vals) (a mod 2))"
    using rep s nt_slots_nth by (auto simp: nt_repr_def b_def)
  show z: "z < K" using v(1) slot_repr_lengths[OF slot0] by (auto simp: hash_chain_def result_simps)
  show held: "held_batch (K * Z) (length vals) (a mod 2) = a"
    using pending_held[OF rep s a _ z] v(3) by (simp add: b_def)
  have slot: "slot_repr P K Z vals s b a" using slot0 held by simp
  note len = slot_repr_lengths[OF slot]
  show "s mod K \<le> z" using len v(3) applied_step(1)[of K a s] a by simp
  have ap: "applied K s a \<le> z" using len v(3) by simp
  have "start = 1 + (a * K + z) * Z"
    using v(4,5) slot by (auto simp: u64_simps slot_repr_def algebra_simps)
  then show "certified P G Z vals (a * K + z) (in_old_root d) (in_new_root d)"
    using slot_chain[OF slot ap v(2) z] v(1,6,7) by (auto simp: certified_def hash_chain_def result_simps)
  show "t' = set_pending_batch (b\<lparr>cached_tree_updates := (cached_tree_updates b)
       [z := \<lparr>old_root = in_old_root d, new_root = in_new_root d, occupied = 1\<rparr>]\<rparr>) t" by (rule v(8))
qed

lemma verify_cache_replay:
  "verify_proof_cache_update P G d t = Inr (t', False) \<Longrightarrow> t' = t"
  by (auto simp: verify_proof_cache_update_def result_simps split: if_splits)



section \<open>Every root is certified\<close>

lemma cached_at_update:
  "cached_tree_update_at (b\<lparr>cached_tree_updates := us[z := u]\<rparr>) y =
    (if y = z \<and> z < length us then (if is_occupied u then Some u else None)
     else cached_tree_update_at (b\<lparr>cached_tree_updates := us\<rparr>) y)"
  by (simp add: cached_tree_update_at_def get_def)

lemma cached_at_cong:
  "cached_tree_updates b = cached_tree_updates b' \<Longrightarrow> cached_tree_update_at b = cached_tree_update_at b'"
  by (simp add: cached_tree_update_at_def fun_eq_iff)

lemma cached_at_evict:
  "cached_tree_updates b' = (cached_tree_updates b)[z := empty_update] \<Longrightarrow>
     cached_tree_update_at b' y = Some cu \<Longrightarrow> y \<noteq> z \<and> cached_tree_update_at b y = Some cu"
  by (cases "y = z")
    (auto simp: cached_tree_update_at_def get_def is_occupied_def empty_update_def split: if_splits option.splits)

lemma cache_certified_update:
  assumes "length (batches t) = 2" "batches t' = (batches t)[c mod 2 := b]"
    "cache_certified P G K Z vals s b (held_batch (K * Z) (length vals) (c mod 2))"
    "cache_certified P G K Z vals s (batches t ! ((c + 1) mod 2)) (held_batch (K * Z) (length vals) ((c + 1) mod 2))"
  shows "\<forall>i < 2. cache_certified P G K Z vals s (batches t' ! i) (held_batch (K * Z) (length vals) i)"
  unfolding assms(2)
  by (rule two_slots[where Q = "\<lambda>i b. cache_certified P G K Z vals s b (held_batch (K * Z) (length vals) i)"])
    (use assms in auto)

lemma cache_certified_nth:
  "nt_certified P G K Z t vals log \<Longrightarrow>
     cache_certified P G K Z vals (length log - 1) (batches t ! (a mod 2)) (held_batch (K * Z) (length vals) (a mod 2))"
  by (simp add: nt_certified_def)

lemma nt_certified_set_cache:
  assumes rep: "nt_repr P K Z t vals log" and cert: "nt_certified P G K Z t vals log"
    and bs: "batches t' = (batches t)[a mod 2 := b]"
    and new: "cache_certified P G K Z vals (length log - 1) b (held_batch (K * Z) (length vals) (a mod 2))"
  shows "nt_certified P G K Z t' vals log"
proof -
  have "length (batches t) = 2" using rep by (simp add: nt_repr_def nt_config_def)
  from cache_certified_update[OF this bs new cache_certified_nth[OF cert]]
  show ?thesis using cert by (simp add: nt_certified_def)
qed

lemma verify_cache_certified:
  assumes rep: "nt_repr P K Z t vals log" and cert: "nt_certified P G K Z t vals log"
    and ver: "verify_proof_cache_update P G d t = Inr (t', True)"
  shows "nt_repr P K Z t' vals log" "nt_certified P G K Z t' vals log"
proof -
  define s where "s = length log - 1"
  define a where "a = s div K"
  let ?b = "batches t ! (a mod 2)" and ?z = "in_zkp_batch_index d"
  let ?u = "\<lparr>old_root = in_old_root d, new_root = in_new_root d, occupied = 1\<rparr>"
  note v = verify_cache_repr[OF rep s_def a_def ver]
  have slot: "slot_repr P K Z vals s ?b a"
    using rep nt_slots_nth[of P K Z t vals s a] v(3) by (simp add: nt_repr_def s_def)
  have len: "length ((cached_tree_updates ?b)[?z := ?u]) = K" and K: "0 < K" using slot_repr_lengths[OF slot] by auto
  note r = nt_repr_set_cache[OF rep a_def[unfolded s_def] len]
  show "nt_repr P K Z t' vals log" using r(1) v(5) by simp
  have bs: "batches t' = (batches t)[a mod 2 := ?b\<lparr>cached_tree_updates := (cached_tree_updates ?b)[?z := ?u]\<rparr>]"
    using r(2) v(5) by simp
  have old: "cache_certified P G K Z vals s ?b a" using cache_certified_nth[OF cert, of a] v(3) by (simp add: s_def)
  have "cache_certified P G K Z vals s (?b\<lparr>cached_tree_updates := (cached_tree_updates ?b)[?z := ?u]\<rparr>) a"
    unfolding cache_certified_def
  proof (intro allI impI)
    fix y cu assume "cached_tree_update_at (?b\<lparr>cached_tree_updates := (cached_tree_updates ?b)[?z := ?u]\<rparr>) y = Some cu"
    then consider "y = ?z" "cu = ?u" | "cached_tree_update_at ?b y = Some cu"
      by (auto simp: cached_at_update is_occupied_def split: if_splits)
    then show "applied K s a \<le> y \<and> certified P G Z vals (a * K + y) (old_root cu) (new_root cu)"
      by cases (use v(2,4) applied_step(1)[OF K a_def] old in \<open>auto simp: cache_certified_def\<close>)
  qed
  then show "nt_certified P G K Z t' vals log"
    using nt_certified_set_cache[OF rep cert bs] v(3) by (simp add: s_def)
qed

lemma evict_certified:
  assumes rep: "nt_repr P K Z t vals log" and cert: "nt_certified P G K Z t vals log"
    and a: "a = (length log - 1) div K" and z: "z < K"
  obtains b' where "evict_cached_tree_update z (batches t ! (a mod 2)) = Inr b'"
    "nt_repr P K Z (set_pending_batch b' t) vals log" "nt_certified P G K Z (set_pending_batch b' t) vals log"
proof -
  let ?b = "batches t ! (a mod 2)" and ?j = "held_batch (K * Z) (length vals) (a mod 2)"
  let ?b' = "?b\<lparr>cached_tree_updates := (cached_tree_updates ?b)[z := empty_update]\<rparr>"
  have slot: "slot_repr P K Z vals (length log - 1) ?b ?j" using rep nt_slots_nth by (simp add: nt_repr_def)
  have len: "length ((cached_tree_updates ?b)[z := empty_update]) = K" using slot_repr_lengths[OF slot] by simp
  note r = nt_repr_set_cache[OF rep a len]
  have "cache_certified P G K Z vals (length log - 1) ?b' ?j"
    using cache_certified_nth[OF cert, of a] cached_at_evict[of ?b' ?b z] by (fastforce simp: cache_certified_def)
  then have "nt_certified P G K Z (set_pending_batch ?b' t) vals log"
    by (rule nt_certified_set_cache[OF rep cert r(2)])
  moreover have "evict_cached_tree_update z ?b = Inr ?b'"
    using len z by (simp add: evict_cached_tree_update_def cache_tree_update_def)
  ultimately show thesis using that r(1) by blast
qed

lemma log_certified_snoc:
  assumes "\<forall>k. k + 1 < length log \<longrightarrow> certified P G Z vals k (log ! k) (log ! (k + 1))" "log \<noteq> []"
    "certified P G Z vals (length log - 1) (last log) r"
  shows "\<forall>k. k + 1 < length (log @ [r]) \<longrightarrow>
    certified P G Z vals k ((log @ [r]) ! k) ((log @ [r]) ! (k + 1))"
proof (intro allI impI)
  fix k assume "k + 1 < length (log @ [r])"
  then consider "k + 1 < length log" | "k + 1 = length log" by fastforce
  then show "certified P G Z vals k ((log @ [r]) ! k) ((log @ [r]) ! (k + 1))"
  proof cases
    case 2
    then have "k = length log - 1" by simp
    then show ?thesis using assms(2,3) 2 by (simp add: nth_append last_conv_nth)
  qed (use assms(1) in \<open>simp add: nth_append\<close>)
qed

lemma apply_one_certified:
  assumes rep: "nt_repr P K Z t vals log" and cert: "nt_certified P G K Z t vals log"
    and s: "s = length log - 1" and a: "a = s div K"
    and cu: "cached_tree_update_at (batches t ! (a mod 2)) (num_inserted_zkp_batches (batches t ! (a mod 2))) = Some cu"
    and root: "old_root cu = last log"
  obtains t' where "num_inserted_zkp_batches (batches t ! (a mod 2)) = s mod K"
    "apply_one (s mod K) cu t = Inr t'" "nt_repr P K Z t' vals (log @ [new_root cu])"
    "nt_certified P G K Z t' vals (log @ [new_root cu])"
proof -
  let ?b = "batches t ! (a mod 2)"
  have slot0: "slot_repr P K Z vals s ?b (held_batch (K * Z) (length vals) (a mod 2))"
    using rep s nt_slots_nth by (auto simp: nt_repr_def)
  have "num_inserted_zkp_batches ?b < K"
    using cu slot_repr_lengths[OF slot0] by (auto simp: cached_tree_update_at_def get_def split: if_splits)
  then have held: "held_batch (K * Z) (length vals) (a mod 2) = a" by (rule pending_held[OF rep s a order_refl])
  have K: "0 < K" "0 < Z" and zi: "num_inserted_zkp_batches ?b = s mod K"
    using slot_repr_lengths[OF slot0] held applied_step(1)[of K a s] a by auto
  have old: "cache_certified P G K Z vals s ?b a" using cache_certified_nth[OF cert, of a] held s by simp
  have "certified P G Z vals (a * K + s mod K) (old_root cu) (new_root cu)"
    using old cu zi by (simp add: cache_certified_def)
  then have c: "certified P G Z vals s (last log) (new_root cu)" using a root by simp
  then have "(a * K + s mod K + 1) * Z \<le> length vals" using a by (simp add: certified_def)
  then have ready: "s mod K < length (segment (K * Z) vals a) div Z"
    using leaves_iff_ready[OF K(2), of "s mod K" K] K(1) by simp
  obtain t' b where t': "apply_one (s mod K) cu t = Inr t'" "nt_repr P K Z t' vals (log @ [new_root cu])"
    "batches t' = (batches t)[a mod 2 := b]"
    "cached_tree_updates b = (cached_tree_updates ?b)[s mod K := empty_update]"
    by (rule apply_one_repr[OF rep s a held ready, of cu])
  have log: "log \<noteq> []" "Suc s = length log" using rep s by (auto simp: nt_repr_def nt_ring_def ring_repr_def)
  have "cache_certified P G K Z vals (s + 1) b a"
    unfolding cache_certified_def applied_step(2)[OF K(1) a]
  proof (intro allI impI)
    fix y cu' assume "cached_tree_update_at b y = Some cu'"
    then have "y \<noteq> s mod K" "cached_tree_update_at ?b y = Some cu'" using cached_at_evict[OF t'(4)] by auto
    moreover from this have "s mod K \<le> y" "certified P G Z vals (a * K + y) (old_root cu') (new_root cu')"
      using old applied_step(1)[OF K(1) a] by (auto simp: cache_certified_def)
    ultimately show "s mod K + 1 \<le> y \<and> certified P G Z vals (a * K + y) (old_root cu') (new_root cu')" by simp
  qed
  moreover have "cache_certified P G K Z vals (s + 1) (batches t ! ((a + 1) mod 2)) (held_batch (K * Z) (length vals) ((a + 1) mod 2))"
    using cache_certified_nth[OF cert, of "a + 1"] s held_batch_not_pending[OF held]
      applied_step(3)[OF K(1) a, of "held_batch (K * Z) (length vals) ((a + 1) mod 2)"]
    by (auto simp: cache_certified_def)
  moreover have "length (batches t) = 2" using rep by (simp add: nt_repr_def nt_config_def)
  ultimately have "\<forall>i < 2. cache_certified P G K Z vals (s + 1) (batches t' ! i) (held_batch (K * Z) (length vals) i)"
    using held by (intro cache_certified_update[OF _ t'(3)]) simp_all
  moreover have "\<forall>k. k + 1 < length (log @ [new_root cu]) \<longrightarrow>
      certified P G Z vals k ((log @ [new_root cu]) ! k) ((log @ [new_root cu]) ! (k + 1))"
    using cert c s log(1) by (intro log_certified_snoc) (auto simp: nt_certified_def)
  ultimately have "nt_certified P G K Z t' vals (log @ [new_root cu])"
    unfolding nt_certified_def using log by simp
  then show thesis using that zi t'(1,2) by blast
qed

end
