(* ===== verification/Nullifier_Reach.thy ===== *)
theory Nullifier_Reach
  imports Nullifier_Refinement
begin

text \<open>
  The nullifier tree over its whole life: the cascade of cached updates as a
  function of the root log, the event it emits, the reachable states, and the
  properties clients of the tree rely on.
\<close>

section \<open>The cascade\<close>

text \<open>
  The event of a cascade that appended the roots \<open>rs\<close> to the log \<open>log\<close>:
  the fields of the first applied ZKP batch, the number of batches, the last
  root.
\<close>

definition cascade_event :: "bytes \<Rightarrow> nat \<Rightarrow> nat \<Rightarrow> bytes list \<Rightarrow> bytes list \<Rightarrow> nullifier_tree_update_event option" where
  "cascade_event pubkey K Z log rs =
    (if rs = [] then None
     else Some \<lparr>merkle_tree_pubkey = pubkey, ev_zkp_batch_size = Z mod 2 ^ 16,
       old_next_index = 1 + (length log - 1) * Z, start_sequence_number = length log,
       first_root_index = length log mod K mod 2 ^ 32, num_update = length rs mod 2 ^ 32,
       first_zkp_batch_index = (length log - 1) mod K mod 2 ^ 32, ev_new_root = last rs\<rparr>)"

lemma nt_repr_fields:
  assumes "nt_repr P K Z t vals log"
  shows "nt_next_index t = 1 + (length log - 1) * Z" "sequence_number t = length log - 1"
    "nt_zkp_batch_size t = Z" "latest_root_index t = (length log - 1) mod K" "log \<noteq> []"
    "nt_get_root t = Some (last log)" "0 < K" "0 < Z"
  using assms nt_latest[of K t log] by (auto simp: nt_repr_defs nt_ring_def ring_repr_def)

lemma record_update_event:
  assumes t: "nt_repr P K Z t vals (log @ rs)" and t': "nt_repr P K Z t' vals (log @ rs @ [new_root cu])"
    and log: "log \<noteq> []"
  shows "Some (record_update pubkey ((length (log @ rs) - 1) mod K) cu t t' (cascade_event pubkey K Z log rs))
    = cascade_event pubkey K Z log (rs @ [new_root cu])"
proof (cases "rs = []")
  case True
  have "Suc (length log - 1) = length log" using log by (cases log) auto
  then show ?thesis
    using nt_repr_fields[OF t] nt_repr_fields[OF t'] True by (simp add: record_update_def cascade_event_def)
next
  case False
  then show ?thesis by (simp add: record_update_def cascade_event_def mod_simps)
qed

lemma apply_cached_loop_repr:
  assumes "nt_repr P K Z t vals (log @ rs)" "nt_certified P G K Z t vals (log @ rs)" "log \<noteq> []"
  shows "\<exists>t' rs'. apply_cached_loop pubkey (cascade_event pubkey K Z log rs) t
      = Inr (t', cascade_event pubkey K Z log (rs @ rs'))
    \<and> nt_repr P K Z t' vals (log @ rs @ rs') \<and> nt_certified P G K Z t' vals (log @ rs @ rs')"
  using assms(1,2)
proof (induction "num_cached t" arbitrary: t rs rule: less_induct)
  case less
  note rep = less.prems(1) and cert = less.prems(2)
  let ?s = "length (log @ rs) - 1" and ?ev = "cascade_event pubkey K Z log rs"
  define a where "a = ?s div K"
  let ?b = "batches t ! (a mod 2)"
  let ?zi = "num_inserted_zkp_batches ?b"
  have pb: "get_pending_batch t = Inr ?b" by (rule pending_slot(1)[OF rep refl a_def])
  have root: "nt_get_root t = Some (last (log @ rs))" using nt_repr_fields[OF rep] by simp
  show ?case
  proof (cases "cached_tree_update_at ?b ?zi")
    case None
    then have "apply_cached_loop pubkey ?ev t = Inr (t, ?ev)"
      using pb by (simp add: apply_cached_loop.simps[of pubkey ?ev t])
    then show ?thesis using rep cert by (intro exI[of _ t] exI[of _ "[]"]) simp
  next
    case (Some cu)
    have zK: "?zi < K"
      using Some slot_repr_lengths[OF nt_slots_nth, of P K Z t vals ?s a] rep
      by (auto simp: nt_repr_def cached_tree_update_at_def get_def split: if_splits)
    show ?thesis
    proof (cases "old_root cu = last (log @ rs)")
      case False
      obtain b' where b': "evict_cached_tree_update ?zi ?b = Inr b'"
        "nt_repr P K Z (set_pending_batch b' t) vals (log @ rs)"
        "nt_certified P G K Z (set_pending_batch b' t) vals (log @ rs)"
        by (rule evict_certified[OF rep cert a_def zK])
      have "apply_cached_loop pubkey ?ev t = Inr (set_pending_batch b' t, ?ev)"
        using pb Some root False b'(1) by (simp add: apply_cached_loop.simps[of pubkey ?ev t] Let_def)
      then show ?thesis using b'(2,3) by (intro exI[of _ "set_pending_batch b' t"] exI[of _ "[]"]) simp
    next
      case True
      obtain t1 where t1: "?zi = ?s mod K" "apply_one (?s mod K) cu t = Inr t1"
        "nt_repr P K Z t1 vals ((log @ rs) @ [new_root cu])"
        "nt_certified P G K Z t1 vals ((log @ rs) @ [new_root cu])"
        by (rule apply_one_certified[OF rep cert refl a_def Some True])
      have t1': "nt_repr P K Z t1 vals (log @ rs @ [new_root cu])"
        "nt_certified P G K Z t1 vals (log @ rs @ [new_root cu])" using t1(3,4) by simp_all
      have "num_cached t1 < num_cached t" using apply_one_less[OF pb] Some t1(1,2) by simp
      from less.hyps[OF this t1'] obtain t' rs' where
        r: "apply_cached_loop pubkey (cascade_event pubkey K Z log (rs @ [new_root cu])) t1
          = Inr (t', cascade_event pubkey K Z log ((rs @ [new_root cu]) @ rs'))"
        "nt_repr P K Z t' vals (log @ (rs @ [new_root cu]) @ rs')"
        "nt_certified P G K Z t' vals (log @ (rs @ [new_root cu]) @ rs')" by blast
      have "apply_cached_loop pubkey ?ev t
          = apply_cached_loop pubkey (Some (record_update pubkey (?s mod K) cu t t1 ?ev)) t1"
        using pb Some root True t1(1,2) by (simp add: apply_cached_loop.simps[of pubkey ?ev t] Let_def)
      then have "apply_cached_loop pubkey ?ev t = Inr (t', cascade_event pubkey K Z log (rs @ new_root cu # rs'))"
        using record_update_event[OF rep t1'(1) assms(3)] r(1) by simp
      then show ?thesis using r(2,3) by (intro exI[of _ t'] exI[of _ "new_root cu # rs'"]) simp
    qed
  qed
qed

lemma apply_cached_repr:
  assumes "nt_repr P K Z t vals log" "nt_certified P G K Z t vals log"
  obtains t' rs where "apply_cached_tree_updates pubkey t = Inr (t', cascade_event pubkey K Z log rs)"
    "nt_repr P K Z t' vals (log @ rs)" "nt_certified P G K Z t' vals (log @ rs)"
proof -
  have "\<exists>t' rs'. apply_cached_loop pubkey (cascade_event pubkey K Z log []) t
      = Inr (t', cascade_event pubkey K Z log ([] @ rs'))
    \<and> nt_repr P K Z t' vals (log @ [] @ rs') \<and> nt_certified P G K Z t' vals (log @ [] @ rs')"
    using assms nt_repr_fields(5)[OF assms(1)] by (intro apply_cached_loop_repr) simp_all
  then show thesis using that by (auto simp: apply_cached_tree_updates_def cascade_event_def[of _ _ _ _ "[]"])
qed

text \<open>
  A whole update: it fails only when the proof is refused; otherwise the log
  is extended by the applied roots and the event describes them.
\<close>

lemma update_repr:
  assumes rep: "nt_repr P K Z t vals log" and cert: "nt_certified P G K Z t vals log"
    and upd: "update_tree_from_queue P G pubkey d t = Inr (t', ev)"
  obtains rs where "ev = cascade_event pubkey K Z log rs" "nt_repr P K Z t' vals (log @ rs)"
    "nt_certified P G K Z t' vals (log @ rs)"
proof -
  obtain t1 c where v: "verify_proof_cache_update P G d t = Inr (t1, c)"
    "(if \<not> c then Inr (t1, None) else apply_cached_tree_updates pubkey t1) = Inr (t', ev)"
    using upd by (auto simp: update_tree_from_queue_def result_simps split: if_splits)
  show thesis
  proof (cases c)
    case False
    then have "t1 = t" using verify_cache_replay[of P G d t t1] v(1) by auto
    then show thesis using that[of "[]"] v(2) False rep cert by (auto simp: cascade_event_def)
  next
    case True
    note c = verify_cache_certified[OF rep cert v(1)[unfolded True[THEN eqTrueI]]]
    show thesis by (rule apply_cached_repr[OF c, of pubkey]) (use v(2) True that in auto)
  qed
qed


section \<open>Insertion keeps the certificates\<close>

lemma cached_at_range: "cached_tree_update_at b z = Some cu \<Longrightarrow> z < length (cached_tree_updates b)"
  by (auto simp: cached_tree_update_at_def get_def split: if_splits)

lemma insert_certified:
  assumes P: "poseidon_ok P" and rep: "nt_repr P K Z t vals log" and cert: "nt_certified P G K Z t vals log"
    and s: "s = length log - 1" and v: "field_element v" "is_canonical_bn254_scalar_be v"
    and room: "1 + length vals < 2 ^ 40" and free: "\<not> queue_blocked K Z (length vals) s"
  obtains t' where "insert_nullifier_into_queue P v t = Inr (t', 1 + length vals)"
    "nt_repr P K Z t' (vals @ [v]) log" "nt_certified P G K Z t' (vals @ [v]) log"
proof -
  let ?B = "K * Z" and ?n = "length vals"
  define c where "c = ?n div ?B"
  obtain t' b where t': "insert_nullifier_into_queue P v t = Inr (t', 1 + ?n)"
    "nt_repr P K Z t' (vals @ [v]) log" "batches t' = (batches t)[c mod 2 := b]"
    "cached_tree_updates b = cached_tree_updates (batches t ! (c mod 2))"
    using insert_repr[OF P rep s v room free] by (auto simp: c_def)
  have B: "0 < ?B" and two: "length (batches t) = 2" using rep by (auto simp: nt_repr_defs)
  let ?h = "held_batch ?B ?n (c mod 2)" and ?b = "batches t ! (c mod 2)"
  have slot: "slot_repr P K Z vals s ?b ?h" using rep s nt_slots_nth by (auto simp: nt_repr_def)
  have old: "cache_certified P G K Z vals s ?b ?h" using cache_certified_nth[OF cert, of c] s by simp
  have at: "cached_tree_update_at b = cached_tree_update_at ?b" by (rule cached_at_cong[OF t'(4)])
  have "cache_certified P G K Z (vals @ [v]) s b c"
  proof (cases "?h = c")
    case True
    then show ?thesis using old at certified_append by (auto simp: cache_certified_def)
  next
    case False
    then have h: "?n mod ?B = 0" "2 \<le> c" "?h + 2 = c"
      using held_batch_Suc_current(2)[OF B c_def] by (auto split: if_splits)
    have "K * (c - 1) \<le> s" using free h(1,2) by (simp add: queue_blocked_def c_def[symmetric])
    moreover have "c - 1 = ?h + 1" using h(3) by linarith
    ultimately have "K * (?h + 1) \<le> s" by simp
    then have full: "applied K s ?h = K" using applied_eq_K[of K s ?h] by simp
    have "cached_tree_update_at b z = None" for z
    proof (cases "cached_tree_update_at ?b z")
      case (Some cu)
      then have "K \<le> z" using old full by (auto simp: cache_certified_def)
      then show ?thesis using cached_at_range[OF Some] slot_repr_lengths[OF slot] by simp
    qed (simp add: at)
    then show ?thesis by (simp add: cache_certified_def)
  qed
  moreover have "cache_certified P G K Z (vals @ [v]) s (batches t ! ((c + 1) mod 2)) (held_batch ?B (Suc ?n) ((c + 1) mod 2))"
    using cache_certified_nth[OF cert, of "c + 1"] s held_batch_Suc_other[OF B c_def] certified_append
    by (auto simp: cache_certified_def)
  ultimately have "\<forall>i < 2. cache_certified P G K Z (vals @ [v]) s (batches t' ! i) (held_batch ?B (length (vals @ [v])) i)"
    using held_batch_Suc_current(1)[OF B c_def] by (intro cache_certified_update[OF two t'(3)]) simp_all
  then have "nt_certified P G K Z t' (vals @ [v]) log"
    using cert s certified_append by (simp add: nt_certified_def)
  then show thesis using that t'(1,2) by blast
qed


section \<open>Reachable states\<close>

definition zeroed_batch :: "nat \<Rightarrow> batch" where
  "zeroed_batch K = \<lparr>num_inserted = 0, state_word = 0, num_full_zkp_batches = 0, num_inserted_zkp_batches = 0,
    b_batch_size = 0, b_zkp_batch_size = 0, start_index = 0, pending_values = (zero32, zero32),
    hash_chains = replicate K zero32, cached_tree_updates = replicate K empty_update\<rparr>"

text \<open>A freshly allocated account region of \<open>K\<close> ZKP batches.\<close>

definition zeroed_layout :: "nat \<Rightarrow> nullifier_tree" where
  "zeroed_layout K = \<lparr>sequence_number = 0, nt_next_index = 0, nt_height = 0,
    currently_processing_batch_index = 0, nt_capacity = 0, nt_batch_size = 0, nt_zkp_batch_size = 0,
    pending_batch_index = 0, queue_next_index = 0, close_before_index = 0,
    nt_root_history = \<lparr>current_index = 0, roots = replicate K zero32\<rparr>, batches = replicate 2 (zeroed_batch K)\<rparr>"

text \<open>
  The accounts the program can produce: initialisation of a zeroed region, then
  any sequence of successful insertions and batch updates.
\<close>

inductive nt_reachable :: "hash_fn \<Rightarrow> groth16 \<Rightarrow> nat \<Rightarrow> nat \<Rightarrow> nullifier_tree \<Rightarrow> bool" for P G K Z where
  nt_reach_init: "K * Z \<le> 2 ^ 40 \<Longrightarrow> nt_init (K * Z) Z 40 (zeroed_layout K) = Inr t \<Longrightarrow> nt_reachable P G K Z t"
| nt_reach_insert: "nt_reachable P G K Z t \<Longrightarrow> length v = 32 \<Longrightarrow>
    insert_nullifier_into_queue P v t = Inr (t', q) \<Longrightarrow> nt_reachable P G K Z t'"
| nt_reach_update: "nt_reachable P G K Z t \<Longrightarrow>
    update_tree_from_queue P G pubkey d t = Inr (t', ev) \<Longrightarrow> nt_reachable P G K Z t'"

lemma nt_init_repr:
  assumes "K * Z \<le> 2 ^ 40" "nt_init (K * Z) Z 40 (zeroed_layout K) = Inr t"
  shows "nt_repr P K Z t [] [NULLIFIER_TREE_INIT_ROOT_40]" "nt_certified P G K Z t [] [NULLIFIER_TREE_INIT_ROOT_40]"
proof -
  let ?r = "NULLIFIER_TREE_INIT_ROOT_40" and ?B = "K * Z"
  let ?b = "\<lambda>start. batch_reset ?B Z start (zeroed_batch K)"
  have KZ: "0 < K" "0 < Z" using assms(2)
    by (auto simp: nt_init_def validate_configuration_def result_simps split: if_splits)
  let ?t = "(zeroed_layout K)\<lparr>nt_next_index := 1, nt_height := 40, nt_capacity := 2 ^ 40, nt_batch_size := ?B,
    nt_zkp_batch_size := Z, queue_next_index := 1, batches := [?b 1, ?b (1 + ?B)],
    nt_root_history := \<lparr>current_index = 1 mod K, roots = (replicate K zero32)[0 := ?r]\<rparr>\<rparr>"
  have t: "t = ?t"
    using assms KZ by (auto simp: nt_init_def zeroed_layout_def zkp_batches_def validate_configuration_def
        checked_add_def u64_limit_def numeral_2_eq_2 batch_init_def split: if_splits)
  have br: "batch_repr P K Z (?b start) [] 0" for start
    using KZ assms(1) by (auto simp: batch_repr_defs batch_reset_def zeroed_batch_def open_chain_def u64_limit_def)
  have top: "top_batch ?B 0 = 1" by (simp add: top_batch_def)
  have slots: "nt_slots P K Z ?t [] 0"
    using br by (auto simp: nt_slots_def slot_repr_def held_batch_def top segment_def applied_def batch_reset_def
        less_2_cases_iff)
  have lat: "latest_root_index ?t = 0" using latest_root_index_ring[of ?t K 1] KZ by simp
  have ring: "nt_ring K ?t [?r]"
    unfolding nt_ring_def lat using KZ ring_repr_single[of K "(replicate K zero32)[0 := ?r]" ?r] by simp
  have cnt: "nt_counters K Z ?t 0 0"
    using KZ top by (simp add: nt_counters_def zeroed_layout_def watermark_def)
  show "nt_repr P K Z t [] [?r]"
    unfolding t nt_repr_def using slots ring cnt KZ assms(1) by (simp add: nt_config_def)
  have "cached_tree_update_at (?b start) z = None" for start z
    by (auto simp: cached_tree_update_at_def batch_reset_def zeroed_batch_def get_def is_occupied_def empty_update_def)
  then show "nt_certified P G K Z t [] [?r]"
    unfolding t nt_certified_def by (auto simp: cache_certified_def less_2_cases_iff)
qed

text \<open>The abstract history of a reachable account.\<close>

lemma nt_reachable_repr:
  assumes "poseidon_ok P" "nt_reachable P G K Z t"
  shows "\<exists>vals log. nt_repr P K Z t vals log \<and> nt_certified P G K Z t vals log
    \<and> hd log = NULLIFIER_TREE_INIT_ROOT_40"
  using assms(2)
proof induction
  case (nt_reach_init t)
  then show ?case using nt_init_repr[of K Z t] by (intro exI[of _ "[]"] exI[of _ "[NULLIFIER_TREE_INIT_ROOT_40]"]) simp
next
  case (nt_reach_insert t v t' q)
  then obtain vals log where r: "nt_repr P K Z t vals log" "nt_certified P G K Z t vals log"
    and hd: "hd log = NULLIFIER_TREE_INIT_ROOT_40" by blast
  note err = insert_errors[OF r(1) refl, of v]
  have v: "is_canonical_bn254_scalar_be v" using err(1) nt_reach_insert(3) by auto
  moreover have room: "1 + length vals < 2 ^ 40" using err(2)[OF v] nt_reach_insert(3) by (cases "2 ^ 40 \<le> 1 + length vals") auto
  moreover have "\<not> queue_blocked K Z (length vals) (length log - 1)"
    using err(3)[OF v room] nt_reach_insert(3) by auto
  moreover have "field_element v" using nt_reach_insert(2) v by simp
  ultimately show ?case using insert_certified[OF assms(1) r refl] nt_reach_insert(3) hd by (metis Inr_inject Pair_inject)
next
  case (nt_reach_update t pubkey d t' ev)
  then obtain vals log where r: "nt_repr P K Z t vals log" "nt_certified P G K Z t vals log"
    "hd log = NULLIFIER_TREE_INIT_ROOT_40" by blast
  have "log \<noteq> []" by (rule nt_repr_fields(5)[OF r(1)])
  then show ?case using update_repr[OF r(1,2) nt_reach_update(2)] r(3) by (metis hd_append2)
qed



section \<open>Progress\<close>

lemma ready_held:
  assumes rep: "nt_repr P K Z t vals log" and s: "s = length log - 1" and a: "a = s div K"
    and ready: "a * (K * Z) < length vals"
  shows "held_batch (K * Z) (length vals) (a mod 2) = a"
proof -
  have B: "0 < K * Z" using rep by (simp add: nt_repr_defs)
  have "a * (K * Z) \<le> length vals - 1" using ready by linarith
  then have "a \<le> (length vals - 1) div (K * Z)" using B by (simp add: less_eq_div_iff_mult_less_eq)
  then have "a \<le> top_batch (K * Z) (length vals)" by (simp add: top_batch_def)
  then show ?thesis
    using pending_slot(2)[OF rep s a] held_batch_range(2)[of "K * Z" "length vals" "a mod 2"] by linarith
qed

lemma batch_leaves_lt:
  fixes a K z Z n :: nat
  assumes "0 < Z" "(a * K + z + 1) * Z \<le> n"
  shows "a * (K * Z) < n"
proof -
  have "a * (K * Z) + (z + 1) * Z \<le> n" using assms(2) by (simp add: algebra_simps)
  moreover have "0 < (z + 1) * Z" using assms(1) by simp
  ultimately show ?thesis by linarith
qed

lemma verify_cache_total:
  assumes rep: "nt_repr P K Z t vals log" and s: "s = length log - 1" and a: "a = s div K"
    and z: "z = in_zkp_batch_index d" "z < K" "s mod K \<le> z" "(a * K + z + 1) * Z \<le> length vals"
    and chain: "create_hash_chain_4 P (zkp_values Z vals (a * K + z)) = Inr chain"
    and pi: "batch_public_input P (in_old_root d) (in_new_root d) chain (1 + (a * K + z) * Z) = Inr h"
    and ver: "verify_batch_update G Z h (in_proof d) = Inr ()"
  obtains t' where "verify_proof_cache_update P G d t = Inr (t', True)"
proof -
  let ?b = "batches t ! (a mod 2)"
  have KZ: "0 < K" "0 < Z" "K * Z \<le> 2 ^ 40" "length vals < 2 ^ 40" "nt_zkp_batch_size t = Z"
    using rep by (auto simp: nt_repr_defs)
  have held: "held_batch (K * Z) (length vals) (a mod 2) = a"
    by (rule ready_held[OF rep s a batch_leaves_lt[OF KZ(2) z(4)]])
  have slot: "slot_repr P K Z vals s ?b a"
    using rep s nt_slots_nth[of P K Z t vals s a] held by (simp add: nt_repr_def)
  have pb: "get_pending_batch t = Inr ?b" by (rule pending_slot(1)[OF rep s a])
  have ins: "num_inserted_zkp_batches ?b = s mod K" and len: "length (hash_chains ?b) = K" "length (cached_tree_updates ?b) = K"
    using slot_repr_lengths[OF slot] applied_step(1)[OF KZ(1) a] by auto
  have full: "z < num_full_zkp_batches ?b"
    using slot leaves_iff_ready[OF KZ(2) z(2), of vals a] z(4) by (simp add: slot_repr_def batch_repr_defs)
  have ap: "applied K s a \<le> z" using applied_step(1)[OF KZ(1) a] z(3) by simp
  have ch: "hash_chains ?b ! z = chain" using slot_chain(1)[OF slot ap full z(2)] chain by simp
  have start: "start_index ?b + z * Z = 1 + (a * K + z) * Z" using slot by (simp add: slot_repr_def algebra_simps)
  have fits: "1 + (a * K + z) * Z < u64_limit" using z(4) KZ(4) by (simp add: u64_limit_def)
  moreover have "z * Z \<le> (a * K + z) * Z" by simp
  ultimately have "z * Z < u64_limit" by linarith
  then have arith: "checked_mul z Z = Some (z * Z)" "checked_add (start_index ?b) (z * Z) = Some (1 + (a * K + z) * Z)"
    using fits start by (simp_all add: checked_mul_def checked_add_def)
  have hc: "hash_chain ?b z = Some chain" using z(2) len(1) ch by (simp add: hash_chain_def get_def)
  show thesis
    using that pb hc full ins z(2,3) arith pi ver len(2) KZ(5)
    by (simp add: verify_proof_cache_update_def cache_tree_update_def z(1)[symmetric])
qed

text \<open>
  A proof the verifier accepts for the next ZKP batch, starting from the
  account's current root, always advances the tree.
\<close>

lemma update_next_progress:
  assumes rep: "nt_repr P K Z t vals log" and cert: "nt_certified P G K Z t vals log"
    and s: "s = length log - 1"
    and d: "in_zkp_batch_index d = s mod K" "in_old_root d = last log"
      "is_canonical_bn254_scalar_be (in_old_root d)" "is_canonical_bn254_scalar_be (in_new_root d)"
    and ready: "(s + 1) * Z \<le> length vals"
    and chain: "create_hash_chain_4 P (zkp_values Z vals s) = Inr chain"
    and pi: "batch_public_input P (in_old_root d) (in_new_root d) chain (1 + s * Z) = Inr h"
    and ver: "verify_batch_update G Z h (in_proof d) = Inr ()"
  obtains t' rs where
    "update_tree_from_queue P G pubkey d t = Inr (t', cascade_event pubkey K Z log (in_new_root d # rs))"
    "nt_repr P K Z t' vals (log @ in_new_root d # rs)" "nt_certified P G K Z t' vals (log @ in_new_root d # rs)"
proof -
  define a where "a = s div K"
  note f = nt_repr_fields[OF rep]
  have sa: "a * K + s mod K = s" by (simp add: a_def)
  obtain t1 where v: "verify_proof_cache_update P G d t = Inr (t1, True)"
    using verify_cache_total[OF rep s a_def d(1)[symmetric] _ _ _ _ _ ver, of chain] f(7) ready chain pi by (auto simp: sa)
  note c = verify_cache_certified[OF rep cert v]
  note r = verify_cache_repr[OF rep s a_def v]
  let ?b = "batches t ! (a mod 2)"
  let ?u = "\<lparr>old_root = in_old_root d, new_root = in_new_root d, occupied = 1\<rparr>"
  have slot: "slot_repr P K Z vals s ?b a"
    using rep s nt_slots_nth[of P K Z t vals s a] r(3) by (simp add: nt_repr_def)
  have idx: "a mod 2 < length (batches t)" "pending_batch_index t = a mod 2"
    using rep s by (auto simp: nt_repr_defs a_def)
  then have b1: "batches t1 ! (a mod 2) = ?b\<lparr>cached_tree_updates := (cached_tree_updates ?b)[s mod K := ?u]\<rparr>"
    using r(5) d(1) by (simp add: set_pending_batch_def)
  have ins: "num_inserted_zkp_batches (batches t1 ! (a mod 2)) = s mod K"
    using slot_repr_lengths[OF slot] applied_step(1)[OF f(7) a_def] b1 by simp
  have cu: "cached_tree_update_at (batches t1 ! (a mod 2)) (s mod K) = Some ?u"
    using slot_repr_lengths[OF slot] b1 by (simp add: cached_at_update is_occupied_def)
  obtain t2 where t2: "apply_one (s mod K) ?u t1 = Inr t2"
    "nt_repr P K Z t2 vals (log @ [new_root ?u])" "nt_certified P G K Z t2 vals (log @ [new_root ?u])"
    by (rule apply_one_certified[OF c s a_def, of ?u]) (use ins cu d(2) in auto)
  let ?r = "in_new_root d"
  obtain t' rs where l: "apply_cached_loop pubkey (cascade_event pubkey K Z log [?r]) t2
      = Inr (t', cascade_event pubkey K Z log ([?r] @ rs))"
    "nt_repr P K Z t' vals (log @ [?r] @ rs)" "nt_certified P G K Z t' vals (log @ [?r] @ rs)"
    using apply_cached_loop_repr[OF t2(2,3) f(5), of pubkey] by auto
  have ev: "Some (record_update pubkey (s mod K) ?u t1 t2 None) = cascade_event pubkey K Z log [?r]"
    using record_update_event[of P K Z t1 vals log "[]" t2 ?u pubkey] c(1) t2(2) f(5) s
    by (simp add: cascade_event_def[of _ _ _ _ "[]"])
  have "apply_cached_loop pubkey None t1 = apply_cached_loop pubkey (Some (record_update pubkey (s mod K) ?u t1 t2 None)) t2"
    using pending_slot(1)[OF c(1) s a_def] ins cu nt_repr_fields(6)[OF c(1)] d(2) t2(1)
    by (simp add: apply_cached_loop.simps[of pubkey None t1] Let_def)
  then have "update_tree_from_queue P G pubkey d t = Inr (t', cascade_event pubkey K Z log (?r # rs))"
    using v d(3,4) l(1) ev by (simp add: update_tree_from_queue_def apply_cached_tree_updates_def)
  then show thesis using that l(2,3) by simp
qed



section \<open>Sequences of insertions\<close>

definition insert_all :: "hash_fn \<Rightarrow> bytes list \<Rightarrow> nullifier_tree \<Rightarrow> nullifier_tree ntres" where
  "insert_all P vs t =
    try_fold (\<lambda>t v. rbind (insert_nullifier_into_queue P v t) (\<lambda>(t', _). Inr t')) t vs"

lemma not_blocked_below: "0 < K * Z \<Longrightarrow> n < 2 * (K * Z) \<Longrightarrow> \<not> queue_blocked K Z n s"
  using less_mult_imp_div_less[of n 2 "K * Z"] by (simp add: queue_blocked_def)

lemma insert_all_repr:
  assumes "poseidon_ok P" "nt_repr P K Z t vals log" "nt_certified P G K Z t vals log"
    "\<forall>v \<in> set vs. field_element v" "length vals + length vs \<le> 2 * (K * Z)" "2 * (K * Z) < 2 ^ 40"
  shows "\<exists>t'. insert_all P vs t = Inr t' \<and> nt_repr P K Z t' (vals @ vs) log \<and> nt_certified P G K Z t' (vals @ vs) log"
  using assms(2-5)
proof (induction vs arbitrary: t vals)
  case Nil
  then show ?case by (simp add: insert_all_def)
next
  case (Cons v vs)
  have B: "0 < K * Z" using Cons.prems(1) by (simp add: nt_repr_defs)
  have n: "length vals < 2 * (K * Z)" "1 + length vals < 2 ^ 40" using Cons.prems(4) assms(6) by auto
  obtain t1 where t1: "insert_nullifier_into_queue P v t = Inr (t1, 1 + length vals)"
    "nt_repr P K Z t1 (vals @ [v]) log" "nt_certified P G K Z t1 (vals @ [v]) log"
    by (rule insert_certified[OF assms(1) Cons.prems(1,2) refl _ _ n(2) not_blocked_below[OF B n(1)]])
      (use Cons.prems(3) in auto)
  show ?case using Cons.IH[OF t1(2,3)] Cons.prems(3,4) t1(1) by (simp add: insert_all_def)
qed

lemma nt_reachable_insert_all:
  assumes "insert_all P vs t = Inr t'" "nt_reachable P G K Z t" "\<forall>v \<in> set vs. length v = 32"
  shows "nt_reachable P G K Z t'"
proof (rule try_fold_invariant[OF assms(1)[unfolded insert_all_def]])
  fix s x s' assume "nt_reachable P G K Z s" "x \<in> set vs"
    "rbind (insert_nullifier_into_queue P x s) (\<lambda>(t', _). Inr t') = Inr s'"
  then show "nt_reachable P G K Z s'"
    using assms(3) nt_reachable.nt_reach_insert[of P G K Z s x s'] by (auto simp: result_simps)
qed (rule assms(2))

text \<open>An initialised tree, and a concrete run used to instantiate the properties below.\<close>

lemma nt_init_total:
  assumes "0 < K" "0 < Z" "K * Z \<le> 2 ^ 40"
  shows "\<exists>t. nt_init (K * Z) Z 40 (zeroed_layout K) = Inr t"
  using assms by (simp add: nt_init_def validate_configuration_def zkp_batches_def zeroed_layout_def
      checked_add_def u64_limit_def)

definition accept_all :: groth16 where
  "accept_all = \<lparr>decompress_g1 = Some, groth16_new = (\<lambda>_ _ _. True), groth16_verify = (\<lambda>_ _ _. True)\<rparr>"

definition head_hash :: hash_fn where
  "head_hash xs = (case xs of [] \<Rightarrow> Inl InvalidNumFields | x # _ \<Rightarrow> Inr x)"

definition small_tree :: nullifier_tree where
  "small_tree = projr (nt_init 10 10 40 (zeroed_layout 1))"

definition numbers :: "nat \<Rightarrow> nat \<Rightarrow> bytes list" where
  "numbers m n = map (to_be_bytes 32) [m ..< n]"

definition transition :: "bytes \<Rightarrow> bytes \<Rightarrow> batch_nullify_inputs" where
  "transition old new = \<lparr>in_new_root = new, in_old_root = old, in_zkp_batch_index = 0,
     in_proof = \<lparr>proof_a = [], proof_b = [], proof_c = []\<rparr>\<rparr>"

text \<open>Queue ten values, then apply the ZKP batch they fill.\<close>

definition fill_and_apply :: "nat \<Rightarrow> bytes \<Rightarrow> bytes \<Rightarrow> nullifier_tree \<Rightarrow> nullifier_tree" where
  "fill_and_apply m old new t =
    fst (projr (update_tree_from_queue head_hash accept_all zero32 (transition old new)
      (projr (insert_all head_hash (numbers m (m + 10)) t))))"

definition two_rounds :: nullifier_tree where
  "two_rounds = fill_and_apply 11 (to_be_bytes 32 101) (to_be_bytes 32 102)
    (fill_and_apply 1 NULLIFIER_TREE_INIT_ROOT_40 (to_be_bytes 32 101) small_tree)"


lemma poseidon_ok_head: "poseidon_ok head_hash"
  by (auto simp: poseidon_ok_def head_hash_def split: list.splits)

lemma small_canonical: "n \<le> 1000 \<Longrightarrow> is_canonical_bn254_scalar_be (to_be_bytes 32 n)"
  using to_be_bytes_field_element[of n] by (simp add: bn254_modulus_def)

lemma numbers_field_element: "n \<le> 1000 \<Longrightarrow> \<forall>v \<in> set (numbers m n). field_element v"
  by (auto simp: numbers_def intro!: small_canonical)

lemma small_tree_repr:
  "nt_reachable head_hash accept_all 1 10 small_tree"
  "nt_repr head_hash 1 10 small_tree [] [NULLIFIER_TREE_INIT_ROOT_40]"
  "nt_certified head_hash accept_all 1 10 small_tree [] [NULLIFIER_TREE_INIT_ROOT_40]"
proof -
  obtain t where t: "nt_init (1 * 10) 10 40 (zeroed_layout 1) = Inr t" using nt_init_total[of 1 10] by auto
  then have eq: "t = small_tree" by (simp add: small_tree_def)
  show "nt_reachable head_hash accept_all 1 10 small_tree"
    using t unfolding eq by (intro nt_reachable.nt_reach_init) simp_all
  show "nt_repr head_hash 1 10 small_tree [] [NULLIFIER_TREE_INIT_ROOT_40]"
    "nt_certified head_hash accept_all 1 10 small_tree [] [NULLIFIER_TREE_INIT_ROOT_40]"
    using nt_init_repr[OF _ t] unfolding eq by simp_all
qed

lemma head_chain: "vs \<noteq> [] \<Longrightarrow> create_hash_chain_4 head_hash vs = Inr (hd vs)"
proof -
  have "hash_chain_4_loop head_hash x xs = Inr x" for x xs
    by (induction head_hash x xs rule: hash_chain_4_loop.induct) (simp_all add: head_hash_def)
  then show "vs \<noteq> [] \<Longrightarrow> create_hash_chain_4 head_hash vs = Inr (hd vs)"
    by (cases vs) (simp_all add: create_hash_chain_4_def)
qed

lemma fill_and_apply_repr:
  assumes reach: "nt_reachable head_hash accept_all 1 10 t" and rep: "nt_repr head_hash 1 10 t vals log"
    and cert: "nt_certified head_hash accept_all 1 10 t vals log"
    and len: "length vals + 10 \<le> 20" "length vals = (length log - 1) * 10" and m: "m \<le> 900"
    and old: "last log = old" "is_canonical_bn254_scalar_be old" and new: "is_canonical_bn254_scalar_be new"
  defines "t' \<equiv> fill_and_apply m old new t"
  shows "nt_reachable head_hash accept_all 1 10 t'" "nt_repr head_hash 1 10 t' (vals @ numbers m (m + 10)) (log @ [new])"
    "nt_certified head_hash accept_all 1 10 t' (vals @ numbers m (m + 10)) (log @ [new])"
proof -
  let ?s = "length log - 1" and ?vs = "numbers m (m + 10)" and ?d = "transition old new"
  have fe: "\<forall>v \<in> set ?vs. field_element v" using m by (intro numbers_field_element) simp
  have lv: "length ?vs = 10" by (simp add: numbers_def)
  obtain t1 where t1: "insert_all head_hash ?vs t = Inr t1" "nt_repr head_hash 1 10 t1 (vals @ ?vs) log"
    "nt_certified head_hash accept_all 1 10 t1 (vals @ ?vs) log"
    using insert_all_repr[OF poseidon_ok_head rep cert fe] len lv by auto
  have r1: "nt_reachable head_hash accept_all 1 10 t1"
    using nt_reachable_insert_all[OF t1(1) reach] fe by blast
  let ?zs = "zkp_values 10 (vals @ ?vs) ?s"
  have "?zs \<noteq> []" using len lv by (auto simp: zkp_values_def)
  then have chain: "create_hash_chain_4 head_hash ?zs = Inr (hd ?zs)" by (rule head_chain)
  have pi: "batch_public_input head_hash (in_old_root ?d) (in_new_root ?d) (hd ?zs) (1 + ?s * 10) = Inr old"
    by (simp add: batch_public_input_def head_hash_def transition_def)
  have ver: "verify_batch_update accept_all 10 old (in_proof ?d) = Inr ()"
    by (simp add: verify_batch_update_def verify_proof_def accept_all_def)
  obtain t2 rs where t2:
    "update_tree_from_queue head_hash accept_all zero32 ?d t1 = Inr (t2, cascade_event zero32 1 10 log (in_new_root ?d # rs))"
    "nt_repr head_hash 1 10 t2 (vals @ ?vs) (log @ in_new_root ?d # rs)"
    "nt_certified head_hash accept_all 1 10 t2 (vals @ ?vs) (log @ in_new_root ?d # rs)"
    by (rule update_next_progress[OF t1(2,3) refl _ _ _ _ _ chain pi ver, of zero32])
      (use old new len lv in \<open>simp_all add: transition_def\<close>)
  have "(length (log @ in_new_root ?d # rs) - 1) * 10 \<le> length (vals @ ?vs)"
    using t2(2) unfolding nt_repr_def nt_counters_def by blast
  moreover have "log \<noteq> []" by (rule nt_repr_fields(5)[OF rep])
  ultimately have rs: "rs = []" using len lv by (cases log; cases rs) auto
  have eq: "t' = t2" using t1(1) t2(1) by (simp add: t'_def fill_and_apply_def)
  show "nt_reachable head_hash accept_all 1 10 t'" using r1 t2(1) unfolding eq by (rule nt_reachable.nt_reach_update)
  show "nt_repr head_hash 1 10 t' (vals @ ?vs) (log @ [new])"
    "nt_certified head_hash accept_all 1 10 t' (vals @ ?vs) (log @ [new])"
    using t2(2,3) rs eq by (simp_all add: transition_def)
qed

lemma two_rounds_repr:
  defines "vals \<equiv> numbers 1 11 @ numbers 11 21"
    and "log \<equiv> [NULLIFIER_TREE_INIT_ROOT_40, to_be_bytes 32 101, to_be_bytes 32 102]"
  shows "nt_reachable head_hash accept_all 1 10 two_rounds" "nt_repr head_hash 1 10 two_rounds vals log"
    "nt_certified head_hash accept_all 1 10 two_rounds vals log"
proof -
  have c0: "is_canonical_bn254_scalar_be NULLIFIER_TREE_INIT_ROOT_40" by code_simp
  let ?t1 = "fill_and_apply 1 NULLIFIER_TREE_INIT_ROOT_40 (to_be_bytes 32 101) small_tree"
  have r: "nt_reachable head_hash accept_all 1 10 ?t1"
    "nt_repr head_hash 1 10 ?t1 (numbers 1 11) [NULLIFIER_TREE_INIT_ROOT_40, to_be_bytes 32 101]"
    "nt_certified head_hash accept_all 1 10 ?t1 (numbers 1 11) [NULLIFIER_TREE_INIT_ROOT_40, to_be_bytes 32 101]"
    using fill_and_apply_repr[OF small_tree_repr, of 1 NULLIFIER_TREE_INIT_ROOT_40 "to_be_bytes 32 101"] small_canonical c0 by simp_all
  have "length (numbers 1 11) = 10" by (simp add: numbers_def)
  then show "nt_reachable head_hash accept_all 1 10 two_rounds" "nt_repr head_hash 1 10 two_rounds vals log"
    "nt_certified head_hash accept_all 1 10 two_rounds vals log"
    using fill_and_apply_repr[OF r, of 11 "to_be_bytes 32 101" "to_be_bytes 32 102"] small_canonical
    by (simp_all add: two_rounds_def vals_def log_def)
qed



section \<open>Properties\<close>

lemma closable_leaf_bound:
  assumes "0 < K" "k < length log" "length log \<le> k + K" "q < watermark K Z (length log - 1)"
  shows "q \<le> k * Z"
proof -
  let ?s = "length log - 1"
  have big: "K \<le> ?s" and q: "q \<le> (?s div K - 1) * (K * Z)" using assms(4) by (auto simp: watermark_def split: if_splits)
  have "(?s div K - 1) * K \<le> ?s - K"
    using diff_le_mono[OF div_times_less_eq_dividend[of ?s K], of K] by (simp only: diff_mult_distrib mult_1)
  also have "\<dots> \<le> k" using assms(2,3) big by linarith
  finally have "(?s div K - 1) * K * Z \<le> k * Z" by (rule mult_le_mono1)
  then show ?thesis using q unfolding mult.assoc by (rule order_trans[rotated])
qed

text \<open>
  C5. Nullifier PDA closing is safe.  Take any account the program can produce, any root it still
  accepts and any queue index \<open>q\<close> below the close watermark.  The accepted
  root is an entry \<open>k\<close> of the certified root log, and the leaf of \<open>q\<close> is
  among the \<open>1 + k * Z\<close> leaves below that root: no accepted root predates a
  nullifier whose PDA may be closed.
\<close>
theorem closed_nullifiers_are_in_every_accepted_root:
  assumes "poseidon_ok P" "nt_reachable P G K Z t" "nt_root_by_index t i = Some r" "q < close_before_index t"
  shows "\<exists>vals log k. nt_repr P K Z t vals log \<and> nt_certified P G K Z t vals log
    \<and> k < length log \<and> log ! k = r \<and> q \<le> k * Z"
proof -
  obtain vals log where r: "nt_repr P K Z t vals log" "nt_certified P G K Z t vals log"
    using nt_reachable_repr[OF assms(1,2)] by blast
  obtain k where k: "k < length log" "length log \<le> k + K" "log ! k = r"
    using nt_root_lookup_sound[of K t log] r(1) assms(3) by (auto simp: nt_repr_def)
  have "q < watermark K Z (length log - 1)" using r(1) assms(4) by (simp add: nt_repr_defs)
  then have "q \<le> k * Z" using closable_leaf_bound[OF nt_repr_fields(7)[OF r(1)] k(1,2)] by simp
  then show ?thesis using r k by blast
qed

lemma to_be_bytes_nonzero:
  assumes "0 < n" "n < 256 ^ 32"
  shows "to_be_bytes 32 n \<noteq> zero32"
proof
  assume "to_be_bytes 32 n = zero32"
  then have "from_be_bytes (to_be_bytes 32 n) = from_be_bytes (to_be_bytes 32 0)"
    by (simp add: zero32_def to_be_bytes_zero)
  then show False using assms from_to_be_bytes[of n 32] from_to_be_bytes[of 0 32] by simp
qed

lemma two_rounds_state:
  "nt_root_by_index two_rounds 0 = Some (to_be_bytes 32 102)" "close_before_index two_rounds = 11"
proof -
  note r = two_rounds_repr(2)
  have "nt_ring 1 two_rounds [NULLIFIER_TREE_INIT_ROOT_40, to_be_bytes 32 101, to_be_bytes 32 102]"
    using r by (simp add: nt_repr_def)
  from nullifier_roots.lookup_complete[OF this, of 2]
  show "nt_root_by_index two_rounds 0 = Some (to_be_bytes 32 102)"
    using to_be_bytes_nonzero[of 102] by simp
  show "close_before_index two_rounds = 11" using r by (simp add: nt_repr_defs watermark_def)
qed

theorem closed_nullifiers_are_in_every_accepted_root_witness:
  "nt_root_by_index two_rounds 0 = Some (to_be_bytes 32 102) \<and> 10 < close_before_index two_rounds
   \<and> (\<exists>vals log k. nt_repr head_hash 1 10 two_rounds vals log \<and> nt_certified head_hash accept_all 1 10 two_rounds vals log
    \<and> k < length log \<and> log ! k = to_be_bytes 32 102 \<and> 10 \<le> k * 10)"
  using closed_nullifiers_are_in_every_accepted_root[OF poseidon_ok_head two_rounds_repr(1) two_rounds_state(1), of 10]
    two_rounds_state by simp




text \<open>
  C10. Queue insertion refines appending to a list.  On an account that represents \<open>vals\<close>
  and \<open>log\<close>, inserting a 32-byte value either succeeds, returns the next leaf
  index and represents \<open>vals @ [v]\<close>, or fails for exactly one of three
  reasons: a non-canonical scalar, a full tree, or a batch slot that still
  waits for its ZKP batches to be applied.
\<close>
theorem insert_refines_append:
  assumes "poseidon_ok P" "nt_repr P K Z t vals log" "length v = 32"
  defines "blocked \<equiv> queue_blocked K Z (length vals) (length log - 1)"
  shows "if \<not> is_canonical_bn254_scalar_be v
     then insert_nullifier_into_queue P v t = Inl NonCanonicalFieldElement
     else if 2 ^ 40 \<le> 1 + length vals then insert_nullifier_into_queue P v t = Inl NullifierTreeIsFull
     else if blocked then insert_nullifier_into_queue P v t = Inl BatchNotReady
     else (\<exists>t'. insert_nullifier_into_queue P v t = Inr (t', 1 + length vals)
           \<and> nt_repr P K Z t' (vals @ [v]) log)"
  using insert_errors[OF assms(2) refl, of v] insert_repr[OF assms(1,2) refl, of v] assms(3)
  unfolding blocked_def by (auto simp: not_le)

theorem insert_refines_append_witness:
  "\<exists>t'. insert_nullifier_into_queue head_hash (to_be_bytes 32 7) small_tree = Inr (t', 1)
     \<and> nt_repr head_hash 1 10 t' [to_be_bytes 32 7] [NULLIFIER_TREE_INIT_ROOT_40]"
  using insert_refines_append[OF poseidon_ok_head small_tree_repr(2), of "to_be_bytes 32 7"] small_canonical[of 7]
  by (simp add: queue_blocked_def)


text \<open>
  C13. Progress.  Whenever the next ZKP batch is complete, a proof the verifier accepts for it,
  starting from the account's current root, is applied: the update succeeds,
  emits an event, and the new root follows the old one in the log, possibly
  followed by cached updates it unblocks.
\<close>
theorem accepted_proof_advances_tree:
  assumes "nt_repr P K Z t vals log" "nt_certified P G K Z t vals log"
    "in_zkp_batch_index d = sequence_number t mod K" "nt_get_root t = Some (in_old_root d)"
    "is_canonical_bn254_scalar_be (in_old_root d)" "is_canonical_bn254_scalar_be (in_new_root d)"
    "(sequence_number t + 1) * Z \<le> length vals"
    "create_hash_chain_4 P (zkp_values Z vals (sequence_number t)) = Inr chain"
    "batch_public_input P (in_old_root d) (in_new_root d) chain (nt_next_index t) = Inr h"
    "verify_batch_update G Z h (in_proof d) = Inr ()"
  shows "\<exists>t' ev rs. update_tree_from_queue P G pubkey d t = Inr (t', Some ev)
    \<and> nt_repr P K Z t' vals (log @ in_new_root d # rs) \<and> sequence_number t < sequence_number t'"
proof -
  note f = nt_repr_fields[OF assms(1)]
  obtain t' rs where u: "update_tree_from_queue P G pubkey d t = Inr (t', cascade_event pubkey K Z log (in_new_root d # rs))"
    "nt_repr P K Z t' vals (log @ in_new_root d # rs)"
    by (rule update_next_progress[OF assms(1,2) refl, of d chain h pubkey]) (use assms f in auto)
  have "sequence_number t < sequence_number t'"
    using nt_repr_fields(2)[OF u(2)] f(2,5) by (cases log) auto
  then show ?thesis using u by (auto simp: cascade_event_def)
qed

lemma ten_queued:
  obtains t where "insert_all head_hash (numbers 1 11) small_tree = Inr t"
    "nt_repr head_hash 1 10 t (numbers 1 11) [NULLIFIER_TREE_INIT_ROOT_40]"
    "nt_certified head_hash accept_all 1 10 t (numbers 1 11) [NULLIFIER_TREE_INIT_ROOT_40]"
  using insert_all_repr[OF poseidon_ok_head small_tree_repr(2,3) numbers_field_element[of 11 1]]
  by (auto simp: numbers_def)

lemma init_root_canonical: "is_canonical_bn254_scalar_be NULLIFIER_TREE_INIT_ROOT_40"
  by code_simp

lemma ten_queued_proof:
  assumes "nt_repr head_hash 1 10 t (numbers 1 11) [NULLIFIER_TREE_INIT_ROOT_40]"
  shows "create_hash_chain_4 head_hash (zkp_values 10 (numbers 1 11) (sequence_number t)) = Inr (to_be_bytes 32 1)"
    "nt_get_root t = Some NULLIFIER_TREE_INIT_ROOT_40" "sequence_number t = 0" "length (numbers 1 11) = 10"
proof -
  note f = nt_repr_fields[OF assms]
  show s: "sequence_number t = 0" "nt_get_root t = Some NULLIFIER_TREE_INIT_ROOT_40" using f by simp_all
  have "zkp_values 10 (numbers 1 11) 0 = numbers 1 11" "hd (numbers 1 11) = to_be_bytes 32 1" "numbers 1 11 \<noteq> []"
    by (simp_all add: zkp_values_def numbers_def upt_conv_Cons)
  then show "create_hash_chain_4 head_hash (zkp_values 10 (numbers 1 11) (sequence_number t)) = Inr (to_be_bytes 32 1)"
    using head_chain[of "numbers 1 11"] s by simp
qed (simp add: numbers_def)

theorem accepted_proof_advances_tree_witness:
  "\<exists>t t' ev rs. insert_all head_hash (numbers 1 11) small_tree = Inr t \<and>
     update_tree_from_queue head_hash accept_all zero32
       (transition NULLIFIER_TREE_INIT_ROOT_40 (to_be_bytes 32 101)) t = Inr (t', Some ev)
     \<and> nt_repr head_hash 1 10 t' (numbers 1 11) ([NULLIFIER_TREE_INIT_ROOT_40] @ to_be_bytes 32 101 # rs)
     \<and> sequence_number t < sequence_number t'"
proof -
  obtain t where t: "insert_all head_hash (numbers 1 11) small_tree = Inr t"
    "nt_repr head_hash 1 10 t (numbers 1 11) [NULLIFIER_TREE_INIT_ROOT_40]"
    "nt_certified head_hash accept_all 1 10 t (numbers 1 11) [NULLIFIER_TREE_INIT_ROOT_40]" by (rule ten_queued)
  let ?d = "transition NULLIFIER_TREE_INIT_ROOT_40 (to_be_bytes 32 101)"
  note q = ten_queued_proof[OF t(2)]
  have pi: "batch_public_input head_hash (in_old_root ?d) (in_new_root ?d) (to_be_bytes 32 1) (nt_next_index t)
      = Inr NULLIFIER_TREE_INIT_ROOT_40"
    by (simp add: batch_public_input_def head_hash_def transition_def)
  have ver: "verify_batch_update accept_all 10 NULLIFIER_TREE_INIT_ROOT_40 (in_proof ?d) = Inr ()"
    by (simp add: verify_batch_update_def verify_proof_def accept_all_def)
  have "\<exists>t' ev rs. update_tree_from_queue head_hash accept_all zero32 ?d t = Inr (t', Some ev)
    \<and> nt_repr head_hash 1 10 t' (numbers 1 11) ([NULLIFIER_TREE_INIT_ROOT_40] @ in_new_root ?d # rs)
    \<and> sequence_number t < sequence_number t'"
    by (rule accepted_proof_advances_tree[OF t(2,3) _ _ _ _ _ q(1) pi ver])
      (use q init_root_canonical small_canonical[of 101] in \<open>simp_all add: transition_def\<close>)
  then show ?thesis using t(1) by (auto simp: transition_def)
qed



text \<open>
  C15. Applying cached updates always terminates without error: on an account whose caches hold
  only verified updates, the cascade returns, whatever was cached, and
  leaves an account that represents the same queue.
\<close>
theorem cascade_always_returns:
  assumes "nt_repr P K Z t vals log" "nt_certified P G K Z t vals log"
  shows "\<exists>t' rs. apply_cached_tree_updates pubkey t = Inr (t', cascade_event pubkey K Z log rs)
    \<and> nt_repr P K Z t' vals (log @ rs) \<and> nt_certified P G K Z t' vals (log @ rs)"
  by (rule apply_cached_repr[OF assms, of pubkey]) blast

theorem cascade_always_returns_witness:
  "\<exists>t' rs. apply_cached_tree_updates zero32 two_rounds = Inr (t', cascade_event zero32 1 10
      [NULLIFIER_TREE_INIT_ROOT_40, to_be_bytes 32 101, to_be_bytes 32 102] rs)
    \<and> nt_repr head_hash 1 10 t' (numbers 1 11 @ numbers 11 21)
       ([NULLIFIER_TREE_INIT_ROOT_40, to_be_bytes 32 101, to_be_bytes 32 102] @ rs)"
  using cascade_always_returns[OF two_rounds_repr(2,3), of zero32] by blast

text \<open>
  A replayed proof is a no-op.  A proof for a ZKP batch of the pending queue batch that is
  already in the tree changes nothing and emits no event, whatever roots and
  proof bytes it carries.
\<close>
theorem replayed_update_is_noop:
  assumes "nt_repr P K Z t vals log" "in_zkp_batch_index d < sequence_number t mod K"
    "is_canonical_bn254_scalar_be (in_old_root d)" "is_canonical_bn254_scalar_be (in_new_root d)"
  shows "update_tree_from_queue P G pubkey d t = Inr (t, None)"
proof -
  define s where "s = length log - 1"
  define a where "a = s div K"
  let ?b = "batches t ! (a mod 2)" and ?z = "in_zkp_batch_index d" and ?h = "held_batch (K * Z) (length vals) (a mod 2)"
  have slot: "slot_repr P K Z vals s ?b ?h" using assms(1) nt_slots_nth by (auto simp: nt_repr_def s_def)
  have z: "?z < s mod K" using assms(2) nt_repr_fields(2)[OF assms(1)] by (simp add: s_def)
  have K: "0 < K" "0 < Z" by (rule nt_repr_fields[OF assms(1)])+
  have ins: "s mod K \<le> applied K s ?h"
    using pending_slot(2)[OF assms(1) s_def a_def] applied_step(1)[OF K(1) a_def] K(1)
  proof (elim disjE)
    assume "?h + 2 = a"
    then have "(?h + 2) * K \<le> s" unfolding a_def by simp
    then have "applied K s ?h = K" by (simp add: applied_eq_K algebra_simps)
    then show ?thesis using K(1) by simp
  qed simp
  have br: "batch_repr P K Z ?b (segment (K * Z) vals ?h) (applied K s ?h)" using slot by (simp add: slot_repr_def)
  then have "applied K s ?h \<le> num_full_zkp_batches ?b" by (simp add: batch_repr_defs)
  then have full: "?z < num_full_zkp_batches ?b" using z ins by linarith
  have len: "?z < length (hash_chains ?b)" using slot_repr_lengths[OF slot] z K(1) mod_less_divisor[of K s] by linarith
  have "?z < num_inserted_zkp_batches ?b" using slot_repr_lengths[OF slot] z ins by simp
  then show ?thesis
    using assms(3,4) pending_slot(1)[OF assms(1) s_def a_def] full len
    by (simp add: update_tree_from_queue_def verify_proof_cache_update_def hash_chain_def get_def)
qed

lemma one_of_two_applied:
  obtains t where "nt_repr head_hash 2 10 t (numbers 1 11) [NULLIFIER_TREE_INIT_ROOT_40, to_be_bytes 32 101]"
proof -
  let ?r = "NULLIFIER_TREE_INIT_ROOT_40" and ?d = "transition NULLIFIER_TREE_INIT_ROOT_40 (to_be_bytes 32 101)"
  obtain t0 where t0: "nt_init (2 * 10) 10 40 (zeroed_layout 2) = Inr t0" using nt_init_total[of 2 10] by auto
  have i: "nt_repr head_hash 2 10 t0 [] [?r]" "nt_certified head_hash accept_all 2 10 t0 [] [?r]"
    using nt_init_repr[of 2 10 t0] t0 by simp_all
  have len: "length (numbers 1 11) = 10" by (simp add: numbers_def)
  obtain t1 where t1: "nt_repr head_hash 2 10 t1 (numbers 1 11) [?r]" "nt_certified head_hash accept_all 2 10 t1 (numbers 1 11) [?r]"
    using insert_all_repr[OF poseidon_ok_head i numbers_field_element[of 11 1]] len by auto
  have "zkp_values 10 (numbers 1 11) 0 = numbers 1 11" "numbers 1 11 \<noteq> []"
    by (simp_all add: zkp_values_def numbers_def)
  then have chain: "create_hash_chain_4 head_hash (zkp_values 10 (numbers 1 11) 0) = Inr (hd (numbers 1 11))"
    using head_chain by simp
  have pi: "batch_public_input head_hash (in_old_root ?d) (in_new_root ?d) (hd (numbers 1 11)) (1 + 0 * 10) = Inr ?r"
    by (simp add: batch_public_input_def head_hash_def transition_def)
  have ver: "verify_batch_update accept_all 10 ?r (in_proof ?d) = Inr ()"
    by (simp add: verify_batch_update_def verify_proof_def accept_all_def)
  obtain t' rs where u: "nt_repr head_hash 2 10 t' (numbers 1 11) ([?r] @ in_new_root ?d # rs)"
    by (rule update_next_progress[OF t1 _ _ _ _ _ _ chain pi ver, of zero32])
      (use len init_root_canonical small_canonical[of 101] in \<open>simp_all add: transition_def\<close>)
  have "(length ([?r] @ in_new_root ?d # rs) - 1) * 10 \<le> length (numbers 1 11)"
    using u unfolding nt_repr_def nt_counters_def by blast
  then have "rs = []" using len by (cases rs) auto
  then show thesis using that u by (simp add: transition_def)
qed

theorem replayed_update_is_noop_witness:
  "\<exists>t. sequence_number t = 1 \<and> update_tree_from_queue head_hash accept_all zero32
      (transition (to_be_bytes 32 5) (to_be_bytes 32 6)) t = Inr (t, None)"
proof -
  obtain t where t: "nt_repr head_hash 2 10 t (numbers 1 11) [NULLIFIER_TREE_INIT_ROOT_40, to_be_bytes 32 101]"
    by (rule one_of_two_applied)
  have s: "sequence_number t = 1" using nt_repr_fields(2)[OF t] by simp
  have "update_tree_from_queue head_hash accept_all zero32 (transition (to_be_bytes 32 5) (to_be_bytes 32 6)) t = Inr (t, None)"
    by (rule replayed_update_is_noop[OF t])
      (use s small_canonical[of 5] small_canonical[of 6] in \<open>simp_all add: transition_def\<close>)
  then show ?thesis using s by blast
qed

text \<open>
  The queue of a fresh tree.  It accepts any \<open>2 * B\<close> canonical values without a tree update,
  \<open>B = K * Z\<close> being the batch size, and the next value is refused until a batch
  has been applied.
\<close>
theorem fresh_queue_capacity:
  assumes "poseidon_ok P" "0 < K" "0 < Z" "2 * (K * Z) + 1 < 2 ^ 40"
    "nt_init (K * Z) Z 40 (zeroed_layout K) = Inr t"
    "length vs = 2 * (K * Z)" "\<forall>v \<in> set vs. field_element v" "field_element w"
  shows "\<exists>t'. insert_all P vs t = Inr t' \<and> queue_next_index t' = 1 + 2 * (K * Z)
    \<and> insert_nullifier_into_queue P w t' = Inl BatchNotReady"
proof -
  have "K * Z \<le> 2 ^ 40" using assms(4) by simp
  note i = nt_init_repr[OF this assms(5)]
  obtain t' where t': "insert_all P vs t = Inr t'" "nt_repr P K Z t' vs [NULLIFIER_TREE_INIT_ROOT_40]"
    using insert_all_repr[OF assms(1) i[of P] assms(7)] assms(4,6) by auto
  have "queue_blocked K Z (length vs) 0" using assms(2,3,6) by (simp add: queue_blocked_def)
  then have "insert_nullifier_into_queue P w t' = Inl BatchNotReady"
    using insert_errors(3)[OF t'(2) refl, of w] assms(4,6,8) by simp
  then show ?thesis using t' assms(6) by (simp add: nt_repr_defs)
qed

theorem fresh_queue_capacity_witness:
  "\<exists>t'. insert_all head_hash (numbers 1 21) small_tree = Inr t' \<and> queue_next_index t' = 21
    \<and> insert_nullifier_into_queue head_hash (to_be_bytes 32 21) t' = Inl BatchNotReady"
proof -
  obtain t where t: "nt_init (1 * 10) 10 40 (zeroed_layout 1) = Inr t" using nt_init_total[of 1 10] by auto
  then have eq: "t = small_tree" by (simp add: small_tree_def)
  have "length (numbers 1 21) = 2 * (1 * 10)" by (simp add: numbers_def)
  from fresh_queue_capacity[OF poseidon_ok_head _ _ _ t this numbers_field_element, of "to_be_bytes 32 21"]
  show ?thesis using small_canonical[of 21] unfolding eq by simp
qed

text \<open>
  A recorded root stays usable.  The latest nullifier root, if not zero, is still returned
  under the index it was recorded at after fewer than \<open>K\<close> further roots.
\<close>
theorem nullifier_root_stays_available:
  assumes "nt_ring K t log" "length rs < K" "nt_get_root t = Some r" "r \<noteq> zero32"
  shows "nt_root_by_index (foldl push_nt_root t rs) (latest_root_index t) = Some r"
  using nullifier_roots.root_stays_available[OF assms(1,2)] nt_latest[OF assms(1)] assms(3,4) by simp

lemma tree_of_three:
  obtains t where "nt_init (3 * 10) 10 40 (zeroed_layout 3) = Inr t" "nt_ring 3 t [NULLIFIER_TREE_INIT_ROOT_40]"
proof -
  obtain t where t: "nt_init (3 * 10) 10 40 (zeroed_layout 3) = Inr t" using nt_init_total[of 3 10] by auto
  then show thesis using that nt_init_repr(1)[of 3 10 t] by (auto simp: nt_repr_def)
qed

theorem nullifier_root_stays_available_witness:
  "\<exists>t. nt_init (3 * 10) 10 40 (zeroed_layout 3) = Inr t \<and>
     nt_root_by_index (foldl push_nt_root t [to_be_bytes 32 1, to_be_bytes 32 2]) (latest_root_index t)
       = Some NULLIFIER_TREE_INIT_ROOT_40"
proof -
  obtain t where t: "nt_init (3 * 10) 10 40 (zeroed_layout 3) = Inr t" "nt_ring 3 t [NULLIFIER_TREE_INIT_ROOT_40]"
    by (rule tree_of_three)
  have "NULLIFIER_TREE_INIT_ROOT_40 \<noteq> zero32" by (simp add: NULLIFIER_TREE_INIT_ROOT_40_def zero32_def numeral_eq_Suc)
  then show ?thesis
    using nullifier_root_stays_available[OF t(2), of "[to_be_bytes 32 1, to_be_bytes 32 2]"] nt_latest[OF t(2)] t(1) by auto
qed

end
