(* ===== verification/Tree_Account.thy ===== *)
theory Tree_Account
  imports Utxo_Reach Nullifier_Reach
begin

text \<open>
  The tree account, \<open>program-libs/tree/src/lib.rs\<close> and \<open>fees.rs\<close>, with the
  sizing functions of \<open>program-libs/interface/src/state/tree.rs\<close>.  One account
  holds both trees, a pause state, a fee schedule, the fee balance that pays
  foresters and the number of open nullifier PDAs.  The lemmas show that
  initialisation gives a layout that every loader accepts and that represents
  the two empty trees, that a reimbursement never exceeds the fee balance, and
  that the reserve a claim leaves behind covers every reimbursement the open
  PDAs can still draw.
\<close>

definition UTXO_TREE_HEIGHT :: nat where "UTXO_TREE_HEIGHT = 32"

definition UNINITIALIZED :: nat where "UNINITIALIZED = 0"
definition INITIALIZED :: nat where "INITIALIZED = 1"
definition PAUSED :: nat where "PAUSED = 2"

definition TREE_RESERVED_BYTES :: nat where "TREE_RESERVED_BYTES = 24"

section \<open>Fee schedule\<close>

definition MAX_FEE_PER_TREE :: nat where "MAX_FEE_PER_TREE = 1000000"

record tree_fee_schedule =
  fee_per_tree :: nat
  append_reimbursement :: nat
  close_reimbursement :: nat

definition fees_validate :: "tree_fee_schedule \<Rightarrow> (tree_error, unit) result" where
  "fees_validate f = (if MAX_FEE_PER_TREE < fee_per_tree f then Inl FeeTooHigh else Inr ())"

definition params_validate :: "nullifier_tree_init_params \<Rightarrow> (tree_error, unit) result" where
  "params_validate p =
    (if init_height p \<noteq> DEFAULT_NULLIFIER_TREE_HEIGHT \<or> \<not> match_circuit_size (input_queue_zkp_batch_size p)
     then Inl NullifierInit
     else map_err (\<lambda>_. NullifierInit)
       (validate_configuration NULLIFIER_TREE_ZKP_BATCHES
         (input_queue_batch_size p) (input_queue_zkp_batch_size p)))"


section \<open>Layout\<close>

record tree_layout =
  ta_discriminator :: nat
  ta_state :: nat
  ta_tree_id :: nat
  ta_padding :: bytes
  fees :: tree_fee_schedule
  fee_balance :: nat
  live_nullifier_pdas :: nat
  ta_reserved :: bytes
  ta_utxo :: utxo_tree
  ta_nullifier :: nullifier_tree

text \<open>
  Sizes of the \<open>repr(C)\<close> layouts: the account header, the UTXO tree, a batch
  (padded to its eight-byte alignment) and the nullifier tree.
\<close>

definition header_size :: nat where
  "header_size = 1 + 1 + 2 + 4 + 3 * 8 + 8 + 8 + TREE_RESERVED_BYTES"

definition utxo_layout_size :: "nat \<Rightarrow> nat" where
  "utxo_layout_size height = 8 + 32 + 3 * 2 + 1 + 1 + 8 + height * 32 + ROOT_HISTORY_CAPACITY * 32"

definition batch_layout_size :: "nat \<Rightarrow> nat" where
  "batch_layout_size zb = 8 * div_ceil (7 * 8 + 2 * 32 + zb * 32 + zb * 65) 8"

definition nullifier_layout_size :: "nat \<Rightarrow> nat" where
  "nullifier_layout_size zb = 2 * 8 + 2 * 4 + 6 * 8 + (8 + zb * 32) + NUM_BATCHES * batch_layout_size zb"

definition account_size :: nat where
  "account_size = header_size + utxo_layout_size UTXO_TREE_HEIGHT
     + nullifier_layout_size NULLIFIER_TREE_ZKP_BATCHES"

definition utxo_tree_offset :: nat where "utxo_tree_offset = header_size"
definition state_root_offset :: nat where "state_root_offset = utxo_tree_offset + 8"
definition tree_id_offset :: nat where "tree_id_offset = 1 + 1"

lemma account_size_value: "account_size = 40080" "header_size = 72"
  by (simp_all add: account_size_def header_size_def utxo_layout_size_def nullifier_layout_size_def
      batch_layout_size_def UTXO_TREE_HEIGHT_def NULLIFIER_TREE_ZKP_BATCHES_def NUM_BATCHES_def
      ROOT_HISTORY_CAPACITY_def TREE_RESERVED_BYTES_def div_ceil_def)

definition check_layout :: "tree_layout \<Rightarrow> (tree_error, unit) result" where
  "check_layout l =
    (let capacity = root_history_capacity (ta_utxo l);
         cursor = root_history_cursor (ta_utxo l);
         len = root_history_len (ta_utxo l) in
     if subtrees_len (ta_utxo l) \<noteq> UTXO_TREE_HEIGHT
        \<or> capacity \<noteq> ROOT_HISTORY_CAPACITY
        \<or> capacity \<le> cursor
        \<or> \<not> (1 \<le> len \<and> len \<le> capacity)
        \<or> (len < capacity \<and> cursor + 1 \<noteq> len)
     then Inl Deserialize
     else map_err (\<lambda>_. Deserialize) (nt_validate (ta_nullifier l)))"

text \<open>
  \<open>TreeAccount::init\<close>: \<open>bytes\<close> is what the caller passes, \<open>decode\<close> the zero-copy
  cast of \<open>wincode\<close>, an external function of the bytes.
\<close>

definition tree_init :: "tree_layout \<Rightarrow> nat \<Rightarrow> nat \<Rightarrow> nat \<Rightarrow> nullifier_tree_init_params
    \<Rightarrow> tree_fee_schedule \<Rightarrow> (tree_error, tree_layout) result" where
  "tree_init l discriminator utxo_tree_height tree_id params fs =
    (if ta_state l \<noteq> UNINITIALIZED then Inl AlreadyInitialized
     else let l1 = l\<lparr>ta_discriminator := discriminator, ta_state := INITIALIZED, ta_tree_id := tree_id,
                     ta_padding := replicate 4 0, fees := fs, fee_balance := 0,
                     live_nullifier_pdas := 0, ta_reserved := replicate TREE_RESERVED_BYTES 0\<rparr> in
       case utxo_init utxo_tree_height (ta_utxo l1) of
         (_, Inl e) \<Rightarrow> Inl e
       | (u, Inr _) \<Rightarrow>
          rbind (map_err (\<lambda>_. NullifierInit)
                  (nt_init (input_queue_batch_size params) (input_queue_zkp_batch_size params)
                     (init_height params) (ta_nullifier l1)))
            (\<lambda>n. Inr (l1\<lparr>ta_utxo := u, ta_nullifier := n\<rparr>)))"

definition tree_account_init :: "(bytes \<Rightarrow> tree_layout option) \<Rightarrow> bytes \<Rightarrow> nat \<Rightarrow> nat \<Rightarrow> nat
    \<Rightarrow> nullifier_tree_init_params \<Rightarrow> tree_fee_schedule \<Rightarrow> (tree_error, tree_layout) result" where
  "tree_account_init decode bs discriminator utxo_tree_height tree_id params fs =
    (if utxo_tree_height \<noteq> UTXO_TREE_HEIGHT then Inl HeightTooLarge
     else rbind (params_validate params) (\<lambda>_.
       rbind (fees_validate fs) (\<lambda>_.
       if length bs \<noteq> account_size then Inl InvalidBufferSize
       else rbind (ok_or (decode bs) Deserialize) (\<lambda>l.
         tree_init l discriminator utxo_tree_height tree_id params fs))))"

definition from_bytes :: "(bytes \<Rightarrow> tree_layout option) \<Rightarrow> bytes \<Rightarrow> (tree_error, tree_layout) result" where
  "from_bytes decode bs =
    rbind (ok_or (decode bs) Deserialize) (\<lambda>l. rbind (check_layout l) (\<lambda>_. Inr l))"


section \<open>Accessors\<close>

definition dummy_input_headroom :: "tree_layout \<Rightarrow> (tree_error, nat) result" where
  "dummy_input_headroom l =
    rbind (map_err (\<lambda>_. InvalidCapacity) (remaining_queue_capacity (ta_nullifier l)))
      (\<lambda>r. Inr (saturating_sub r (utxo_capacity (ta_utxo l))))"

definition get_utxo_tree_root :: "tree_layout \<Rightarrow> nat \<Rightarrow> (tree_error, bytes) result" where
  "get_utxo_tree_root l index = root_by_index (ta_utxo l) index"

definition get_nullifier_tree_root :: "tree_layout \<Rightarrow> nat \<Rightarrow> (tree_error, bytes) result" where
  "get_nullifier_tree_root l index = ok_or (nt_root_by_index (ta_nullifier l) index) InvalidRootIndex"

definition tree_id_array :: "tree_layout \<Rightarrow> bytes" where
  "tree_id_array l = replicate 30 0 @ to_be_bytes 2 (ta_tree_id l)"

definition is_paused :: "tree_layout \<Rightarrow> bool" where
  "is_paused l = (ta_state l = PAUSED)"

definition set_paused :: "bool \<Rightarrow> tree_layout \<Rightarrow> tree_layout" where
  "set_paused p l = l\<lparr>ta_state := if p then PAUSED else INITIALIZED\<rparr>"


section \<open>Fee accounting\<close>

definition set_fee_schedule :: "tree_fee_schedule \<Rightarrow> tree_layout \<Rightarrow> (tree_error, tree_layout) result" where
  "set_fee_schedule fs l = rbind (fees_validate fs) (\<lambda>_. Inr (l\<lparr>fees := fs\<rparr>))"

definition credit_tree_fee :: "tree_layout \<Rightarrow> (tree_error, tree_layout \<times> nat) result" where
  "credit_tree_fee l =
    (let fee = fee_per_tree (fees l) in
     rbind (ok_or (checked_add (fee_balance l) fee) FeeOverflow) (\<lambda>b. Inr (l\<lparr>fee_balance := b\<rparr>, fee)))"

definition fee_balance_reserve :: "tree_layout \<Rightarrow> nat" where
  "fee_balance_reserve l =
    (let live = live_nullifier_pdas l;
         z = nt_zkp_batch_size (ta_nullifier l);
         appends = (if z = 0 then live else div_ceil live z) in
     saturating_add (saturating_mul live (close_reimbursement (fees l)))
       (saturating_mul appends (append_reimbursement (fees l))))"

definition release_fee_surplus :: "tree_layout \<Rightarrow> tree_layout \<times> nat" where
  "release_fee_surplus l =
    (let surplus = saturating_sub (fee_balance l) (fee_balance_reserve l) in
     (l\<lparr>fee_balance := fee_balance l - surplus\<rparr>, surplus))"

definition record_nullifier_pdas_created :: "nat \<Rightarrow> tree_layout \<Rightarrow> tree_layout" where
  "record_nullifier_pdas_created queued l =
    l\<lparr>live_nullifier_pdas := saturating_add (live_nullifier_pdas l) queued\<rparr>"

definition record_nullifier_pdas_closed :: "nat \<Rightarrow> tree_layout \<Rightarrow> tree_layout" where
  "record_nullifier_pdas_closed closed l =
    l\<lparr>live_nullifier_pdas := saturating_sub (live_nullifier_pdas l) closed\<rparr>"

definition take_reimbursement :: "nat \<Rightarrow> nat \<Rightarrow> tree_layout \<Rightarrow> tree_layout \<times> nat" where
  "take_reimbursement rate count l =
    (let paid = min (saturating_mul rate count) (fee_balance l) in
     (l\<lparr>fee_balance := fee_balance l - paid\<rparr>, paid))"

definition take_append_reimbursement :: "nat \<Rightarrow> tree_layout \<Rightarrow> tree_layout \<times> nat" where
  "take_append_reimbursement n l = take_reimbursement (append_reimbursement (fees l)) n l"

definition take_close_reimbursement :: "nat \<Rightarrow> tree_layout \<Rightarrow> tree_layout \<times> nat" where
  "take_close_reimbursement closed l = take_reimbursement (close_reimbursement (fees l)) closed l"


section \<open>Sizing (interface/src/state/tree.rs)\<close>

definition STATE_HEIGHT :: nat where "STATE_HEIGHT = 32"
definition DEFAULT_FEE_PER_TREE_LAMPORTS :: nat where "DEFAULT_FEE_PER_TREE_LAMPORTS = 5000"
definition AT_COST_APPEND_REIMBURSEMENT_LAMPORTS :: nat where "AT_COST_APPEND_REIMBURSEMENT_LAMPORTS = 5000"
definition AT_COST_CLOSE_REIMBURSEMENT_LAMPORTS :: nat where "AT_COST_CLOSE_REIMBURSEMENT_LAMPORTS = 88"

definition default_tree_fees :: tree_fee_schedule where
  "default_tree_fees = \<lparr>fee_per_tree = DEFAULT_FEE_PER_TREE_LAMPORTS,
     append_reimbursement = AT_COST_APPEND_REIMBURSEMENT_LAMPORTS,
     close_reimbursement = AT_COST_CLOSE_REIMBURSEMENT_LAMPORTS\<rparr>"

definition nullifier_tree_params :: nullifier_tree_init_params where
  "nullifier_tree_params = \<lparr>input_queue_batch_size = DEFAULT_NULLIFIER_BATCH_SIZE,
     input_queue_zkp_batch_size = DEFAULT_NULLIFIER_ZKP_BATCH_SIZE, init_height = 40\<rparr>"

definition tree_liquid_working_capital_lamports :: "nat \<Rightarrow> nat \<Rightarrow> nat \<Rightarrow> nat option" where
  "tree_liquid_working_capital_lamports queue_size live nullifier_pda_rent =
    Option.bind (checked_add NUM_BATCHES 1) (\<lambda>n.
    Option.bind (checked_mul n queue_size) (\<lambda>m.
    checked_mul (saturating_sub m live) nullifier_pda_rent))"

definition tree_working_capital_lamports :: "nat \<Rightarrow> nat \<Rightarrow> nat option" where
  "tree_working_capital_lamports queue_size nullifier_pda_rent =
    tree_liquid_working_capital_lamports queue_size 0 nullifier_pda_rent"

definition tree_creation_lamports :: "nullifier_tree_init_params \<Rightarrow> nat \<Rightarrow> nat \<Rightarrow> nat option" where
  "tree_creation_lamports params tree_rent nullifier_pda_rent =
    Option.bind (tree_working_capital_lamports (input_queue_batch_size params) nullifier_pda_rent)
      (checked_add tree_rent)"

definition tree_account_size :: nat where "tree_account_size = account_size"

definition TREE_ALLOCATION_STEP :: nat where "TREE_ALLOCATION_STEP = 10 * 1024"

definition tree_creation_step_count :: nat where
  "tree_creation_step_count = div_ceil tree_account_size TREE_ALLOCATION_STEP"

definition read_tree_id :: "bytes \<Rightarrow> nat option" where
  "read_tree_id account_data =
    (if tree_id_offset + 2 \<le> length account_data
     then Some (from_le_bytes (take 2 (drop tree_id_offset account_data))) else None)"


section \<open>Every loader accepts what the program wrote\<close>

lemma append_leaves_frame:
  "root_history_capacity (fst (append_leaves P f slot t ls)) = root_history_capacity t"
  "subtrees_len (fst (append_leaves P f slot t ls)) = subtrees_len t"
  by (induction P f slot t ls rule: append_leaves.induct)
    (auto simp: Let_def push_root_def split: prod.splits sum.splits)

lemma append_batch_frame:
  "root_history_capacity (fst (append_batch P ls slot t)) = root_history_capacity t"
  "subtrees_len (fst (append_batch P ls slot t)) = subtrees_len t"
  by (simp_all add: append_batch_def Let_def append_leaves_frame)

lemma utxo_init_header:
  assumes "utxo_init h t = (u, Inr ())"
  shows "root_history_capacity u = ROOT_HISTORY_CAPACITY" "subtrees_len u = h"
  using assms by (auto simp: utxo_init_def split: if_splits option.splits)

lemma ring_repr_len:
  assumes "ring_repr cap cursor hist log" "0 < cap"
  shows "cursor < cap" "log \<noteq> []" "length log < cap \<Longrightarrow> cursor + 1 = length log"
proof -
  show "cursor < cap" "log \<noteq> []" using assms by (auto simp: ring_repr_def)
  assume "length log < cap"
  then show "cursor + 1 = length log" using assms by (cases log) (auto simp: ring_repr_def)
qed

lemma nt_repr_validates:
  assumes rep: "nt_repr P K Z t vals log"
  shows "nt_validate t = Inr ()"
proof -
  have cfg: "0 < K" "0 < Z" "nt_batch_size t = K * Z" "nt_zkp_batch_size t = Z" "length (batches t) = 2"
    using rep by (auto simp: nt_repr_defs)
  have zb: "zkp_batches t = K" and ci: "current_index (nt_root_history t) < K"
    using rep cfg by (auto simp: nt_repr_def nt_ring_def ring_repr_def zkp_batches_def)
  have idx: "currently_processing_batch_index t < NUM_BATCHES" "pending_batch_index t < NUM_BATCHES"
    using rep by (auto simp: nt_repr_defs NUM_BATCHES_def)
  have "b_batch_size b = K * Z \<and> b_zkp_batch_size b = Z" if "b \<in> set (batches t)" for b
  proof -
    obtain i where i: "i < 2" "b = batches t ! i" using \<open>b \<in> _\<close> cfg(5) by (metis in_set_conv_nth)
    then have "slot_repr P K Z vals (length log - 1) b (held_batch (K * Z) (length vals) i)"
      using rep by (auto simp: nt_repr_defs)
    then show ?thesis by (simp add: slot_repr_def batch_repr_def batch_shape_def)
  qed
  then show ?thesis using cfg zb ci idx by (auto simp: nt_validate_def validate_configuration_def)
qed

text \<open>
  A freshly allocated account is all zero bytes.  What the development relies on
  of the zero-copy cast: it reads that buffer as the layout with every field zero.
\<close>

definition zeroed_account :: tree_layout where
  "zeroed_account = \<lparr>ta_discriminator = 0, ta_state = 0, ta_tree_id = 0, ta_padding = replicate 4 0,
     fees = \<lparr>fee_per_tree = 0, append_reimbursement = 0, close_reimbursement = 0\<rparr>,
     fee_balance = 0, live_nullifier_pdas = 0, ta_reserved = replicate TREE_RESERVED_BYTES 0,
     ta_utxo = utxo_zeroed UTXO_TREE_HEIGHT, ta_nullifier = zeroed_layout NULLIFIER_TREE_ZKP_BATCHES\<rparr>"

definition decode_ok :: "(bytes \<Rightarrow> tree_layout option) \<Rightarrow> bool" where
  "decode_ok decode \<longleftrightarrow> decode (replicate account_size 0) = Some zeroed_account"

text \<open>
  What a tree account satisfies between instructions: both trees are in a state
  the program can reach, the header constants hold and the fee is capped.
\<close>

definition tree_ok :: "hash_fn \<Rightarrow> groth16 \<Rightarrow> tree_layout \<Rightarrow> bytes list \<Rightarrow> bool" where
  "tree_ok P G l xs \<longleftrightarrow>
     utxo_reachable P (ta_utxo l) xs \<and> tree_height (ta_utxo l) = UTXO_TREE_HEIGHT \<and>
     subtrees_len (ta_utxo l) = UTXO_TREE_HEIGHT \<and>
     root_history_capacity (ta_utxo l) = ROOT_HISTORY_CAPACITY \<and>
     nt_reachable P G NULLIFIER_TREE_ZKP_BATCHES (nt_zkp_batch_size (ta_nullifier l)) (ta_nullifier l) \<and>
     match_circuit_size (nt_zkp_batch_size (ta_nullifier l)) \<and>
     fee_per_tree (fees l) \<le> MAX_FEE_PER_TREE \<and> ta_state l \<in> {INITIALIZED, PAUSED}"

lemma tree_ok_check_layout:
  assumes "poseidon_ok P" "tree_ok P G l xs"
  shows "check_layout l = Inr ()"
proof -
  obtain log where u: "utxo_repr P (ta_utxo l) xs log"
    using utxo_reachable_repr[OF assms(1), of "ta_utxo l" xs] assms(2) unfolding tree_ok_def by blast
  then have ring: "ring_repr ROOT_HISTORY_CAPACITY (root_history_cursor (ta_utxo l)) (root_history (ta_utxo l)) log"
    and len: "root_history_len (ta_utxo l) = min (length log) ROOT_HISTORY_CAPACITY"
    by (auto simp: utxo_repr_def utxo_ring_def)
  have pos: "0 < ROOT_HISTORY_CAPACITY" by (simp add: ROOT_HISTORY_CAPACITY_def)
  note r = ring_repr_len[OF ring pos]
  have "Suc 0 \<le> length log" using r(2) by (cases log) auto
  moreover obtain vals nlog where "nt_repr P NULLIFIER_TREE_ZKP_BATCHES
      (nt_zkp_batch_size (ta_nullifier l)) (ta_nullifier l) vals nlog"
    using nt_reachable_repr[OF assms(1), of G] assms(2) unfolding tree_ok_def by blast
  ultimately show ?thesis
    using assms(2) r len pos nt_repr_validates by (auto simp: check_layout_def tree_ok_def Let_def min_def)
qed

lemma params_validate_ok:
  "params_validate p = Inr () \<longleftrightarrow> init_height p = 40 \<and> match_circuit_size (input_queue_zkp_batch_size p)
     \<and> input_queue_batch_size p = NULLIFIER_TREE_ZKP_BATCHES * input_queue_zkp_batch_size p"
proof -
  have "b = 100 * z" if "b mod z = 0" "b div z = 100" for b z :: nat
    using that div_mult_mod_eq[of b z] by (simp add: mult.commute)
  then show ?thesis
    by (auto simp: params_validate_def result_simps validate_configuration_def DEFAULT_NULLIFIER_TREE_HEIGHT_def
        NULLIFIER_TREE_ZKP_BATCHES_def match_circuit_size_def SUPPORTED_ZKP_BATCH_SIZES_def)
qed

lemma nt_init_zkp_batch_size:
  "nt_init b z h t = Inr t' \<Longrightarrow> nt_zkp_batch_size t' = z"
  by (auto simp: nt_init_def result_simps split: if_splits)

lemma tree_account_init_ok:
  assumes "decode_ok decode" "params_validate params = Inr ()" "fees_validate fs = Inr ()"
  shows "\<exists>l. tree_account_init decode (replicate account_size 0) disc UTXO_TREE_HEIGHT tree_id params fs = Inr l
    \<and> tree_ok P G l [] \<and> ta_discriminator l = disc \<and> ta_tree_id l = tree_id \<and> ta_state l = INITIALIZED
    \<and> fees l = fs \<and> fee_balance l = 0 \<and> live_nullifier_pdas l = 0
    \<and> nt_zkp_batch_size (ta_nullifier l) = input_queue_zkp_batch_size params"
proof -
  let ?z = "input_queue_zkp_batch_size params" and ?K = NULLIFIER_TREE_ZKP_BATCHES
  have p: "init_height params = 40" "match_circuit_size ?z" "input_queue_batch_size params = ?K * ?z"
    using assms(2) unfolding params_validate_ok by auto
  have small: "?K * ?z \<le> 2 ^ 40" "0 < ?K" "0 < ?z"
    using p(2) by (auto simp: match_circuit_size_def SUPPORTED_ZKP_BATCH_SIZES_def NULLIFIER_TREE_ZKP_BATCHES_def)
  obtain n where n: "nt_init (?K * ?z) ?z 40 (zeroed_layout ?K) = Inr n"
    using nt_init_total small by blast
  have z: "nt_zkp_batch_size n = ?z" by (rule nt_init_zkp_batch_size[OF n])
  have h: "UTXO_TREE_HEIGHT \<le> 40" by (simp add: UTXO_TREE_HEIGHT_def)
  note u = utxo_fresh_reachable[OF h]
  let ?l = "zeroed_account\<lparr>ta_discriminator := disc, ta_state := INITIALIZED, ta_tree_id := tree_id,
    fees := fs, ta_utxo := utxo_fresh UTXO_TREE_HEIGHT, ta_nullifier := n\<rparr>"
  have "tree_account_init decode (replicate account_size 0) disc UTXO_TREE_HEIGHT tree_id params fs = Inr ?l"
    using assms p(1,3) n u(2)
    by (simp add: tree_account_init_def decode_ok_def tree_init_def zeroed_account_def UNINITIALIZED_def Let_def)
  moreover have "tree_ok P G ?l []"
    using u(1,3) utxo_init_header[OF u(2)] nt_reach_init[OF small(1) n] p(2) z assms(3)
    by (simp add: tree_ok_def fees_validate_def split: if_splits)
  ultimately show ?thesis using z by (intro exI[of _ ?l]) (simp add: zeroed_account_def)
qed


text \<open>The life of a tree account: creation, then any sequence of successful operations.\<close>

inductive tree_reachable :: "hash_fn \<Rightarrow> groth16 \<Rightarrow> (bytes \<Rightarrow> tree_layout option) \<Rightarrow> tree_layout \<Rightarrow> bytes list \<Rightarrow> bool"
  for P G decode where
  tree_created: "tree_account_init decode (replicate account_size 0) disc h tree_id params fs = Inr l \<Longrightarrow>
    tree_reachable P G decode l []"
| tree_append: "tree_reachable P G decode l xs \<Longrightarrow> \<forall>x \<in> set ls. field_element x \<Longrightarrow>
    append_batch P ls slot (ta_utxo l) = (u, Inr ()) \<Longrightarrow> tree_reachable P G decode (l\<lparr>ta_utxo := u\<rparr>) (xs @ ls)"
| tree_insert: "tree_reachable P G decode l xs \<Longrightarrow> length v = 32 \<Longrightarrow>
    insert_nullifier_into_queue P v (ta_nullifier l) = Inr (n, q) \<Longrightarrow>
    tree_reachable P G decode (l\<lparr>ta_nullifier := n\<rparr>) xs"
| tree_update: "tree_reachable P G decode l xs \<Longrightarrow>
    update_tree_from_queue P G pubkey d (ta_nullifier l) = Inr (n, ev) \<Longrightarrow>
    tree_reachable P G decode (l\<lparr>ta_nullifier := n\<rparr>) xs"
| tree_pause: "tree_reachable P G decode l xs \<Longrightarrow> tree_reachable P G decode (set_paused b l) xs"
| tree_fees: "tree_reachable P G decode l xs \<Longrightarrow> set_fee_schedule fs l = Inr l' \<Longrightarrow> tree_reachable P G decode l' xs"
| tree_credit: "tree_reachable P G decode l xs \<Longrightarrow> credit_tree_fee l = Inr (l', fee) \<Longrightarrow> tree_reachable P G decode l' xs"
| tree_release: "tree_reachable P G decode l xs \<Longrightarrow> tree_reachable P G decode (fst (release_fee_surplus l)) xs"
| tree_pdas_created: "tree_reachable P G decode l xs \<Longrightarrow> tree_reachable P G decode (record_nullifier_pdas_created k l) xs"
| tree_pdas_closed: "tree_reachable P G decode l xs \<Longrightarrow> tree_reachable P G decode (record_nullifier_pdas_closed k l) xs"
| tree_take: "tree_reachable P G decode l xs \<Longrightarrow> tree_reachable P G decode (fst (take_reimbursement rate k l)) xs"

lemma insert_keeps_zkp_batch_size:
  assumes "poseidon_ok P" "nt_reachable P G K Z t" "length v = 32" "insert_nullifier_into_queue P v t = Inr (t', q)"
  shows "nt_zkp_batch_size t' = nt_zkp_batch_size t"
proof -
  have "nt_zkp_batch_size r = Z" if "nt_reachable P G K Z r" for r
    using nt_reachable_repr[OF assms(1) that] nt_repr_fields(3) by blast
  then show ?thesis using assms(2) nt_reach_insert[OF assms(2-4)] by simp
qed

lemma update_keeps_zkp_batch_size:
  assumes "poseidon_ok P" "nt_reachable P G K Z t" "update_tree_from_queue P G pubkey d t = Inr (t', ev)"
  shows "nt_zkp_batch_size t' = nt_zkp_batch_size t"
proof -
  have "nt_zkp_batch_size r = Z" if "nt_reachable P G K Z r" for r
    using nt_reachable_repr[OF assms(1) that] nt_repr_fields(3) by blast
  then show ?thesis using assms(2) nt_reach_update[OF assms(2,3)] by simp
qed

lemma tree_ok_append:
  assumes "poseidon_ok P" "tree_ok P G l xs" "\<forall>x \<in> set ls. field_element x"
    "append_batch P ls slot (ta_utxo l) = (u, Inr ())"
  shows "tree_ok P G (l\<lparr>ta_utxo := u\<rparr>) (xs @ ls)"
proof -
  have "utxo_reachable P u (xs @ ls)"
    using utxo_reachable.reach_append[OF _ assms(3,4)] assms(2) by (simp add: tree_ok_def)
  moreover have "tree_height u = tree_height (ta_utxo l)"
  proof (cases "ls = []")
    case True
    then show ?thesis using assms(4) by (simp add: append_batch_Nil)
  next
    case False
    obtain log where log: "utxo_repr P (ta_utxo l) xs log"
      using utxo_reachable_repr[OF assms(1), of "ta_utxo l" xs] assms(2) unfolding tree_ok_def by blast
    then have "utxo_core P (ta_utxo l) xs" by (simp add: utxo_repr_def)
    from append_batch_success[OF assms(1) this assms(3) False assms(4)] show ?thesis
      using append_batch_correct[OF assms(1) log False assms(3), of slot] assms(4) by auto
  qed
  ultimately show ?thesis
    using assms(2) append_batch_frame[of P ls slot "ta_utxo l"] assms(4) by (simp add: tree_ok_def)
qed

lemmas header_ops = set_paused_def set_fee_schedule_def credit_tree_fee_def release_fee_surplus_def
  record_nullifier_pdas_created_def record_nullifier_pdas_closed_def take_reimbursement_def

lemma tree_reachable_ok:
  assumes "poseidon_ok P" "decode_ok decode" "tree_reachable P G decode l xs"
  shows "tree_ok P G l xs"
  using assms(3)
proof induction
  case (tree_created disc h tree_id params fs l)
  then have ok: "h = UTXO_TREE_HEIGHT" "params_validate params = Inr ()" "fees_validate fs = Inr ()"
    by (auto simp: tree_account_init_def result_simps split: if_splits)
  show ?case using tree_account_init_ok[OF assms(2) ok(2,3), of disc tree_id P G] tree_created ok(1) by auto
next
  case (tree_append l xs ls slot u)
  then show ?case using tree_ok_append[OF assms(1)] by blast
next
  case (tree_insert l xs v n q)
  then show ?case
    using insert_keeps_zkp_batch_size[OF assms(1) _ tree_insert(2,3)] nt_reach_insert[OF _ tree_insert(2,3)]
    by (auto simp: tree_ok_def)
next
  case (tree_update l xs pubkey d n ev)
  then show ?case
    using update_keeps_zkp_batch_size[OF assms(1) _ tree_update(2)] nt_reach_update[OF _ tree_update(2)]
    by (auto simp: tree_ok_def)
qed (auto simp: tree_ok_def header_ops result_simps fees_validate_def Let_def split: if_splits)


section \<open>Reimbursements\<close>

datatype draw = Append_draw nat | Close_draw nat

fun draw_owed :: "tree_layout \<Rightarrow> draw \<Rightarrow> nat" where
  "draw_owed l (Append_draw n) = append_reimbursement (fees l) * n"
| "draw_owed l (Close_draw n) = close_reimbursement (fees l) * n"

fun draw_step :: "tree_layout \<Rightarrow> draw \<Rightarrow> tree_layout \<times> nat" where
  "draw_step l (Append_draw n) = take_append_reimbursement n l"
| "draw_step l (Close_draw n) = take_close_reimbursement n (record_nullifier_pdas_closed n l)"

fun draws_paid :: "tree_layout \<Rightarrow> draw list \<Rightarrow> nat list" where
  "draws_paid l [] = []"
| "draws_paid l (d # ds) = (case draw_step l d of (l', paid) \<Rightarrow> paid # draws_paid l' ds)"

fun appends_of :: "draw list \<Rightarrow> nat" where
  "appends_of [] = 0"
| "appends_of (Append_draw n # ds) = n + appends_of ds"
| "appends_of (Close_draw n # ds) = appends_of ds"

fun closes_of :: "draw list \<Rightarrow> nat" where
  "closes_of [] = 0"
| "closes_of (Append_draw n # ds) = closes_of ds"
| "closes_of (Close_draw n # ds) = n + closes_of ds"

lemma take_reimbursement_exact:
  assumes "rate * n \<le> fee_balance l" "u64_ok (fee_balance l)"
  shows "take_reimbursement rate n l = (l\<lparr>fee_balance := fee_balance l - rate * n\<rparr>, rate * n)"
  using assms by (simp add: take_reimbursement_def saturating_mul_def u64_max_def Let_def)

lemma draw_owed_cong: "fees l' = fees l \<Longrightarrow> draw_owed l' = draw_owed l"
  by (rule ext, rename_tac x, case_tac x; simp)

lemma draws_paid_in_full:
  assumes "append_reimbursement (fees l) * appends_of ds + close_reimbursement (fees l) * closes_of ds \<le> fee_balance l"
    "u64_ok (fee_balance l)"
  shows "draws_paid l ds = map (draw_owed l) ds"
  using assms
proof (induction ds arbitrary: l)
  case Nil
  then show ?case by simp
next
  case (Cons d ds)
  show ?case
  proof (cases d)
    case (Append_draw n)
    let ?l = "l\<lparr>fee_balance := fee_balance l - append_reimbursement (fees l) * n\<rparr>"
    have "draw_step l d = (?l, append_reimbursement (fees l) * n)"
      using Append_draw Cons.prems
      by (simp add: take_append_reimbursement_def take_reimbursement_exact algebra_simps)
    moreover have "draws_paid ?l ds = map (draw_owed ?l) ds"
      using Cons.IH[of ?l] Append_draw Cons.prems by (simp add: algebra_simps)
    ultimately show ?thesis using Append_draw draw_owed_cong[of ?l l] by simp
  next
    case (Close_draw n)
    let ?c = "record_nullifier_pdas_closed n l"
    let ?l = "?c\<lparr>fee_balance := fee_balance l - close_reimbursement (fees l) * n\<rparr>"
    have "draw_step l d = (?l, close_reimbursement (fees l) * n)"
      using Close_draw Cons.prems take_reimbursement_exact[of "close_reimbursement (fees l)" n ?c]
      by (simp add: take_close_reimbursement_def record_nullifier_pdas_closed_def algebra_simps)
    moreover have "draws_paid ?l ds = map (draw_owed ?l) ds"
      using Cons.IH[of ?l] Close_draw Cons.prems by (simp add: record_nullifier_pdas_closed_def algebra_simps)
    moreover have "draw_owed ?l = draw_owed l"
      by (rule draw_owed_cong) (simp add: record_nullifier_pdas_closed_def)
    ultimately show ?thesis using Close_draw by simp
  qed
qed

lemma saturating_reserve:
  "saturating_add (saturating_mul a b) (saturating_mul c d) = min (a * b + c * d) u64_max"
  by (simp add: saturating_add_def saturating_mul_def min_def)

lemma release_fee_surplus_balance:
  "fee_balance (fst (release_fee_surplus l)) = min (fee_balance l) (fee_balance_reserve l)"
  "fees (fst (release_fee_surplus l)) = fees l"
  "snd (release_fee_surplus l) = fee_balance l - min (fee_balance l) (fee_balance_reserve l)"
  by (simp_all add: release_fee_surplus_def saturating_sub_def min_def Let_def)

text \<open>
  C22.  Releasing the fee surplus never touches what open nullifier PDAs may
  still draw: when the balance covered the reserve, then after the release any
  sequence of forester draws -- at most one close per open PDA and one append
  per ZKP batch the open PDAs span, in any order and grouping -- is paid in full.
  The last hypothesis excludes draws whose sum is not a u64 amount at all.
\<close>
theorem released_balance_pays_every_open_draw:
  assumes "fee_balance_reserve l \<le> fee_balance l" "u64_ok (fee_balance l)"
    and "0 < nt_zkp_batch_size (ta_nullifier l)"
    and "closes_of ds \<le> live_nullifier_pdas l"
    and "appends_of ds \<le> div_ceil (live_nullifier_pdas l) (nt_zkp_batch_size (ta_nullifier l))"
    and "append_reimbursement (fees l) * appends_of ds + close_reimbursement (fees l) * closes_of ds \<le> u64_max"
  shows "draws_paid (fst (release_fee_surplus l)) ds = map (draw_owed l) ds"
proof -
  let ?l = "fst (release_fee_surplus l)"
  let ?owed = "append_reimbursement (fees l) * appends_of ds + close_reimbursement (fees l) * closes_of ds"
  have "close_reimbursement (fees l) * closes_of ds \<le> live_nullifier_pdas l * close_reimbursement (fees l)"
    "append_reimbursement (fees l) * appends_of ds
      \<le> div_ceil (live_nullifier_pdas l) (nt_zkp_batch_size (ta_nullifier l)) * append_reimbursement (fees l)"
    using assms(4,5) by (simp_all add: mult.commute)
  then have "?owed \<le> live_nullifier_pdas l * close_reimbursement (fees l)
      + div_ceil (live_nullifier_pdas l) (nt_zkp_batch_size (ta_nullifier l)) * append_reimbursement (fees l)"
    by linarith
  then have "?owed \<le> fee_balance_reserve l"
    using assms(3,6) by (simp add: fee_balance_reserve_def Let_def saturating_reserve)
  then have "?owed \<le> fee_balance ?l" using assms(1) by (simp add: release_fee_surplus_balance)
  then have "draws_paid ?l ds = map (draw_owed ?l) ds"
    using draws_paid_in_full[of ?l ds] assms(2) by (simp add: release_fee_surplus_balance)
  moreover have "draw_owed ?l = draw_owed l"
    by (rule draw_owed_cong) (simp add: release_fee_surplus_balance)
  ultimately show ?thesis by simp
qed

definition demo_decode :: "bytes \<Rightarrow> tree_layout option" where
  "demo_decode bs = (if length bs = account_size \<and> (\<forall>b \<in> set bs. b = 0) then Some zeroed_account else None)"

lemma decode_ok_demo: "decode_ok demo_decode"
  by (simp add: decode_ok_def demo_decode_def)

definition demo_tree :: tree_layout where
  "demo_tree = (case tree_account_init demo_decode (replicate account_size 0) 1 UTXO_TREE_HEIGHT 7
      \<lparr>input_queue_batch_size = 1000, input_queue_zkp_batch_size = 10, init_height = 40\<rparr> default_tree_fees
    of Inr l \<Rightarrow> l | Inl _ \<Rightarrow> zeroed_account)"

lemma demo_tree_init:
  "tree_account_init demo_decode (replicate account_size 0) 1 UTXO_TREE_HEIGHT 7
     \<lparr>input_queue_batch_size = 1000, input_queue_zkp_batch_size = 10, init_height = 40\<rparr> default_tree_fees = Inr demo_tree"
  "ta_discriminator demo_tree = 1" "ta_tree_id demo_tree = 7" "ta_state demo_tree = INITIALIZED"
  "fees demo_tree = default_tree_fees" "fee_balance demo_tree = 0" "live_nullifier_pdas demo_tree = 0"
  "nt_zkp_batch_size (ta_nullifier demo_tree) = 10" "tree_ok P G demo_tree []"
proof -
  let ?p = "\<lparr>input_queue_batch_size = 1000, input_queue_zkp_batch_size = 10, init_height = 40\<rparr>"
  have "params_validate ?p = Inr ()"
    unfolding params_validate_ok
    by (simp add: match_circuit_size_def SUPPORTED_ZKP_BATCH_SIZES_def NULLIFIER_TREE_ZKP_BATCHES_def)
  moreover have "fees_validate default_tree_fees = Inr ()"
    by (simp add: fees_validate_def default_tree_fees_def MAX_FEE_PER_TREE_def DEFAULT_FEE_PER_TREE_LAMPORTS_def)
  ultimately obtain l where l: "tree_account_init demo_decode (replicate account_size 0) 1 UTXO_TREE_HEIGHT 7 ?p default_tree_fees = Inr l"
    "tree_ok P G l []" "ta_discriminator l = 1" "ta_tree_id l = 7" "ta_state l = INITIALIZED"
    "fees l = default_tree_fees" "fee_balance l = 0" "live_nullifier_pdas l = 0"
    "nt_zkp_batch_size (ta_nullifier l) = 10"
    using tree_account_init_ok[OF decode_ok_demo, of ?p default_tree_fees 1 7 P G] by auto
  then have "demo_tree = l" by (simp add: demo_tree_def)
  with l show "tree_account_init demo_decode (replicate account_size 0) 1 UTXO_TREE_HEIGHT 7 ?p default_tree_fees = Inr demo_tree"
    "ta_discriminator demo_tree = 1" "ta_tree_id demo_tree = 7" "ta_state demo_tree = INITIALIZED"
    "fees demo_tree = default_tree_fees" "fee_balance demo_tree = 0" "live_nullifier_pdas demo_tree = 0"
    "nt_zkp_batch_size (ta_nullifier demo_tree) = 10" "tree_ok P G demo_tree []" by simp_all
qed

theorem released_balance_pays_every_open_draw_witness:
  "draws_paid (fst (release_fee_surplus (demo_tree\<lparr>fee_balance := 50000, live_nullifier_pdas := 12\<rparr>)))
     [Append_draw 1, Close_draw 5, Append_draw 1, Close_draw 7] = [5000, 440, 5000, 616]"
  using released_balance_pays_every_open_draw[of "demo_tree\<lparr>fee_balance := 50000, live_nullifier_pdas := 12\<rparr>"
      "[Append_draw 1, Close_draw 5, Append_draw 1, Close_draw 7]"]
  by (simp add: demo_tree_init(5,8) fee_balance_reserve_def saturating_reserve div_ceil_def default_tree_fees_def
      AT_COST_APPEND_REIMBURSEMENT_LAMPORTS_def AT_COST_CLOSE_REIMBURSEMENT_LAMPORTS_def u64_limit_def u64_max_def)

text \<open>
  C23.  Every tree account the program can produce passes the check the loaders
  run, holds the root of the padded tree over its appended leaves and charges at most \<open>MAX_FEE_PER_TREE\<close>; no operation can
  make a live tree unloadable.
\<close>
theorem reachable_tree_loads:
  assumes "poseidon_ok P" "zero_bytes_ok P" "decode_ok decode" "tree_reachable P G decode l xs"
  shows "check_layout l = Inr () \<and> utxo_root (ta_utxo l) = padded_root P UTXO_TREE_HEIGHT xs
    \<and> utxo_next_index (ta_utxo l) = length xs \<and> fee_per_tree (fees l) \<le> MAX_FEE_PER_TREE"
proof -
  have ok: "tree_ok P G l xs" by (rule tree_reachable_ok[OF assms(1,3,4)])
  then obtain log where r: "utxo_repr P (ta_utxo l) xs log"
    using utxo_reachable_repr[OF assms(1), of "ta_utxo l" xs] unfolding tree_ok_def by blast
  then show ?thesis
    using ok tree_ok_check_layout[OF assms(1) ok] spec_root_padded[of P "ta_utxo l" xs] assms(2)
    by (auto simp: tree_ok_def utxo_repr_def utxo_core_def utxo_capacity_def)
qed

theorem reachable_tree_loads_witness:
  "check_layout (set_paused True demo_tree) = Inr ()"
proof -
  have "tree_reachable demo_poseidon accept_all demo_decode (set_paused True demo_tree) []"
    by (rule tree_pause, rule tree_created, rule demo_tree_init(1))
  then show ?thesis
    using reachable_tree_loads[OF poseidon_ok_demo zero_bytes_ok_demo decode_ok_demo] by blast
qed

end
