(* ===== verification/Accounts.thy ===== *)
theory Accounts
  imports Pool_Errors Tree_Account
begin

text \<open>
  Accounts as a handler sees them.  The ledger maps addresses to owner, lamports
  and data; an instruction names accounts by a list of views (address and
  privileges), so two views of one address share their account, as they do on
  chain.  Account data is raw bytes, or a tree region seen through its zero-copy
  layout.  Runtime services -- PDA derivation, the rent and clock sysvars, calls
  into other programs, the zero-copy cast -- are the fields of \<open>runtime\<close>.

  The account checks and the account iterator follow
  \<open>program-libs/account-checks/src/checks.rs\<close> and \<open>account_iterator.rs\<close>.
  Borrow flags are not modelled: no handler keeps a borrow across another use of
  the same account.
\<close>

type_synonym address = bytes

datatype account_data = Bytes bytes | Tree_Data tree_layout

record account =
  acc_owner :: address
  acc_lamports :: nat
  acc_data :: account_data

record account_view =
  address_of :: address
  is_signer :: bool
  is_writable :: bool
  is_executable :: bool

type_synonym ledger = "address \<Rightarrow> account"

definition data_len :: "account_data \<Rightarrow> nat" where
  "data_len d = (case d of Bytes bs \<Rightarrow> length bs | Tree_Data l \<Rightarrow> account_size)"

text \<open>The leading bytes of account data: a tree region starts with its eight-byte header.\<close>

definition data_prefix :: "nat \<Rightarrow> account_data \<Rightarrow> bytes option" where
  "data_prefix n d =
    (case d of
       Bytes bs \<Rightarrow> if n \<le> length bs then Some (take n bs) else None
     | Tree_Data l \<Rightarrow>
        if n \<le> 8 then Some (take n (of_nat (ta_discriminator l) # of_nat (ta_state l)
          # to_le_bytes 2 (ta_tree_id l) @ take 4 (ta_padding l @ replicate 4 0)))
        else None)"

definition lamports :: "ledger \<Rightarrow> address \<Rightarrow> nat" where
  "lamports L a = acc_lamports (L a)"

definition set_lamports :: "address \<Rightarrow> nat \<Rightarrow> ledger \<Rightarrow> ledger" where
  "set_lamports a n L = L(a := (L a)\<lparr>acc_lamports := n\<rparr>)"

definition set_data :: "address \<Rightarrow> account_data \<Rightarrow> ledger \<Rightarrow> ledger" where
  "set_data a d L = L(a := (L a)\<lparr>acc_data := d\<rparr>)"

definition owned_by :: "ledger \<Rightarrow> account_view \<Rightarrow> address \<Rightarrow> bool" where
  "owned_by L v p = (acc_owner (L (address_of v)) = p)"

definition system_program_id :: address where "system_program_id = zero32"

text \<open>\<open>resize\<close> of an account the program owns: truncate or extend with zeros.\<close>

definition resize_bytes :: "nat \<Rightarrow> bytes \<Rightarrow> bytes" where
  "resize_bytes n bs = take n bs @ replicate (n - length bs) 0"

text \<open>\<open>close\<close> of an account view: the account becomes an empty system account.\<close>

definition close_account :: "address \<Rightarrow> ledger \<Rightarrow> ledger" where
  "close_account a L = L(a := \<lparr>acc_owner = system_program_id, acc_lamports = 0, acc_data = Bytes []\<rparr>)"


section \<open>Runtime services\<close>

text \<open>
  Calls into the system program.  The last argument of a signed call lists the
  seeds (with bump) of the program-derived signers.
\<close>

datatype system_instruction =
    Transfer address address nat
  | Transfer_Signed address address nat "bytes list"
  | Create_Account address address nat nat address "bytes list"
  | Allocate address nat "bytes list"
  | Assign address address "bytes list"
  | Create_With_Minimum_Balance address nat address address "bytes list option"

datatype loader_state =
    Loader_Program address
  | Loader_Program_Data "address option"
  | Loader_Other

record runtime =
  rt_program_id :: address
  derive_program_address :: "bytes list \<Rightarrow> address \<Rightarrow> (address \<times> nat) option"
  minimum_balance :: "nat \<Rightarrow> nat presult"
  unix_timestamp :: int
  clock_slot :: nat
  system_cpi :: "system_instruction \<Rightarrow> ledger \<Rightarrow> ledger presult"
  tree_decode :: "bytes \<Rightarrow> tree_layout option"
  decode_loader_state :: "account_data \<Rightarrow> loader_state option"
  bpf_loader_upgradeable_id :: address

definition tree_of_data :: "runtime \<Rightarrow> account_data \<Rightarrow> tree_layout option" where
  "tree_of_data R d = (case d of Bytes bs \<Rightarrow> tree_decode R bs | Tree_Data l \<Rightarrow> Some l)"


section \<open>Account checks (checks.rs)\<close>

definition DISCRIMINATOR_LEN :: nat where "DISCRIMINATOR_LEN = 8"

definition check_signer :: "account_view \<Rightarrow> (account_error, unit) result" where
  "check_signer v = (if \<not> is_signer v then Inl InvalidSigner else Inr ())"

definition check_mut :: "account_view \<Rightarrow> (account_error, unit) result" where
  "check_mut v = (if \<not> is_writable v then Inl AccountNotMutable else Inr ())"

definition check_non_mut :: "account_view \<Rightarrow> (account_error, unit) result" where
  "check_non_mut v = (if is_writable v then Inl AccountMutable else Inr ())"

definition check_owner :: "ledger \<Rightarrow> address \<Rightarrow> account_view \<Rightarrow> (account_error, unit) result" where
  "check_owner L owner v = (if \<not> owned_by L v owner then Inl AccountOwnedByWrongProgram else Inr ())"

definition check_program :: "address \<Rightarrow> account_view \<Rightarrow> (account_error, unit) result" where
  "check_program pid v =
    (if address_of v \<noteq> pid then Inl InvalidProgramId
     else if \<not> is_executable v then Inl ProgramNotExecutable else Inr ())"

definition check_data_is_zeroed :: "nat \<Rightarrow> account_data \<Rightarrow> (account_error, unit) result" where
  "check_data_is_zeroed n d =
    rbind (ok_or (data_prefix n d) InvalidAccountSize) (\<lambda>bs.
      if \<exists>b \<in> set bs. b \<noteq> 0 then Inl AccountNotZeroed else Inr ())"

definition set_discriminator :: "bytes \<Rightarrow> bytes \<Rightarrow> (account_error, bytes) result" where
  "set_discriminator disc bs =
    rbind (map_err (\<lambda>_. Account_AlreadyInitialized) (check_data_is_zeroed DISCRIMINATOR_LEN (Bytes bs))) (\<lambda>_.
      if DISCRIMINATOR_LEN \<le> length bs then Inr (disc @ drop DISCRIMINATOR_LEN bs)
      else Inl InvalidAccountSize)"

definition check_discriminator_8 :: "bytes \<Rightarrow> account_data \<Rightarrow> (account_error, unit) result" where
  "check_discriminator_8 disc d =
    rbind (ok_or (data_prefix DISCRIMINATOR_LEN d) InvalidAccountSize) (\<lambda>bs.
      if disc \<noteq> bs then Inl Account_InvalidDiscriminator else Inr ())"

definition check_account_info :: "ledger \<Rightarrow> bytes \<Rightarrow> address \<Rightarrow> account_view \<Rightarrow> (account_error, unit) result" where
  "check_account_info L disc pid v =
    rbind (check_owner L pid v) (\<lambda>_. check_discriminator_8 disc (acc_data (L (address_of v))))"

definition check_account_info_mut :: "ledger \<Rightarrow> bytes \<Rightarrow> address \<Rightarrow> account_view \<Rightarrow> (account_error, unit) result" where
  "check_account_info_mut L disc pid v = rbind (check_mut v) (\<lambda>_. check_account_info L disc pid v)"

definition check_account_info_non_mut :: "ledger \<Rightarrow> bytes \<Rightarrow> address \<Rightarrow> account_view \<Rightarrow> (account_error, unit) result" where
  "check_account_info_non_mut L disc pid v = rbind (check_non_mut v) (\<lambda>_. check_account_info L disc pid v)"

definition check_account_balance_is_rent_exempt :: "ledger \<Rightarrow> account_view \<Rightarrow> nat \<Rightarrow> nat \<Rightarrow> (account_error, nat) result" where
  "check_account_balance_is_rent_exempt L v expected_size rent_minimum =
    (if data_len (acc_data (L (address_of v))) \<noteq> expected_size then Inl InvalidAccountSize
     else if lamports L (address_of v) < rent_minimum then Inl InvalidAccountBalance
     else Inr rent_minimum)"


section \<open>Account iterator (account\_iterator.rs)\<close>

record account_iterator =
  it_accounts :: "account_view list"
  it_position :: nat

type_synonym 'a ires = "(account_error, 'a \<times> account_iterator) result"

definition iter_new :: "account_view list \<Rightarrow> account_iterator" where
  "iter_new vs = \<lparr>it_accounts = vs, it_position = 0\<rparr>"

definition next_account :: "account_iterator \<Rightarrow> account_view ires" where
  "next_account it =
    (case it_accounts it of
       v # rest \<Rightarrow> Inr (v, \<lparr>it_accounts = rest, it_position = it_position it + 1\<rparr>)
     | [] \<Rightarrow> Inl NotEnoughAccountKeys)"

text \<open>The next account, provided it passes a check.\<close>

definition next_checked :: "(account_view \<Rightarrow> (account_error, unit) result) \<Rightarrow> account_iterator \<Rightarrow> account_view ires" where
  "next_checked chk it = rbind (next_account it) (\<lambda>(v, it'). rbind (chk v) (\<lambda>_. Inr (v, it')))"

definition next_checked_pubkey :: "address \<Rightarrow> account_iterator \<Rightarrow> account_view ires" where
  "next_checked_pubkey pk = next_checked (\<lambda>v. if address_of v \<noteq> pk then Inl InvalidAccount else Inr ())"

definition next_signer :: "account_iterator \<Rightarrow> account_view ires" where
  "next_signer = next_checked check_signer"

definition next_mut :: "account_iterator \<Rightarrow> account_view ires" where
  "next_mut = next_checked check_mut"

definition next_non_mut :: "account_iterator \<Rightarrow> account_view ires" where
  "next_non_mut = next_checked check_non_mut"

definition next_signer_mut :: "account_iterator \<Rightarrow> account_view ires" where
  "next_signer_mut = next_checked (\<lambda>v. rbind (check_signer v) (\<lambda>_. check_mut v))"

definition next_signer_non_mut :: "account_iterator \<Rightarrow> account_view ires" where
  "next_signer_non_mut = next_checked (\<lambda>v. rbind (check_signer v) (\<lambda>_. check_non_mut v))"

definition optionally :: "(account_iterator \<Rightarrow> account_view ires) \<Rightarrow> bool \<Rightarrow> account_iterator \<Rightarrow> account_view option ires" where
  "optionally nx is_some it = (if is_some then rbind (nx it) (\<lambda>(v, it'). Inr (Some v, it')) else Inr (None, it))"

definition next_option :: "bool \<Rightarrow> account_iterator \<Rightarrow> account_view option ires" where
  "next_option = optionally next_account"

definition next_option_mut :: "bool \<Rightarrow> account_iterator \<Rightarrow> account_view option ires" where
  "next_option_mut = optionally next_mut"

definition next_option_signer :: "bool \<Rightarrow> account_iterator \<Rightarrow> account_view option ires" where
  "next_option_signer = optionally next_signer"

definition remaining :: "account_iterator \<Rightarrow> (account_error, account_view list) result" where
  "remaining it = (if it_accounts it = [] then Inl NotEnoughAccountKeys else Inr (it_accounts it))"

definition remaining_unchecked :: "account_iterator \<Rightarrow> (account_error, account_view list) result" where
  "remaining_unchecked it = Inr (it_accounts it)"

definition iter_len :: "account_iterator \<Rightarrow> nat" where
  "iter_len it = it_position it + length (it_accounts it)"

definition iterator_is_empty :: "account_iterator \<Rightarrow> bool" where
  "iterator_is_empty it = (it_accounts it = [])"


section \<open>Laws of the iterator and the checks\<close>

named_theorems account_simps

lemma check_eq_Inr [account_simps]:
  "check_signer v = Inr u \<longleftrightarrow> is_signer v" "check_mut v = Inr u \<longleftrightarrow> is_writable v"
  "check_non_mut v = Inr u \<longleftrightarrow> \<not> is_writable v" "check_owner L p v = Inr u \<longleftrightarrow> owned_by L v p"
  by (auto simp: check_signer_def check_mut_def check_non_mut_def check_owner_def)

lemma next_checked_eq_Inr:
  "next_checked chk it = Inr (v, it') \<longleftrightarrow>
     (\<exists>rest. it_accounts it = v # rest \<and> chk v = Inr () \<and> it' = \<lparr>it_accounts = rest, it_position = it_position it + 1\<rparr>)"
  by (auto simp: next_checked_def next_account_def result_simps split: list.splits)

lemma next_account_eq_Inr [account_simps]:
  "next_account it = Inr (v, it') \<longleftrightarrow>
     (\<exists>rest. it_accounts it = v # rest \<and> it' = \<lparr>it_accounts = rest, it_position = it_position it + 1\<rparr>)"
  by (auto simp: next_account_def split: list.splits)

lemma next_signer_eq_Inr [account_simps]:
  "next_signer it = Inr (v, it') \<longleftrightarrow>
     (\<exists>rest. it_accounts it = v # rest \<and> is_signer v \<and> it' = \<lparr>it_accounts = rest, it_position = it_position it + 1\<rparr>)"
  by (simp add: next_signer_def next_checked_eq_Inr account_simps)

lemma next_mut_eq_Inr [account_simps]:
  "next_mut it = Inr (v, it') \<longleftrightarrow>
     (\<exists>rest. it_accounts it = v # rest \<and> is_writable v \<and> it' = \<lparr>it_accounts = rest, it_position = it_position it + 1\<rparr>)"
  by (simp add: next_mut_def next_checked_eq_Inr account_simps)

lemma next_signer_mut_eq_Inr [account_simps]:
  "next_signer_mut it = Inr (v, it') \<longleftrightarrow>
     (\<exists>rest. it_accounts it = v # rest \<and> is_signer v \<and> is_writable v
        \<and> it' = \<lparr>it_accounts = rest, it_position = it_position it + 1\<rparr>)"
  by (auto simp: next_signer_mut_def next_checked_eq_Inr account_simps result_simps)

lemma iter_new_sel [simp]: "it_accounts (iter_new vs) = vs" "it_position (iter_new vs) = 0"
  by (simp_all add: iter_new_def)

lemma ledger_sel [simp]:
  "acc_owner (set_lamports a n L b) = acc_owner (L b)"
  "acc_data (set_lamports a n L b) = acc_data (L b)"
  "lamports (set_lamports a n L) b = (if b = a then n else lamports L b)"
  "acc_owner (set_data a d L b) = acc_owner (L b)"
  "acc_data (set_data a d L b) = (if b = a then d else acc_data (L b))"
  "lamports (set_data a d L) b = lamports L b"
  by (simp_all add: set_lamports_def set_data_def lamports_def)

lemma lamports_close [simp]: "lamports (close_account a L) b = (if b = a then 0 else lamports L b)"
  by (simp add: close_account_def lamports_def)

text \<open>The lamports of a set of accounts; every transfer among them keeps the total.\<close>

definition total_lamports :: "address set \<Rightarrow> ledger \<Rightarrow> nat" where
  "total_lamports A L = (\<Sum>a \<in> A. lamports L a)"

lemma total_lamports_cong: "(\<And>a. a \<in> A \<Longrightarrow> lamports L a = lamports L' a) \<Longrightarrow> total_lamports A L = total_lamports A L'"
  by (simp add: total_lamports_def)

lemma total_lamports_move:
  assumes "finite A" "a \<in> A" "b \<in> A" "a \<noteq> b" "n \<le> lamports L a"
    and "lamports L' a = lamports L a - n" "lamports L' b = lamports L b + n"
    and "\<And>c. c \<noteq> a \<Longrightarrow> c \<noteq> b \<Longrightarrow> lamports L' c = lamports L c"
  shows "total_lamports A L' = total_lamports A L"
proof -
  have split: "total_lamports A M = lamports M a + (lamports M b + (\<Sum>c \<in> A - {a} - {b}. lamports M c))" for M
    using assms(1-4) by (simp add: total_lamports_def sum.remove[of A a] sum.remove[of "A - {a}" b])
  have "(\<Sum>c \<in> A - {a} - {b}. lamports L' c) = (\<Sum>c \<in> A - {a} - {b}. lamports L c)"
    by (rule sum.cong) (auto simp: assms(8))
  then show ?thesis using assms(5-7) by (simp add: split)
qed

end
