(* ===== verification/Interface_State.thy ===== *)
theory Interface_State
  imports Accounts
begin

text \<open>
  The program's fixed-size records, \<open>program-libs/interface/src/state\<close>: the
  protocol config, ring configs, the SPL asset counter and registry entries, and
  nullifier PDAs.  Each is a record with its byte layout; the locale
  \<open>zero_copy\<close> states what the handlers rely on of such a layout, and every
  record is an interpretation of it.
\<close>

text \<open>A buffer cut into consecutive fields of the given lengths.\<close>

fun chop :: "nat list \<Rightarrow> 'a list \<Rightarrow> 'a list list" where
  "chop [] xs = []"
| "chop (n # ns) xs = take n xs # chop ns (drop n xs)"

lemma chop_concat: "map length fs = ns \<Longrightarrow> chop ns (concat fs) = fs"
  by (induction fs arbitrary: ns) auto

lemma concat_chop: "length xs = sum_list ns \<Longrightarrow> concat (chop ns xs) = xs"
  by (induction ns arbitrary: xs) auto

lemma chop_lengths: "sum_list ns \<le> length xs \<Longrightarrow> map length (chop ns xs) = ns"
  by (induction ns arbitrary: xs) auto

lemma chopE:
  assumes "length xs = sum_list ns"
  obtains fs where "chop ns xs = fs" "xs = concat fs" "map length fs = ns"
  using assms concat_chop[OF assms] chop_lengths[of ns xs] by (metis order_refl)

text \<open>One-byte fields, and little-endian integers, as fields of a buffer.\<close>

lemma length_1_iff: "length xs = Suc 0 \<longleftrightarrow> (\<exists>x. xs = [x])"
  by (auto simp: length_Suc_conv)

lemma le_field [simp]:
  "length bs = n \<Longrightarrow> to_le_bytes n (from_le_bytes bs) = bs"
  using to_from_le_bytes[of bs] by simp

lemma le_u16 [simp]: "length bs = 2 \<Longrightarrow> from_le_bytes bs < u16_limit" "v < u16_limit \<Longrightarrow> from_le_bytes (to_le_bytes 2 v) = v"
  using from_le_bytes_less[of bs] by (auto simp: u16_limit_def from_to_le_bytes)

lemma le_u64 [simp]: "length bs = 8 \<Longrightarrow> from_le_bytes bs < u64_limit" "v < u64_limit \<Longrightarrow> from_le_bytes (to_le_bytes 8 v) = v"
  using from_le_bytes_less[of bs] by (auto simp: u64_limit_def from_to_le_bytes)

lemmas field_list = map_eq_Cons_conv length_1_iff

definition TREE_ACCOUNT_DISCRIMINATOR :: nat where "TREE_ACCOUNT_DISCRIMINATOR = 1"
definition PROTOCOL_CONFIG :: byte where "PROTOCOL_CONFIG = 3"
definition RING_CONFIG :: byte where "RING_CONFIG = 4"
definition SPL_ASSET_REGISTRY :: byte where "SPL_ASSET_REGISTRY = 5"
definition SPL_ASSET_COUNTER :: byte where "SPL_ASSET_COUNTER = 6"
definition CACHE :: byte where "CACHE = 7"
definition NULLIFIER_PDA :: byte where "NULLIFIER_PDA = 8"


section \<open>Zero-copy records\<close>

text \<open>
  A record type with \<open>size\<close> bytes: the cast accepts exactly the buffers of that
  length, reads what was written and loses nothing.
\<close>

locale zero_copy =
  fixes record_size :: nat
    and enc :: "'r \<Rightarrow> bytes"
    and dec :: "bytes \<Rightarrow> 'r option"
    and wf :: "'r \<Rightarrow> bool"
  assumes dec_enc: "wf r \<Longrightarrow> dec (enc r) = Some r"
    and enc_dec: "dec bs = Some r \<Longrightarrow> enc r = bs \<and> wf r"
    and dec_length: "dec bs \<noteq> None \<longleftrightarrow> length bs = record_size"
begin

lemma enc_length: "wf r \<Longrightarrow> length (enc r) = record_size"
  using dec_enc[of r] dec_length[of "enc r"] by simp

lemma enc_inj: "wf r \<Longrightarrow> wf s \<Longrightarrow> enc r = enc s \<longleftrightarrow> r = s"
  by (metis dec_enc option.inject)

lemma dec_total: "length bs = record_size \<Longrightarrow> \<exists>r. dec bs = Some r \<and> wf r"
  using dec_length[of bs] enc_dec[of bs] by auto

end


text \<open>
  A \<open>repr(C)\<close> record without implicit padding is the concatenation of its fields.
\<close>

definition layout_bytes :: "('r \<Rightarrow> bytes list) \<Rightarrow> 'r \<Rightarrow> bytes" where
  "layout_bytes to_fields r = concat (to_fields r)"

definition layout_read :: "nat list \<Rightarrow> (bytes list \<Rightarrow> 'r) \<Rightarrow> bytes \<Rightarrow> 'r option" where
  "layout_read lens of_fields bs =
    (if length bs = sum_list lens then Some (of_fields (chop lens bs)) else None)"

locale record_layout =
  fixes lens :: "nat list"
    and to_fields :: "'r \<Rightarrow> bytes list"
    and of_fields :: "bytes list \<Rightarrow> 'r"
    and wf :: "'r \<Rightarrow> bool"
  assumes to_lengths: "wf r \<Longrightarrow> map length (to_fields r) = lens"
    and of_to: "wf r \<Longrightarrow> of_fields (to_fields r) = r"
    and to_of: "map length fs = lens \<Longrightarrow> to_fields (of_fields fs) = fs \<and> wf (of_fields fs)"

sublocale record_layout \<subseteq> zero_copy "sum_list lens" "layout_bytes to_fields" "layout_read lens of_fields" wf
proof
  fix r assume wf: "wf r"
  have "length (concat (to_fields r)) = sum_list lens"
    using to_lengths[OF wf] by (simp add: length_concat)
  then show "layout_read lens of_fields (layout_bytes to_fields r) = Some r"
    using chop_concat[OF to_lengths[OF wf]] of_to[OF wf] by (simp add: layout_read_def layout_bytes_def)
next
  fix bs r assume r: "layout_read lens of_fields bs = Some r"
  then have "length bs = sum_list lens" by (simp add: layout_read_def split: if_splits)
  then obtain fs where fs: "chop lens bs = fs" "bs = concat fs" "map length fs = lens" by (rule chopE)
  then have "r = of_fields fs" using r by (simp add: layout_read_def split: if_splits)
  then show "layout_bytes to_fields r = bs \<and> wf r" using to_of[OF fs(3)] fs(2) by (simp add: layout_bytes_def)
next
  fix bs show "(layout_read lens of_fields bs \<noteq> None) = (length bs = sum_list lens)"
    by (simp add: layout_read_def)
qed

section \<open>Protocol config\<close>

record protocol_config =
  pc_discriminator :: byte
  protocol_authority :: address
  tree_creation_authority :: address
  forester_authority :: address
  ring_creation_authority :: address
  fee_authority :: address
  tree_creation_is_permissionless :: byte
  ring_activation_is_permissionless :: byte
  spl_interface_creation_is_permissionless :: byte
  next_tree_id :: nat

definition PROTOCOL_CONFIG_SIZE :: nat where "PROTOCOL_CONFIG_SIZE = 166"

definition protocol_config_fields :: "nat list" where
  "protocol_config_fields = [1, 32, 32, 32, 32, 32, 1, 1, 1, 2]"

definition protocol_config_to_fields :: "protocol_config \<Rightarrow> bytes list" where
  "protocol_config_to_fields c =
    [[pc_discriminator c], protocol_authority c, tree_creation_authority c, forester_authority c,
     ring_creation_authority c, fee_authority c, [tree_creation_is_permissionless c],
     [ring_activation_is_permissionless c], [spl_interface_creation_is_permissionless c],
     to_le_bytes 2 (next_tree_id c)]"

definition protocol_config_of_fields :: "bytes list \<Rightarrow> protocol_config" where
  "protocol_config_of_fields fs = \<lparr>pc_discriminator = hd (fs ! 0), protocol_authority = fs ! 1,
     tree_creation_authority = fs ! 2, forester_authority = fs ! 3, ring_creation_authority = fs ! 4,
     fee_authority = fs ! 5, tree_creation_is_permissionless = hd (fs ! 6),
     ring_activation_is_permissionless = hd (fs ! 7),
     spl_interface_creation_is_permissionless = hd (fs ! 8), next_tree_id = from_le_bytes (fs ! 9)\<rparr>"

abbreviation protocol_config_bytes :: "protocol_config \<Rightarrow> bytes" where
  "protocol_config_bytes \<equiv> layout_bytes protocol_config_to_fields"

abbreviation protocol_config_of :: "bytes \<Rightarrow> protocol_config option" where
  "protocol_config_of \<equiv> layout_read protocol_config_fields protocol_config_of_fields"

definition protocol_config_wf :: "protocol_config \<Rightarrow> bool" where
  "protocol_config_wf c \<longleftrightarrow>
     length (protocol_authority c) = 32 \<and> length (tree_creation_authority c) = 32 \<and>
     length (forester_authority c) = 32 \<and> length (ring_creation_authority c) = 32 \<and>
     length (fee_authority c) = 32 \<and> u16_ok (next_tree_id c)"

definition pc_check_discriminator :: "protocol_config \<Rightarrow> (interface_error, unit) result" where
  "pc_check_discriminator c = ensure (pc_discriminator c = PROTOCOL_CONFIG) Interface_InvalidDiscriminator"

definition pc_from_account_bytes :: "bytes \<Rightarrow> (interface_error, protocol_config) result" where
  "pc_from_account_bytes bs =
    (if length bs \<noteq> PROTOCOL_CONFIG_SIZE then Inl Interface_InvalidProtocolConfigData
     else rbind (ok_or (protocol_config_of bs) Interface_InvalidProtocolConfigData) (\<lambda>c.
       rbind (pc_check_discriminator c) (\<lambda>_. Inr c)))"

definition check_protocol_authority :: "protocol_config \<Rightarrow> address \<Rightarrow> (interface_error, unit) result" where
  "check_protocol_authority c a = ensure (protocol_authority c = a) Interface_Unauthorized"

definition check_tree_creation_authority :: "protocol_config \<Rightarrow> address \<Rightarrow> (interface_error, unit) result" where
  "check_tree_creation_authority c a = ensure (tree_creation_authority c = a) Interface_Unauthorized"

definition check_forester_authority :: "protocol_config \<Rightarrow> address \<Rightarrow> (interface_error, unit) result" where
  "check_forester_authority c a = ensure (forester_authority c = a) Interface_Unauthorized"

definition check_ring_creation_authority :: "protocol_config \<Rightarrow> address \<Rightarrow> (interface_error, unit) result" where
  "check_ring_creation_authority c a = ensure (ring_creation_authority c = a) Interface_Unauthorized"

definition check_fee_authority :: "protocol_config \<Rightarrow> address \<Rightarrow> (interface_error, unit) result" where
  "check_fee_authority c a = ensure (fee_authority c = a) Interface_Unauthorized"

definition allows_permissionless_tree_creation :: "protocol_config \<Rightarrow> bool" where
  "allows_permissionless_tree_creation c = (tree_creation_is_permissionless c \<noteq> 0)"

definition allows_permissionless_ring_activation :: "protocol_config \<Rightarrow> bool" where
  "allows_permissionless_ring_activation c = (ring_activation_is_permissionless c \<noteq> 0)"

definition allows_permissionless_spl_interface_creation :: "protocol_config \<Rightarrow> bool" where
  "allows_permissionless_spl_interface_creation c = (spl_interface_creation_is_permissionless c \<noteq> 0)"

interpretation protocol_config:
  record_layout protocol_config_fields protocol_config_to_fields protocol_config_of_fields protocol_config_wf
  by unfold_locales
    (auto simp: protocol_config_wf_def protocol_config_fields_def protocol_config_to_fields_def
      protocol_config_of_fields_def field_list)

lemma protocol_config_size: "sum_list protocol_config_fields = PROTOCOL_CONFIG_SIZE"
  by (simp add: protocol_config_fields_def PROTOCOL_CONFIG_SIZE_def)


section \<open>Ring config\<close>

record ring_config =
  rc_discriminator :: byte
  rc_authority :: address
  rc_program_id :: address
  ring_authority_transact_is_enabled :: byte
  rc_paused :: byte
  rc_activated :: byte
  rc_bump :: byte

definition RING_CONFIG_SIZE :: nat where "RING_CONFIG_SIZE = 69"

definition ring_config_fields :: "nat list" where "ring_config_fields = [1, 32, 32, 1, 1, 1, 1]"

definition ring_config_to_fields :: "ring_config \<Rightarrow> bytes list" where
  "ring_config_to_fields c = [[rc_discriminator c], rc_authority c, rc_program_id c,
     [ring_authority_transact_is_enabled c], [rc_paused c], [rc_activated c], [rc_bump c]]"

definition ring_config_of_fields :: "bytes list \<Rightarrow> ring_config" where
  "ring_config_of_fields fs = \<lparr>rc_discriminator = hd (fs ! 0), rc_authority = fs ! 1, rc_program_id = fs ! 2,
     ring_authority_transact_is_enabled = hd (fs ! 3), rc_paused = hd (fs ! 4), rc_activated = hd (fs ! 5),
     rc_bump = hd (fs ! 6)\<rparr>"

abbreviation ring_config_bytes :: "ring_config \<Rightarrow> bytes" where
  "ring_config_bytes \<equiv> layout_bytes ring_config_to_fields"

abbreviation ring_config_of :: "bytes \<Rightarrow> ring_config option" where
  "ring_config_of \<equiv> layout_read ring_config_fields ring_config_of_fields"

definition ring_config_wf :: "ring_config \<Rightarrow> bool" where
  "ring_config_wf c \<longleftrightarrow> length (rc_authority c) = 32 \<and> length (rc_program_id c) = 32"

definition rc_enabled :: "ring_config \<Rightarrow> bool" where
  "rc_enabled c = (ring_authority_transact_is_enabled c \<noteq> 0)"

definition rc_is_paused :: "ring_config \<Rightarrow> bool" where "rc_is_paused c = (rc_paused c \<noteq> 0)"
definition rc_is_activated :: "ring_config \<Rightarrow> bool" where "rc_is_activated c = (rc_activated c \<noteq> 0)"
definition rc_has_discriminator :: "ring_config \<Rightarrow> bool" where "rc_has_discriminator c = (rc_discriminator c = RING_CONFIG)"
definition rc_check_authority :: "ring_config \<Rightarrow> address \<Rightarrow> bool" where "rc_check_authority c a = (rc_authority c = a)"

interpretation ring_config:
  record_layout ring_config_fields ring_config_to_fields ring_config_of_fields ring_config_wf
  by unfold_locales
    (auto simp: ring_config_wf_def ring_config_fields_def ring_config_to_fields_def ring_config_of_fields_def field_list)


section \<open>SPL asset counter and registry\<close>

record spl_asset_counter =
  ac_discriminator :: byte
  ac_reserved :: bytes
  next_id :: nat

definition SPL_ASSET_COUNTER_SIZE :: nat where "SPL_ASSET_COUNTER_SIZE = 16"
definition FIRST_ASSET_ID :: nat where "FIRST_ASSET_ID = 2"

definition spl_asset_counter_fields :: "nat list" where "spl_asset_counter_fields = [1, 7, 8]"

definition spl_asset_counter_to_fields :: "spl_asset_counter \<Rightarrow> bytes list" where
  "spl_asset_counter_to_fields c = [[ac_discriminator c], ac_reserved c, to_le_bytes 8 (next_id c)]"

definition spl_asset_counter_of_fields :: "bytes list \<Rightarrow> spl_asset_counter" where
  "spl_asset_counter_of_fields fs =
     \<lparr>ac_discriminator = hd (fs ! 0), ac_reserved = fs ! 1, next_id = from_le_bytes (fs ! 2)\<rparr>"

definition spl_asset_counter_wf :: "spl_asset_counter \<Rightarrow> bool" where
  "spl_asset_counter_wf c \<longleftrightarrow> length (ac_reserved c) = 7 \<and> u64_ok (next_id c)"

definition ac_check_discriminator :: "spl_asset_counter \<Rightarrow> (interface_error, unit) result" where
  "ac_check_discriminator c = ensure (ac_discriminator c = SPL_ASSET_COUNTER) Interface_InvalidDiscriminator"

definition ac_init :: "spl_asset_counter \<Rightarrow> (interface_error, spl_asset_counter) result" where
  "ac_init c =
    (if ac_discriminator c \<noteq> 0 then Inl Interface_AlreadyInitialized
     else Inr (c\<lparr>ac_discriminator := SPL_ASSET_COUNTER, next_id := FIRST_ASSET_ID\<rparr>))"

definition allocate_id :: "spl_asset_counter \<Rightarrow> (interface_error, spl_asset_counter \<times> nat) result" where
  "allocate_id c =
    (let i = next_id c in
     if i < FIRST_ASSET_ID then Inl Interface_InvalidDiscriminator
     else rbind (ok_or (checked_add i 1) Interface_InvalidDiscriminator) (\<lambda>n. Inr (c\<lparr>next_id := n\<rparr>, i)))"

interpretation spl_asset_counter:
  record_layout spl_asset_counter_fields spl_asset_counter_to_fields spl_asset_counter_of_fields spl_asset_counter_wf
  by unfold_locales
    (auto simp: spl_asset_counter_wf_def spl_asset_counter_fields_def spl_asset_counter_to_fields_def
      spl_asset_counter_of_fields_def field_list)

record spl_asset_registry =
  ar_discriminator :: byte
  ar_reserved :: bytes
  ar_mint :: address
  ar_asset_id :: nat

definition SPL_ASSET_REGISTRY_SIZE :: nat where "SPL_ASSET_REGISTRY_SIZE = 48"

definition spl_asset_registry_fields :: "nat list" where "spl_asset_registry_fields = [1, 7, 32, 8]"

definition spl_asset_registry_to_fields :: "spl_asset_registry \<Rightarrow> bytes list" where
  "spl_asset_registry_to_fields r =
     [[ar_discriminator r], ar_reserved r, ar_mint r, to_le_bytes 8 (ar_asset_id r)]"

definition spl_asset_registry_of_fields :: "bytes list \<Rightarrow> spl_asset_registry" where
  "spl_asset_registry_of_fields fs = \<lparr>ar_discriminator = hd (fs ! 0), ar_reserved = fs ! 1,
     ar_mint = fs ! 2, ar_asset_id = from_le_bytes (fs ! 3)\<rparr>"

definition spl_asset_registry_wf :: "spl_asset_registry \<Rightarrow> bool" where
  "spl_asset_registry_wf r \<longleftrightarrow> length (ar_reserved r) = 7 \<and> length (ar_mint r) = 32 \<and> u64_ok (ar_asset_id r)"

abbreviation spl_asset_registry_of :: "bytes \<Rightarrow> spl_asset_registry option" where
  "spl_asset_registry_of \<equiv> layout_read spl_asset_registry_fields spl_asset_registry_of_fields"

definition ar_check_discriminator :: "spl_asset_registry \<Rightarrow> (interface_error, unit) result" where
  "ar_check_discriminator r = ensure (ar_discriminator r = SPL_ASSET_REGISTRY) Interface_InvalidDiscriminator"

definition ar_from_account_bytes :: "bytes \<Rightarrow> (interface_error, spl_asset_registry) result" where
  "ar_from_account_bytes bs =
    (if length bs \<noteq> SPL_ASSET_REGISTRY_SIZE then Inl Interface_InvalidAccountData
     else rbind (ok_or (spl_asset_registry_of bs) Interface_InvalidAccountData) (\<lambda>r.
       rbind (ar_check_discriminator r) (\<lambda>_. Inr r)))"

definition ar_set :: "address \<Rightarrow> nat \<Rightarrow> spl_asset_registry \<Rightarrow> spl_asset_registry" where
  "ar_set mint asset_id r = r\<lparr>ar_discriminator := SPL_ASSET_REGISTRY, ar_mint := mint, ar_asset_id := asset_id\<rparr>"

definition ar_zeroed :: spl_asset_registry where
  "ar_zeroed = \<lparr>ar_discriminator = 0, ar_reserved = replicate 7 0, ar_mint = zero32, ar_asset_id = 0\<rparr>"

definition ar_account_bytes :: "address \<Rightarrow> nat \<Rightarrow> bytes" where
  "ar_account_bytes mint asset_id = layout_bytes spl_asset_registry_to_fields (ar_set mint asset_id ar_zeroed)"

interpretation spl_asset_registry:
  record_layout spl_asset_registry_fields spl_asset_registry_to_fields spl_asset_registry_of_fields spl_asset_registry_wf
  by unfold_locales
    (auto simp: spl_asset_registry_wf_def spl_asset_registry_fields_def spl_asset_registry_to_fields_def
      spl_asset_registry_of_fields_def field_list)


section \<open>Nullifier PDAs\<close>

record nullifier_pda =
  np_queue_index :: nat
  np_tree_id :: nat

definition NULLIFIER_PDA_SIZE :: nat where "NULLIFIER_PDA_SIZE = 11"

definition np_is_closable :: "nullifier_pda \<Rightarrow> nat \<Rightarrow> bool" where
  "np_is_closable r watermark_index = (np_queue_index r < watermark_index)"

definition np_to_account_data :: "nullifier_pda \<Rightarrow> bytes" where
  "np_to_account_data r = [NULLIFIER_PDA] @ to_le_bytes 8 (np_queue_index r) @ to_le_bytes 2 (np_tree_id r)"

definition np_write_to :: "nullifier_pda \<Rightarrow> bytes \<Rightarrow> bytes option" where
  "np_write_to r bs = (if length bs = NULLIFIER_PDA_SIZE then Some (np_to_account_data r) else None)"

definition np_read_from :: "bytes \<Rightarrow> nullifier_pda option" where
  "np_read_from bs =
    (if length bs \<noteq> NULLIFIER_PDA_SIZE \<or> hd bs \<noteq> NULLIFIER_PDA then None
     else Some \<lparr>np_queue_index = from_le_bytes (take 8 (tl bs)), np_tree_id = from_le_bytes (drop 8 (tl bs))\<rparr>)"

lemma np_to_account_data_length [simp]: "length (np_to_account_data r) = NULLIFIER_PDA_SIZE"
  by (simp add: np_to_account_data_def NULLIFIER_PDA_SIZE_def)

lemma np_read_write:
  assumes "u64_ok (np_queue_index r)" "u16_ok (np_tree_id r)"
  shows "np_read_from (np_to_account_data r) = Some r"
  using assms by (simp add: np_read_from_def np_to_account_data_def NULLIFIER_PDA_SIZE_def)

lemma np_read_from_iff:
  "np_read_from bs = Some r \<longleftrightarrow>
     bs = np_to_account_data r \<and> u64_ok (np_queue_index r) \<and> u16_ok (np_tree_id r)"
proof
  assume r: "np_read_from bs = Some r"
  then have len: "length bs = 11" and hd: "hd bs = NULLIFIER_PDA"
    and eq: "r = \<lparr>np_queue_index = from_le_bytes (take 8 (tl bs)), np_tree_id = from_le_bytes (drop 8 (tl bs))\<rparr>"
    by (auto simp: np_read_from_def NULLIFIER_PDA_SIZE_def split: if_splits)
  obtain rest where bs: "bs = NULLIFIER_PDA # rest" using len hd by (cases bs) auto
  have parts: "length (take 8 rest) = 8" "length (drop 8 rest) = 2" using len bs by simp_all
  have "to_le_bytes 8 (from_le_bytes (take 8 rest)) @ to_le_bytes 2 (from_le_bytes (drop 8 rest)) = rest"
    by (simp only: le_field[OF parts(1)] le_field[OF parts(2)] append_take_drop_id)
  then show "bs = np_to_account_data r \<and> u64_ok (np_queue_index r) \<and> u16_ok (np_tree_id r)"
    using le_u64(1)[OF parts(1)] le_u16(1)[OF parts(2)] by (simp add: eq bs np_to_account_data_def)
qed (auto simp: np_read_write)


end
