(* ===== verification/Instruction_Data.thy ===== *)
theory Instruction_Data
  imports Interface_State
begin

text \<open>
  Instruction payloads of the administrative and forester instructions,
  \<open>program-libs/interface/src/instruction/instruction_data\<close>, with the Borsh
  encoding they derive, and the dispatch tags of
  \<open>program-libs/event/src/tag.rs\<close>.  A reader consumes a prefix of its input;
  \<open>try_from_slice\<close> accepts only when nothing is left over.
\<close>

type_synonym 'a reader = "bytes \<Rightarrow> ('a \<times> bytes) option"

definition read_bytes :: "nat \<Rightarrow> bytes reader" where
  "read_bytes n bs = (if n \<le> length bs then Some (take n bs, drop n bs) else None)"

definition read_then :: "'a reader \<Rightarrow> ('a \<Rightarrow> 'b reader) \<Rightarrow> 'b reader" where
  "read_then r f bs = (case r bs of None \<Rightarrow> None | Some (x, rest) \<Rightarrow> f x rest)"

definition read_return :: "'a \<Rightarrow> 'a reader" where
  "read_return x bs = Some (x, bs)"

definition read_fail :: "'a reader" where
  "read_fail bs = None"

definition read_uint :: "nat \<Rightarrow> nat reader" where
  "read_uint n = read_then (read_bytes n) (\<lambda>x. read_return (from_le_bytes x))"

definition read_bool :: "bool reader" where
  "read_bool = read_then (read_bytes 1) (\<lambda>x.
    if hd x = 0 then read_return False else if hd x = 1 then read_return True else read_fail)"

definition try_from_slice :: "'a reader \<Rightarrow> bytes \<Rightarrow> 'a option" where
  "try_from_slice r bs = (case r bs of Some (x, []) \<Rightarrow> Some x | _ \<Rightarrow> None)"

definition bool_byte :: "bool \<Rightarrow> byte" where
  "bool_byte b = (if b then 1 else 0)"

text \<open>The law each reader below has against its writer.\<close>

definition reads :: "'a reader \<Rightarrow> bytes \<Rightarrow> 'a \<Rightarrow> bool" where
  "reads r bs x \<longleftrightarrow> (\<forall>rest. r (bs @ rest) = Some (x, rest))"

lemma reads_return: "reads (read_return x) [] x"
  by (simp add: reads_def read_return_def)

lemma reads_then: "reads r xs x \<Longrightarrow> reads (f x) ys y \<Longrightarrow> reads (read_then r f) (xs @ ys) y"
  by (simp add: reads_def read_then_def)

lemma reads_last: "reads r xs x \<Longrightarrow> f x = read_return y \<Longrightarrow> reads (read_then r f) xs y"
  by (simp add: reads_def read_then_def read_return_def)

lemma reads_bytes: "length bs = n \<Longrightarrow> reads (read_bytes n) bs bs"
  by (auto simp: reads_def read_bytes_def)

lemma reads_uint: "v < 256 ^ n \<Longrightarrow> reads (read_uint n) (to_le_bytes n v) v"
  unfolding read_uint_def by (rule reads_last[OF reads_bytes]) (simp_all add: from_to_le_bytes)

lemma reads_tag: "reads (f (unat b)) ys y \<Longrightarrow> reads (read_then (read_uint (Suc 0)) f) (b # ys) y"
  by (simp add: reads_def read_then_def read_uint_def read_bytes_def read_return_def)

lemma reads_bool: "reads read_bool [bool_byte b] b"
  by (simp add: reads_def read_bool_def read_then_def read_bytes_def read_return_def bool_byte_def)

lemma try_from_slice_reads: "reads r bs x \<Longrightarrow> try_from_slice r bs = Some x"
  unfolding reads_def try_from_slice_def by (metis append_Nil2 list.simps(4) option.simps(5) prod.case)


section \<open>Payloads\<close>

record create_protocol_config_data =
  cpc_protocol_authority :: address
  cpc_tree_creation_authority :: address
  cpc_tree_creation_is_permissionless :: byte
  cpc_forester_authority :: address
  cpc_ring_creation_authority :: address
  cpc_ring_activation_is_permissionless :: byte
  cpc_spl_interface_creation_is_permissionless :: byte
  cpc_fee_authority :: address

definition create_protocol_config_fields :: "nat list" where
  "create_protocol_config_fields = [32, 32, 1, 32, 32, 1, 1, 32]"

definition create_protocol_config_to_fields :: "create_protocol_config_data \<Rightarrow> bytes list" where
  "create_protocol_config_to_fields d =
    [cpc_protocol_authority d, cpc_tree_creation_authority d, [cpc_tree_creation_is_permissionless d],
     cpc_forester_authority d, cpc_ring_creation_authority d, [cpc_ring_activation_is_permissionless d],
     [cpc_spl_interface_creation_is_permissionless d], cpc_fee_authority d]"

definition create_protocol_config_of_fields :: "bytes list \<Rightarrow> create_protocol_config_data" where
  "create_protocol_config_of_fields fs = \<lparr>cpc_protocol_authority = fs ! 0, cpc_tree_creation_authority = fs ! 1,
     cpc_tree_creation_is_permissionless = hd (fs ! 2), cpc_forester_authority = fs ! 3,
     cpc_ring_creation_authority = fs ! 4, cpc_ring_activation_is_permissionless = hd (fs ! 5),
     cpc_spl_interface_creation_is_permissionless = hd (fs ! 6), cpc_fee_authority = fs ! 7\<rparr>"

definition create_protocol_config_wf :: "create_protocol_config_data \<Rightarrow> bool" where
  "create_protocol_config_wf d \<longleftrightarrow>
     length (cpc_protocol_authority d) = 32 \<and> length (cpc_tree_creation_authority d) = 32 \<and>
     length (cpc_forester_authority d) = 32 \<and> length (cpc_ring_creation_authority d) = 32 \<and>
     length (cpc_fee_authority d) = 32"

interpretation create_protocol_config_data:
  record_layout create_protocol_config_fields create_protocol_config_to_fields
    create_protocol_config_of_fields create_protocol_config_wf
  by unfold_locales
    (auto simp: create_protocol_config_wf_def create_protocol_config_fields_def
      create_protocol_config_to_fields_def create_protocol_config_of_fields_def field_list)

datatype update_protocol_config_data =
    ProtocolAuthority address | TreeCreationAuthority address | ForesterAuthority address
  | RingCreationAuthority address | TreeCreationPermissionless bool | RingActivationPermissionless bool
  | SplInterfaceCreationPermissionless bool | FeeAuthority address

definition read_update_protocol_config :: "update_protocol_config_data reader" where
  "read_update_protocol_config = read_then (read_uint 1) (\<lambda>t.
    if t = 0 then read_then (read_bytes 32) (\<lambda>a. read_return (ProtocolAuthority a))
    else if t = 1 then read_then (read_bytes 32) (\<lambda>a. read_return (TreeCreationAuthority a))
    else if t = 2 then read_then (read_bytes 32) (\<lambda>a. read_return (ForesterAuthority a))
    else if t = 3 then read_then (read_bytes 32) (\<lambda>a. read_return (RingCreationAuthority a))
    else if t = 4 then read_then read_bool (\<lambda>b. read_return (TreeCreationPermissionless b))
    else if t = 5 then read_then read_bool (\<lambda>b. read_return (RingActivationPermissionless b))
    else if t = 6 then read_then read_bool (\<lambda>b. read_return (SplInterfaceCreationPermissionless b))
    else if t = 7 then read_then (read_bytes 32) (\<lambda>a. read_return (FeeAuthority a))
    else read_fail)"

primrec write_update_protocol_config :: "update_protocol_config_data \<Rightarrow> bytes" where
  "write_update_protocol_config (ProtocolAuthority a) = to_le_bytes 1 0 @ a"
| "write_update_protocol_config (TreeCreationAuthority a) = to_le_bytes 1 1 @ a"
| "write_update_protocol_config (ForesterAuthority a) = to_le_bytes 1 2 @ a"
| "write_update_protocol_config (RingCreationAuthority a) = to_le_bytes 1 3 @ a"
| "write_update_protocol_config (TreeCreationPermissionless b) = to_le_bytes 1 4 @ [bool_byte b]"
| "write_update_protocol_config (RingActivationPermissionless b) = to_le_bytes 1 5 @ [bool_byte b]"
| "write_update_protocol_config (SplInterfaceCreationPermissionless b) = to_le_bytes 1 6 @ [bool_byte b]"
| "write_update_protocol_config (FeeAuthority a) = to_le_bytes 1 7 @ a"

primrec update_address_ok :: "update_protocol_config_data \<Rightarrow> bool" where
  "update_address_ok (ProtocolAuthority a) = (length a = 32)"
| "update_address_ok (TreeCreationAuthority a) = (length a = 32)"
| "update_address_ok (ForesterAuthority a) = (length a = 32)"
| "update_address_ok (RingCreationAuthority a) = (length a = 32)"
| "update_address_ok (TreeCreationPermissionless b) = True"
| "update_address_ok (RingActivationPermissionless b) = True"
| "update_address_ok (SplInterfaceCreationPermissionless b) = True"
| "update_address_ok (FeeAuthority a) = (length a = 32)"

record create_ring_config_data =
  crc_program_id :: address
  crc_authority :: address

definition read_create_ring_config :: "create_ring_config_data reader" where
  "read_create_ring_config = read_then (read_bytes 32) (\<lambda>p. read_then (read_bytes 32) (\<lambda>a.
    read_return \<lparr>crc_program_id = p, crc_authority = a\<rparr>))"

definition read_update_ring_config :: "bool reader" where
  "read_update_ring_config = read_bool"

record set_ring_activation_data =
  sra_activated :: byte
  sra_transact_is_enabled :: byte

definition set_ring_activation_of :: "bytes \<Rightarrow> set_ring_activation_data option" where
  "set_ring_activation_of bs =
    (if length bs = 2 then Some \<lparr>sra_activated = bs ! 0, sra_transact_is_enabled = bs ! 1\<rparr> else None)"

definition pause_tree_of :: "bytes \<Rightarrow> byte option" where
  "pause_tree_of bs = (if length bs = 1 then Some (hd bs) else None)"

definition read_tree_fee_schedule :: "tree_fee_schedule reader" where
  "read_tree_fee_schedule = read_then (read_uint 8) (\<lambda>f. read_then (read_uint 8) (\<lambda>a.
    read_then (read_uint 8) (\<lambda>c.
    read_return \<lparr>fee_per_tree = f, append_reimbursement = a, close_reimbursement = c\<rparr>)))"

definition read_nullifier_params :: "nullifier_tree_init_params reader" where
  "read_nullifier_params = read_then (read_uint 8) (\<lambda>b. read_then (read_uint 8) (\<lambda>z.
    read_then (read_uint 4) (\<lambda>h.
    read_return \<lparr>input_queue_batch_size = b, input_queue_zkp_batch_size = z, init_height = h\<rparr>)))"

record create_tree_data =
  ct_tree_id :: nat
  ct_nullifier_params :: nullifier_tree_init_params
  ct_fees :: tree_fee_schedule

definition read_create_tree :: "create_tree_data reader" where
  "read_create_tree = read_then (read_uint 2) (\<lambda>i. read_then read_nullifier_params (\<lambda>p.
    read_then read_tree_fee_schedule (\<lambda>f.
    read_return \<lparr>ct_tree_id = i, ct_nullifier_params = p, ct_fees = f\<rparr>)))"

definition write_tree_fee_schedule :: "tree_fee_schedule \<Rightarrow> bytes" where
  "write_tree_fee_schedule f =
    to_le_bytes 8 (fee_per_tree f) @ to_le_bytes 8 (append_reimbursement f) @ to_le_bytes 8 (close_reimbursement f)"

definition write_create_tree :: "create_tree_data \<Rightarrow> bytes" where
  "write_create_tree d =
    to_le_bytes 2 (ct_tree_id d)
    @ (to_le_bytes 8 (input_queue_batch_size (ct_nullifier_params d))
       @ to_le_bytes 8 (input_queue_zkp_batch_size (ct_nullifier_params d))
       @ to_le_bytes 4 (init_height (ct_nullifier_params d)))
    @ write_tree_fee_schedule (ct_fees d)"

definition read_batch_nullify_inputs :: "batch_nullify_inputs reader" where
  "read_batch_nullify_inputs = read_then (read_bytes 32) (\<lambda>n. read_then (read_bytes 32) (\<lambda>old.
    read_then (read_uint 2) (\<lambda>z. read_then (read_bytes 32) (\<lambda>a. read_then (read_bytes 128) (\<lambda>b.
    read_then (read_bytes 32) (\<lambda>c.
    read_return \<lparr>in_new_root = n, in_old_root = old, in_zkp_batch_index = z,
      in_proof = \<lparr>proof_a = a, proof_b = b, proof_c = c\<rparr>\<rparr>))))))"

definition write_batch_nullify_inputs :: "batch_nullify_inputs \<Rightarrow> bytes" where
  "write_batch_nullify_inputs d =
    in_new_root d @ in_old_root d @ to_le_bytes 2 (in_zkp_batch_index d)
    @ proof_a (in_proof d) @ proof_b (in_proof d) @ proof_c (in_proof d)"

definition batch_nullify_inputs_wf :: "batch_nullify_inputs \<Rightarrow> bool" where
  "batch_nullify_inputs_wf d \<longleftrightarrow> length (in_new_root d) = 32 \<and> length (in_old_root d) = 32 \<and>
     u16_ok (in_zkp_batch_index d) \<and> length (proof_a (in_proof d)) = 32 \<and>
     length (proof_b (in_proof d)) = 128 \<and> length (proof_c (in_proof d)) = 32"

definition create_tree_wf :: "create_tree_data \<Rightarrow> bool" where
  "create_tree_wf d \<longleftrightarrow> u16_ok (ct_tree_id d) \<and> u64_ok (input_queue_batch_size (ct_nullifier_params d)) \<and>
     u64_ok (input_queue_zkp_batch_size (ct_nullifier_params d)) \<and> init_height (ct_nullifier_params d) < 2 ^ 32 \<and>
     u64_ok (fee_per_tree (ct_fees d)) \<and> u64_ok (append_reimbursement (ct_fees d)) \<and>
     u64_ok (close_reimbursement (ct_fees d))"


section \<open>Dispatch tags (event/src/tag.rs)\<close>

datatype instruction_tag =
    CreateProtocolConfig | UpdateProtocolConfig | CreateTree | PauseTree | SetTreeFees | ClaimTreeLamports
  | CreateAssetCounter | CreateSplInterface | CreateRingConfig | UpdateRingConfig | UpdateRingConfigOwner
  | SetRingActivation | BatchUpdateNullifierTree | CloseNullifierPdas | EmitEvent | Deposit | Transact
  | MergeTransact | RingDeposit | RingTransact | RingMergeTransact | RingAuthorityTransact
  | CreateCache | CloseCache

primrec instruction_tag_byte :: "instruction_tag \<Rightarrow> nat" where
  "instruction_tag_byte CreateProtocolConfig = 0"
| "instruction_tag_byte UpdateProtocolConfig = 1"
| "instruction_tag_byte CreateTree = 2"
| "instruction_tag_byte PauseTree = 3"
| "instruction_tag_byte SetTreeFees = 4"
| "instruction_tag_byte ClaimTreeLamports = 5"
| "instruction_tag_byte CreateAssetCounter = 6"
| "instruction_tag_byte CreateSplInterface = 7"
| "instruction_tag_byte CreateRingConfig = 8"
| "instruction_tag_byte UpdateRingConfig = 9"
| "instruction_tag_byte UpdateRingConfigOwner = 10"
| "instruction_tag_byte SetRingActivation = 11"
| "instruction_tag_byte BatchUpdateNullifierTree = 12"
| "instruction_tag_byte CloseNullifierPdas = 13"
| "instruction_tag_byte EmitEvent = 14"
| "instruction_tag_byte Deposit = 15"
| "instruction_tag_byte Transact = 16"
| "instruction_tag_byte MergeTransact = 17"
| "instruction_tag_byte RingDeposit = 18"
| "instruction_tag_byte RingTransact = 19"
| "instruction_tag_byte RingMergeTransact = 20"
| "instruction_tag_byte RingAuthorityTransact = 21"
| "instruction_tag_byte CreateCache = 22"
| "instruction_tag_byte CloseCache = 23"

definition instruction_tag_of :: "nat \<Rightarrow> instruction_tag option" where
  "instruction_tag_of t =
    get [CreateProtocolConfig, UpdateProtocolConfig, CreateTree, PauseTree, SetTreeFees, ClaimTreeLamports,
      CreateAssetCounter, CreateSplInterface, CreateRingConfig, UpdateRingConfig, UpdateRingConfigOwner,
      SetRingActivation, BatchUpdateNullifierTree, CloseNullifierPdas, EmitEvent, Deposit, Transact,
      MergeTransact, RingDeposit, RingTransact, RingMergeTransact, RingAuthorityTransact,
      CreateCache, CloseCache] t"

definition encode_instruction :: "instruction_tag \<Rightarrow> bytes \<Rightarrow> bytes" where
  "encode_instruction t payload = of_nat (instruction_tag_byte t) # payload"

lemma instruction_tag_roundtrip: "instruction_tag_of (instruction_tag_byte t) = Some t"
  by (cases t) (simp_all add: instruction_tag_of_def get_def)

lemma instruction_tag_small: "instruction_tag_byte t < 256"
  by (cases t) simp_all


section \<open>Payloads decode to what was encoded\<close>

lemma reads_fees:
  "u64_ok (fee_per_tree f) \<Longrightarrow> u64_ok (append_reimbursement f) \<Longrightarrow> u64_ok (close_reimbursement f) \<Longrightarrow>
     reads read_tree_fee_schedule (write_tree_fee_schedule f) f"
  unfolding read_tree_fee_schedule_def write_tree_fee_schedule_def
  by (cases f) (auto intro!: reads_then[OF reads_uint] reads_last[OF reads_uint] simp: u64_limit_def)

lemma reads_nullifier_params:
  "u64_ok (input_queue_batch_size p) \<Longrightarrow> u64_ok (input_queue_zkp_batch_size p) \<Longrightarrow> init_height p < 2 ^ 32 \<Longrightarrow>
     reads read_nullifier_params (to_le_bytes 8 (input_queue_batch_size p)
       @ to_le_bytes 8 (input_queue_zkp_batch_size p) @ to_le_bytes 4 (init_height p)) p"
  unfolding read_nullifier_params_def
  by (cases p) (auto intro!: reads_then[OF reads_uint] reads_last[OF reads_uint] simp: u64_limit_def)

lemma reads_create_tree: "create_tree_wf d \<Longrightarrow> reads read_create_tree (write_create_tree d) d"
  unfolding read_create_tree_def write_create_tree_def create_tree_wf_def
  by (cases d)
    (auto intro!: reads_then[OF reads_uint] reads_then[OF reads_nullifier_params, simplified] reads_last[OF reads_fees]
      simp: u16_limit_def)

lemma reads_batch_nullify_inputs:
  "batch_nullify_inputs_wf d \<Longrightarrow> reads read_batch_nullify_inputs (write_batch_nullify_inputs d) d"
  unfolding read_batch_nullify_inputs_def write_batch_nullify_inputs_def batch_nullify_inputs_wf_def
  by (rule reads_then[OF reads_bytes reads_then[OF reads_bytes reads_then[OF reads_uint
        reads_then[OF reads_bytes reads_then[OF reads_bytes reads_last[OF reads_bytes]]]]]])
    (cases d; cases "in_proof d"; simp add: u16_limit_def)+

lemma reads_update_protocol_config:
  "update_address_ok u \<Longrightarrow> reads read_update_protocol_config (write_update_protocol_config u) u"
  unfolding read_update_protocol_config_def
  by (cases u) (auto intro!: reads_tag reads_last[OF reads_bytes] reads_last[OF reads_bool])


definition demo_create_tree :: create_tree_data where
  "demo_create_tree = \<lparr>ct_tree_id = 7, ct_nullifier_params = nullifier_tree_params, ct_fees = default_tree_fees\<rparr>"

definition demo_batch_update :: batch_nullify_inputs where
  "demo_batch_update = \<lparr>in_new_root = replicate 32 1, in_old_root = replicate 32 2, in_zkp_batch_index = 3,
     in_proof = \<lparr>proof_a = replicate 32 4, proof_b = replicate 128 5, proof_c = replicate 32 6\<rparr>\<rparr>"


end
