(* ===== verification/Shared.thy ===== *)
theory Shared
  imports Instruction_Data
begin

text \<open>
  What every handler of the program uses, \<open>programs/shielded-pool/src/instructions/shared.rs\<close>:
  loading typed accounts, deriving and creating program accounts, paying
  foresters, field-element checks and expiry; and the tree loaders of
  \<open>program-libs/tree/src/lib.rs\<close>.  Nothing a loader returns comes from an account
  the program does not own.
\<close>

definition bool_field :: "bool \<Rightarrow> bytes" where
  "bool_field v = (replicate 32 0)[31 := bool_byte v]"

definition check_field_element :: "bytes \<Rightarrow> shielded_pool_error \<Rightarrow> unit presult" where
  "check_field_element value e = (if is_canonical_bn254_scalar_be value then Inr () else Inl (pool_err e))"

fun check_field_elements :: "bytes list \<Rightarrow> shielded_pool_error \<Rightarrow> unit presult" where
  "check_field_elements [] e = Inr ()"
| "check_field_elements (v # vs) e = rbind (check_field_element v e) (\<lambda>_. check_field_elements vs e)"

definition check_nonzero_field_elements :: "bytes list \<Rightarrow> shielded_pool_error \<Rightarrow> unit presult" where
  "check_nonzero_field_elements vs e = (if \<exists>v \<in> set vs. v = zero32 then Inl (pool_err e) else Inr ())"

definition check_not_expired :: "nat \<Rightarrow> int \<Rightarrow> unit presult" where
  "check_not_expired expiry_unix_ts now =
    (if now < 0 \<or> expiry_unix_ts < nat now then Inl (pool_err ExpiredTransaction) else Inr ())"


section \<open>Typed accounts\<close>

text \<open>\<open>cast\<close> is the zero-copy cast of the record type, \<open>valid\<close> its discriminator test.\<close>

definition validate_config :: "(bytes \<Rightarrow> 'r option) \<Rightarrow> account_data \<Rightarrow> shielded_pool_error \<Rightarrow> ('r \<Rightarrow> bool) \<Rightarrow> 'r presult" where
  "validate_config cast d invalid valid =
    rbind (ok_or (case d of Bytes bs \<Rightarrow> cast bs | Tree_Data _ \<Rightarrow> None) (pool_err invalid)) (\<lambda>c.
      rbind (ensure (valid c) (pool_err invalid)) (\<lambda>_. Inr c))"

definition load_config :: "runtime \<Rightarrow> (bytes \<Rightarrow> 'r option) \<Rightarrow> shielded_pool_error \<Rightarrow> ('r \<Rightarrow> bool)
    \<Rightarrow> ledger \<Rightarrow> account_view \<Rightarrow> 'r presult" where
  "load_config R cast invalid valid L v =
    (if \<not> owned_by L v (rt_program_id R) then Inl (pool_err invalid)
     else validate_config cast (acc_data (L (address_of v))) invalid valid)"

definition load_config_mut :: "runtime \<Rightarrow> (bytes \<Rightarrow> 'r option) \<Rightarrow> shielded_pool_error \<Rightarrow> ('r \<Rightarrow> bool)
    \<Rightarrow> ledger \<Rightarrow> account_view \<Rightarrow> 'r presult" where
  "load_config_mut R cast invalid valid L v =
    (if \<not> is_writable v \<or> \<not> owned_by L v (rt_program_id R) then Inl (pool_err invalid)
     else validate_config cast (acc_data (L (address_of v))) invalid valid)"

text \<open>Tree accounts: \<open>load_checked\<close> and its two public forms.\<close>

definition load_checked :: "runtime \<Rightarrow> ledger \<Rightarrow> account_view \<Rightarrow> address \<Rightarrow> nat \<Rightarrow> (tree_error, tree_layout) result" where
  "load_checked R L v pid disc =
    (if \<not> is_writable v then Inl NotWritable
     else if \<not> owned_by L v pid then Inl InvalidOwner
     else if data_prefix 1 (acc_data (L (address_of v))) \<noteq> Some [of_nat disc] then Inl tree_error.InvalidDiscriminator
     else rbind (ok_or (tree_of_data R (acc_data (L (address_of v)))) Deserialize) (\<lambda>l.
       rbind (check_layout l) (\<lambda>_. Inr l)))"

definition from_account_view_mut :: "runtime \<Rightarrow> ledger \<Rightarrow> account_view \<Rightarrow> address \<Rightarrow> nat \<Rightarrow> (tree_error, tree_layout) result" where
  "from_account_view_mut R L v pid disc =
    rbind (load_checked R L v pid disc) (\<lambda>l. if is_paused l then Inl Paused else Inr l)"

definition from_account_view_mut_allow_paused :: "runtime \<Rightarrow> ledger \<Rightarrow> account_view \<Rightarrow> address \<Rightarrow> nat
    \<Rightarrow> (tree_error, tree_layout) result" where
  "from_account_view_mut_allow_paused R L v pid disc = load_checked R L v pid disc"

abbreviation load_tree :: "runtime \<Rightarrow> ledger \<Rightarrow> account_view \<Rightarrow> (tree_error, tree_layout) result" where
  "load_tree R L v \<equiv> from_account_view_mut R L v (rt_program_id R) TREE_ACCOUNT_DISCRIMINATOR"

abbreviation load_tree_allow_paused :: "runtime \<Rightarrow> ledger \<Rightarrow> account_view \<Rightarrow> (tree_error, tree_layout) result" where
  "load_tree_allow_paused R L v \<equiv> from_account_view_mut_allow_paused R L v (rt_program_id R) TREE_ACCOUNT_DISCRIMINATOR"


section \<open>Program-derived accounts\<close>

definition verify_pda :: "runtime \<Rightarrow> address \<Rightarrow> bytes list \<Rightarrow> address \<Rightarrow> nat presult" where
  "verify_pda R key seeds pid =
    rbind (ok_or (derive_program_address R seeds pid) (pool_err InvalidPda)) (\<lambda>(derived, bump).
      if key \<noteq> derived then Inl (pool_err InvalidPda) else Inr bump)"

definition create_pda_account :: "runtime \<Rightarrow> address \<Rightarrow> address \<Rightarrow> nat \<Rightarrow> address \<Rightarrow> bytes list \<Rightarrow> nat
    \<Rightarrow> ledger \<Rightarrow> ledger presult" where
  "create_pda_account R fee_payer new_account space owner seeds bump L =
    (if length seeds \<in> {1, 2, 3}
     then system_cpi R (Create_With_Minimum_Balance new_account space owner fee_payer (Some (seeds @ [[of_nat bump]]))) L
     else Inl Program_InvalidArgument)"


section \<open>Paying out of a tree\<close>

definition check_reimbursement_recipient :: "runtime \<Rightarrow> ledger \<Rightarrow> account_view \<Rightarrow> unit presult" where
  "check_reimbursement_recipient R L recipient =
    (if owned_by L recipient (rt_program_id R) then Inl (pool_err InvalidReimbursementRecipient) else Inr ())"

definition pay_reimbursement_with_rent_minimum :: "address \<Rightarrow> address \<Rightarrow> nat \<Rightarrow> nat \<Rightarrow> ledger \<Rightarrow> ledger presult" where
  "pay_reimbursement_with_rent_minimum tree recipient paid rent_minimum L =
    rbind (ok_or (Option.bind (checked_sub (lamports L tree) paid) (\<lambda>r. if rent_minimum \<le> r then Some r else None))
             (pool_err InsufficientForesterFeeBalance)) (\<lambda>left.
    rbind (ok_or (checked_add (lamports L recipient) paid) (pool_err InvalidForesterFee)) (\<lambda>balance.
      Inr (set_lamports recipient balance (set_lamports tree left L))))"

definition pay_reimbursement :: "runtime \<Rightarrow> address \<Rightarrow> address \<Rightarrow> nat \<Rightarrow> ledger \<Rightarrow> ledger presult" where
  "pay_reimbursement R tree recipient paid L =
    (if paid = 0 then Inr L
     else rbind (minimum_balance R (data_len (acc_data (L tree)))) (\<lambda>rent_minimum.
       pay_reimbursement_with_rent_minimum tree recipient paid rent_minimum L))"


section \<open>Laws\<close>

lemma validate_config_eq_Inr [account_simps]:
  "validate_config cast d invalid valid = Inr c \<longleftrightarrow> (\<exists>bs. d = Bytes bs \<and> cast bs = Some c \<and> valid c)"
  by (auto simp: validate_config_def result_simps split: account_data.splits)

lemma load_config_eq_Inr [account_simps]:
  "load_config R cast invalid valid L v = Inr c \<longleftrightarrow>
     owned_by L v (rt_program_id R) \<and> (\<exists>bs. acc_data (L (address_of v)) = Bytes bs \<and> cast bs = Some c \<and> valid c)"
  by (auto simp: load_config_def account_simps)

lemma load_config_mut_eq_Inr [account_simps]:
  "load_config_mut R cast invalid valid L v = Inr c \<longleftrightarrow>
     is_writable v \<and> owned_by L v (rt_program_id R)
     \<and> (\<exists>bs. acc_data (L (address_of v)) = Bytes bs \<and> cast bs = Some c \<and> valid c)"
  by (auto simp: load_config_mut_def account_simps)

lemma load_checked_eq_Inr [account_simps]:
  "load_checked R L v pid disc = Inr l \<longleftrightarrow>
     is_writable v \<and> owned_by L v pid \<and> data_prefix 1 (acc_data (L (address_of v))) = Some [of_nat disc]
     \<and> tree_of_data R (acc_data (L (address_of v))) = Some l \<and> check_layout l = Inr ()"
  by (auto simp: load_checked_def result_simps)

lemma from_account_view_mut_eq_Inr [account_simps]:
  "from_account_view_mut R L v pid disc = Inr l \<longleftrightarrow> load_checked R L v pid disc = Inr l \<and> \<not> is_paused l"
  by (auto simp: from_account_view_mut_def result_simps split: if_splits)

lemma from_account_view_mut_allow_paused_eq [account_simps]:
  "from_account_view_mut_allow_paused R L v pid disc = load_checked R L v pid disc"
  by (simp add: from_account_view_mut_allow_paused_def)

lemma verify_pda_eq_Inr [account_simps]:
  "verify_pda R key seeds pid = Inr bump \<longleftrightarrow> derive_program_address R seeds pid = Some (key, bump)"
  by (auto simp: verify_pda_def result_simps split: if_splits)

lemma check_reimbursement_recipient_eq_Inr [account_simps]:
  "check_reimbursement_recipient R L v = Inr u \<longleftrightarrow> \<not> owned_by L v (rt_program_id R)"
  by (simp add: check_reimbursement_recipient_def)

text \<open>A payout leaves the floor in the tree and moves exactly what was paid.\<close>

lemma pay_reimbursement_with_rent_minimum_eq_Inr [account_simps]:
  "pay_reimbursement_with_rent_minimum tree recipient paid floor L = Inr L' \<longleftrightarrow>
     paid + floor \<le> lamports L tree \<and> u64_ok (lamports L recipient + paid)
     \<and> L' = set_lamports recipient (lamports L recipient + paid) (set_lamports tree (lamports L tree - paid) L)"
  by (auto simp: pay_reimbursement_with_rent_minimum_def result_simps checked_sub_def checked_add_def
      bind_eq_Some_conv split: if_splits)

lemma pay_moves_lamports:
  assumes "pay_reimbursement_with_rent_minimum tree recipient paid floor L = Inr L'" "tree \<noteq> recipient"
  shows "lamports L' tree = lamports L tree - paid" "lamports L' recipient = lamports L recipient + paid"
    "paid \<le> lamports L tree" "floor \<le> lamports L' tree" "a \<noteq> tree \<Longrightarrow> a \<noteq> recipient \<Longrightarrow> L' a = L a"
    "acc_data (L' a) = acc_data (L a)" "acc_owner (L' a) = acc_owner (L a)"
  using assms by (auto simp: account_simps) (auto simp: set_lamports_def)

lemma pay_total:
  assumes "pay_reimbursement_with_rent_minimum tree recipient paid floor L = Inr L'" "tree \<noteq> recipient"
    "finite A" "tree \<in> A" "recipient \<in> A"
  shows "total_lamports A L' = total_lamports A L"
  using pay_moves_lamports[OF assms(1,2)]
  by (intro total_lamports_move[OF assms(3-5,2)]) (auto simp: lamports_def)

lemma pay_reimbursement_cases:
  assumes "pay_reimbursement R tree recipient paid L = Inr L'"
  shows "paid = 0 \<and> L' = L \<or> (\<exists>floor. minimum_balance R (data_len (acc_data (L tree))) = Inr floor
    \<and> pay_reimbursement_with_rent_minimum tree recipient paid floor L = Inr L')"
  using assms by (auto simp: pay_reimbursement_def result_simps split: if_splits)

lemma check_field_elements_eq_Inr [account_simps]:
  "check_field_elements vs e = Inr u \<longleftrightarrow> (\<forall>v \<in> set vs. is_canonical_bn254_scalar_be v)"
  by (induction vs e rule: check_field_elements.induct) (auto simp: check_field_element_def result_simps split: if_splits)

end
