(* ===== verification/System_Program.thy ===== *)
theory System_Program
  imports Shared
begin

text \<open>
  What the handlers rely on of the system program, and a concrete runtime that
  has these properties.  \<open>system_ok\<close> states, per instruction, what its success
  means for the ledger; a failed call aborts the handler, so nothing is assumed
  of it.  \<open>demo_runtime\<close> instantiates every service and is used to exhibit
  states in which the hypotheses of the theorems hold.
\<close>

definition move_lamports :: "address \<Rightarrow> address \<Rightarrow> nat \<Rightarrow> ledger \<Rightarrow> ledger" where
  "move_lamports f t n L =
    (let L1 = set_lamports f (lamports L f - n) L in set_lamports t (lamports L1 t + n) L1)"

definition install :: "address \<Rightarrow> address \<Rightarrow> account_data \<Rightarrow> ledger \<Rightarrow> ledger" where
  "install a owner d L = L(a := (L a)\<lparr>acc_owner := owner, acc_data := d\<rparr>)"

definition unused_account :: "ledger \<Rightarrow> address \<Rightarrow> bool" where
  "unused_account L a \<longleftrightarrow> acc_owner (L a) = system_program_id \<and> acc_data (L a) = Bytes []"

definition system_ok :: "runtime \<Rightarrow> bool" where
  "system_ok R \<longleftrightarrow>
     (\<forall>f t n L L'. system_cpi R (Transfer f t n) L = Inr L' \<longrightarrow>
        n \<le> lamports L f \<and> L' = move_lamports f t n L) \<and>
     (\<forall>f t n s L L'. system_cpi R (Transfer_Signed f t n s) L = Inr L' \<longrightarrow>
        n \<le> lamports L f \<and> L' = move_lamports f t n L) \<and>
     (\<forall>a owner s L L'. system_cpi R (Assign a owner s) L = Inr L' \<longrightarrow>
        acc_owner (L a) = system_program_id \<and> L' = L(a := (L a)\<lparr>acc_owner := owner\<rparr>)) \<and>
     (\<forall>a n s L L'. system_cpi R (Allocate a n s) L = Inr L' \<longrightarrow>
        unused_account L a \<and> L' = set_data a (Bytes (replicate n 0)) L) \<and>
     (\<forall>f t n space owner s L L'. system_cpi R (Create_Account f t n space owner s) L = Inr L' \<longrightarrow>
        unused_account L t \<and> lamports L t = 0 \<and> n \<le> lamports L f
        \<and> L' = install t owner (Bytes (replicate space 0)) (move_lamports f t n L)) \<and>
     (\<forall>a space owner p s L L'. system_cpi R (Create_With_Minimum_Balance a space owner p s) L = Inr L' \<longrightarrow>
        unused_account L a \<and> (\<exists>n. n \<le> lamports L p
        \<and> L' = install a owner (Bytes (replicate space 0)) (move_lamports p a n L)))"

lemma move_lamports_sel [simp]:
  "acc_owner (move_lamports f t n L a) = acc_owner (L a)" "acc_data (move_lamports f t n L a) = acc_data (L a)"
  by (simp_all add: move_lamports_def Let_def)

lemma lamports_move_lamports:
  assumes "n \<le> lamports L f"
  shows "lamports (move_lamports f t n L) a =
    (if f = t then lamports L a else if a = f then lamports L f - n else if a = t then lamports L t + n else lamports L a)"
  using assms by (auto simp: move_lamports_def Let_def)

lemma install_sel [simp]:
  "acc_owner (install a owner d L b) = (if b = a then owner else acc_owner (L b))"
  "acc_data (install a owner d L b) = (if b = a then d else acc_data (L b))"
  "lamports (install a owner d L) b = lamports L b"
  by (simp_all add: install_def lamports_def)

lemma total_move_lamports:
  assumes "finite A" "f \<in> A" "t \<in> A" "n \<le> lamports L f"
  shows "total_lamports A (move_lamports f t n L) = total_lamports A L"
proof (cases "f = t")
  case True
  then show ?thesis using assms(4) by (intro total_lamports_cong) (simp add: lamports_move_lamports)
next
  case False
  then show ?thesis
    using assms by (intro total_lamports_move[OF assms(1-3) False assms(4)]) (simp_all add: lamports_move_lamports)
qed

lemma total_install [simp]: "total_lamports A (install a owner d L) = total_lamports A L"
  by (simp add: total_lamports_def)

lemma system_transfer:
  "system_ok R \<Longrightarrow> system_cpi R (Transfer f t n) L = Inr L' \<Longrightarrow> n \<le> lamports L f \<and> L' = move_lamports f t n L"
  by (simp add: system_ok_def)

lemma system_transfer_signed:
  "system_ok R \<Longrightarrow> system_cpi R (Transfer_Signed f t n s) L = Inr L' \<Longrightarrow> n \<le> lamports L f \<and> L' = move_lamports f t n L"
  by (simp add: system_ok_def)

lemma system_assign:
  "system_ok R \<Longrightarrow> system_cpi R (Assign a owner s) L = Inr L' \<Longrightarrow>
     acc_owner (L a) = system_program_id \<and> L' = L(a := (L a)\<lparr>acc_owner := owner\<rparr>)"
  by (simp add: system_ok_def)

lemma system_allocate:
  "system_ok R \<Longrightarrow> system_cpi R (Allocate a n s) L = Inr L' \<Longrightarrow>
     unused_account L a \<and> L' = set_data a (Bytes (replicate n 0)) L"
  by (simp add: system_ok_def)

lemma system_create_account:
  "system_ok R \<Longrightarrow> system_cpi R (Create_Account f t n space owner s) L = Inr L' \<Longrightarrow>
     unused_account L t \<and> lamports L t = 0 \<and> n \<le> lamports L f
     \<and> L' = install t owner (Bytes (replicate space 0)) (move_lamports f t n L)"
  by (simp add: system_ok_def)

lemma system_create_with_minimum_balance:
  "system_ok R \<Longrightarrow> system_cpi R (Create_With_Minimum_Balance a space owner p s) L = Inr L' \<Longrightarrow>
     unused_account L a \<and> (\<exists>n. n \<le> lamports L p
     \<and> L' = install a owner (Bytes (replicate space 0)) (move_lamports p a n L))"
  by (simp add: system_ok_def)

lemma create_pda_account_success:
  assumes "system_ok R" "create_pda_account R payer a space owner seeds bump L = Inr L'"
  shows "unused_account L a \<and> (\<exists>n. n \<le> lamports L payer
    \<and> L' = install a owner (Bytes (replicate space 0)) (move_lamports payer a n L))"
  using assms(2) system_create_with_minimum_balance[OF assms(1)]
  by (auto simp: create_pda_account_def split: if_splits)


section \<open>A concrete runtime\<close>

text \<open>Rent is a flat thousand lamports plus ten per byte; addresses are derived from the first seed.\<close>

definition demo_rent :: "nat \<Rightarrow> nat" where
  "demo_rent n = 1000 + 10 * n"

fun demo_system :: "system_instruction \<Rightarrow> ledger \<Rightarrow> ledger presult" where
  "demo_system (Transfer f t n) L =
    (if n \<le> lamports L f then Inr (move_lamports f t n L) else Inl (Cpi_failed 1))"
| "demo_system (Transfer_Signed f t n s) L =
    (if n \<le> lamports L f then Inr (move_lamports f t n L) else Inl (Cpi_failed 1))"
| "demo_system (Assign a owner s) L =
    (if acc_owner (L a) = system_program_id then Inr (L(a := (L a)\<lparr>acc_owner := owner\<rparr>)) else Inl (Cpi_failed 0))"
| "demo_system (Allocate a n s) L =
    (if unused_account L a then Inr (set_data a (Bytes (replicate n 0)) L) else Inl (Cpi_failed 0))"
| "demo_system (Create_Account f t n space owner s) L =
    (if unused_account L t \<and> lamports L t = 0 \<and> n \<le> lamports L f
     then Inr (install t owner (Bytes (replicate space 0)) (move_lamports f t n L)) else Inl (Cpi_failed 0))"
| "demo_system (Create_With_Minimum_Balance a space owner p s) L =
    (let n = demo_rent space - lamports L a in
     if unused_account L a \<and> n \<le> lamports L p
     then Inr (install a owner (Bytes (replicate space 0)) (move_lamports p a n L)) else Inl (Cpi_failed 0))"

definition demo_address :: "nat \<Rightarrow> address" where
  "demo_address n = replicate 31 0 @ [of_nat n]"

definition demo_pda :: "bytes list \<Rightarrow> address \<Rightarrow> (address \<times> nat) option" where
  "demo_pda seeds pid = Some (take 32 (concat seeds @ replicate 32 7), 255)"

definition demo_loader :: "account_data \<Rightarrow> loader_state option" where
  "demo_loader d =
    (if d = Bytes [1] then Some (Loader_Program (demo_address 103))
     else if d = Bytes [2] then Some (Loader_Program_Data (Some (demo_address 9))) else None)"

definition demo_runtime :: runtime where
  "demo_runtime = \<lparr>rt_program_id = demo_address 100, derive_program_address = demo_pda,
     minimum_balance = (\<lambda>n. Inr (demo_rent n)), unix_timestamp = 1000, clock_slot = 50,
     system_cpi = demo_system, tree_decode = demo_decode, decode_loader_state = demo_loader,
     bpf_loader_upgradeable_id = demo_address 101\<rparr>"

lemma system_ok_demo: "system_ok demo_runtime"
  by (auto simp: system_ok_def demo_runtime_def Let_def split: if_splits)

definition user_view :: "nat \<Rightarrow> account_view" where
  "user_view n = \<lparr>address_of = demo_address n, is_signer = True, is_writable = True, is_executable = False\<rparr>"

lemma user_view_sel [simp]:
  "address_of (user_view n) = demo_address n" "is_signer (user_view n)" "is_writable (user_view n)"
  by (simp_all add: user_view_def)

definition demo_config :: protocol_config where
  "demo_config = \<lparr>pc_discriminator = PROTOCOL_CONFIG, protocol_authority = demo_address 1,
     tree_creation_authority = demo_address 2, forester_authority = demo_address 3,
     ring_creation_authority = demo_address 4, fee_authority = demo_address 5,
     tree_creation_is_permissionless = 0, ring_activation_is_permissionless = 0,
     spl_interface_creation_is_permissionless = 0, next_tree_id = 7\<rparr>"

lemma demo_config_sel [simp]:
  "pc_discriminator demo_config = PROTOCOL_CONFIG" "protocol_authority demo_config = demo_address 1"
  "tree_creation_authority demo_config = demo_address 2" "forester_authority demo_config = demo_address 3"
  "ring_creation_authority demo_config = demo_address 4" "fee_authority demo_config = demo_address 5"
  "next_tree_id demo_config = 7"
  by (simp_all add: demo_config_def)

text \<open>
  Account 10 holds the protocol config, account 11 a live tree, accounts 100 and
  103 are the deployed program and its upgrade record; every other address is a
  funded system account.
\<close>

definition demo_ledger :: "tree_layout \<Rightarrow> nat \<Rightarrow> ledger" where
  "demo_ledger l n = (\<lambda>a.
    if a = demo_address 10
    then \<lparr>acc_owner = demo_address 100, acc_lamports = 5000, acc_data = Bytes (protocol_config_bytes demo_config)\<rparr>
    else if a = demo_address 11
    then \<lparr>acc_owner = demo_address 100, acc_lamports = n, acc_data = Tree_Data l\<rparr>
    else if a = demo_address 100
    then \<lparr>acc_owner = demo_address 101, acc_lamports = 1, acc_data = Bytes [1]\<rparr>
    else if a = demo_address 103
    then \<lparr>acc_owner = demo_address 101, acc_lamports = 1, acc_data = Bytes [2]\<rparr>
    else \<lparr>acc_owner = system_program_id, acc_lamports = 1000000, acc_data = Bytes []\<rparr>)"

lemma demo_address_inj: "m < 256 \<Longrightarrow> n < 256 \<Longrightarrow> demo_address m = demo_address n \<longleftrightarrow> m = n"
proof -
  assume "m < 256" "n < 256"
  then have "unat (of_nat m :: byte) = m" "unat (of_nat n :: byte) = n" by (simp_all add: unat_of_nat)
  then show ?thesis by (simp add: demo_address_def word_unat_eq_iff)
qed

lemma length_demo_address [simp]: "length (demo_address n) = 32"
  by (simp add: demo_address_def)

lemma demo_config_wf: "protocol_config_wf demo_config"
  by (simp add: protocol_config_wf_def u16_limit_def)

lemma demo_system_id: "0 < n \<Longrightarrow> n < 256 \<Longrightarrow> demo_address n \<noteq> system_program_id"
proof -
  assume "0 < n" "n < 256"
  then have "unat (of_nat n :: byte) = n" by (simp add: unat_of_nat)
  then have "(of_nat n :: byte) \<noteq> 0" using \<open>0 < n\<close> by (metis unat_0 less_irrefl)
  moreover have "replicate 32 0 = replicate 31 0 @ [0 :: byte]"
    using replicate_append_same[of 31 "0 :: byte"] by (simp add: numeral_eq_Suc)
  ultimately show ?thesis by (simp add: demo_address_def system_program_id_def zero32_def)
qed

end
