(* ===== verification/Protocol_Config.thy ===== *)
theory Protocol_Config
  imports System_Program
begin

text \<open>
  The protocol config, \<open>programs/shielded-pool/src/instructions/protocol_config\<close>:
  the loaders every gated handler goes through, its one-time creation under the
  deploy upgrade authority, updates and tree pausing.  The lemmas characterise
  each handler's success completely: who signed, what changed, and that nothing
  else did.
\<close>

abbreviation acct :: "(account_error, 'a) result \<Rightarrow> 'a presult" where
  "acct m \<equiv> map_err account_err m"

abbreviation iface :: "(interface_error, 'a) result \<Rightarrow> 'a presult" where
  "iface m \<equiv> map_err (\<lambda>e. pool_err (pool_error_of_interface e)) m"

definition SPP_PROTOCOL_CONFIG_PDA_SEED :: bytes where
  "SPP_PROTOCOL_CONFIG_PDA_SEED =
    [112, 114, 111, 116, 111, 99, 111, 108, 95, 99, 111, 110, 102, 105, 103]"


section \<open>Loaders (loader.rs)\<close>

definition load_protocol_config :: "runtime \<Rightarrow> ledger \<Rightarrow> account_view \<Rightarrow> protocol_config presult" where
  "load_protocol_config R L v =
    load_config R protocol_config_of InvalidProtocolConfig (\<lambda>c. is_ok (pc_check_discriminator c)) L v"

definition load_protocol_config_mut :: "runtime \<Rightarrow> ledger \<Rightarrow> account_view \<Rightarrow> protocol_config presult" where
  "load_protocol_config_mut R L v =
    load_config_mut R protocol_config_of InvalidProtocolConfig (\<lambda>c. is_ok (pc_check_discriminator c)) L v"

definition load_and_validate_protocol_authority :: "runtime \<Rightarrow> ledger \<Rightarrow> account_view \<Rightarrow> account_view \<Rightarrow> protocol_config presult" where
  "load_and_validate_protocol_authority R L config_account authority =
    (if \<not> is_signer authority then Inl (pool_err InvalidProtocolConfig)
     else rbind (load_protocol_config R L config_account) (\<lambda>c.
       rbind (iface (check_protocol_authority c (address_of authority))) (\<lambda>_. Inr c)))"

definition load_and_validate_fee_authority :: "runtime \<Rightarrow> ledger \<Rightarrow> account_view \<Rightarrow> account_view \<Rightarrow> protocol_config presult" where
  "load_and_validate_fee_authority R L config_account authority =
    (if \<not> is_signer authority then Inl (pool_err InvalidProtocolConfig)
     else rbind (load_protocol_config R L config_account) (\<lambda>c.
       rbind (iface (check_fee_authority c (address_of authority))) (\<lambda>_. Inr c)))"

definition validate_forester_authority :: "runtime \<Rightarrow> ledger \<Rightarrow> account_view \<Rightarrow> account_view \<Rightarrow> unit presult" where
  "validate_forester_authority R L config_account authority =
    rbind (load_protocol_config R L config_account) (\<lambda>c.
      iface (check_forester_authority c (address_of authority)))"

definition validate_ring_creation_authority :: "runtime \<Rightarrow> ledger \<Rightarrow> account_view \<Rightarrow> account_view \<Rightarrow> unit presult" where
  "validate_ring_creation_authority R L config_account authority =
    rbind (load_protocol_config R L config_account) (\<lambda>c.
      iface (check_ring_creation_authority c (address_of authority)))"

definition load_and_validate_protocol_authority_mut :: "runtime \<Rightarrow> ledger \<Rightarrow> account_view \<Rightarrow> account_view \<Rightarrow> protocol_config presult" where
  "load_and_validate_protocol_authority_mut R L config_account authority =
    (if \<not> is_signer authority then Inl (pool_err InvalidProtocolConfig)
     else rbind (load_protocol_config_mut R L config_account) (\<lambda>c.
       rbind (iface (check_protocol_authority c (address_of authority))) (\<lambda>_. Inr c)))"


section \<open>Creation (create.rs, init.rs)\<close>

definition protocol_config_init :: "create_protocol_config_data \<Rightarrow> address \<Rightarrow> ledger \<Rightarrow> ledger presult" where
  "protocol_config_init d a L =
    (case acc_data (L a) of
       Tree_Data _ \<Rightarrow> Inl (pool_err InvalidProtocolConfig)
     | Bytes bs \<Rightarrow>
        if length bs \<noteq> PROTOCOL_CONFIG_SIZE \<or> (\<exists>b \<in> set bs. b \<noteq> 0)
        then Inl (pool_err InvalidProtocolConfig)
        else Inr (set_data a (Bytes (protocol_config_bytes
          \<lparr>pc_discriminator = PROTOCOL_CONFIG, protocol_authority = cpc_protocol_authority d,
           tree_creation_authority = cpc_tree_creation_authority d,
           forester_authority = cpc_forester_authority d, ring_creation_authority = cpc_ring_creation_authority d,
           fee_authority = cpc_fee_authority d,
           tree_creation_is_permissionless = cpc_tree_creation_is_permissionless d,
           ring_activation_is_permissionless = cpc_ring_activation_is_permissionless d,
           spl_interface_creation_is_permissionless = cpc_spl_interface_creation_is_permissionless d,
           next_tree_id = 0\<rparr>)) L))"

definition check_initialization_authority :: "runtime \<Rightarrow> ledger \<Rightarrow> account_view \<Rightarrow> account_view \<Rightarrow> account_view \<Rightarrow> unit presult" where
  "check_initialization_authority R L initialization_authority program program_data =
    (if address_of program \<noteq> rt_program_id R then Inl (pool_err UnauthorizedCaller)
     else if acc_owner (L (address_of program)) \<noteq> bpf_loader_upgradeable_id R then Inl (pool_err UnauthorizedCaller)
     else case decode_loader_state R (acc_data (L (address_of program))) of
       Some (Loader_Program programdata_address) \<Rightarrow>
         if address_of program_data \<noteq> programdata_address
            \<or> acc_owner (L (address_of program_data)) \<noteq> bpf_loader_upgradeable_id R
         then Inl (pool_err UnauthorizedCaller)
         else (case decode_loader_state R (acc_data (L (address_of program_data))) of
           Some (Loader_Program_Data (Some upgrade_authority)) \<Rightarrow>
             if upgrade_authority = zero32 \<or> upgrade_authority \<noteq> address_of initialization_authority
             then Inl (pool_err UnauthorizedCaller) else Inr ()
         | _ \<Rightarrow> Inl (pool_err UnauthorizedCaller))
     | _ \<Rightarrow> Inl (pool_err UnauthorizedCaller))"

definition process_create_protocol_config :: "runtime \<Rightarrow> account_view list \<Rightarrow> bytes \<Rightarrow> ledger \<Rightarrow> ledger presult" where
  "process_create_protocol_config R accounts payload L =
    rbind (ok_or (layout_read create_protocol_config_fields create_protocol_config_of_fields payload)
             (pool_err InvalidInstructionData)) (\<lambda>d.
    rbind (acct (next_signer (iter_new accounts))) (\<lambda>(fee_payer, it).
    rbind (acct (next_signer it)) (\<lambda>(initialization_authority, it).
    rbind (acct (next_mut it)) (\<lambda>(config, it).
    rbind (acct (next_account it)) (\<lambda>(system_program, it).
    rbind (acct (next_account it)) (\<lambda>(program, it).
    rbind (acct (next_account it)) (\<lambda>(program_data, it).
    if address_of system_program \<noteq> system_program_id then Inl IncorrectProgramId
    else rbind (check_initialization_authority R L initialization_authority program program_data) (\<lambda>_.
    rbind (verify_pda R (address_of config) [SPP_PROTOCOL_CONFIG_PDA_SEED] (rt_program_id R)) (\<lambda>bump.
    rbind (map_err (\<lambda>_. pool_err InvalidProtocolConfig)
             (create_pda_account R (address_of fee_payer) (address_of config) PROTOCOL_CONFIG_SIZE
                (rt_program_id R) [SPP_PROTOCOL_CONFIG_PDA_SEED] bump L)) (\<lambda>L1.
    protocol_config_init d (address_of config) L1))))))))))"


section \<open>Update and pause (update.rs, pause\_tree.rs)\<close>

primrec apply_update :: "update_protocol_config_data \<Rightarrow> protocol_config \<Rightarrow> protocol_config" where
  "apply_update (ProtocolAuthority a) c = c\<lparr>protocol_authority := a\<rparr>"
| "apply_update (TreeCreationAuthority a) c = c\<lparr>tree_creation_authority := a\<rparr>"
| "apply_update (ForesterAuthority a) c = c\<lparr>forester_authority := a\<rparr>"
| "apply_update (RingCreationAuthority a) c = c\<lparr>ring_creation_authority := a\<rparr>"
| "apply_update (TreeCreationPermissionless b) c = c\<lparr>tree_creation_is_permissionless := bool_byte b\<rparr>"
| "apply_update (RingActivationPermissionless b) c = c\<lparr>ring_activation_is_permissionless := bool_byte b\<rparr>"
| "apply_update (SplInterfaceCreationPermissionless b) c = c\<lparr>spl_interface_creation_is_permissionless := bool_byte b\<rparr>"
| "apply_update (FeeAuthority a) c = c\<lparr>fee_authority := a\<rparr>"

definition check_new_authority :: "update_protocol_config_data \<Rightarrow> account_iterator \<Rightarrow> unit presult" where
  "check_new_authority d it =
    (case d of
       ProtocolAuthority a \<Rightarrow>
         rbind (acct (next_signer it)) (\<lambda>(new_authority, it).
           if address_of new_authority \<noteq> a then Inl (pool_err InvalidInstructionData) else Inr ())
     | _ \<Rightarrow> Inr ())"

definition process_update_protocol_config :: "runtime \<Rightarrow> account_view list \<Rightarrow> bytes \<Rightarrow> ledger \<Rightarrow> ledger presult" where
  "process_update_protocol_config R accounts payload L =
    rbind (ok_or (try_from_slice read_update_protocol_config payload) (pool_err InvalidInstructionData)) (\<lambda>d.
    rbind (acct (next_signer (iter_new accounts))) (\<lambda>(authority, it).
    rbind (acct (next_mut it)) (\<lambda>(config, it).
    rbind (check_new_authority d it) (\<lambda>_.
    rbind (load_and_validate_protocol_authority_mut R L config authority) (\<lambda>c.
    Inr (set_data (address_of config) (Bytes (protocol_config_bytes (apply_update d c))) L))))))"

definition process_pause_tree :: "runtime \<Rightarrow> account_view list \<Rightarrow> bytes \<Rightarrow> ledger \<Rightarrow> ledger presult" where
  "process_pause_tree R accounts payload L =
    rbind (ok_or (pause_tree_of payload) (pool_err InvalidInstructionData)) (\<lambda>paused.
    rbind (acct (next_signer (iter_new accounts))) (\<lambda>(authority, it).
    rbind (acct (next_account it)) (\<lambda>(config, it).
    rbind (acct (next_mut it)) (\<lambda>(tree, it).
    rbind (load_and_validate_protocol_authority R L config authority) (\<lambda>_.
    rbind (map_err (\<lambda>e. pool_err (pool_error_of_tree e)) (load_tree_allow_paused R L tree)) (\<lambda>l.
    Inr (set_data (address_of tree) (Tree_Data (set_paused (paused \<noteq> 0) l)) L)))))))"


section \<open>Laws\<close>

text \<open>
  \<open>config_at R L v c\<close>: the account \<open>v\<close> names holds the protocol config \<open>c\<close>.
\<close>

definition config_at :: "runtime \<Rightarrow> ledger \<Rightarrow> account_view \<Rightarrow> protocol_config \<Rightarrow> bool" where
  "config_at R L v c \<longleftrightarrow> acc_owner (L (address_of v)) = rt_program_id R
     \<and> acc_data (L (address_of v)) = Bytes (protocol_config_bytes c)
     \<and> protocol_config_wf c \<and> pc_discriminator c = PROTOCOL_CONFIG"

definition tree_at :: "runtime \<Rightarrow> ledger \<Rightarrow> account_view \<Rightarrow> tree_layout \<Rightarrow> bool" where
  "tree_at R L v l \<longleftrightarrow> load_tree_allow_paused R L v = Inr l"

lemma is_ok_check [simp]: "is_ok (pc_check_discriminator c) \<longleftrightarrow> pc_discriminator c = PROTOCOL_CONFIG"
  by (simp add: pc_check_discriminator_def ensure_def)

lemma cast_protocol_config: "protocol_config_of bs = Some c \<longleftrightarrow> bs = protocol_config_bytes c \<and> protocol_config_wf c"
  using protocol_config.dec_enc protocol_config.enc_dec by blast

lemma load_protocol_config_eq_Inr [account_simps]:
  "load_protocol_config R L v = Inr c \<longleftrightarrow> config_at R L v c"
  "load_protocol_config_mut R L v = Inr c \<longleftrightarrow> is_writable v \<and> config_at R L v c"
  by (auto simp: load_protocol_config_def load_protocol_config_mut_def account_simps config_at_def owned_by_def
      cast_protocol_config)

lemma authority_checks_eq_Inr [account_simps]:
  "check_protocol_authority c a = Inr u \<longleftrightarrow> protocol_authority c = a"
  "check_tree_creation_authority c a = Inr u \<longleftrightarrow> tree_creation_authority c = a"
  "check_forester_authority c a = Inr u \<longleftrightarrow> forester_authority c = a"
  "check_ring_creation_authority c a = Inr u \<longleftrightarrow> ring_creation_authority c = a"
  "check_fee_authority c a = Inr u \<longleftrightarrow> fee_authority c = a"
  by (simp_all add: check_protocol_authority_def check_tree_creation_authority_def check_forester_authority_def
      check_ring_creation_authority_def check_fee_authority_def result_simps)

lemma validate_authority_eq_Inr [account_simps]:
  "load_and_validate_protocol_authority R L cfg v = Inr c \<longleftrightarrow>
     is_signer v \<and> config_at R L cfg c \<and> protocol_authority c = address_of v"
  "load_and_validate_protocol_authority_mut R L cfg v = Inr c \<longleftrightarrow>
     is_signer v \<and> is_writable cfg \<and> config_at R L cfg c \<and> protocol_authority c = address_of v"
  "load_and_validate_fee_authority R L cfg v = Inr c \<longleftrightarrow>
     is_signer v \<and> config_at R L cfg c \<and> fee_authority c = address_of v"
  "validate_forester_authority R L cfg v = Inr u \<longleftrightarrow>
     (\<exists>c. config_at R L cfg c \<and> forester_authority c = address_of v)"
  "validate_ring_creation_authority R L cfg v = Inr u \<longleftrightarrow>
     (\<exists>c. config_at R L cfg c \<and> ring_creation_authority c = address_of v)"
  by (auto simp: load_and_validate_protocol_authority_def load_and_validate_protocol_authority_mut_def
      load_and_validate_fee_authority_def validate_forester_authority_def validate_ring_creation_authority_def
      result_simps account_simps)

lemma check_new_authority_eq_Inr [account_simps]:
  "check_new_authority d it = Inr u \<longleftrightarrow>
     (\<forall>a. d = ProtocolAuthority a \<longrightarrow> (\<exists>v rest. it_accounts it = v # rest \<and> is_signer v \<and> address_of v = a))"
  by (auto simp: check_new_authority_def result_simps account_simps
      split: update_protocol_config_data.splits if_splits)

lemma update_protocol_config_success:
  "process_update_protocol_config R accounts payload L = Inr L' \<longleftrightarrow>
     (\<exists>d authority config rest c.
        try_from_slice read_update_protocol_config payload = Some d
        \<and> accounts = authority # config # rest \<and> is_signer authority \<and> is_writable config
        \<and> (\<forall>a. d = ProtocolAuthority a \<longrightarrow> (\<exists>v rest'. rest = v # rest' \<and> is_signer v \<and> address_of v = a))
        \<and> config_at R L config c \<and> protocol_authority c = address_of authority
        \<and> L' = set_data (address_of config) (Bytes (protocol_config_bytes (apply_update d c))) L)"
  by (auto simp: process_update_protocol_config_def result_simps account_simps)

lemma pause_tree_success:
  "process_pause_tree R accounts payload L = Inr L' \<longleftrightarrow>
     (\<exists>b authority config tree rest c l.
        payload = [b] \<and> accounts = authority # config # tree # rest \<and> is_signer authority \<and> is_writable tree
        \<and> config_at R L config c \<and> protocol_authority c = address_of authority \<and> tree_at R L tree l
        \<and> L' = set_data (address_of tree) (Tree_Data (set_paused (b \<noteq> 0) l)) L)"
  by (auto simp: process_pause_tree_def result_simps account_simps pause_tree_of_def tree_at_def length_1_iff
      split: if_splits)


lemma read_update_address:
  assumes "try_from_slice read_update_protocol_config payload = Some d"
  shows "update_address_ok d"
  using assms
  by (auto simp: try_from_slice_def read_update_protocol_config_def read_then_def read_bytes_def read_return_def
      read_fail_def split: option.splits prod.splits list.splits if_splits)

lemma apply_update_wf: "protocol_config_wf c \<Longrightarrow> update_address_ok d \<Longrightarrow> protocol_config_wf (apply_update d c)"
  by (cases d) (simp_all add: protocol_config_wf_def)

lemma apply_update_frame [simp]:
  "pc_discriminator (apply_update d c) = pc_discriminator c" "next_tree_id (apply_update d c) = next_tree_id c"
  by (cases d; simp)+

lemma config_at_set_data:
  assumes "config_at R L v c" "protocol_config_wf c'" "pc_discriminator c' = PROTOCOL_CONFIG"
  shows "config_at R (set_data (address_of v) (Bytes (protocol_config_bytes c')) L) v c'"
  using assms by (simp add: config_at_def)

lemma set_data_other: "a \<noteq> b \<Longrightarrow> set_data b d L a = L a"
  by (simp add: set_data_def)

lemma config_at_unique: "config_at R L v c \<Longrightarrow> config_at R L v c' \<Longrightarrow> c = c'"
  unfolding config_at_def using protocol_config.enc_inj[of c c'] by auto


section \<open>Properties\<close>


lemma demo_config_at: "config_at demo_runtime (demo_ledger l n) (user_view 10) demo_config"
  by (simp add: config_at_def demo_runtime_def demo_ledger_def demo_config_wf)



definition created_config :: "create_protocol_config_data \<Rightarrow> protocol_config" where
  "created_config d = \<lparr>pc_discriminator = PROTOCOL_CONFIG, protocol_authority = cpc_protocol_authority d,
     tree_creation_authority = cpc_tree_creation_authority d, forester_authority = cpc_forester_authority d,
     ring_creation_authority = cpc_ring_creation_authority d, fee_authority = cpc_fee_authority d,
     tree_creation_is_permissionless = cpc_tree_creation_is_permissionless d,
     ring_activation_is_permissionless = cpc_ring_activation_is_permissionless d,
     spl_interface_creation_is_permissionless = cpc_spl_interface_creation_is_permissionless d, next_tree_id = 0\<rparr>"

lemma check_initialization_authority_eq_Inr [account_simps]:
  "check_initialization_authority R L v program program_data = Inr u \<longleftrightarrow>
     address_of program = rt_program_id R \<and> acc_owner (L (rt_program_id R)) = bpf_loader_upgradeable_id R
     \<and> decode_loader_state R (acc_data (L (rt_program_id R))) = Some (Loader_Program (address_of program_data))
     \<and> acc_owner (L (address_of program_data)) = bpf_loader_upgradeable_id R
     \<and> decode_loader_state R (acc_data (L (address_of program_data))) = Some (Loader_Program_Data (Some (address_of v)))
     \<and> address_of v \<noteq> zero32"
  by (auto simp: check_initialization_authority_def split: option.splits loader_state.splits)

lemma created_config_wf:
  "layout_read create_protocol_config_fields create_protocol_config_of_fields payload = Some d \<Longrightarrow>
     protocol_config_wf (created_config d)"
  using create_protocol_config_data.enc_dec[of payload d]
  by (simp add: created_config_def protocol_config_wf_def create_protocol_config_wf_def u16_limit_def)

lemma create_protocol_config_success:
  assumes sys: "system_ok R" and run: "process_create_protocol_config R accounts payload L = Inr L'"
  shows "\<exists>d fee_payer authority config system program program_data rest bump n.
    accounts = fee_payer # authority # config # system # program # program_data # rest
    \<and> layout_read create_protocol_config_fields create_protocol_config_of_fields payload = Some d
    \<and> is_signer fee_payer \<and> is_signer authority
    \<and> check_initialization_authority R L authority program program_data = Inr ()
    \<and> derive_program_address R [SPP_PROTOCOL_CONFIG_PDA_SEED] (rt_program_id R) = Some (address_of config, bump)
    \<and> unused_account L (address_of config) \<and> n \<le> lamports L (address_of fee_payer)
    \<and> L' = set_data (address_of config) (Bytes (protocol_config_bytes (created_config d)))
        (install (address_of config) (rt_program_id R) (Bytes (replicate PROTOCOL_CONFIG_SIZE 0))
          (move_lamports (address_of fee_payer) (address_of config) n L))"
proof -
  obtain d fee_payer authority config system program program_data rest bump L1 where
    a: "accounts = fee_payer # authority # config # system # program # program_data # rest"
      "layout_read create_protocol_config_fields create_protocol_config_of_fields payload = Some d"
      "is_signer fee_payer" "is_signer authority"
      "check_initialization_authority R L authority program program_data = Inr ()"
      "derive_program_address R [SPP_PROTOCOL_CONFIG_PDA_SEED] (rt_program_id R) = Some (address_of config, bump)"
    and L1: "create_pda_account R (address_of fee_payer) (address_of config) PROTOCOL_CONFIG_SIZE
        (rt_program_id R) [SPP_PROTOCOL_CONFIG_PDA_SEED] bump L = Inr L1"
      "protocol_config_init d (address_of config) L1 = Inr L'"
    using run
    by (auto simp: process_create_protocol_config_def result_simps next_account_eq_Inr next_signer_eq_Inr next_mut_eq_Inr
        verify_pda_eq_Inr split: if_splits)
  obtain n where n: "unused_account L (address_of config)" "n \<le> lamports L (address_of fee_payer)"
    "L1 = install (address_of config) (rt_program_id R) (Bytes (replicate PROTOCOL_CONFIG_SIZE 0))
       (move_lamports (address_of fee_payer) (address_of config) n L)"
    using create_pda_account_success[OF sys L1(1)] by blast
  have "L' = set_data (address_of config) (Bytes (protocol_config_bytes (created_config d))) L1"
    using L1(2) n(3) by (simp add: protocol_config_init_def created_config_def)
  then show ?thesis using a n by blast
qed

text \<open>
  C30.  The protocol config is initialised once, by the deploy upgrade authority:
  a successful creation was signed by the nonzero upgrade authority that the
  loader records for this very program, stores exactly the requested
  authorities at the canonical address with tree ids starting at zero, and
  afterwards no creation ever succeeds on that ledger again.
\<close>
theorem config_is_created_once_by_upgrade_authority:
  assumes "system_ok R" "process_create_protocol_config R accounts payload L = Inr L'"
  shows "(\<exists>d authority config upgrade_record bump. authority \<in> set accounts \<and> is_signer authority \<and> address_of authority \<noteq> zero32
      \<and> decode_loader_state R (acc_data (L (rt_program_id R))) = Some (Loader_Program upgrade_record)
      \<and> decode_loader_state R (acc_data (L upgrade_record)) = Some (Loader_Program_Data (Some (address_of authority)))
      \<and> layout_read create_protocol_config_fields create_protocol_config_of_fields payload = Some d
      \<and> derive_program_address R [SPP_PROTOCOL_CONFIG_PDA_SEED] (rt_program_id R) = Some (address_of config, bump)
      \<and> config_at R L' config (created_config d))
    \<and> (\<nexists>accounts' payload' L''. process_create_protocol_config R accounts' payload' L' = Inr L'')"
    (is "?created \<and> ?once")
proof -
  obtain d fee_payer authority config system program program_data rest bump n where
    a: "accounts = fee_payer # authority # config # system # program # program_data # rest"
      "layout_read create_protocol_config_fields create_protocol_config_of_fields payload = Some d"
      "is_signer authority" "check_initialization_authority R L authority program program_data = Inr ()"
      "derive_program_address R [SPP_PROTOCOL_CONFIG_PDA_SEED] (rt_program_id R) = Some (address_of config, bump)"
    and L': "L' = set_data (address_of config) (Bytes (protocol_config_bytes (created_config d)))
        (install (address_of config) (rt_program_id R) (Bytes (replicate PROTOCOL_CONFIG_SIZE 0))
          (move_lamports (address_of fee_payer) (address_of config) n L))"
    using create_protocol_config_success[OF assms] by blast
  have at: "config_at R L' config (created_config d)"
    using created_config_wf[OF a(2)] by (simp add: config_at_def L' created_config_def)
  then have "length (protocol_config_bytes (created_config d)) = 166"
    using protocol_config.enc_length by (simp add: config_at_def protocol_config_size PROTOCOL_CONFIG_SIZE_def)
  then have "\<not> unused_account L' (address_of config)" using at by (auto simp: unused_account_def config_at_def)
  then have once: ?once using create_protocol_config_success[OF assms(1)] a(5) by fastforce
  have "authority \<in> set accounts" using a(1) by simp
  note facts = this a(2,3,5) at a(4)[unfolded check_initialization_authority_eq_Inr]
  have ?created
    by (rule exI[of _ d], rule exI[of _ authority], rule exI[of _ config], rule exI[of _ "address_of program_data"],
        rule exI[of _ bump]) (use facts in simp)
  with once show ?thesis by (rule conjI[rotated])
qed

definition program_view :: "nat \<Rightarrow> account_view" where
  "program_view n = (user_view n)\<lparr>is_signer := False, is_writable := False, is_executable := True\<rparr>"

definition config_pda_view :: account_view where
  "config_pda_view = (user_view 0)\<lparr>address_of := fst (the (demo_pda [SPP_PROTOCOL_CONFIG_PDA_SEED] (demo_address 100)))\<rparr>"

definition demo_create_config_data :: create_protocol_config_data where
  "demo_create_config_data = \<lparr>cpc_protocol_authority = demo_address 1, cpc_tree_creation_authority = demo_address 2,
     cpc_tree_creation_is_permissionless = 0, cpc_forester_authority = demo_address 3,
     cpc_ring_creation_authority = demo_address 4, cpc_ring_activation_is_permissionless = 0,
     cpc_spl_interface_creation_is_permissionless = 0, cpc_fee_authority = demo_address 5\<rparr>"

lemma config_pda_fresh:
  "address_of config_pda_view = take 32 (SPP_PROTOCOL_CONFIG_PDA_SEED @ replicate 32 7)"
  "address_of config_pda_view \<noteq> demo_address n"
proof -
  show eq: "address_of config_pda_view = take 32 (SPP_PROTOCOL_CONFIG_PDA_SEED @ replicate 32 7)"
    by (simp add: config_pda_view_def demo_pda_def)
  have "hd (address_of config_pda_view) = 112" by (simp add: eq SPP_PROTOCOL_CONFIG_PDA_SEED_def)
  moreover have "hd (demo_address n) = 0" by (simp add: demo_address_def)
  ultimately show "address_of config_pda_view \<noteq> demo_address n" by auto
qed

theorem config_is_created_once_by_upgrade_authority_witness:
  "\<exists>L'. process_create_protocol_config demo_runtime
      [user_view 6, user_view 9, config_pda_view, program_view 0, program_view 100, program_view 103]
      (layout_bytes create_protocol_config_to_fields demo_create_config_data) (demo_ledger demo_tree 0) = Inr L'
    \<and> (\<nexists>accounts' payload' L''. process_create_protocol_config demo_runtime accounts' payload' L' = Inr L'')"
proof -
  let ?p = "layout_bytes create_protocol_config_to_fields demo_create_config_data"
  let ?L = "demo_ledger demo_tree 0"
  have d: "layout_read create_protocol_config_fields create_protocol_config_of_fields ?p = Some demo_create_config_data"
    by (rule create_protocol_config_data.dec_enc) (simp add: create_protocol_config_wf_def demo_create_config_data_def)
  have ids: "demo_address 0 = system_program_id" by (simp add: demo_address_def system_program_id_def zero32_def
        replicate_append_same[symmetric] numeral_eq_Suc)
  have pda: "derive_program_address demo_runtime [SPP_PROTOCOL_CONFIG_PDA_SEED] (rt_program_id demo_runtime)
      = Some (address_of config_pda_view, 255)"
    by (simp add: demo_runtime_def demo_pda_def config_pda_fresh(1))
  have init: "check_initialization_authority demo_runtime ?L (user_view 9) (program_view 100) (program_view 103) = Inr ()"
    unfolding check_initialization_authority_eq_Inr using demo_system_id[of 9]
    by (simp add: demo_runtime_def demo_ledger_def demo_loader_def program_view_def demo_address_inj system_program_id_def)
  have unused: "unused_account ?L (address_of config_pda_view)" "lamports ?L (address_of config_pda_view) = 1000000"
    using config_pda_fresh(2) by (simp_all add: unused_account_def lamports_def demo_ledger_def)
  obtain L1 where cpi: "system_cpi demo_runtime (Create_With_Minimum_Balance (address_of config_pda_view) PROTOCOL_CONFIG_SIZE
      (rt_program_id demo_runtime) (demo_address 6) (Some [SPP_PROTOCOL_CONFIG_PDA_SEED, [255]])) ?L = Inr L1"
    "acc_data (L1 (address_of config_pda_view)) = Bytes (replicate PROTOCOL_CONFIG_SIZE 0)"
    using unused by (simp add: demo_runtime_def demo_rent_def PROTOCOL_CONFIG_SIZE_def)
  have "is_writable config_pda_view" "address_of (program_view 0) = system_program_id"
    by (simp_all add: config_pda_view_def program_view_def ids)
  then obtain L' where L': "process_create_protocol_config demo_runtime
      [user_view 6, user_view 9, config_pda_view, program_view 0, program_view 100, program_view 103] ?p ?L = Inr L'"
    using cpi d init pda
    by (auto simp: process_create_protocol_config_def create_pda_account_def verify_pda_def next_signer_def next_mut_def
        next_checked_def next_account_def check_signer_def check_mut_def protocol_config_init_def)
  show ?thesis using L' config_is_created_once_by_upgrade_authority[OF system_ok_demo L'] by blast
qed

end
