(* ===== verification/Tree_Admin.thy ===== *)
theory Tree_Admin
  imports Protocol_Config
begin

text \<open>
  Tree administration: \<open>create_tree\<close> with its stepwise allocation,
  \<open>set_tree_fees\<close> and \<open>claim_tree_lamports\<close>
  (\<open>programs/shielded-pool/src/instructions\<close>).  A tree is larger than one
  instruction may allocate, so creation takes several identical calls; the first
  one records who pays and the exact instruction data in the still unused UTXO
  region.  The lemmas show that a started creation is finished by repeating the
  call and by nobody else, that a finished one is an empty pool, that tree ids
  are handed out once, and that a claim leaves exactly the reserve.
\<close>

definition TREE_PDA_SEED :: bytes where "TREE_PDA_SEED = [116, 114, 101, 101]"

section \<open>Allocation (allocate.rs)\<close>

definition is_unallocated :: "ledger \<Rightarrow> address \<Rightarrow> bool" where
  "is_unallocated L tree \<longleftrightarrow> acc_owner (L tree) = system_program_id \<and> data_len (acc_data (L tree)) = 0"

definition fund_tree :: "runtime \<Rightarrow> address \<Rightarrow> address \<Rightarrow> nat \<Rightarrow> ledger \<Rightarrow> ledger presult" where
  "fund_tree R payer tree amount L =
    (let missing = saturating_sub amount (lamports L tree) in
     if missing = 0 then Inr L else system_cpi R (Transfer payer tree missing) L)"

definition tree_allocation_create :: "runtime \<Rightarrow> address \<Rightarrow> address \<Rightarrow> bytes \<Rightarrow> nat \<Rightarrow> nat \<Rightarrow> nat \<Rightarrow> ledger \<Rightarrow> ledger presult" where
  "tree_allocation_create R payer tree tree_id_seed bump full_size amount L =
    (let seeds = [TREE_PDA_SEED, tree_id_seed, [of_nat bump]];
         space = min full_size TREE_ALLOCATION_STEP in
     if lamports L tree = 0 then system_cpi R (Create_Account payer tree amount space (rt_program_id R) seeds) L
     else rbind (system_cpi R (Allocate tree space seeds) L) (\<lambda>L1.
       rbind (system_cpi R (Assign tree (rt_program_id R) seeds) L1) (\<lambda>L2.
       fund_tree R payer tree amount L2)))"

definition grow_tree :: "runtime \<Rightarrow> account_view \<Rightarrow> nat \<Rightarrow> ledger \<Rightarrow> ledger presult" where
  "grow_tree R tree full_size L =
    (if \<not> is_writable tree \<or> \<not> owned_by L tree (rt_program_id R) then Inl (pool_err InvalidTreeAccounts)
     else let d = acc_data (L (address_of tree)); current = data_len d in
       if full_size \<le> current then Inr L
       else case d of
         Tree_Data _ \<Rightarrow> Inl (pool_err InvalidTreeAccounts)
       | Bytes bs \<Rightarrow>
          if get bs 1 \<noteq> Some (of_nat UNINITIALIZED) then Inl (pool_err InvalidTreeAccounts)
          else Inr (set_data (address_of tree)
                 (Bytes (resize_bytes (min (saturating_add current TREE_ALLOCATION_STEP) full_size) bs)) L))"


section \<open>Pending creation (pending.rs)\<close>

text \<open>
  The record lies in raw bytes: an initialised tree region fails the state test
  (\<open>check\<close>) before any record is read.
\<close>

definition write_at :: "nat \<Rightarrow> bytes \<Rightarrow> bytes \<Rightarrow> bytes" where
  "write_at off xs bs = take off bs @ xs @ drop (off + length xs) bs"

definition pending_slots :: "bytes \<Rightarrow> account_data \<Rightarrow> (bytes \<times> bytes \<times> bytes) presult" where
  "pending_slots ix_data d =
    (case d of
       Tree_Data _ \<Rightarrow> Inl (pool_err InvalidTreeAccounts)
     | Bytes bs \<Rightarrow>
        if utxo_tree_offset + 32 + length ix_data \<le> length bs
        then Inr (bs, take 32 (drop utxo_tree_offset bs), take (length ix_data) (drop (utxo_tree_offset + 32) bs))
        else Inl (pool_err InvalidTreeAccounts))"

definition pending_record :: "address \<Rightarrow> bytes \<Rightarrow> address \<Rightarrow> ledger \<Rightarrow> ledger presult" where
  "pending_record payer ix_data tree L =
    rbind (pending_slots ix_data (acc_data (L tree))) (\<lambda>(bs, _).
      Inr (set_data tree (Bytes (write_at utxo_tree_offset (payer @ ix_data) bs)) L))"

definition pending_check :: "address \<Rightarrow> bytes \<Rightarrow> address \<Rightarrow> ledger \<Rightarrow> unit presult" where
  "pending_check payer ix_data tree L =
    (if Option.bind (data_prefix 2 (acc_data (L tree))) (\<lambda>p. get p 1) \<noteq> Some (of_nat UNINITIALIZED)
     then Inl (pool_err InvalidTreeAccounts)
     else rbind (pending_slots ix_data (acc_data (L tree))) (\<lambda>(_, p, d).
       if p \<noteq> payer \<or> d \<noteq> ix_data then Inl (pool_err TreeCreationMismatch) else Inr ()))"

definition pending_clear :: "bytes \<Rightarrow> address \<Rightarrow> ledger \<Rightarrow> ledger presult" where
  "pending_clear ix_data tree L =
    rbind (pending_slots ix_data (acc_data (L tree))) (\<lambda>(bs, _).
      Inr (set_data tree (Bytes (write_at utxo_tree_offset (replicate (32 + length ix_data) 0) bs)) L))"


section \<open>Creation (create\_tree/processor.rs)\<close>

text \<open>The config block: authorisation, and on the first step the allocation of the id.\<close>

definition claim_tree_id :: "runtime \<Rightarrow> account_view \<Rightarrow> account_view \<Rightarrow> nat \<Rightarrow> bool \<Rightarrow> ledger \<Rightarrow> ledger presult" where
  "claim_tree_id R config_view authority tree_id unallocated L =
    rbind (load_protocol_config_mut R L config_view) (\<lambda>config.
      if \<not> allows_permissionless_tree_creation config
         \<and> \<not> is_ok (check_tree_creation_authority config (address_of authority))
      then Inl (pool_err UnauthorizedCaller)
      else if \<not> unallocated then Inr L
      else if tree_id \<noteq> next_tree_id config then Inl (pool_err InvalidTreeId)
      else rbind (ok_or (checked_add_u16 tree_id 1) (pool_err TreeIdOverflow)) (\<lambda>n.
        Inr (set_data (address_of config_view) (Bytes (protocol_config_bytes (config\<lparr>next_tree_id := n\<rparr>))) L)))"

text \<open>The last step: clear the record, top up, initialise.\<close>

definition finish_tree :: "runtime \<Rightarrow> create_tree_data \<Rightarrow> bytes \<Rightarrow> address \<Rightarrow> address \<Rightarrow> nat \<Rightarrow> ledger \<Rightarrow> ledger presult" where
  "finish_tree R d ix_data payer tree amount L =
    rbind (pending_clear ix_data tree L) (\<lambda>L1.
    rbind (fund_tree R payer tree amount L1) (\<lambda>L2.
    case acc_data (L2 tree) of
      Tree_Data _ \<Rightarrow> Inl (tree_program_error AlreadyInitialized)
    | Bytes bs \<Rightarrow>
       rbind (map_err tree_program_error (tree_account_init (tree_decode R) bs TREE_ACCOUNT_DISCRIMINATOR
                STATE_HEIGHT (ct_tree_id d) (ct_nullifier_params d) (ct_fees d)))
         (\<lambda>l. Inr (set_data tree (Tree_Data l) L2))))"

text \<open>Allocate and record on the first step, grow and compare on the later ones.\<close>

definition allocate_or_grow :: "runtime \<Rightarrow> create_tree_data \<Rightarrow> bytes \<Rightarrow> address \<Rightarrow> account_view \<Rightarrow> nat \<Rightarrow> bool \<Rightarrow> nat
    \<Rightarrow> ledger \<Rightarrow> ledger presult" where
  "allocate_or_grow R d ix_data payer tree bump unallocated amount L =
    (if unallocated
     then rbind (tree_allocation_create R payer (address_of tree) (to_le_bytes 2 (ct_tree_id d)) bump
                   tree_account_size amount L)
            (pending_record payer ix_data (address_of tree))
     else rbind (grow_tree R tree tree_account_size L) (\<lambda>L1.
            rbind (pending_check payer ix_data (address_of tree) L1) (\<lambda>_. Inr L1)))"

definition create_tree_step :: "runtime \<Rightarrow> create_tree_data \<Rightarrow> bytes \<Rightarrow> account_view \<Rightarrow> account_view \<Rightarrow> account_view
    \<Rightarrow> account_view \<Rightarrow> nat \<Rightarrow> ledger \<Rightarrow> ledger presult" where
  "create_tree_step R d ix_data payer authority config tree bump L =
    (let unallocated = is_unallocated L (address_of tree) in
     rbind (claim_tree_id R config authority (ct_tree_id d) unallocated L) (\<lambda>L1.
     rbind (minimum_balance R tree_account_size) (\<lambda>tree_rent.
     rbind (minimum_balance R NULLIFIER_PDA_SIZE) (\<lambda>pda_rent.
     rbind (ok_or (tree_creation_lamports (ct_nullifier_params d) tree_rent pda_rent) Program_ArithmeticOverflow) (\<lambda>amount.
     rbind (allocate_or_grow R d ix_data (address_of payer) tree bump unallocated amount L1) (\<lambda>L2.
     if data_len (acc_data (L2 (address_of tree))) < tree_account_size then Inr L2
     else finish_tree R d ix_data (address_of payer) (address_of tree) amount L2))))))"

definition process_create_tree :: "runtime \<Rightarrow> account_view list \<Rightarrow> bytes \<Rightarrow> ledger \<Rightarrow> ledger presult" where
  "process_create_tree R accounts ix_data L =
    rbind (ok_or (try_from_slice read_create_tree ix_data) (pool_err InvalidInstructionData)) (\<lambda>d.
    rbind (map_err tree_program_error (fees_validate (ct_fees d))) (\<lambda>_.
    rbind (map_err tree_program_error (params_validate (ct_nullifier_params d))) (\<lambda>_.
    rbind (acct (next_signer_mut (iter_new accounts))) (\<lambda>(payer, it).
    rbind (acct (next_signer it)) (\<lambda>(authority, it).
    rbind (acct (next_mut it)) (\<lambda>(config, it).
    rbind (acct (next_mut it)) (\<lambda>(tree, it).
    rbind (acct (next_account it)) (\<lambda>(system_program, it).
    if address_of system_program \<noteq> system_program_id then Inl (pool_err InvalidSystemProgram)
    else rbind (verify_pda R (address_of tree) [TREE_PDA_SEED, to_le_bytes 2 (ct_tree_id d)] (rt_program_id R)) (\<lambda>bump.
      create_tree_step R d ix_data payer authority config tree bump L)))))))))"


section \<open>Fees and claims (set\_tree\_fees.rs, claim\_tree\_lamports.rs)\<close>

definition process_set_tree_fees :: "runtime \<Rightarrow> account_view list \<Rightarrow> bytes \<Rightarrow> ledger \<Rightarrow> ledger presult" where
  "process_set_tree_fees R accounts payload L =
    rbind (ok_or (try_from_slice read_tree_fee_schedule payload) (pool_err InvalidInstructionData)) (\<lambda>fs.
    rbind (acct (next_signer (iter_new accounts))) (\<lambda>(authority, it).
    rbind (acct (next_account it)) (\<lambda>(config, it).
    rbind (acct (next_mut it)) (\<lambda>(tree, it).
    rbind (load_and_validate_fee_authority R L config authority) (\<lambda>_.
    rbind (map_err tree_program_error (load_tree_allow_paused R L tree)) (\<lambda>l.
    rbind (map_err tree_program_error (set_fee_schedule fs l)) (\<lambda>l'.
    Inr (set_data (address_of tree) (Tree_Data l') L))))))))"

text \<open>The reserve a claim must leave: rent, fee balance and liquid working capital.\<close>

definition claim_reserve :: "tree_layout \<Rightarrow> nat \<Rightarrow> nat \<Rightarrow> nat presult" where
  "claim_reserve l tree_rent_minimum nullifier_pda_rent_minimum =
    rbind (ok_or (tree_liquid_working_capital_lamports (nt_batch_size (ta_nullifier l)) (live_nullifier_pdas l)
             nullifier_pda_rent_minimum) Program_ArithmeticOverflow) (\<lambda>working_capital.
      ok_or (Option.bind (checked_add tree_rent_minimum (fee_balance l)) (\<lambda>r. checked_add r working_capital))
        Program_ArithmeticOverflow)"

definition process_claim_tree_lamports :: "runtime \<Rightarrow> account_view list \<Rightarrow> bytes \<Rightarrow> ledger \<Rightarrow> ledger presult" where
  "process_claim_tree_lamports R accounts payload L =
    (if payload \<noteq> [] then Inl (pool_err InvalidInstructionData)
     else rbind (acct (next_signer (iter_new accounts))) (\<lambda>(authority, it).
     rbind (acct (next_account it)) (\<lambda>(config, it).
     rbind (acct (next_mut it)) (\<lambda>(tree, it).
     rbind (acct (next_mut it)) (\<lambda>(recipient, it).
     rbind (load_and_validate_fee_authority R L config authority) (\<lambda>_.
     rbind (check_reimbursement_recipient R L recipient) (\<lambda>_.
     rbind (minimum_balance R (data_len (acc_data (L (address_of tree))))) (\<lambda>tree_rent_minimum.
     rbind (minimum_balance R NULLIFIER_PDA_SIZE) (\<lambda>nullifier_pda_rent_minimum.
     rbind (map_err tree_program_error (load_tree_allow_paused R L tree)) (\<lambda>l.
     let l1 = fst (release_fee_surplus l); L1 = set_data (address_of tree) (Tree_Data l1) L in
     rbind (claim_reserve l1 tree_rent_minimum nullifier_pda_rent_minimum) (\<lambda>reserve.
     let claimable = saturating_sub (lamports L1 (address_of tree)) reserve in
     if claimable = 0 then Inl (pool_err NoClaimableTreeLamports)
     else pay_reimbursement_with_rent_minimum (address_of tree) (address_of recipient) claimable reserve L1)))))))))))"


section \<open>Claims leave the reserve\<close>

lemma tree_at_owned: "tree_at R L v l \<Longrightarrow> acc_owner (L (address_of v)) = rt_program_id R"
  by (simp add: tree_at_def account_simps owned_by_def)

lemma claim_reserve_eq_Inr [account_simps]:
  "claim_reserve l tr pr = Inr r \<Longrightarrow>
     r = tr + fee_balance l + (3 * nt_batch_size (ta_nullifier l) - live_nullifier_pdas l) * pr"
  by (auto simp: claim_reserve_def tree_liquid_working_capital_lamports_def result_simps bind_eq_Some_conv
      checked_add_def checked_mul_def saturating_sub_def NUM_BATCHES_def split: if_splits)

lemma claim_tree_lamports_success:
  "process_claim_tree_lamports R accounts payload L = Inr L' \<longleftrightarrow>
    (\<exists>authority config tree recipient rest c l tr pr reserve.
      payload = [] \<and> accounts = authority # config # tree # recipient # rest \<and> is_signer authority
      \<and> is_writable tree \<and> is_writable recipient
      \<and> config_at R L config c \<and> fee_authority c = address_of authority
      \<and> \<not> owned_by L recipient (rt_program_id R) \<and> tree_at R L tree l
      \<and> minimum_balance R (data_len (acc_data (L (address_of tree)))) = Inr tr
      \<and> minimum_balance R NULLIFIER_PDA_SIZE = Inr pr
      \<and> claim_reserve (fst (release_fee_surplus l)) tr pr = Inr reserve
      \<and> reserve < lamports L (address_of tree)
      \<and> pay_reimbursement_with_rent_minimum (address_of tree) (address_of recipient)
         (lamports L (address_of tree) - reserve) reserve
         (set_data (address_of tree) (Tree_Data (fst (release_fee_surplus l))) L) = Inr L')"
  by (auto simp: process_claim_tree_lamports_def result_simps next_account_eq_Inr next_signer_eq_Inr next_mut_eq_Inr
      validate_authority_eq_Inr check_reimbursement_recipient_eq_Inr Let_def saturating_sub_def tree_at_def
      split: if_splits) (metis not_le)

text \<open>
  C26.  A claim leaves the reserve and nothing above it.  A successful claim was
  signed by the stored fee authority; afterwards the tree holds exactly its rent
  minimum, the fee balance open nullifier PDAs may still draw, and the rent of
  every nullifier PDA that may still be created; so creating up to that many
  PDAs never drops the tree below the floor their creation enforces.  Everything
  above went to the recipient, which is not an account of the program.
\<close>
theorem claim_leaves_exactly_the_reserve:
  assumes "process_claim_tree_lamports R accounts payload L = Inr L'"
  shows "\<exists>authority config tree recipient rest c l tr pr paid.
    accounts = authority # config # tree # recipient # rest \<and> is_signer authority
    \<and> config_at R L config c \<and> fee_authority c = address_of authority \<and> tree_at R L tree l
    \<and> minimum_balance R (data_len (acc_data (L (address_of tree)))) = Inr tr
    \<and> minimum_balance R NULLIFIER_PDA_SIZE = Inr pr
    \<and> acc_data (L' (address_of tree)) = Tree_Data (fst (release_fee_surplus l))
    \<and> lamports L' (address_of tree) = tr + min (fee_balance l) (fee_balance_reserve l)
         + (3 * nt_batch_size (ta_nullifier l) - live_nullifier_pdas l) * pr
    \<and> (\<forall>k \<le> 3 * nt_batch_size (ta_nullifier l) - live_nullifier_pdas l.
         tr + fee_balance (fst (release_fee_surplus l)) + k * pr \<le> lamports L' (address_of tree))
    \<and> 0 < paid \<and> lamports L (address_of tree) = lamports L' (address_of tree) + paid
    \<and> lamports L' (address_of recipient) = lamports L (address_of recipient) + paid
    \<and> acc_owner (L (address_of recipient)) \<noteq> rt_program_id R
    \<and> (\<forall>a. a \<noteq> address_of tree \<longrightarrow> a \<noteq> address_of recipient \<longrightarrow> L' a = L a)"
proof -
  obtain authority config tree recipient :: account_view and rest c l tr pr reserve where
    acc: "accounts = authority # config # tree # recipient # rest" "is_signer authority" "config_at R L config c"
    "fee_authority c = address_of authority" and foreign: "\<not> owned_by L recipient (rt_program_id R)"
    and tree: "tree_at R L tree l" and rent: "minimum_balance R (data_len (acc_data (L (address_of tree)))) = Inr tr"
    "minimum_balance R NULLIFIER_PDA_SIZE = Inr pr"
    and reserve: "claim_reserve (fst (release_fee_surplus l)) tr pr = Inr reserve"
    and above: "reserve < lamports L (address_of tree)"
    and pay: "pay_reimbursement_with_rent_minimum (address_of tree) (address_of recipient)
       (lamports L (address_of tree) - reserve) reserve
       (set_data (address_of tree) (Tree_Data (fst (release_fee_surplus l))) L) = Inr L'"
    using assms unfolding claim_tree_lamports_success by blast
  let ?l = "fst (release_fee_surplus l)" and ?t = "address_of tree" and ?r = "address_of recipient"
  let ?L = "set_data ?t (Tree_Data ?l) L"
  have ne: "?t \<noteq> ?r" using foreign tree_at_owned[OF tree] by (auto simp: owned_by_def)
  note moved = pay_moves_lamports[OF pay ne]
  have same: "live_nullifier_pdas ?l = live_nullifier_pdas l" "ta_nullifier ?l = ta_nullifier l"
    by (simp_all add: release_fee_surplus_def Let_def)
  have res: "reserve = tr + min (fee_balance l) (fee_balance_reserve l)
      + (3 * nt_batch_size (ta_nullifier l) - live_nullifier_pdas l) * pr"
    using claim_reserve_eq_Inr[OF reserve] by (simp add: same release_fee_surplus_balance)
  have left: "lamports L' ?t = reserve" "lamports L' ?r = lamports L ?r + (lamports L ?t - reserve)"
    using moved(1,2) above by simp_all
  have room: "\<forall>k \<le> 3 * nt_batch_size (ta_nullifier l) - live_nullifier_pdas l.
      tr + fee_balance ?l + k * pr \<le> lamports L' ?t"
    unfolding left(1) res by (simp add: release_fee_surplus_balance)
  have "\<forall>a. a \<noteq> ?t \<longrightarrow> a \<noteq> ?r \<longrightarrow> L' a = L a" using moved(5) by (simp add: set_data_other)
  moreover have "acc_data (L' ?t) = Tree_Data ?l" using moved(6) by simp
  moreover have "acc_owner (L ?r) \<noteq> rt_program_id R" using foreign by (simp add: owned_by_def)
  ultimately show ?thesis
    by - (rule exI[of _ authority], rule exI[of _ config], rule exI[of _ tree], rule exI[of _ recipient],
        rule exI[of _ rest], rule exI[of _ c], rule exI[of _ l], rule exI[of _ tr], rule exI[of _ pr],
        rule exI[of _ "lamports L ?t - reserve"], use acc tree rent room above left res in simp)
qed


lemma demo_tree_batch: "nt_batch_size (ta_nullifier demo_tree) = 1000"
proof -
  have "nt_reachable head_hash accept_all 100 10 (ta_nullifier demo_tree)"
    using demo_tree_init(9)[of head_hash accept_all]
    by (simp add: tree_ok_def demo_tree_init(8) NULLIFIER_TREE_ZKP_BATCHES_def)
  then obtain vals log where "nt_repr head_hash 100 10 (ta_nullifier demo_tree) vals log"
    using nt_reachable_repr[OF poseidon_ok_head] by blast
  then show ?thesis by (simp add: nt_repr_defs)
qed

text \<open>Loading looks only at the header constants and the two trees.\<close>

lemma check_layout_cong:
  "ta_utxo l' = ta_utxo l \<Longrightarrow> ta_nullifier l' = ta_nullifier l \<Longrightarrow> check_layout l' = check_layout l"
  by (simp only: check_layout_def)

lemma demo_tree_at:
  assumes "ta_utxo l = ta_utxo demo_tree" "ta_nullifier l = ta_nullifier demo_tree" "ta_discriminator l = 1"
  shows "tree_at demo_runtime (demo_ledger l n) (user_view 11) l"
proof -
  have "check_layout l = Inr ()"
    using tree_ok_check_layout[OF poseidon_ok_head demo_tree_init(9)] check_layout_cong[OF assms(1,2)] by simp
  then show ?thesis
    using assms(3) by (simp add: tree_at_def account_simps owned_by_def demo_ledger_def demo_runtime_def demo_address_inj
        data_prefix_def tree_of_data_def TREE_ACCOUNT_DISCRIMINATOR_def)
qed

lemma demo_lamports:
  "lamports (demo_ledger l n) (demo_address 11) = n"
  "lamports (demo_ledger l n) (demo_address 30) = 1000000"
  "acc_owner (demo_ledger l n (demo_address 30)) = system_program_id"
  "acc_data (demo_ledger l n (demo_address 11)) = Tree_Data l"
  by (simp_all add: demo_ledger_def lamports_def demo_address_inj)

theorem claim_leaves_exactly_the_reserve_witness:
  "\<exists>L'. process_claim_tree_lamports demo_runtime [user_view 5, user_view 10, user_view 11, user_view 30] []
      (demo_ledger demo_tree 5000000) = Inr L'
    \<and> (\<exists>authority config tree recipient rest c l tr pr paid.
        [user_view 5, user_view 10, user_view 11, user_view 30] = authority # config # tree # recipient # rest
        \<and> tree_at demo_runtime (demo_ledger demo_tree 5000000) tree l \<and> 0 < paid
        \<and> lamports (demo_ledger demo_tree 5000000) (address_of tree) = lamports L' (address_of tree) + paid
        \<and> lamports L' (address_of tree) = tr + min (fee_balance l) (fee_balance_reserve l)
             + (3 * nt_batch_size (ta_nullifier l) - live_nullifier_pdas l) * pr)"
proof -
  let ?L = "demo_ledger demo_tree 5000000" and ?vs = "[user_view 5, user_view 10, user_view 11, user_view 30]"
  have tree: "load_tree_allow_paused demo_runtime ?L (user_view 11) = Inr demo_tree"
    using demo_tree_at[of demo_tree 5000000] demo_tree_init(2) by (simp add: tree_at_def)
  have cfg: "load_and_validate_fee_authority demo_runtime ?L (user_view 10) (user_view 5) = Inr demo_config"
    using demo_config_at by (simp add: validate_authority_eq_Inr)
  have rcp: "check_reimbursement_recipient demo_runtime ?L (user_view 30) = Inr ()"
    using demo_system_id[of 100] by (simp add: account_simps owned_by_def demo_lamports demo_runtime_def)
  have rel: "release_fee_surplus demo_tree = (demo_tree, 0)"
    by (simp add: release_fee_surplus_def demo_tree_init(6) saturating_sub_def Let_def)
  have res: "claim_reserve demo_tree (demo_rent account_size) (demo_rent NULLIFIER_PDA_SIZE) = Inr 3731800"
    by (simp add: claim_reserve_def tree_liquid_working_capital_lamports_def demo_tree_init(6,7) demo_tree_batch
        checked_add_def checked_mul_def saturating_sub_def NUM_BATCHES_def u64_limit_def demo_rent_def
        NULLIFIER_PDA_SIZE_def account_size_value)
  have bal: "minimum_balance demo_runtime m = Inr (demo_rent m)" for m by (simp add: demo_runtime_def)
  have owner: "\<not> owned_by ?L (user_view 30) (rt_program_id demo_runtime)" using rcp by (simp add: account_simps)
  let ?L1 = "set_data (demo_address 11) (Tree_Data demo_tree) ?L"
  obtain L' where pay: "pay_reimbursement_with_rent_minimum (demo_address 11) (demo_address 30) (5000000 - 3731800) 3731800 ?L1 = Inr L'"
    by (simp add: pay_reimbursement_with_rent_minimum_eq_Inr demo_lamports u64_limit_def)
  have L': "process_claim_tree_lamports demo_runtime ?vs [] ?L = Inr L'"
    unfolding claim_tree_lamports_success
    by (rule exI[of _ "user_view 5"], rule exI[of _ "user_view 10"], rule exI[of _ "user_view 11"], rule exI[of _ "user_view 30"],
        rule exI[of _ "[]"], rule exI[of _ demo_config], rule exI[of _ demo_tree], rule exI[of _ "demo_rent account_size"],
        rule exI[of _ "demo_rent NULLIFIER_PDA_SIZE"], rule exI[of _ 3731800])
      (use tree owner rel res pay demo_config_at in \<open>simp add: tree_at_def bal demo_lamports data_len_def\<close>)
  from claim_leaves_exactly_the_reserve[OF L'] show ?thesis
    by (elim exE conjE) (rule exI, rule conjI, rule L', intro exI conjI, assumption+)
qed



section \<open>Stepwise creation\<close>

text \<open>The buffer of a started creation, and an account that holds it.\<close>

definition pending_buffer :: "address \<Rightarrow> bytes \<Rightarrow> nat \<Rightarrow> bytes" where
  "pending_buffer payer ix_data n =
    replicate utxo_tree_offset 0 @ payer @ ix_data @ replicate (n - utxo_tree_offset - length payer - length ix_data) 0"

definition pending_at :: "runtime \<Rightarrow> ledger \<Rightarrow> address \<Rightarrow> address \<Rightarrow> bytes \<Rightarrow> nat \<Rightarrow> bool" where
  "pending_at R L tree payer ix_data n \<longleftrightarrow>
     acc_owner (L tree) = rt_program_id R \<and> acc_data (L tree) = Bytes (pending_buffer payer ix_data n)
     \<and> length payer = 32 \<and> utxo_tree_offset + 32 + length ix_data \<le> n"

definition CREATE_TREE_LEN :: nat where "CREATE_TREE_LEN = 46"

lemma length_pending_buffer:
  "utxo_tree_offset + length payer + length ix_data \<le> n \<Longrightarrow> length (pending_buffer payer ix_data n) = n"
  by (simp add: pending_buffer_def)

lemma write_at_zeros:
  "utxo_tree_offset + length payer + length ix_data \<le> n \<Longrightarrow>
     write_at utxo_tree_offset (payer @ ix_data) (replicate n 0) = pending_buffer payer ix_data n"
  by (simp add: write_at_def pending_buffer_def min_def)

lemma clear_pending_buffer:
  assumes "length payer = 32" "utxo_tree_offset + 32 + length ix_data \<le> n"
  shows "write_at utxo_tree_offset (replicate (32 + length ix_data) 0) (pending_buffer payer ix_data n) = replicate n 0"
proof -
  have "replicate utxo_tree_offset 0 @ replicate (32 + length ix_data) 0
      @ replicate (n - utxo_tree_offset - 32 - length ix_data) 0 = replicate n (0 :: byte)"
    using assms(2) by (simp flip: replicate_add)
  then show ?thesis using assms(1) by (simp add: write_at_def pending_buffer_def)
qed

lemma resize_pending_buffer:
  assumes "utxo_tree_offset + length payer + length ix_data \<le> n" "n \<le> m"
  shows "resize_bytes m (pending_buffer payer ix_data n) = pending_buffer payer ix_data m"
proof -
  have "replicate (n - utxo_tree_offset - length payer - length ix_data) 0 @ replicate (m - n) (0 :: byte)
      = replicate (m - utxo_tree_offset - length payer - length ix_data) 0"
    using assms by (simp flip: replicate_add)
  then show ?thesis
    using assms length_pending_buffer[OF assms(1)] by (simp add: resize_bytes_def pending_buffer_def)
qed

lemma pending_slots_buffer:
  assumes "length payer = 32" "utxo_tree_offset + 32 + length ix_data \<le> n"
  shows "pending_slots ix_data (Bytes (pending_buffer payer ix_data n)) = Inr (pending_buffer payer ix_data n, payer, ix_data)"
  using assms length_pending_buffer[of payer ix_data n] by (simp add: pending_slots_def) (simp add: pending_buffer_def)

lemma pending_state_byte:
  assumes "utxo_tree_offset + length payer + length ix_data \<le> n"
  shows "get (pending_buffer payer ix_data n) 1 = Some 0"
    "Option.bind (data_prefix 2 (Bytes (pending_buffer payer ix_data n))) (\<lambda>p. get p 1) = Some 0"
proof -
  have "pending_buffer payer ix_data n ! 1 = 0" "1 < n"
    using assms by (simp_all add: pending_buffer_def utxo_tree_offset_def account_size_value nth_append)
  then show "get (pending_buffer payer ix_data n) 1 = Some 0"
    "Option.bind (data_prefix 2 (Bytes (pending_buffer payer ix_data n))) (\<lambda>p. get p 1) = Some 0"
    using length_pending_buffer[OF assms] by (simp_all add: get_def data_prefix_def)
qed

text \<open>All valid payloads have one length, so a record cannot match a longer or shorter one.\<close>

lemma read_create_tree_length:
  "try_from_slice read_create_tree bs = Some d \<Longrightarrow> length bs = CREATE_TREE_LEN"
  by (auto simp: try_from_slice_def read_create_tree_def read_nullifier_params_def read_tree_fee_schedule_def
      read_uint_def read_then_def read_bytes_def read_return_def CREATE_TREE_LEN_def
      split: option.splits prod.splits list.splits if_splits)

lemma pending_check_exclusive:
  assumes at: "pending_at R L tree payer ix_data n" and len: "length ix_data' = length ix_data"
  shows "pending_check payer' ix_data' tree L =
    (if payer' = payer \<and> ix_data' = ix_data then Inr () else Inl (pool_err TreeCreationMismatch))"
proof -
  have b: "length payer = 32" "utxo_tree_offset + 32 + length ix_data \<le> n"
    "acc_data (L tree) = Bytes (pending_buffer payer ix_data n)" using at by (simp_all add: pending_at_def)
  have "pending_slots ix_data' (acc_data (L tree)) = Inr (pending_buffer payer ix_data n, payer, ix_data)"
    using pending_slots_buffer[OF b(1,2)] len b(3) by (auto simp: pending_slots_def split: if_splits)
  then show ?thesis
    using pending_state_byte(2)[of payer ix_data n] b by (auto simp: pending_check_def UNINITIALIZED_def)
qed

lemma grow_pending:
  assumes at: "pending_at R L (address_of tree) payer ix_data n" and "is_writable tree" "n < account_size"
  shows "\<exists>L2. grow_tree R tree tree_account_size L = Inr L2
    \<and> pending_at R L2 (address_of tree) payer ix_data (min (n + TREE_ALLOCATION_STEP) account_size)
    \<and> (\<forall>a. lamports L2 a = lamports L a) \<and> (\<forall>a. a \<noteq> address_of tree \<longrightarrow> L2 a = L a)"
proof -
  let ?m = "min (n + TREE_ALLOCATION_STEP) account_size"
  have b: "length payer = 32" "utxo_tree_offset + length payer + length ix_data \<le> n"
    "acc_data (L (address_of tree)) = Bytes (pending_buffer payer ix_data n)"
    "acc_owner (L (address_of tree)) = rt_program_id R" using at by (simp_all add: pending_at_def)
  have "n \<le> ?m" using assms(3) by simp
  have sat: "saturating_add n TREE_ALLOCATION_STEP = n + TREE_ALLOCATION_STEP"
    using assms(3) by (simp add: saturating_add_def TREE_ALLOCATION_STEP_def u64_max_def u64_limit_def account_size_value)
  let ?L = "set_data (address_of tree) (Bytes (pending_buffer payer ix_data ?m)) L"
  have "grow_tree R tree tree_account_size L = Inr ?L"
    using b assms(2,3) sat length_pending_buffer[OF b(2)] pending_state_byte(1)[OF b(2)] resize_pending_buffer[OF b(2) \<open>n \<le> ?m\<close>]
    by (simp add: grow_tree_def owned_by_def tree_account_size_def data_len_def UNINITIALIZED_def)
  moreover have "pending_at R ?L (address_of tree) payer ix_data ?m"
    using b \<open>n \<le> ?m\<close> by (simp add: pending_at_def)
  ultimately show ?thesis by (simp add: set_data_other)
qed

lemma finish_pending:
  assumes dec: "decode_ok (tree_decode R)" and at: "pending_at R L tree payer ix_data account_size"
    and valid: "params_validate (ct_nullifier_params d) = Inr ()" "fees_validate (ct_fees d) = Inr ()"
    and funded: "amount \<le> lamports L tree"
  shows "\<exists>L' l. finish_tree R d ix_data payer' tree amount L = Inr L' \<and> L' = set_data tree (Tree_Data l) L
    \<and> tree_ok P G l [] \<and> ta_discriminator l = TREE_ACCOUNT_DISCRIMINATOR \<and> ta_tree_id l = ct_tree_id d
    \<and> ta_state l = INITIALIZED \<and> fees l = ct_fees d \<and> fee_balance l = 0 \<and> live_nullifier_pdas l = 0"
proof -
  have b: "length payer = 32" "utxo_tree_offset + 32 + length ix_data \<le> account_size"
    "acc_data (L tree) = Bytes (pending_buffer payer ix_data account_size)" using at by (simp_all add: pending_at_def)
  let ?L1 = "set_data tree (Bytes (replicate account_size 0)) L"
  have clear: "pending_clear ix_data tree L = Inr ?L1"
    using pending_slots_buffer[OF b(1,2)] clear_pending_buffer[OF b(1,2)] b(3) by (simp add: pending_clear_def)
  have fund: "fund_tree R payer' tree amount ?L1 = Inr ?L1"
    using funded by (simp add: fund_tree_def saturating_sub_def)
  obtain l where l: "tree_account_init (tree_decode R) (replicate account_size 0) TREE_ACCOUNT_DISCRIMINATOR
      UTXO_TREE_HEIGHT (ct_tree_id d) (ct_nullifier_params d) (ct_fees d) = Inr l" "tree_ok P G l []"
    "ta_discriminator l = TREE_ACCOUNT_DISCRIMINATOR" "ta_tree_id l = ct_tree_id d" "ta_state l = INITIALIZED"
    "fees l = ct_fees d" "fee_balance l = 0" "live_nullifier_pdas l = 0"
    using tree_account_init_ok[OF dec valid] by metis
  have "STATE_HEIGHT = UTXO_TREE_HEIGHT" by (simp add: STATE_HEIGHT_def UTXO_TREE_HEIGHT_def)
  moreover have "set_data tree (Tree_Data l) ?L1 = set_data tree (Tree_Data l) L" by (simp add: set_data_def)
  ultimately have "finish_tree R d ix_data payer' tree amount L = Inr (set_data tree (Tree_Data l) L)"
    using clear fund l(1) by (simp add: finish_tree_def)
  then show ?thesis using l by blast
qed


text \<open>The part of a call that does not depend on the ledger.\<close>

definition create_tree_call :: "runtime \<Rightarrow> account_view list \<Rightarrow> bytes \<Rightarrow> create_tree_data \<Rightarrow> account_view \<Rightarrow> account_view
    \<Rightarrow> account_view \<Rightarrow> account_view \<Rightarrow> nat \<Rightarrow> bool" where
  "create_tree_call R accounts ix_data d payer authority config tree bump \<longleftrightarrow>
     try_from_slice read_create_tree ix_data = Some d \<and> fees_validate (ct_fees d) = Inr ()
     \<and> params_validate (ct_nullifier_params d) = Inr ()
     \<and> (\<exists>system rest. accounts = payer # authority # config # tree # system # rest \<and> address_of system = system_program_id)
     \<and> is_signer payer \<and> is_writable payer \<and> is_signer authority \<and> is_writable config \<and> is_writable tree
     \<and> derive_program_address R [TREE_PDA_SEED, to_le_bytes 2 (ct_tree_id d)] (rt_program_id R) = Some (address_of tree, bump)"

lemma process_create_tree_iff:
  "process_create_tree R accounts ix_data L = Inr L' \<longleftrightarrow>
     (\<exists>d payer authority config tree bump. create_tree_call R accounts ix_data d payer authority config tree bump
        \<and> create_tree_step R d ix_data payer authority config tree bump L = Inr L')"
  by (auto simp: process_create_tree_def create_tree_call_def result_simps next_account_eq_Inr next_signer_eq_Inr
      next_mut_eq_Inr next_signer_mut_eq_Inr verify_pda_eq_Inr split: if_splits)

lemma create_tree_call_unique:
  "create_tree_call R accounts ix_data d payer authority config tree bump \<Longrightarrow>
   create_tree_call R accounts ix_data d' payer' authority' config' tree' bump' \<Longrightarrow>
     d' = d \<and> payer' = payer \<and> authority' = authority \<and> config' = config \<and> tree' = tree \<and> bump' = bump"
  by (auto simp: create_tree_call_def)

lemma process_create_tree_call:
  "create_tree_call R accounts ix_data d payer authority config tree bump \<Longrightarrow>
     process_create_tree R accounts ix_data L = Inr L' \<longleftrightarrow>
     create_tree_step R d ix_data payer authority config tree bump L = Inr L'"
  unfolding process_create_tree_iff using create_tree_call_unique by metis

definition may_create_trees :: "protocol_config \<Rightarrow> account_view \<Rightarrow> bool" where
  "may_create_trees c v \<longleftrightarrow> allows_permissionless_tree_creation c \<or> tree_creation_authority c = address_of v"

lemma claim_tree_id_iff:
  "claim_tree_id R config authority tree_id unallocated L = Inr L1 \<longleftrightarrow>
     is_writable config \<and> (\<exists>c. config_at R L config c \<and> may_create_trees c authority \<and>
       (if unallocated then tree_id = next_tree_id c \<and> u16_ok (tree_id + 1)
          \<and> L1 = set_data (address_of config) (Bytes (protocol_config_bytes (c\<lparr>next_tree_id := tree_id + 1\<rparr>))) L
        else L1 = L))"
proof (cases "load_protocol_config_mut R L config")
  case (Inl e)
  then have "\<not> (is_writable config \<and> config_at R L config c)" for c
    using load_protocol_config_eq_Inr(2)[of R L config c] by auto
  then show ?thesis using Inl by (auto simp: claim_tree_id_def)
next
  case (Inr c)
  then have at: "is_writable config" "config_at R L config c"
    using load_protocol_config_eq_Inr(2)[of R L config c] by auto
  then have uniq: "(\<exists>c'. config_at R L config c' \<and> Q c') \<longleftrightarrow> Q c" for Q using config_at_unique by metis
  have may: "may_create_trees c authority \<longleftrightarrow>
      \<not> (\<not> allows_permissionless_tree_creation c \<and> \<not> is_ok (check_tree_creation_authority c (address_of authority)))"
    by (auto simp: may_create_trees_def check_tree_creation_authority_def ensure_def)
  show ?thesis
    unfolding uniq may using Inr at(1)
    by (cases "allows_permissionless_tree_creation c"; cases unallocated; cases "tree_id = next_tree_id c")
      (auto simp: claim_tree_id_def checked_add_u16_def split: if_splits)
qed


lemma fund_tree_effect:
  assumes "system_ok R" "fund_tree R payer tree amount L = Inr L'"
  shows "acc_data (L' a) = acc_data (L a)" "acc_owner (L' a) = acc_owner (L a)"
    "payer \<noteq> tree \<Longrightarrow> amount \<le> lamports L' tree"
  using assms(2)
  by (auto simp: fund_tree_def saturating_sub_def Let_def lamports_move_lamports split: if_splits
      dest!: system_transfer[OF assms(1)])

lemma tree_allocation_effect:
  assumes sys: "system_ok R" and run: "tree_allocation_create R payer tree seed bump full_size amount L = Inr L'"
  shows "acc_owner (L' tree) = rt_program_id R" "acc_data (L' tree) = Bytes (replicate (min full_size TREE_ALLOCATION_STEP) 0)"
    "a \<noteq> tree \<Longrightarrow> acc_data (L' a) = acc_data (L a) \<and> acc_owner (L' a) = acc_owner (L a)"
    "payer \<noteq> tree \<Longrightarrow> amount \<le> lamports L' tree"
proof -
  let ?seeds = "[TREE_PDA_SEED, seed, [of_nat bump]]" and ?space = "min full_size TREE_ALLOCATION_STEP"
  have "acc_owner (L' tree) = rt_program_id R \<and> acc_data (L' tree) = Bytes (replicate ?space 0)
    \<and> (\<forall>a. a \<noteq> tree \<longrightarrow> acc_data (L' a) = acc_data (L a) \<and> acc_owner (L' a) = acc_owner (L a))
    \<and> (payer \<noteq> tree \<longrightarrow> amount \<le> lamports L' tree)"
  proof (cases "lamports L tree = 0")
    case True
    then have "system_cpi R (Create_Account payer tree amount ?space (rt_program_id R) ?seeds) L = Inr L'"
      using run by (simp add: tree_allocation_create_def)
    from system_create_account[OF sys this] show ?thesis by (simp add: lamports_move_lamports)
  next
    case False
    then obtain L1 L2 where "system_cpi R (Allocate tree ?space ?seeds) L = Inr L1"
      "system_cpi R (Assign tree (rt_program_id R) ?seeds) L1 = Inr L2" and f: "fund_tree R payer tree amount L2 = Inr L'"
      using run by (auto simp: tree_allocation_create_def result_simps Let_def)
    then have "L1 = set_data tree (Bytes (replicate ?space 0)) L" "L2 = L1(tree := (L1 tree)\<lparr>acc_owner := rt_program_id R\<rparr>)"
      using system_allocate[OF sys] system_assign[OF sys] by blast+
    then show ?thesis using fund_tree_effect[OF sys f] by simp
  qed
  then show "acc_owner (L' tree) = rt_program_id R" "acc_data (L' tree) = Bytes (replicate ?space 0)"
    "a \<noteq> tree \<Longrightarrow> acc_data (L' a) = acc_data (L a) \<and> acc_owner (L' a) = acc_owner (L a)"
    "payer \<noteq> tree \<Longrightarrow> amount \<le> lamports L' tree" by blast+
qed

definition creation_amount :: "runtime \<Rightarrow> create_tree_data \<Rightarrow> nat \<Rightarrow> bool" where
  "creation_amount R d amount \<longleftrightarrow> (\<exists>tree_rent pda_rent. minimum_balance R tree_account_size = Inr tree_rent
     \<and> minimum_balance R NULLIFIER_PDA_SIZE = Inr pda_rent
     \<and> tree_creation_lamports (ct_nullifier_params d) tree_rent pda_rent = Some amount)"

lemma creation_amount_unique: "creation_amount R d a \<Longrightarrow> creation_amount R d b \<longleftrightarrow> b = a"
  by (auto simp: creation_amount_def)

lemma create_tree_step_iff:
  "create_tree_step R d ix_data payer authority config tree bump L = Inr L' \<longleftrightarrow>
     (\<exists>amount L1 L2. creation_amount R d amount
       \<and> claim_tree_id R config authority (ct_tree_id d) (is_unallocated L (address_of tree)) L = Inr L1
       \<and> allocate_or_grow R d ix_data (address_of payer) tree bump (is_unallocated L (address_of tree)) amount L1 = Inr L2
       \<and> (if data_len (acc_data (L2 (address_of tree))) < account_size then L' = L2
          else finish_tree R d ix_data (address_of payer) (address_of tree) amount L2 = Inr L'))"
  by (auto simp: create_tree_step_def creation_amount_def result_simps Let_def tree_account_size_def split: if_splits)

lemma record_effect:
  assumes "acc_data (L tree) = Bytes (replicate n 0)" "length payer = 32" "utxo_tree_offset + 32 + length ix_data \<le> n"
  shows "pending_record payer ix_data tree L = Inr (set_data tree (Bytes (pending_buffer payer ix_data n)) L)"
  using assms write_at_zeros[of payer ix_data n] by (simp add: pending_record_def pending_slots_def)

lemma create_tree_first_step:
  assumes sys: "system_ok R" and call: "create_tree_call R accounts ix_data d payer authority config tree bump"
    and run: "create_tree_step R d ix_data payer authority config tree bump L = Inr L'"
    and fresh: "is_unallocated L (address_of tree)" and len: "length (address_of payer) = 32"
  shows "\<exists>c amount. config_at R L config c \<and> may_create_trees c authority \<and> ct_tree_id d = next_tree_id c
    \<and> config_at R L' config (c\<lparr>next_tree_id := ct_tree_id d + 1\<rparr>)
    \<and> pending_at R L' (address_of tree) (address_of payer) ix_data TREE_ALLOCATION_STEP
    \<and> creation_amount R d amount \<and> (address_of payer \<noteq> address_of tree \<longrightarrow> amount \<le> lamports L' (address_of tree))"
proof -
  obtain amount L1 L2 where am: "creation_amount R d amount"
    and claim: "claim_tree_id R config authority (ct_tree_id d) True L = Inr L1"
    and alloc: "allocate_or_grow R d ix_data (address_of payer) tree bump True amount L1 = Inr L2"
    and rest: "if data_len (acc_data (L2 (address_of tree))) < account_size then L' = L2
          else finish_tree R d ix_data (address_of payer) (address_of tree) amount L2 = Inr L'"
    using run fresh unfolding create_tree_step_iff by auto
  obtain c where c: "config_at R L config c" "may_create_trees c authority" "ct_tree_id d = next_tree_id c"
    "u16_ok (ct_tree_id d + 1)"
    and L1: "L1 = set_data (address_of config) (Bytes (protocol_config_bytes (c\<lparr>next_tree_id := ct_tree_id d + 1\<rparr>))) L"
    using claim unfolding claim_tree_id_iff by auto
  let ?c = "c\<lparr>next_tree_id := ct_tree_id d + 1\<rparr>" and ?t = "address_of tree"
  obtain La where La: "tree_allocation_create R (address_of payer) ?t (to_le_bytes 2 (ct_tree_id d)) bump
      tree_account_size amount L1 = Inr La" "pending_record (address_of payer) ix_data ?t La = Inr L2"
    using alloc by (auto simp: allocate_or_grow_def result_simps)
  note eff = tree_allocation_effect[OF sys La(1)]
  have ixl: "length ix_data = 46" using read_create_tree_length call by (auto simp: create_tree_call_def CREATE_TREE_LEN_def)
  have space: "min tree_account_size TREE_ALLOCATION_STEP = TREE_ALLOCATION_STEP"
    "utxo_tree_offset + 32 + length ix_data \<le> TREE_ALLOCATION_STEP" "TREE_ALLOCATION_STEP < account_size"
    using ixl by (simp_all add: tree_account_size_def TREE_ALLOCATION_STEP_def account_size_value utxo_tree_offset_def)
  have L2: "L2 = set_data ?t (Bytes (pending_buffer (address_of payer) ix_data TREE_ALLOCATION_STEP)) La"
    using La(2) record_effect[OF _ len space(2), of La ?t] eff(2) unfolding space(1) by simp
  have "data_len (acc_data (L2 ?t)) = TREE_ALLOCATION_STEP"
    using length_pending_buffer[of "address_of payer" ix_data TREE_ALLOCATION_STEP] len space(2) by (simp add: L2 data_len_def)
  then have L': "L' = L2" using rest space(3) by simp
  have wf: "protocol_config_wf ?c" "pc_discriminator ?c = PROTOCOL_CONFIG"
    using c by (simp_all add: config_at_def protocol_config_wf_def)
  have cfg1: "config_at R L1 config ?c" unfolding L1 by (rule config_at_set_data[OF c(1) wf])
  have "length (protocol_config_bytes c) = 166"
    using c(1) protocol_config.enc_length by (simp add: config_at_def protocol_config_size PROTOCOL_CONFIG_SIZE_def)
  then have ne: "address_of config \<noteq> ?t" using fresh c(1) by (auto simp: is_unallocated_def config_at_def data_len_def)
  have "config_at R L' config ?c"
    using cfg1 eff(3)[OF ne] ne by (simp add: L' L2 config_at_def)
  moreover have "pending_at R L' ?t (address_of payer) ix_data TREE_ALLOCATION_STEP"
    using eff(1) len space(2) by (simp add: L' L2 pending_at_def)
  ultimately show ?thesis using c am eff(4) by (auto simp: L' L2 simp del: One_nat_def)
qed

lemma create_tree_later_step:
  assumes dec: "decode_ok (tree_decode R)" and call: "create_tree_call R accounts ix_data d payer authority config tree bump"
    and at: "pending_at R L (address_of tree) (address_of payer) ix_data n" "n < account_size"
    and cfg: "config_at R L config c" "may_create_trees c authority"
    and funded: "creation_amount R d amount" "amount \<le> lamports L (address_of tree)"
  shows "\<exists>L'. create_tree_step R d ix_data payer authority config tree bump L = Inr L'
    \<and> (\<forall>a. a \<noteq> address_of tree \<longrightarrow> L' a = L a) \<and> (\<forall>a. lamports L' a = lamports L a)
    \<and> (if n + TREE_ALLOCATION_STEP < account_size
       then pending_at R L' (address_of tree) (address_of payer) ix_data (n + TREE_ALLOCATION_STEP)
       else (\<exists>l. acc_data (L' (address_of tree)) = Tree_Data l \<and> tree_ok P G l []
              \<and> ta_tree_id l = ct_tree_id d \<and> fees l = ct_fees d \<and> fee_balance l = 0))"
proof -
  let ?t = "address_of tree" and ?m = "min (n + TREE_ALLOCATION_STEP) account_size"
  have w: "is_writable tree" "is_writable config" "params_validate (ct_nullifier_params d) = Inr ()" "fees_validate (ct_fees d) = Inr ()"
    using call by (simp_all add: create_tree_call_def)
  have nl: "length (pending_buffer (address_of payer) ix_data n) = n" "0 < n"
    using at(1) by (simp_all add: pending_at_def length_pending_buffer)
  then have un: "\<not> is_unallocated L ?t" using at(1) by (auto simp: is_unallocated_def pending_at_def data_len_def)
  have claim: "claim_tree_id R config authority (ct_tree_id d) False L = Inr L"
    unfolding claim_tree_id_iff using cfg w(2) by auto
  obtain L2 where L2: "grow_tree R tree tree_account_size L = Inr L2" "pending_at R L2 ?t (address_of payer) ix_data ?m"
    "\<forall>a. lamports L2 a = lamports L a" "\<forall>a. a \<noteq> ?t \<longrightarrow> L2 a = L a"
    using grow_pending[OF at(1) w(1) at(2)] by blast
  have grow: "allocate_or_grow R d ix_data (address_of payer) tree bump False amount L = Inr L2"
    using L2(1) pending_check_exclusive[OF L2(2), of ix_data "address_of payer"] by (simp add: allocate_or_grow_def)
  have len2: "data_len (acc_data (L2 ?t)) = ?m"
    using L2(2) by (simp add: pending_at_def data_len_def length_pending_buffer)
  have step: "create_tree_step R d ix_data payer authority config tree bump L = Inr L' \<longleftrightarrow>
      (if ?m < account_size then L' = L2 else finish_tree R d ix_data (address_of payer) ?t amount L2 = Inr L')" for L'
    unfolding create_tree_step_iff creation_amount_unique[OF funded(1)] len2[symmetric] using un claim grow by simp
  show ?thesis
  proof (cases "n + TREE_ALLOCATION_STEP < account_size")
    case True
    then have "?m = n + TREE_ALLOCATION_STEP" by simp
    then show ?thesis using True step[of L2] L2 by (intro exI[of _ L2]) simp
  next
    case False
    then have m: "?m = account_size" by simp
    obtain L' l where L': "finish_tree R d ix_data (address_of payer) ?t amount L2 = Inr L'"
      "L' = set_data ?t (Tree_Data l) L2" "tree_ok P G l []" "ta_tree_id l = ct_tree_id d" "fees l = ct_fees d" "fee_balance l = 0"
      using finish_pending[OF dec L2(2)[unfolded m] w(3,4), of amount "address_of payer" P G] funded(2) L2(3) by auto
    then show ?thesis
      using False m step[of L'] L2(3,4) by (intro exI[of _ L']) (simp add: set_data_other)
  qed
qed


lemma creation_repeats:
  assumes dec: "decode_ok (tree_decode R)" and call: "create_tree_call R accounts ix_data d payer authority config tree bump"
    and at: "pending_at R L (address_of tree) (address_of payer) ix_data n" "n + k * TREE_ALLOCATION_STEP < account_size"
      "account_size \<le> n + Suc k * TREE_ALLOCATION_STEP"
    and cfg: "config_at R L config c" "may_create_trees c authority" "address_of config \<noteq> address_of tree"
    and funded: "creation_amount R d amount" "amount \<le> lamports L (address_of tree)"
  shows "\<exists>L' l. try_fold (\<lambda>L _. process_create_tree R accounts ix_data L) L (replicate (Suc k) ()) = Inr L'
    \<and> (\<forall>a. a \<noteq> address_of tree \<longrightarrow> L' a = L a) \<and> (\<forall>a. lamports L' a = lamports L a)
    \<and> acc_data (L' (address_of tree)) = Tree_Data l \<and> tree_ok P G l []
    \<and> ta_tree_id l = ct_tree_id d \<and> fees l = ct_fees d \<and> fee_balance l = 0"
  using at cfg funded
proof (induction k arbitrary: L n)
  case 0
  then show ?case
    using create_tree_later_step[OF dec call 0(1) _ 0(4,5,7,8), of P G]
    by (auto simp: result_simps process_create_tree_call[OF call])
next
  case (Suc k)
  have big: "n < account_size" "n + TREE_ALLOCATION_STEP < account_size" using Suc.prems(2) by simp_all
  obtain L1 where L1: "process_create_tree R accounts ix_data L = Inr L1"
    "\<forall>a. a \<noteq> address_of tree \<longrightarrow> L1 a = L a" "\<forall>a. lamports L1 a = lamports L a"
    "pending_at R L1 (address_of tree) (address_of payer) ix_data (n + TREE_ALLOCATION_STEP)"
    using create_tree_later_step[OF dec call Suc.prems(1) big(1) Suc.prems(4,5,7,8)] big(2)
    by (auto simp: process_create_tree_call[OF call])
  have cfg1: "config_at R L1 config c" using Suc.prems(4,6) L1(2) by (simp add: config_at_def)
  have am1: "amount \<le> lamports L1 (address_of tree)" using Suc.prems(8) L1(3) by simp
  have "n + TREE_ALLOCATION_STEP + k * TREE_ALLOCATION_STEP < account_size"
    "account_size \<le> n + TREE_ALLOCATION_STEP + Suc k * TREE_ALLOCATION_STEP" using Suc.prems(2,3) by simp_all
  from Suc.IH[OF L1(4) this cfg1 Suc.prems(5,6,7) am1] show ?case using L1(1,2,3) by simp
qed

text \<open>
  C24.  Stepwise creation completes.  Once the first call of a creation has
  succeeded, repeating the same call as often as the step count says finishes
  the tree, whatever else the ledger holds: no further lamports are needed, the
  id is the one the config handed out, the counter moved by exactly one over all
  the steps, and the tree is in the initial state that loading accepts.
\<close>
theorem tree_creation_completes:
  assumes sys: "system_ok R" and dec: "decode_ok (tree_decode R)" and fresh: "is_unallocated L (address_of tree)"
    and acc: "accounts = payer # authority # config # tree # rest"
    and payer: "length (address_of payer) = 32" "address_of payer \<noteq> address_of tree"
    and first: "process_create_tree R accounts ix_data L = Inr L1"
  shows "\<exists>L' c l. try_fold (\<lambda>L _. process_create_tree R accounts ix_data L) L1
      (replicate (tree_creation_step_count - 1) ()) = Inr L'
    \<and> (\<forall>a. lamports L' a = lamports L1 a)
    \<and> config_at R L config c \<and> config_at R L' config (c\<lparr>next_tree_id := next_tree_id c + 1\<rparr>)
    \<and> (allows_permissionless_tree_creation c \<or> tree_creation_authority c = address_of authority)
    \<and> acc_data (L' (address_of tree)) = Tree_Data l \<and> tree_ok P G l [] \<and> ta_tree_id l = next_tree_id c
    \<and> fee_balance l = 0"
proof -
  obtain d bump where call: "create_tree_call R accounts ix_data d payer authority config tree bump"
    using first acc unfolding process_create_tree_iff by (auto simp: create_tree_call_def)
  have "create_tree_step R d ix_data payer authority config tree bump L = Inr L1"
    using first process_create_tree_call[OF call] by simp
  from create_tree_first_step[OF sys call this fresh payer(1)] obtain c amount where
    c: "config_at R L config c" "may_create_trees c authority" "ct_tree_id d = next_tree_id c"
    "config_at R L1 config (c\<lparr>next_tree_id := ct_tree_id d + 1\<rparr>)"
    and at: "pending_at R L1 (address_of tree) (address_of payer) ix_data TREE_ALLOCATION_STEP"
    and am: "creation_amount R d amount" "amount \<le> lamports L1 (address_of tree)"
    using payer(2) by blast
  have "length (protocol_config_bytes c) = 166"
    using c(1) protocol_config.enc_length by (simp add: config_at_def protocol_config_size PROTOCOL_CONFIG_SIZE_def)
  then have ne: "address_of config \<noteq> address_of tree"
    using fresh c(1) by (auto simp: is_unallocated_def config_at_def data_len_def)
  have may: "may_create_trees (c\<lparr>next_tree_id := ct_tree_id d + 1\<rparr>) authority"
    using c(2) by (simp add: may_create_trees_def allows_permissionless_tree_creation_def)
  have n: "TREE_ALLOCATION_STEP + 2 * TREE_ALLOCATION_STEP < account_size"
    "account_size \<le> TREE_ALLOCATION_STEP + Suc 2 * TREE_ALLOCATION_STEP" "tree_creation_step_count - 1 = Suc 2"
    by (simp_all add: account_size_value TREE_ALLOCATION_STEP_def tree_creation_step_count_def tree_account_size_def div_ceil_def)
  obtain L' l where L': "try_fold (\<lambda>L _. process_create_tree R accounts ix_data L) L1
      (replicate (tree_creation_step_count - 1) ()) = Inr L'" "\<forall>a. a \<noteq> address_of tree \<longrightarrow> L' a = L1 a"
    "\<forall>a. lamports L' a = lamports L1 a" "acc_data (L' (address_of tree)) = Tree_Data l" "tree_ok P G l []"
    "ta_tree_id l = ct_tree_id d" "fee_balance l = 0"
    using creation_repeats[OF dec call at n(1,2) c(4) may ne am, of P G] unfolding n(3) by blast
  have "config_at R L' config (c\<lparr>next_tree_id := next_tree_id c + 1\<rparr>)"
    using c(3,4) L'(2) ne by (simp add: config_at_def)
  then show ?thesis using L' c(1,2,3) unfolding may_create_trees_def by auto
qed

definition demo_tree_view :: account_view where
  "demo_tree_view = \<lparr>address_of = take 32 (TREE_PDA_SEED @ to_le_bytes 2 7 @ replicate 32 7),
     is_signer = False, is_writable = True, is_executable = False\<rparr>"

definition demo_system_view :: account_view where
  "demo_system_view = \<lparr>address_of = system_program_id, is_signer = False, is_writable = False, is_executable = True\<rparr>"

text \<open>Address 20 pays for the creation.\<close>

definition demo_creation_ledger :: ledger where
  "demo_creation_ledger = (demo_ledger demo_tree 0)
     (demo_address 20 := \<lparr>acc_owner = system_program_id, acc_lamports = 10 ^ 12, acc_data = Bytes []\<rparr>)"

abbreviation demo_creation_accounts :: "account_view list" where
  "demo_creation_accounts \<equiv> [user_view 20, user_view 2, user_view 10, demo_tree_view, demo_system_view]"

lemma demo_creation_call:
  "create_tree_call demo_runtime demo_creation_accounts (write_create_tree demo_create_tree) demo_create_tree
     (user_view 20) (user_view 2) (user_view 10) demo_tree_view 255"
proof -
  have "create_tree_wf demo_create_tree"
    by (simp add: create_tree_wf_def demo_create_tree_def nullifier_tree_params_def default_tree_fees_def
        DEFAULT_NULLIFIER_BATCH_SIZE_def DEFAULT_NULLIFIER_ZKP_BATCH_SIZE_def NULLIFIER_TREE_ZKP_BATCHES_def
        DEFAULT_FEE_PER_TREE_LAMPORTS_def AT_COST_APPEND_REIMBURSEMENT_LAMPORTS_def
        AT_COST_CLOSE_REIMBURSEMENT_LAMPORTS_def u16_limit_def u64_limit_def)
  then have "try_from_slice read_create_tree (write_create_tree demo_create_tree) = Some demo_create_tree"
    by (intro try_from_slice_reads reads_create_tree)
  moreover have "fees_validate (ct_fees demo_create_tree) = Inr ()" "params_validate (ct_nullifier_params demo_create_tree) = Inr ()"
    by (simp_all add: demo_create_tree_def fees_validate_def params_validate_def default_tree_fees_def nullifier_tree_params_def
        MAX_FEE_PER_TREE_def DEFAULT_FEE_PER_TREE_LAMPORTS_def DEFAULT_NULLIFIER_TREE_HEIGHT_def match_circuit_size_def
        SUPPORTED_ZKP_BATCH_SIZES_def DEFAULT_NULLIFIER_BATCH_SIZE_def DEFAULT_NULLIFIER_ZKP_BATCH_SIZE_def
        validate_configuration_def NULLIFIER_TREE_ZKP_BATCHES_def)
  moreover have "ct_tree_id demo_create_tree = 7" by (simp add: demo_create_tree_def)
  ultimately show ?thesis
    by (simp add: create_tree_call_def demo_tree_view_def demo_system_view_def demo_runtime_def demo_pda_def)
qed

lemma demo_creation_amount: "creation_amount demo_runtime demo_create_tree 1665068800"
  by (simp add: creation_amount_def demo_runtime_def demo_rent_def tree_creation_lamports_def tree_working_capital_lamports_def
      tree_liquid_working_capital_lamports_def demo_create_tree_def nullifier_tree_params_def DEFAULT_NULLIFIER_BATCH_SIZE_def
      DEFAULT_NULLIFIER_ZKP_BATCH_SIZE_def NULLIFIER_TREE_ZKP_BATCHES_def checked_add_def checked_mul_def saturating_sub_def
      NUM_BATCHES_def u64_limit_def NULLIFIER_PDA_SIZE_def tree_account_size_def account_size_value)

lemma demo_tree_address:
  "address_of demo_tree_view \<noteq> demo_address n" "address_of demo_tree_view \<noteq> system_program_id"
  "length (address_of demo_tree_view) = 32"
proof -
  have "hd (address_of demo_tree_view) = 116" "hd (demo_address n) = 0" "hd system_program_id = 0"
    by (simp_all add: demo_tree_view_def TREE_PDA_SEED_def demo_address_def system_program_id_def zero32_def)
  then show "address_of demo_tree_view \<noteq> demo_address n" "address_of demo_tree_view \<noteq> system_program_id" by auto
  show "length (address_of demo_tree_view) = 32" by (simp add: demo_tree_view_def TREE_PDA_SEED_def)
qed

lemma demo_allocation:
  assumes "unused_account L t" "0 < lamports L t" "amount \<le> lamports L p" "p \<noteq> t"
  shows "\<exists>La. tree_allocation_create demo_runtime p t seed bump full_size amount L = Inr La"
  using assms by (simp add: tree_allocation_create_def demo_runtime_def unused_account_def fund_tree_def Let_def
      saturating_sub_def lamports_def set_data_def) linarith

lemma demo_creation_first:
  "\<exists>L1. process_create_tree demo_runtime demo_creation_accounts (write_create_tree demo_create_tree) demo_creation_ledger = Inr L1"
proof -
  let ?t = "address_of demo_tree_view" and ?ix = "write_create_tree demo_create_tree"
  have L: "demo_creation_ledger ?t = \<lparr>acc_owner = system_program_id, acc_lamports = 1000000, acc_data = Bytes []\<rparr>"
    by (simp add: demo_creation_ledger_def demo_ledger_def demo_tree_address)
  have "config_at demo_runtime demo_creation_ledger (user_view 10) demo_config"
    using demo_config_at[of demo_tree 0] by (simp add: config_at_def demo_creation_ledger_def demo_address_inj)
  then have claim: "claim_tree_id demo_runtime (user_view 10) (user_view 2) 7 True demo_creation_ledger =
      Inr (set_data (demo_address 10) (Bytes (protocol_config_bytes (demo_config\<lparr>next_tree_id := 8\<rparr>))) demo_creation_ledger)"
    unfolding claim_tree_id_iff by (auto simp: may_create_trees_def u16_limit_def)
  let ?L1 = "set_data (demo_address 10) (Bytes (protocol_config_bytes (demo_config\<lparr>next_tree_id := 8\<rparr>))) demo_creation_ledger"
  have at: "?L1 ?t = \<lparr>acc_owner = system_program_id, acc_lamports = 1000000, acc_data = Bytes []\<rparr>"
    "lamports ?L1 (demo_address 20) = 10 ^ 12"
    using L by (simp_all add: set_data_def demo_tree_address demo_creation_ledger_def lamports_def demo_address_inj)
  then obtain La where La: "tree_allocation_create demo_runtime (demo_address 20) ?t (to_le_bytes 2 7) 255
      tree_account_size 1665068800 ?L1 = Inr La"
    using demo_allocation[of ?L1 ?t 1665068800 "demo_address 20" "to_le_bytes 2 7" 255 tree_account_size] demo_tree_address(1)[of 20]
    by (auto simp: unused_account_def lamports_def)
  have len: "length ?ix = 46" by (simp add: write_create_tree_def write_tree_fee_schedule_def)
  have space: "min tree_account_size TREE_ALLOCATION_STEP = TREE_ALLOCATION_STEP"
    "utxo_tree_offset + 32 + length ?ix \<le> TREE_ALLOCATION_STEP" "TREE_ALLOCATION_STEP < account_size"
    using len by (simp_all add: tree_account_size_def TREE_ALLOCATION_STEP_def account_size_value utxo_tree_offset_def)
  let ?L2 = "set_data ?t (Bytes (pending_buffer (demo_address 20) ?ix TREE_ALLOCATION_STEP)) La"
  have "pending_record (demo_address 20) ?ix ?t La = Inr ?L2"
    using record_effect[OF _ _ space(2)] tree_allocation_effect(2)[OF system_ok_demo La] by (simp add: space(1))
  then have "allocate_or_grow demo_runtime demo_create_tree ?ix (demo_address 20) demo_tree_view 255 True 1665068800 ?L1 = Inr ?L2"
    using La by (simp add: allocate_or_grow_def demo_create_tree_def)
  moreover have "data_len (acc_data (?L2 ?t)) < account_size"
    using space(2,3) by (simp add: data_len_def length_pending_buffer)
  moreover have "is_unallocated demo_creation_ledger ?t" using L by (simp add: is_unallocated_def data_len_def)
  ultimately have "create_tree_step demo_runtime demo_create_tree ?ix (user_view 20) (user_view 2) (user_view 10)
      demo_tree_view 255 demo_creation_ledger = Inr ?L2"
    unfolding create_tree_step_iff creation_amount_unique[OF demo_creation_amount] using claim by (simp add: demo_create_tree_def)
  then show ?thesis using process_create_tree_call[OF demo_creation_call] by blast
qed

theorem tree_creation_completes_witness:
  "\<exists>L1 L' l. process_create_tree demo_runtime demo_creation_accounts (write_create_tree demo_create_tree) demo_creation_ledger = Inr L1
    \<and> try_fold (\<lambda>L _. process_create_tree demo_runtime demo_creation_accounts (write_create_tree demo_create_tree) L) L1
        (replicate (tree_creation_step_count - 1) ()) = Inr L'
    \<and> acc_data (L' (address_of demo_tree_view)) = Tree_Data l \<and> ta_tree_id l = 7 \<and> fee_balance l = 0"
proof -
  obtain L1 where first: "process_create_tree demo_runtime demo_creation_accounts (write_create_tree demo_create_tree)
      demo_creation_ledger = Inr L1" using demo_creation_first by blast
  have dec: "decode_ok (tree_decode demo_runtime)" using decode_ok_demo by (simp add: demo_runtime_def)
  have fresh: "is_unallocated demo_creation_ledger (address_of demo_tree_view)"
    by (simp add: is_unallocated_def data_len_def demo_creation_ledger_def demo_ledger_def demo_tree_address)
  have cfg: "config_at demo_runtime demo_creation_ledger (user_view 10) demo_config"
    using demo_config_at[of demo_tree 0] by (simp add: config_at_def demo_creation_ledger_def demo_address_inj)
  have payer: "length (address_of (user_view 20)) = 32" "address_of (user_view 20) \<noteq> address_of demo_tree_view"
    using demo_tree_address(1)[of 20] by auto
  obtain L' c l where L': "try_fold (\<lambda>L _. process_create_tree demo_runtime demo_creation_accounts (write_create_tree demo_create_tree) L) L1
        (replicate (tree_creation_step_count - 1) ()) = Inr L'"
    "config_at demo_runtime demo_creation_ledger (user_view 10) c"
    "acc_data (L' (address_of demo_tree_view)) = Tree_Data l" "ta_tree_id l = next_tree_id c" "fee_balance l = 0"
    using tree_creation_completes[OF system_ok_demo dec fresh refl payer first, of head_hash accept_all] by blast
  moreover have "c = demo_config" using config_at_unique[OF L'(2) cfg] .
  ultimately show ?thesis using first by auto
qed

text \<open>
  C25.  A started creation belongs to whoever started it.  While a tree is being
  created, a call on that account succeeds only for the recorded payer with the
  recorded parameters, byte for byte; nobody else can complete the tree with
  other fees or batch sizes.
\<close>
theorem started_creation_is_exclusive:
  assumes at: "pending_at R L (address_of tree) creator started n" "length started = CREATE_TREE_LEN" "n < account_size"
    and run: "process_create_tree R (payer # authority # config # tree # rest) ix_data L = Inr L'"
  shows "address_of payer = creator \<and> ix_data = started \<and> is_signer payer"
proof -
  obtain d bump where call: "create_tree_call R (payer # authority # config # tree # rest) ix_data d payer authority config tree bump"
    using run unfolding process_create_tree_iff by (auto simp: create_tree_call_def)
  have w: "is_writable tree" "is_signer payer" "length ix_data = CREATE_TREE_LEN"
    using call read_create_tree_length by (auto simp: create_tree_call_def)
  have un: "\<not> is_unallocated L (address_of tree)"
    using at(1) by (auto simp: is_unallocated_def pending_at_def data_len_def length_pending_buffer)
  then obtain amount L1 L2 where
    claim: "claim_tree_id R config authority (ct_tree_id d) False L = Inr L1"
    and grow: "allocate_or_grow R d ix_data (address_of payer) tree bump False amount L1 = Inr L2"
    using run unfolding process_create_tree_call[OF call] create_tree_step_iff by auto
  have "L1 = L" using claim unfolding claim_tree_id_iff by auto
  moreover obtain La where La: "grow_tree R tree tree_account_size L = Inr La"
    "pending_at R La (address_of tree) creator started (min (n + TREE_ALLOCATION_STEP) account_size)"
    using grow_pending[OF at(1) w(1) at(3)] by blast
  ultimately have "pending_check (address_of payer) ix_data (address_of tree) La = Inr ()"
    using grow by (auto simp: allocate_or_grow_def result_simps)
  then show ?thesis
    using pending_check_exclusive[OF La(2), of ix_data] w(2,3) at(2) by (simp split: if_splits)
qed


theorem started_creation_is_exclusive_witness:
  "\<exists>L1 L2. pending_at demo_runtime L1 (address_of demo_tree_view) (demo_address 20) (write_create_tree demo_create_tree) TREE_ALLOCATION_STEP
    \<and> process_create_tree demo_runtime demo_creation_accounts (write_create_tree demo_create_tree) L1 = Inr L2
    \<and> \<not> is_ok (process_create_tree demo_runtime [user_view 21, user_view 2, user_view 10, demo_tree_view, demo_system_view]
         (write_create_tree demo_create_tree) L1)"
proof -
  let ?ix = "write_create_tree demo_create_tree"
  obtain L1 where first: "process_create_tree demo_runtime demo_creation_accounts ?ix demo_creation_ledger = Inr L1"
    using demo_creation_first by blast
  have dec: "decode_ok (tree_decode demo_runtime)" using decode_ok_demo by (simp add: demo_runtime_def)
  have fresh: "is_unallocated demo_creation_ledger (address_of demo_tree_view)"
    by (simp add: is_unallocated_def data_len_def demo_creation_ledger_def demo_ledger_def demo_tree_address)
  have ne: "demo_address 20 \<noteq> address_of demo_tree_view" using demo_tree_address(1)[of 20] by auto
  obtain c amount where c: "may_create_trees c (user_view 2)"
      "config_at demo_runtime L1 (user_view 10) (c\<lparr>next_tree_id := ct_tree_id demo_create_tree + 1\<rparr>)"
      "creation_amount demo_runtime demo_create_tree amount" "amount \<le> lamports L1 (address_of demo_tree_view)"
    and at: "pending_at demo_runtime L1 (address_of demo_tree_view) (demo_address 20) ?ix TREE_ALLOCATION_STEP"
    using create_tree_first_step[OF system_ok_demo demo_creation_call first[unfolded process_create_tree_call[OF demo_creation_call]] fresh] ne
    by auto
  have n: "TREE_ALLOCATION_STEP < account_size" by (simp add: account_size_value TREE_ALLOCATION_STEP_def)
  have may: "may_create_trees (c\<lparr>next_tree_id := ct_tree_id demo_create_tree + 1\<rparr>) (user_view 2)"
    using c(1) by (simp add: may_create_trees_def allows_permissionless_tree_creation_def)
  obtain L2 where L2: "process_create_tree demo_runtime demo_creation_accounts ?ix L1 = Inr L2"
    using create_tree_later_step[OF dec demo_creation_call _ n c(2) may c(3,4), of head_hash accept_all] at
    by (auto simp: process_create_tree_call[OF demo_creation_call])
  have len: "length ?ix = CREATE_TREE_LEN"
    by (simp add: write_create_tree_def write_tree_fee_schedule_def CREATE_TREE_LEN_def)
  have "\<not> is_ok (process_create_tree demo_runtime [user_view 21, user_view 2, user_view 10, demo_tree_view, demo_system_view] ?ix L1)"
    using started_creation_is_exclusive[OF at len n, of "user_view 21" "user_view 2" "user_view 10" "[demo_system_view]" ?ix]
    by (auto simp: is_ok_def demo_address_inj split: sum.splits)
  then show ?thesis using at L2 by blast
qed

end
