(* ===== verification/Wire.thy ===== *)
theory Wire
  imports Instruction_Data
begin

text \<open>
  Length-prefixed sequences and options as Borsh and wincode write them, over the
  readers of \<open>Instruction_Data\<close>.  The prefix width is a parameter: Borsh counts in
  four bytes, the wincode containers of this program in one or two.  A \<open>codec\<close> is
  a reader with a writer it undoes; its encodings are self-delimiting, which is
  what the hashes over concatenated encodings rely on.
\<close>

fun read_times :: "'a reader \<Rightarrow> nat \<Rightarrow> 'a list reader" where
  "read_times r 0 = read_return []"
| "read_times r (Suc n) = read_then r (\<lambda>x. read_then (read_times r n) (\<lambda>xs. read_return (x # xs)))"

definition read_vec :: "nat \<Rightarrow> 'a reader \<Rightarrow> 'a list reader" where
  "read_vec width r = read_then (read_uint width) (read_times r)"

definition read_blob :: "nat \<Rightarrow> bytes reader" where
  "read_blob width = read_then (read_uint width) read_bytes"

definition read_option :: "'a reader \<Rightarrow> 'a option reader" where
  "read_option r = read_then (read_uint 1) (\<lambda>t.
    if t = 0 then read_return None
    else if t = 1 then read_then r (\<lambda>x. read_return (Some x)) else read_fail)"

definition read_u8 :: "nat reader" where "read_u8 = read_uint 1"

definition write_u8 :: "nat \<Rightarrow> bytes" where "write_u8 n = to_le_bytes 1 n"

definition write_vec :: "nat \<Rightarrow> ('a \<Rightarrow> bytes) \<Rightarrow> 'a list \<Rightarrow> bytes" where
  "write_vec width w xs = to_le_bytes width (length xs) @ concat (map w xs)"

definition write_blob :: "nat \<Rightarrow> bytes \<Rightarrow> bytes" where
  "write_blob width bs = to_le_bytes width (length bs) @ bs"

definition write_option :: "('a \<Rightarrow> bytes) \<Rightarrow> 'a option \<Rightarrow> bytes" where
  "write_option w v = (case v of None \<Rightarrow> [0] | Some x \<Rightarrow> 1 # w x)"

definition option_ok :: "('a \<Rightarrow> bool) \<Rightarrow> 'a option \<Rightarrow> bool" where
  "option_ok ok v = (case v of None \<Rightarrow> True | Some x \<Rightarrow> ok x)"

definition vec_ok :: "nat \<Rightarrow> ('a \<Rightarrow> bool) \<Rightarrow> 'a list \<Rightarrow> bool" where
  "vec_ok width ok xs \<longleftrightarrow> length xs < 256 ^ width \<and> list_all ok xs"

definition blob_ok :: "nat \<Rightarrow> bytes \<Rightarrow> bool" where
  "blob_ok width bs \<longleftrightarrow> length bs < 256 ^ width"

abbreviation bytes_ok :: "nat \<Rightarrow> bytes \<Rightarrow> bool" where
  "bytes_ok n bs \<equiv> length bs = n"


section \<open>Readers undo their writers\<close>

lemma reads_times:
  "list_all ok xs \<Longrightarrow> (\<And>x. ok x \<Longrightarrow> reads r (w x) x) \<Longrightarrow> reads (read_times r (length xs)) (concat (map w xs)) xs"
proof (induction xs)
  case Nil
  then show ?case by (simp add: reads_return)
next
  case (Cons x xs)
  then show ?case
    using reads_then[of r "w x" x _ "concat (map w xs)" "x # xs"]
    by (simp add: reads_last)
qed

lemma reads_vec:
  "vec_ok width ok xs \<Longrightarrow> (\<And>x. ok x \<Longrightarrow> reads r (w x) x) \<Longrightarrow> reads (read_vec width r) (write_vec width w xs) xs"
  unfolding read_vec_def write_vec_def vec_ok_def by (intro reads_then[OF reads_uint] reads_times[of ok]) auto

lemma reads_blob: "blob_ok width bs \<Longrightarrow> reads (read_blob width) (write_blob width bs) bs"
  unfolding read_blob_def write_blob_def blob_ok_def by (intro reads_then[OF reads_uint] reads_bytes) auto

lemma reads_option:
  assumes "option_ok ok v" "\<And>x. ok x \<Longrightarrow> reads r (w x) x"
  shows "reads (read_option r) (write_option w v) v"
proof (cases v)
  case None
  then show ?thesis by (simp add: read_option_def write_option_def reads_tag reads_return)
next
  case (Some x)
  then have "reads r (w x) x" using assms by (simp add: option_ok_def)
  then show ?thesis using Some by (simp add: read_option_def write_option_def reads_tag reads_last)
qed

text \<open>The last field of a record: what is read is handed to the constructor.\<close>

lemma reads_final: "reads r bs x \<Longrightarrow> g x = y \<Longrightarrow> reads (read_then r (\<lambda>x. read_return (g x))) bs y"
  using reads_last[of r bs x "\<lambda>x. read_return (g x)" y] by simp

lemma reads_bool_then: "reads (f b) ys y \<Longrightarrow> reads (read_then read_bool f) (bool_byte b # ys) y"
  using reads_then[OF reads_bool, of f b ys y] by simp

lemma reads_u8: "n < 256 \<Longrightarrow> reads read_u8 (write_u8 n) n"
  unfolding read_u8_def write_u8_def by (rule reads_uint) simp

text \<open>The steps of a record's codec: fixed bytes, integers and blobs, in the middle and at the end.\<close>

lemmas codec_steps = reads_then[OF reads_bytes] reads_then[OF reads_uint] reads_then[OF reads_blob] reads_then[OF reads_u8] reads_bool_then
  reads_final[OF reads_bytes] reads_final[OF reads_uint] reads_final[OF reads_blob] reads_final[OF reads_u8]

lemmas codec_limits = u64_limit_def u16_limit_def


section \<open>Codecs\<close>

locale codec =
  fixes rd :: "'a reader" and wr :: "'a \<Rightarrow> bytes" and ok :: "'a \<Rightarrow> bool"
  assumes law: "ok x \<Longrightarrow> reads rd (wr x) x"
begin

lemma prefix_free: "ok x \<Longrightarrow> ok y \<Longrightarrow> wr x @ s = wr y @ t \<Longrightarrow> x = y \<and> s = t"
  using law[of x] law[of y] unfolding reads_def by (metis Pair_inject option.inject)

lemma decode_encode: "ok x \<Longrightarrow> try_from_slice rd (wr x) = Some x"
  by (rule try_from_slice_reads[OF law])

lemma trailing_bytes_rejected: "ok x \<Longrightarrow> s \<noteq> [] \<Longrightarrow> try_from_slice rd (wr x @ s) = None"
  using law[of x] by (cases s) (simp_all add: reads_def try_from_slice_def)

lemma law_vec: "vec_ok width ok xs \<Longrightarrow> reads (read_vec width rd) (write_vec width wr xs) xs"
  by (rule reads_vec[OF _ law])

lemma law_option: "option_ok ok v \<Longrightarrow> reads (read_option rd) (write_option wr v) v"
  by (rule reads_option[OF _ law])

end

interpretation bytes32: codec "read_bytes 32" "\<lambda>bs. bs" "bytes_ok 32"
  by unfold_locales (rule reads_bytes)

interpretation blob16: codec "read_blob 2" "write_blob 2" "blob_ok 2"
  by unfold_locales (rule reads_blob)

interpretation blob32: codec "read_blob 4" "write_blob 4" "blob_ok 4"
  by unfold_locales (rule reads_blob)

end
