(* ===== verification/Events.thy ===== *)
theory Events
  imports Wire
begin

text \<open>
  The indexer-facing events of \<open>program-libs/event\<close>: their Borsh encoding, the
  \<open>EMIT_EVENT\<close> instruction that carries them, and the payload encodings of
  deposit and merge outputs (\<open>proofless.rs\<close>, \<open>merge_output.rs\<close>).  Borsh derives
  field-by-field encodings, integers little-endian, vectors with a four-byte
  count.  The borrowed \<open>Ref\<close> structs have the same encoding as the owned ones, so
  each is one record here.
\<close>

section \<open>Event bodies (lib.rs, output\_data.rs, output\_utxo.rs)\<close>

record message_data =
  md_view_tag :: bytes
  md_data :: bytes

record output_utxo =
  ou_view_tag :: bytes
  ou_utxo_hash :: bytes
  ou_data :: bytes

record input =
  ei_tree :: bytes
  ei_input_queue_seq :: nat
  ei_nullifier :: bytes

record spl_transfer =
  st_is_deposit :: bool
  st_amount :: nat
  st_asset :: "bytes option"

record general_event =
  ge_inputs :: "input list"
  ge_outputs :: "output_utxo list"
  ge_messages :: "message_data list"
  ge_tx_viewing_pk :: bytes
  ge_salt :: bytes
  ge_first_output_leaf_index :: nat
  ge_output_tree :: bytes
  ge_spl_transfers :: "spl_transfer list"

record input_tree_sequence =
  its_tree :: bytes
  first_input_queue_seq :: nat

record transact_event =
  te_input_trees :: "input_tree_sequence list"
  te_output_tree :: bytes
  te_first_output_leaf_index :: nat

record merge_event =
  me_input_trees :: "input_tree_sequence list"
  me_output_tree :: bytes
  me_output_leaf_index :: nat
  me_output_view_tag :: bytes

datatype event_kind = Deposit_Event | Transact_Event | Merge_Event | NullifierTreeUpdate_Event

primrec event_kind_byte :: "event_kind \<Rightarrow> byte" where
  "event_kind_byte Deposit_Event = 1"
| "event_kind_byte Transact_Event = 2"
| "event_kind_byte Merge_Event = 3"
| "event_kind_byte NullifierTreeUpdate_Event = 4"

definition event_kind_from_byte :: "byte \<Rightarrow> event_kind option" where
  "event_kind_from_byte b =
    (if b = 1 then Some Deposit_Event else if b = 2 then Some Transact_Event
     else if b = 3 then Some Merge_Event else if b = 4 then Some NullifierTreeUpdate_Event else None)"


section \<open>Borsh\<close>

definition write_message_data :: "message_data \<Rightarrow> bytes" where
  "write_message_data m = md_view_tag m @ write_blob 4 (md_data m)"

definition read_message_data :: "message_data reader" where
  "read_message_data = read_then (read_bytes 32) (\<lambda>t. read_then (read_blob 4) (\<lambda>d.
    read_return \<lparr>md_view_tag = t, md_data = d\<rparr>))"

definition message_data_ok :: "message_data \<Rightarrow> bool" where
  "message_data_ok m \<longleftrightarrow> bytes_ok 32 (md_view_tag m) \<and> blob_ok 4 (md_data m)"

definition write_output_utxo :: "output_utxo \<Rightarrow> bytes" where
  "write_output_utxo u = ou_view_tag u @ ou_utxo_hash u @ write_blob 4 (ou_data u)"

definition read_output_utxo :: "output_utxo reader" where
  "read_output_utxo = read_then (read_bytes 32) (\<lambda>t. read_then (read_bytes 32) (\<lambda>h. read_then (read_blob 4) (\<lambda>d.
    read_return \<lparr>ou_view_tag = t, ou_utxo_hash = h, ou_data = d\<rparr>)))"

definition output_utxo_ok :: "output_utxo \<Rightarrow> bool" where
  "output_utxo_ok u \<longleftrightarrow> bytes_ok 32 (ou_view_tag u) \<and> bytes_ok 32 (ou_utxo_hash u) \<and> blob_ok 4 (ou_data u)"

definition write_input :: "input \<Rightarrow> bytes" where
  "write_input i = ei_tree i @ to_le_bytes 8 (ei_input_queue_seq i) @ ei_nullifier i"

definition read_input :: "input reader" where
  "read_input = read_then (read_bytes 32) (\<lambda>t. read_then (read_uint 8) (\<lambda>s. read_then (read_bytes 32) (\<lambda>n.
    read_return \<lparr>ei_tree = t, ei_input_queue_seq = s, ei_nullifier = n\<rparr>)))"

definition input_ok :: "input \<Rightarrow> bool" where
  "input_ok i \<longleftrightarrow> bytes_ok 32 (ei_tree i) \<and> u64_ok (ei_input_queue_seq i) \<and> bytes_ok 32 (ei_nullifier i)"

definition write_spl_transfer :: "spl_transfer \<Rightarrow> bytes" where
  "write_spl_transfer t = [bool_byte (st_is_deposit t)] @ to_le_bytes 8 (st_amount t) @ write_option (\<lambda>b. b) (st_asset t)"

definition read_spl_transfer :: "spl_transfer reader" where
  "read_spl_transfer = read_then read_bool (\<lambda>d. read_then (read_uint 8) (\<lambda>a.
    read_then (read_option (read_bytes 32)) (\<lambda>x. read_return \<lparr>st_is_deposit = d, st_amount = a, st_asset = x\<rparr>)))"

definition spl_transfer_ok :: "spl_transfer \<Rightarrow> bool" where
  "spl_transfer_ok t \<longleftrightarrow> u64_ok (st_amount t) \<and> option_ok (bytes_ok 32) (st_asset t)"

definition write_general_event :: "general_event \<Rightarrow> bytes" where
  "write_general_event e =
    write_vec 4 write_input (ge_inputs e) @ write_vec 4 write_output_utxo (ge_outputs e)
    @ write_vec 4 write_message_data (ge_messages e) @ ge_tx_viewing_pk e @ ge_salt e
    @ to_le_bytes 8 (ge_first_output_leaf_index e) @ ge_output_tree e
    @ write_vec 4 write_spl_transfer (ge_spl_transfers e)"

definition read_general_event :: "general_event reader" where
  "read_general_event =
    read_then (read_vec 4 read_input) (\<lambda>i. read_then (read_vec 4 read_output_utxo) (\<lambda>u.
    read_then (read_vec 4 read_message_data) (\<lambda>m. read_then (read_bytes 33) (\<lambda>k. read_then (read_bytes 16) (\<lambda>s.
    read_then (read_uint 8) (\<lambda>l. read_then (read_bytes 32) (\<lambda>t. read_then (read_vec 4 read_spl_transfer) (\<lambda>x.
    read_return \<lparr>ge_inputs = i, ge_outputs = u, ge_messages = m, ge_tx_viewing_pk = k, ge_salt = s,
      ge_first_output_leaf_index = l, ge_output_tree = t, ge_spl_transfers = x\<rparr>))))))))"

definition general_event_ok :: "general_event \<Rightarrow> bool" where
  "general_event_ok e \<longleftrightarrow> vec_ok 4 input_ok (ge_inputs e) \<and> vec_ok 4 output_utxo_ok (ge_outputs e)
     \<and> vec_ok 4 message_data_ok (ge_messages e) \<and> bytes_ok 33 (ge_tx_viewing_pk e) \<and> bytes_ok 16 (ge_salt e)
     \<and> u64_ok (ge_first_output_leaf_index e) \<and> bytes_ok 32 (ge_output_tree e)
     \<and> vec_ok 4 spl_transfer_ok (ge_spl_transfers e)"

definition write_input_tree_sequence :: "input_tree_sequence \<Rightarrow> bytes" where
  "write_input_tree_sequence s = its_tree s @ to_le_bytes 8 (first_input_queue_seq s)"

definition read_input_tree_sequence :: "input_tree_sequence reader" where
  "read_input_tree_sequence = read_then (read_bytes 32) (\<lambda>t. read_then (read_uint 8) (\<lambda>s.
    read_return \<lparr>its_tree = t, first_input_queue_seq = s\<rparr>))"

definition input_tree_sequence_ok :: "input_tree_sequence \<Rightarrow> bool" where
  "input_tree_sequence_ok s \<longleftrightarrow> bytes_ok 32 (its_tree s) \<and> u64_ok (first_input_queue_seq s)"

definition write_transact_event :: "transact_event \<Rightarrow> bytes" where
  "write_transact_event e = write_vec 4 write_input_tree_sequence (te_input_trees e) @ te_output_tree e
    @ to_le_bytes 8 (te_first_output_leaf_index e)"

definition read_transact_event :: "transact_event reader" where
  "read_transact_event = read_then (read_vec 4 read_input_tree_sequence) (\<lambda>i. read_then (read_bytes 32) (\<lambda>t.
    read_then (read_uint 8) (\<lambda>l.
    read_return \<lparr>te_input_trees = i, te_output_tree = t, te_first_output_leaf_index = l\<rparr>)))"

definition transact_event_ok :: "transact_event \<Rightarrow> bool" where
  "transact_event_ok e \<longleftrightarrow> vec_ok 4 input_tree_sequence_ok (te_input_trees e) \<and> bytes_ok 32 (te_output_tree e)
     \<and> u64_ok (te_first_output_leaf_index e)"

definition write_merge_event :: "merge_event \<Rightarrow> bytes" where
  "write_merge_event e = write_vec 4 write_input_tree_sequence (me_input_trees e) @ me_output_tree e
    @ to_le_bytes 8 (me_output_leaf_index e) @ me_output_view_tag e"

definition read_merge_event :: "merge_event reader" where
  "read_merge_event = read_then (read_vec 4 read_input_tree_sequence) (\<lambda>i. read_then (read_bytes 32) (\<lambda>t.
    read_then (read_uint 8) (\<lambda>l. read_then (read_bytes 32) (\<lambda>v.
    read_return \<lparr>me_input_trees = i, me_output_tree = t, me_output_leaf_index = l, me_output_view_tag = v\<rparr>))))"

definition merge_event_ok :: "merge_event \<Rightarrow> bool" where
  "merge_event_ok e \<longleftrightarrow> vec_ok 4 input_tree_sequence_ok (me_input_trees e) \<and> bytes_ok 32 (me_output_tree e)
     \<and> u64_ok (me_output_leaf_index e) \<and> bytes_ok 32 (me_output_view_tag e)"

definition write_update_event :: "nullifier_tree_update_event \<Rightarrow> bytes" where
  "write_update_event e = merkle_tree_pubkey e @ to_le_bytes 2 (ev_zkp_batch_size e) @ to_le_bytes 8 (old_next_index e)
    @ to_le_bytes 8 (start_sequence_number e) @ to_le_bytes 4 (first_root_index e) @ to_le_bytes 4 (num_update e)
    @ to_le_bytes 4 (first_zkp_batch_index e) @ ev_new_root e"

definition read_update_event :: "nullifier_tree_update_event reader" where
  "read_update_event = read_then (read_bytes 32) (\<lambda>k. read_then (read_uint 2) (\<lambda>z. read_then (read_uint 8) (\<lambda>old.
    read_then (read_uint 8) (\<lambda>s. read_then (read_uint 4) (\<lambda>r. read_then (read_uint 4) (\<lambda>n. read_then (read_uint 4) (\<lambda>i.
    read_then (read_bytes 32) (\<lambda>root.
    read_return \<lparr>merkle_tree_pubkey = k, ev_zkp_batch_size = z, old_next_index = old, start_sequence_number = s,
      first_root_index = r, num_update = n, first_zkp_batch_index = i, ev_new_root = root\<rparr>))))))))"

definition update_event_ok :: "nullifier_tree_update_event \<Rightarrow> bool" where
  "update_event_ok e \<longleftrightarrow> bytes_ok 32 (merkle_tree_pubkey e) \<and> u16_ok (ev_zkp_batch_size e) \<and> u64_ok (old_next_index e)
     \<and> u64_ok (start_sequence_number e) \<and> first_root_index e < 2 ^ 32 \<and> num_update e < 2 ^ 32
     \<and> first_zkp_batch_index e < 2 ^ 32 \<and> bytes_ok 32 (ev_new_root e)"

definition encode_event_instruction :: "event_kind \<Rightarrow> bytes \<Rightarrow> bytes" where
  "encode_event_instruction kind body = [of_nat (instruction_tag_byte EmitEvent), event_kind_byte kind] @ body"

section \<open>Output payloads (proofless.rs)\<close>

record proofless_output =
  po_owner :: bytes
  po_blinding :: bytes
  po_asset :: bytes
  po_amount :: nat
  po_data_hash :: "bytes option"
  po_utxo_data :: "bytes option"
  po_ring_program_id :: "bytes option"
  po_ring_data_hash :: "bytes option"
  po_ring_data :: "bytes option"
  po_memo :: "bytes option"

record encrypted_ring_deposit_data =
  erd_tx_viewing_pk :: bytes
  erd_salt :: bytes
  erd_ciphertext :: bytes

record encrypted_ring_deposit_output =
  ero_owner_utxo_hash :: bytes
  ero_asset :: bytes
  ero_amount :: nat
  ero_data_hash :: "bytes option"
  ero_ring_program_id :: bytes
  ero_ring_data_hash :: bytes
  ero_encrypted :: encrypted_ring_deposit_data

datatype output_data_encoding = Plaintext bytes | Encrypted bytes | VerifiablyEncrypted bytes

definition ENCRYPTED_RING_DEPOSIT_SCHEME :: byte where "ENCRYPTED_RING_DEPOSIT_SCHEME = 8"
definition PLAINTEXT_TAG :: byte where "PLAINTEXT_TAG = 0"
definition ENCRYPTED_TAG :: byte where "ENCRYPTED_TAG = 1"
definition PLAINTEXT_SCHEME :: byte where "PLAINTEXT_SCHEME = 0"
definition CONFIDENTIAL_ENCRYPTED_SCHEME_TAG :: byte where "CONFIDENTIAL_ENCRYPTED_SCHEME_TAG = 3"
definition RING_CONFIDENTIAL_ENCRYPTED_SCHEME_TAG :: byte where "RING_CONFIDENTIAL_ENCRYPTED_SCHEME_TAG = 4"
definition BODY_LEN_OFFSET :: nat where "BODY_LEN_OFFSET = 1"
definition BODY_OFFSET :: nat where "BODY_OFFSET = BODY_LEN_OFFSET + 4"

definition encrypted_output_body :: "bytes \<Rightarrow> byte \<Rightarrow> bytes option" where
  "encrypted_output_body d scheme =
    (case d of
       [] \<Rightarrow> None
     | encoding_tag # rest \<Rightarrow>
        if encoding_tag \<noteq> ENCRYPTED_TAG then None
        else if length rest < 4 then None
        else let body_len = from_le_bytes (take 4 rest) in
          case drop 4 rest of
            [] \<Rightarrow> None
          | scheme_byte # payload \<Rightarrow>
              if body_len = length (drop 4 rest) \<and> scheme_byte = scheme then Some payload else None)"

definition confidential_encrypted_output_body :: "bytes \<Rightarrow> bytes option" where
  "confidential_encrypted_output_body d = encrypted_output_body d CONFIDENTIAL_ENCRYPTED_SCHEME_TAG"

definition ring_confidential_encrypted_output_body :: "bytes \<Rightarrow> bytes option" where
  "ring_confidential_encrypted_output_body d = encrypted_output_body d RING_CONFIDENTIAL_ENCRYPTED_SCHEME_TAG"

definition is_confidential_encrypted_output :: "bytes \<Rightarrow> bool" where
  "is_confidential_encrypted_output d \<longleftrightarrow> confidential_encrypted_output_body d \<noteq> None"

text \<open>
  One buffer: tag, four zero bytes, scheme, body; the length is patched in
  afterwards.  \<open>None\<close> is the panic of a body whose length does not fit.
\<close>

definition encode_tagged_body :: "byte \<Rightarrow> byte \<Rightarrow> bytes \<Rightarrow> bytes option" where
  "encode_tagged_body encoding_tag scheme body =
    (let out = [encoding_tag] @ replicate 4 0 @ [scheme] @ body; body_len = length out - BODY_OFFSET in
     if body_len < 2 ^ 32
     then Some (take BODY_LEN_OFFSET out @ to_le_bytes 4 body_len @ drop BODY_OFFSET out)
     else None)"

definition write_proofless_output :: "proofless_output \<Rightarrow> bytes" where
  "write_proofless_output p = po_owner p @ po_blinding p @ po_asset p @ to_le_bytes 8 (po_amount p)
    @ write_option (\<lambda>b. b) (po_data_hash p) @ write_option (write_blob 4) (po_utxo_data p)
    @ write_option (\<lambda>b. b) (po_ring_program_id p) @ write_option (\<lambda>b. b) (po_ring_data_hash p)
    @ write_option (write_blob 4) (po_ring_data p) @ write_option (write_blob 4) (po_memo p)"

definition read_proofless_output :: "proofless_output reader" where
  "read_proofless_output =
    read_then (read_bytes 32) (\<lambda>owner. read_then (read_bytes 32) (\<lambda>b. read_then (read_bytes 32) (\<lambda>asset.
    read_then (read_uint 8) (\<lambda>amount. read_then (read_option (read_bytes 32)) (\<lambda>dh.
    read_then (read_option (read_blob 4)) (\<lambda>ud. read_then (read_option (read_bytes 32)) (\<lambda>rp.
    read_then (read_option (read_bytes 32)) (\<lambda>rh. read_then (read_option (read_blob 4)) (\<lambda>rd.
    read_then (read_option (read_blob 4)) (\<lambda>memo.
    read_return \<lparr>po_owner = owner, po_blinding = b, po_asset = asset, po_amount = amount, po_data_hash = dh,
      po_utxo_data = ud, po_ring_program_id = rp, po_ring_data_hash = rh, po_ring_data = rd, po_memo = memo\<rparr>))))))))))"

definition proofless_output_ok :: "proofless_output \<Rightarrow> bool" where
  "proofless_output_ok p \<longleftrightarrow> bytes_ok 32 (po_owner p) \<and> bytes_ok 32 (po_blinding p) \<and> bytes_ok 32 (po_asset p)
     \<and> u64_ok (po_amount p) \<and> option_ok (bytes_ok 32) (po_data_hash p) \<and> option_ok (blob_ok 4) (po_utxo_data p)
     \<and> option_ok (bytes_ok 32) (po_ring_program_id p) \<and> option_ok (bytes_ok 32) (po_ring_data_hash p)
     \<and> option_ok (blob_ok 4) (po_ring_data p) \<and> option_ok (blob_ok 4) (po_memo p)"

definition write_ring_deposit_output :: "encrypted_ring_deposit_output \<Rightarrow> bytes" where
  "write_ring_deposit_output p = ero_owner_utxo_hash p @ ero_asset p @ to_le_bytes 8 (ero_amount p)
    @ write_option (\<lambda>b. b) (ero_data_hash p) @ ero_ring_program_id p @ ero_ring_data_hash p
    @ erd_tx_viewing_pk (ero_encrypted p) @ erd_salt (ero_encrypted p) @ write_blob 4 (erd_ciphertext (ero_encrypted p))"

definition read_ring_deposit_output :: "encrypted_ring_deposit_output reader" where
  "read_ring_deposit_output =
    read_then (read_bytes 32) (\<lambda>owner. read_then (read_bytes 32) (\<lambda>asset. read_then (read_uint 8) (\<lambda>amount.
    read_then (read_option (read_bytes 32)) (\<lambda>dh. read_then (read_bytes 32) (\<lambda>rp. read_then (read_bytes 32) (\<lambda>rh.
    read_then (read_bytes 33) (\<lambda>pk. read_then (read_bytes 16) (\<lambda>salt. read_then (read_blob 4) (\<lambda>ct.
    read_return \<lparr>ero_owner_utxo_hash = owner, ero_asset = asset, ero_amount = amount, ero_data_hash = dh,
      ero_ring_program_id = rp, ero_ring_data_hash = rh,
      ero_encrypted = \<lparr>erd_tx_viewing_pk = pk, erd_salt = salt, erd_ciphertext = ct\<rparr>\<rparr>)))))))))"

definition ring_deposit_output_ok :: "encrypted_ring_deposit_output \<Rightarrow> bool" where
  "ring_deposit_output_ok p \<longleftrightarrow> bytes_ok 32 (ero_owner_utxo_hash p) \<and> bytes_ok 32 (ero_asset p) \<and> u64_ok (ero_amount p)
     \<and> option_ok (bytes_ok 32) (ero_data_hash p) \<and> bytes_ok 32 (ero_ring_program_id p) \<and> bytes_ok 32 (ero_ring_data_hash p)
     \<and> bytes_ok 33 (erd_tx_viewing_pk (ero_encrypted p)) \<and> bytes_ok 16 (erd_salt (ero_encrypted p))
     \<and> blob_ok 4 (erd_ciphertext (ero_encrypted p))"

definition encode_output_data :: "proofless_output \<Rightarrow> bytes option" where
  "encode_output_data p = encode_tagged_body PLAINTEXT_TAG PLAINTEXT_SCHEME (write_proofless_output p)"

definition encode_encrypted_ring_deposit_output :: "encrypted_ring_deposit_output \<Rightarrow> bytes option" where
  "encode_encrypted_ring_deposit_output p =
    encode_tagged_body ENCRYPTED_TAG ENCRYPTED_RING_DEPOSIT_SCHEME (write_ring_deposit_output p)"

primrec write_output_data_encoding :: "output_data_encoding \<Rightarrow> bytes" where
  "write_output_data_encoding (Plaintext b) = 0 # write_blob 4 b"
| "write_output_data_encoding (Encrypted b) = 1 # write_blob 4 b"
| "write_output_data_encoding (VerifiablyEncrypted b) = 2 # write_blob 4 b"

definition read_output_data_encoding :: "output_data_encoding reader" where
  "read_output_data_encoding = read_then (read_uint 1) (\<lambda>t.
    if t = 0 then read_then (read_blob 4) (\<lambda>b. read_return (Plaintext b))
    else if t = 1 then read_then (read_blob 4) (\<lambda>b. read_return (Encrypted b))
    else if t = 2 then read_then (read_blob 4) (\<lambda>b. read_return (VerifiablyEncrypted b))
    else read_fail)"

primrec output_data_encoding_ok :: "output_data_encoding \<Rightarrow> bool" where
  "output_data_encoding_ok (Plaintext b) = blob_ok 4 b"
| "output_data_encoding_ok (Encrypted b) = blob_ok 4 b"
| "output_data_encoding_ok (VerifiablyEncrypted b) = blob_ok 4 b"


section \<open>Merge outputs (merge\_output.rs)\<close>

definition MERGE_OUTPUT_SCHEME :: byte where "MERGE_OUTPUT_SCHEME = 6"
definition MERGE_OUTPUT_SALT_LEN :: nat where "MERGE_OUTPUT_SALT_LEN = 16"
definition MERGE_OUTPUT_CIPHERTEXT_LEN :: nat where "MERGE_OUTPUT_CIPHERTEXT_LEN = 3 * 32"
definition MERGE_OUTPUT_BODY_LEN :: nat where
  "MERGE_OUTPUT_BODY_LEN = MERGE_OUTPUT_SALT_LEN + MERGE_OUTPUT_CIPHERTEXT_LEN"

record merge_output_data =
  mo_salt :: bytes
  mo_ciphertext :: "bytes list"
  mo_prefix :: "bytes list"

definition encode_merge_output_data :: "merge_output_data \<Rightarrow> bytes" where
  "encode_merge_output_data d =
    (let blob = MERGE_OUTPUT_SCHEME # concat (mo_prefix d) @ mo_salt d @ concat (mo_ciphertext d) in
     write_output_data_encoding (if mo_prefix d \<noteq> [] then Encrypted blob else VerifiablyEncrypted blob))"

definition split_merge_output_body :: "bytes \<Rightarrow> (bytes option \<times> bytes) option" where
  "split_merge_output_body body =
    (if length body = MERGE_OUTPUT_BODY_LEN then Some (None, body)
     else if length body = 32 + MERGE_OUTPUT_BODY_LEN then Some (Some (take 32 body), drop 32 body)
     else None)"


section \<open>The encodings are decoded again\<close>

interpretation message_data: codec read_message_data write_message_data message_data_ok
  by unfold_locales
    (auto simp: read_message_data_def write_message_data_def message_data_ok_def intro!: codec_steps)

interpretation output_utxo: codec read_output_utxo write_output_utxo output_utxo_ok
  by unfold_locales
    (auto simp: read_output_utxo_def write_output_utxo_def output_utxo_ok_def intro!: codec_steps)

interpretation input: codec read_input write_input input_ok
  by unfold_locales
    (auto simp: read_input_def write_input_def input_ok_def codec_limits intro!: codec_steps)

interpretation spl_transfer: codec read_spl_transfer write_spl_transfer spl_transfer_ok
  by unfold_locales
    (auto simp: read_spl_transfer_def write_spl_transfer_def spl_transfer_ok_def codec_limits
      intro!: codec_steps reads_final[OF bytes32.law_option])

interpretation input_tree_sequence: codec read_input_tree_sequence write_input_tree_sequence input_tree_sequence_ok
  by unfold_locales
    (auto simp: read_input_tree_sequence_def write_input_tree_sequence_def input_tree_sequence_ok_def codec_limits
      intro!: codec_steps)

lemmas event_vecs = reads_then[OF input.law_vec] reads_then[OF output_utxo.law_vec] reads_then[OF message_data.law_vec]
  reads_final[OF spl_transfer.law_vec] reads_then[OF input_tree_sequence.law_vec]

interpretation general_event: codec read_general_event write_general_event general_event_ok
  by unfold_locales
    (auto simp: read_general_event_def write_general_event_def general_event_ok_def codec_limits
      intro!: event_vecs codec_steps)

interpretation transact_event: codec read_transact_event write_transact_event transact_event_ok
  by unfold_locales
    (auto simp: read_transact_event_def write_transact_event_def transact_event_ok_def codec_limits
      intro!: event_vecs codec_steps)

interpretation merge_event: codec read_merge_event write_merge_event merge_event_ok
  by unfold_locales
    (auto simp: read_merge_event_def write_merge_event_def merge_event_ok_def codec_limits
      intro!: event_vecs codec_steps)

interpretation update_event: codec read_update_event write_update_event update_event_ok
  by unfold_locales
    (auto simp: read_update_event_def write_update_event_def update_event_ok_def codec_limits
      intro!: codec_steps)

lemmas option_steps = reads_then[OF bytes32.law_option] reads_then[OF blob32.law_option] reads_final[OF blob32.law_option]

interpretation proofless_output: codec read_proofless_output write_proofless_output proofless_output_ok
  by unfold_locales
    (auto simp: read_proofless_output_def write_proofless_output_def proofless_output_ok_def codec_limits
      intro!: option_steps codec_steps)

interpretation ring_deposit_output: codec read_ring_deposit_output write_ring_deposit_output ring_deposit_output_ok
  by unfold_locales
    (auto simp: read_ring_deposit_output_def write_ring_deposit_output_def ring_deposit_output_ok_def codec_limits
      intro!: option_steps codec_steps)

interpretation output_data_encoding: codec read_output_data_encoding write_output_data_encoding output_data_encoding_ok
proof
  fix x
  assume "output_data_encoding_ok x"
  then show "reads read_output_data_encoding (write_output_data_encoding x) x"
    by (cases x) (auto simp: read_output_data_encoding_def reads_tag intro!: codec_steps reads_tag)
qed

text \<open>The patched buffer is the Borsh encoding of the tagged payload.\<close>

lemma encode_tagged_body_eq:
  "encode_tagged_body t scheme body =
     (if length body + 1 < 2 ^ 32 then Some (t # write_blob 4 (scheme # body)) else None)"
  by (simp add: encode_tagged_body_def BODY_OFFSET_def BODY_LEN_OFFSET_def write_blob_def Let_def)

lemma encrypted_output_body_eq_Some:
  "encrypted_output_body d scheme = Some payload \<longleftrightarrow>
     d = ENCRYPTED_TAG # write_blob 4 (scheme # payload) \<and> length payload + 1 < 2 ^ 32"
proof
  assume d: "encrypted_output_body d scheme = Some payload"
  then obtain rest where rest: "d = ENCRYPTED_TAG # rest" "4 \<le> length rest" "drop 4 rest = scheme # payload"
    "from_le_bytes (take 4 rest) = length (drop 4 rest)"
    by (auto simp: encrypted_output_body_def Let_def split: list.splits if_splits)
  have len: "length (take 4 rest) = 4" using rest(2) by simp
  have n: "from_le_bytes (take 4 rest) = length (scheme # payload)" using rest(3,4) by (simp only:)
  have "to_le_bytes 4 (length (scheme # payload)) = take 4 rest"
    using to_from_le_bytes[of "take 4 rest"] unfolding len n .
  then have "d = ENCRYPTED_TAG # write_blob 4 (scheme # payload)"
    using rest(1,3) append_take_drop_id[of 4 rest] by (simp only: write_blob_def)
  moreover have "length (scheme # payload) < 256 ^ 4" using from_le_bytes_less[of "take 4 rest"] unfolding len n .
  ultimately show "d = ENCRYPTED_TAG # write_blob 4 (scheme # payload) \<and> length payload + 1 < 2 ^ 32" by simp
next
  assume d: "d = ENCRYPTED_TAG # write_blob 4 (scheme # payload) \<and> length payload + 1 < 2 ^ 32"
  define prefix where "prefix = to_le_bytes 4 (length (scheme # payload))"
  have "length (scheme # payload) < 256 ^ 4" using d by simp
  then have "from_le_bytes prefix = length (scheme # payload)" unfolding prefix_def by (rule from_to_le_bytes)
  moreover have "length prefix = 4" unfolding prefix_def by (rule length_to_le_bytes)
  moreover have "d = ENCRYPTED_TAG # prefix @ scheme # payload" using d unfolding prefix_def write_blob_def by (rule conjunct1)
  ultimately show "encrypted_output_body d scheme = Some payload" by (simp add: encrypted_output_body_def Let_def)
qed

lemma length_concat_same: "\<forall>c \<in> set xs. length c = n \<Longrightarrow> length (concat xs) = length xs * n"
  by (induction xs) auto

lemma split_merge_output_body_eq:
  assumes "length (mo_salt d) = MERGE_OUTPUT_SALT_LEN" "length (mo_ciphertext d) = 3" "\<forall>c \<in> set (mo_ciphertext d). length c = 32"
  shows "mo_prefix d = [] \<Longrightarrow> split_merge_output_body (mo_salt d @ concat (mo_ciphertext d)) = Some (None, mo_salt d @ concat (mo_ciphertext d))"
    "length h = 32 \<Longrightarrow> split_merge_output_body (h @ mo_salt d @ concat (mo_ciphertext d)) = Some (Some h, mo_salt d @ concat (mo_ciphertext d))"
proof -
  have "length (concat (mo_ciphertext d)) = 96" using length_concat_same[OF assms(3)] assms(2) by simp
  then show "mo_prefix d = [] \<Longrightarrow> split_merge_output_body (mo_salt d @ concat (mo_ciphertext d)) = Some (None, mo_salt d @ concat (mo_ciphertext d))"
    "length h = 32 \<Longrightarrow> split_merge_output_body (h @ mo_salt d @ concat (mo_ciphertext d)) = Some (Some h, mo_salt d @ concat (mo_ciphertext d))"
    using assms(1) by (simp_all add: split_merge_output_body_def MERGE_OUTPUT_BODY_LEN_def MERGE_OUTPUT_SALT_LEN_def
        MERGE_OUTPUT_CIPHERTEXT_LEN_def)
qed


definition demo_general_event :: general_event where
  "demo_general_event = \<lparr>ge_inputs = [\<lparr>ei_tree = zero32, ei_input_queue_seq = 5, ei_nullifier = zero32\<rparr>],
     ge_outputs = [\<lparr>ou_view_tag = zero32, ou_utxo_hash = zero32, ou_data = [1, 2]\<rparr>],
     ge_messages = [\<lparr>md_view_tag = zero32, md_data = []\<rparr>], ge_tx_viewing_pk = replicate 33 0, ge_salt = replicate 16 0,
     ge_first_output_leaf_index = 9, ge_output_tree = zero32,
     ge_spl_transfers = [\<lparr>st_is_deposit = True, st_amount = 7, st_asset = Some zero32\<rparr>]\<rparr>"

definition demo_transact_event :: transact_event where
  "demo_transact_event = \<lparr>te_input_trees = [\<lparr>its_tree = zero32, first_input_queue_seq = 3\<rparr>], te_output_tree = zero32,
     te_first_output_leaf_index = 4\<rparr>"

definition demo_merge_event :: merge_event where
  "demo_merge_event = \<lparr>me_input_trees = [\<lparr>its_tree = zero32, first_input_queue_seq = 3\<rparr>], me_output_tree = zero32,
     me_output_leaf_index = 4, me_output_view_tag = zero32\<rparr>"

definition demo_update_event :: nullifier_tree_update_event where
  "demo_update_event = \<lparr>merkle_tree_pubkey = zero32, ev_zkp_batch_size = 10, old_next_index = 1, start_sequence_number = 2,
     first_root_index = 3, num_update = 1, first_zkp_batch_index = 0, ev_new_root = zero32\<rparr>"

definition demo_proofless_output :: proofless_output where
  "demo_proofless_output = \<lparr>po_owner = zero32, po_blinding = zero32, po_asset = zero32, po_amount = 12, po_data_hash = None,
     po_utxo_data = None, po_ring_program_id = Some zero32, po_ring_data_hash = None, po_ring_data = None, po_memo = Some [104, 105]\<rparr>"

definition demo_ring_deposit_output :: encrypted_ring_deposit_output where
  "demo_ring_deposit_output = \<lparr>ero_owner_utxo_hash = zero32, ero_asset = zero32, ero_amount = 12, ero_data_hash = None,
     ero_ring_program_id = zero32, ero_ring_data_hash = zero32,
     ero_encrypted = \<lparr>erd_tx_viewing_pk = replicate 33 1, erd_salt = replicate 16 2, erd_ciphertext = [1, 2, 3]\<rparr>\<rparr>"

definition demo_merge_output :: merge_output_data where
  "demo_merge_output = \<lparr>mo_salt = replicate 16 3, mo_ciphertext = [zero32, zero32, zero32], mo_prefix = [zero32]\<rparr>"


end
