(* ===== verification/Nullifier_Pdas.thy ===== *)
theory Nullifier_Pdas
  imports Tree_Admin Events
begin

text \<open>
  Nullifier PDAs, \<open>programs/shielded-pool/src/instructions/nullifier_pda\<close>, and the
  two forester instructions, \<open>close_nullifier_pdas.rs\<close> and
  \<open>batch_update_nullifier_tree.rs\<close>.  While a nullifier waits in the queue or
  may be missing from a root that is still accepted, its PDA is what rejects a
  second spend.  The lemmas show that creation refuses every nullifier whose PDA
  exists, that only PDAs below the tree's watermark are closed, and that neither
  operation creates or destroys lamports.

  An event is emitted by a self-call without accounts whose only effect is to
  record its instruction data; a handler that emits returns the recorded data
  beside the ledger.
\<close>

type_synonym outcome = "ledger \<times> bytes list"

definition NULLIFIER_PDA_SEED :: bytes where
  "NULLIFIER_PDA_SEED = [110, 117, 108, 108, 105, 102, 105, 101, 114]"

abbreviation nullifier_pda_seeds :: "address \<Rightarrow> bytes \<Rightarrow> bytes list" where
  "nullifier_pda_seeds tree nullifier \<equiv> [NULLIFIER_PDA_SEED, tree, nullifier]"

definition emit_event :: "event_kind \<Rightarrow> bytes \<Rightarrow> ledger \<Rightarrow> outcome presult" where
  "emit_event kind body L = Inr (L, [encode_event_instruction kind body])"


section \<open>Loaders (loader.rs)\<close>

definition load_unused_nullifier_pda :: "runtime \<Rightarrow> ledger \<Rightarrow> account_view \<Rightarrow> address \<Rightarrow> bytes \<Rightarrow> nat presult" where
  "load_unused_nullifier_pda R L v tree nullifier =
    (if \<not> is_writable v then Inl (pool_err InvalidNullifierPda)
     else rbind (map_err (\<lambda>_. pool_err InvalidNullifierPda)
                  (verify_pda R (address_of v) (nullifier_pda_seeds tree nullifier) (rt_program_id R))) (\<lambda>bump.
       if acc_owner (L (address_of v)) \<noteq> system_program_id \<or> data_len (acc_data (L (address_of v))) \<noteq> 0
       then Inl (pool_err NullifierAlreadyQueued) else Inr bump))"

definition load_nullifier_pda :: "runtime \<Rightarrow> ledger \<Rightarrow> account_view \<Rightarrow> nat \<Rightarrow> nullifier_pda presult" where
  "load_nullifier_pda R L v tree_id =
    (if \<not> is_writable v \<or> \<not> owned_by L v (rt_program_id R) \<or> data_len (acc_data (L (address_of v))) \<noteq> NULLIFIER_PDA_SIZE
     then Inl (pool_err InvalidNullifierPda)
     else rbind (ok_or (case acc_data (L (address_of v)) of Bytes bs \<Rightarrow> np_read_from bs | Tree_Data _ \<Rightarrow> None)
                  (pool_err InvalidNullifierPda)) (\<lambda>r.
       if np_queue_index r = 0 then Inl (pool_err InvalidNullifierPda)
       else if np_tree_id r \<noteq> tree_id then Inl (pool_err NullifierPdaTreeMismatch)
       else Inr r))"


section \<open>Creation (create.rs)\<close>

record nullifier_pda_rent =
  nullifier_pda_minimum :: nat
  tree_minimum :: nat

definition top_up :: "nullifier_pda_rent \<Rightarrow> address \<Rightarrow> address \<Rightarrow> ledger \<Rightarrow> ledger presult" where
  "top_up rent tree pda L =
    (let missing = saturating_sub (nullifier_pda_minimum rent) (lamports L pda) in
     if missing = 0 then Inr L
     else rbind (ok_or (Option.bind (checked_sub (lamports L tree) missing)
                         (\<lambda>r. if tree_minimum rent \<le> r then Some r else None))
                  (pool_err InsufficientNullifierPdaRent)) (\<lambda>tree_remaining.
       Inr (set_lamports pda (nullifier_pda_minimum rent) (set_lamports tree tree_remaining L))))"

record input_tree_result =
  itr_input_tree :: input_tree_sequence
  itr_tree_fee :: nat
  itr_fee_balance :: nat
  itr_tree_id :: nat

definition credit_output_tree_fee :: "tree_layout \<Rightarrow> bool \<Rightarrow> (tree_layout \<times> nat) presult" where
  "credit_output_tree_fee l is_input_tree =
    (if is_input_tree then Inr (l, 0) else map_err tree_program_error (credit_tree_fee l))"

definition collect_tree_fee :: "runtime \<Rightarrow> address \<Rightarrow> address \<Rightarrow> nat \<Rightarrow> ledger \<Rightarrow> ledger presult" where
  "collect_tree_fee R payer tree amount L =
    (if amount = 0 then Inr L else system_cpi R (Transfer payer tree amount) L)"

text \<open>\<open>resize\<close> grows the empty account to the record size with zeros.\<close>

definition nullifier_pda_init :: "runtime \<Rightarrow> address \<Rightarrow> bytes \<Rightarrow> nullifier_pda \<Rightarrow> account_view \<Rightarrow> ledger \<Rightarrow> ledger presult" where
  "nullifier_pda_init R tree nullifier r v L =
    rbind (load_unused_nullifier_pda R L v tree nullifier) (\<lambda>bump.
    rbind (system_cpi R (Assign (address_of v) (rt_program_id R)
            (nullifier_pda_seeds tree nullifier @ [[of_nat bump]])) L) (\<lambda>L1.
    rbind (case acc_data (L1 (address_of v)) of
             Bytes bs \<Rightarrow> Inr (resize_bytes NULLIFIER_PDA_SIZE bs)
           | Tree_Data _ \<Rightarrow> Inl InvalidRealloc) (\<lambda>bs.
    rbind (ok_or (np_write_to r bs) (pool_err InvalidNullifierPda)) (\<lambda>bs'.
      Inr (set_data (address_of v) (Bytes bs') L1)))))"

fun create_pdas_loop :: "runtime \<Rightarrow> nullifier_pda_rent \<Rightarrow> address \<Rightarrow> nat \<Rightarrow> nat \<Rightarrow> nat
    \<Rightarrow> (account_view \<times> bytes) list \<Rightarrow> ledger \<Rightarrow> ledger presult" where
  "create_pdas_loop R rent tree tree_id first position [] L = Inr L"
| "create_pdas_loop R rent tree tree_id first position ((pda, nullifier) # rest) L =
    rbind (ok_or (checked_add first position) Program_ArithmeticOverflow) (\<lambda>queue_index.
    rbind (nullifier_pda_init R tree nullifier \<lparr>np_queue_index = queue_index, np_tree_id = tree_id\<rparr> pda L) (\<lambda>L1.
    rbind (top_up rent tree (address_of pda) L1) (\<lambda>L2.
      create_pdas_loop R rent tree tree_id first (position + 1) rest L2)))"

definition create_nullifier_pdas :: "runtime \<Rightarrow> address \<Rightarrow> address \<Rightarrow> (account_view \<times> bytes) list
    \<Rightarrow> input_tree_result \<Rightarrow> ledger \<Rightarrow> ledger presult" where
  "create_nullifier_pdas R payer tree nullifier_pdas input_tree L =
    rbind (minimum_balance R NULLIFIER_PDA_SIZE) (\<lambda>pda_minimum.
    rbind (minimum_balance R (data_len (acc_data (L tree)))) (\<lambda>tree_rent.
    rbind (ok_or (checked_add tree_rent (itr_fee_balance input_tree)) Program_ArithmeticOverflow) (\<lambda>floor.
    rbind (collect_tree_fee R payer tree (itr_tree_fee input_tree) L) (\<lambda>L1.
      create_pdas_loop R \<lparr>nullifier_pda_minimum = pda_minimum, tree_minimum = floor\<rparr> tree (itr_tree_id input_tree)
        (first_input_queue_seq (itr_input_tree input_tree)) 0 nullifier_pdas L1))))"


section \<open>Closing (close.rs, close\_nullifier\_pdas.rs)\<close>

record nullifier_pda_close =
  close_tree_id :: nat
  close_below :: nat

definition nullifier_pda_close_one :: "runtime \<Rightarrow> nullifier_pda_close \<Rightarrow> address \<Rightarrow> account_view \<Rightarrow> ledger \<Rightarrow> ledger presult" where
  "nullifier_pda_close_one R c tree v L =
    rbind (load_nullifier_pda R L v (close_tree_id c)) (\<lambda>r.
      if \<not> np_is_closable r (close_below c) then Inl (pool_err NullifierPdaNotClosable)
      else rbind (ok_or (checked_add (lamports L tree) (lamports L (address_of v))) Program_ArithmeticOverflow) (\<lambda>balance.
        Inr (close_account (address_of v) (set_lamports (address_of v) 0 (set_lamports tree balance L)))))"

fun close_pdas_loop :: "runtime \<Rightarrow> nullifier_pda_close \<Rightarrow> address \<Rightarrow> account_view list \<Rightarrow> ledger \<Rightarrow> ledger presult" where
  "close_pdas_loop R c tree [] L = Inr L"
| "close_pdas_loop R c tree (v # vs) L =
    rbind (acct (check_mut v)) (\<lambda>_. rbind (nullifier_pda_close_one R c tree v L) (close_pdas_loop R c tree vs))"

definition process_close_nullifier_pdas :: "runtime \<Rightarrow> account_view list \<Rightarrow> bytes \<Rightarrow> ledger \<Rightarrow> ledger presult" where
  "process_close_nullifier_pdas R accounts payload L =
    (if payload \<noteq> [] then Inl (pool_err InvalidInstructionData)
     else rbind (acct (next_signer (iter_new accounts))) (\<lambda>(authority, it).
     rbind (acct (next_account it)) (\<lambda>(config, it).
     rbind (acct (next_mut it)) (\<lambda>(tree, it).
     rbind (acct (next_mut it)) (\<lambda>(recipient, it).
     rbind (validate_forester_authority R L config authority) (\<lambda>_.
     rbind (check_reimbursement_recipient R L recipient) (\<lambda>_.
     if iterator_is_empty it then Inl (pool_err InvalidInstructionData)
     else let closed = iter_len it - it_position it in
     rbind (map_err tree_program_error (load_tree R L tree)) (\<lambda>l.
     let c = \<lparr>close_tree_id = ta_tree_id l, close_below = close_before_index (ta_nullifier l)\<rparr>;
         (l1, paid) = take_close_reimbursement closed (record_nullifier_pdas_closed closed l) in
     rbind (close_pdas_loop R c (address_of tree) (it_accounts it) (set_data (address_of tree) (Tree_Data l1) L)) (\<lambda>L1.
       pay_reimbursement R (address_of tree) (address_of recipient) paid L1)))))))))"


section \<open>Batch updates (batch\_update\_nullifier\_tree.rs)\<close>

definition process_batch_update_nullifier_tree :: "hash_fn \<Rightarrow> groth16 \<Rightarrow> runtime \<Rightarrow> account_view list \<Rightarrow> bytes
    \<Rightarrow> ledger \<Rightarrow> outcome presult" where
  "process_batch_update_nullifier_tree P G R accounts payload L =
    rbind (ok_or (try_from_slice read_batch_nullify_inputs payload) (pool_err InvalidInstructionData)) (\<lambda>instruction.
    rbind (acct (next_signer (iter_new accounts))) (\<lambda>(authority, it).
    rbind (acct (next_account it)) (\<lambda>(config, it).
    rbind (acct (next_mut it)) (\<lambda>(tree, it).
    rbind (acct (next_mut it)) (\<lambda>(recipient, it).
    rbind (validate_forester_authority R L config authority) (\<lambda>_.
    rbind (check_reimbursement_recipient R L recipient) (\<lambda>_.
    rbind (map_err (\<lambda>e. pool_err (pool_error_of_tree e)) (load_tree R L tree)) (\<lambda>l.
    rbind (map_err nullifier_tree_program_error
            (update_tree_from_queue P G (address_of tree) instruction (ta_nullifier l))) (\<lambda>(t, event).
    let l1 = l\<lparr>ta_nullifier := t\<rparr> in
    case event of
      None \<Rightarrow> Inr (set_data (address_of tree) (Tree_Data l1) L, [])
    | Some e \<Rightarrow>
        (let (l2, paid) = take_append_reimbursement (num_update e) l1 in
         rbind (pay_reimbursement R (address_of tree) (address_of recipient) paid
                 (set_data (address_of tree) (Tree_Data l2) L)) (\<lambda>L1.
           emit_event NullifierTreeUpdate_Event (write_update_event e) L1)))))))))))"


section \<open>What creation does\<close>

lemma data_len_eq_0 [simp]: "data_len d = 0 \<longleftrightarrow> d = Bytes []"
  by (simp add: data_len_def account_size_value split: account_data.splits)

lemma load_unused_eq_Inr [account_simps]:
  "load_unused_nullifier_pda R L v tree n = Inr bump \<longleftrightarrow>
     is_writable v \<and> derive_program_address R (nullifier_pda_seeds tree n) (rt_program_id R) = Some (address_of v, bump)
     \<and> unused_account L (address_of v)"
  by (auto simp: load_unused_nullifier_pda_def result_simps verify_pda_eq_Inr unused_account_def split: if_splits)

lemma load_nullifier_pda_eq_Inr [account_simps]:
  "load_nullifier_pda R L v tid = Inr r \<longleftrightarrow>
     is_writable v \<and> acc_owner (L (address_of v)) = rt_program_id R \<and> acc_data (L (address_of v)) = Bytes (np_to_account_data r)
     \<and> u64_ok (np_queue_index r) \<and> u16_ok (np_tree_id r) \<and> 0 < np_queue_index r \<and> np_tree_id r = tid"
  by (auto simp: load_nullifier_pda_def result_simps owned_by_def np_read_from_iff data_len_def
      split: if_splits account_data.splits)

lemma nullifier_pda_init_success:
  assumes "system_ok R" "nullifier_pda_init R tree n r v L = Inr L'"
  shows "is_writable v \<and> (\<exists>bump. derive_program_address R (nullifier_pda_seeds tree n) (rt_program_id R) = Some (address_of v, bump))
    \<and> unused_account L (address_of v) \<and> L' = install (address_of v) (rt_program_id R) (Bytes (np_to_account_data r)) L"
  using assms(2)
  by (auto simp: nullifier_pda_init_def result_simps load_unused_eq_Inr np_write_to_def resize_bytes_def unused_account_def
      install_def set_data_def split: if_splits account_data.splits dest!: system_assign[OF assms(1)])

lemma top_up_success:
  assumes "top_up rent tree pda L = Inr L'" "tree \<noteq> pda"
  shows "nullifier_pda_minimum rent \<le> lamports L' pda"
    "\<exists>n \<le> lamports L tree. lamports L' tree = lamports L tree - n \<and> lamports L' pda = lamports L pda + n
      \<and> (0 < n \<longrightarrow> tree_minimum rent \<le> lamports L' tree)"
    "a \<noteq> tree \<Longrightarrow> a \<noteq> pda \<Longrightarrow> L' a = L a"
    "acc_owner (L' a) = acc_owner (L a)" "acc_data (L' a) = acc_data (L a)"
proof -
  consider "L' = L" "nullifier_pda_minimum rent \<le> lamports L pda"
    | n where "n = nullifier_pda_minimum rent - lamports L pda" "0 < n" "n \<le> lamports L tree" "tree_minimum rent \<le> lamports L tree - n"
      "L' = set_lamports pda (nullifier_pda_minimum rent) (set_lamports tree (lamports L tree - n) L)"
    using assms(1) by (auto simp: top_up_def Let_def saturating_sub_def checked_sub_def result_simps bind_eq_Some_conv split: if_splits)
  note c = this
  show "nullifier_pda_minimum rent \<le> lamports L' pda" using c by cases auto
  show "\<exists>n \<le> lamports L tree. lamports L' tree = lamports L tree - n \<and> lamports L' pda = lamports L pda + n
      \<and> (0 < n \<longrightarrow> tree_minimum rent \<le> lamports L' tree)"
    using c
  proof cases
    case (2 n)
    then show ?thesis using assms(2) by (intro exI[of _ n]) simp
  qed (rule exI[of _ 0], simp)
  show "a \<noteq> tree \<Longrightarrow> a \<noteq> pda \<Longrightarrow> L' a = L a" using c by cases (auto simp: set_lamports_def)
  show "acc_owner (L' a) = acc_owner (L a)" "acc_data (L' a) = acc_data (L a)" using c by (cases; simp)+
qed

text \<open>
  \<open>pdas_created\<close>: the effect of creating the PDAs \<open>xs\<close> with consecutive queue
  indexes from \<open>q\<close>.
\<close>

definition pdas_created :: "runtime \<Rightarrow> nullifier_pda_rent \<Rightarrow> address \<Rightarrow> nat \<Rightarrow> nat \<Rightarrow> (account_view \<times> bytes) list \<Rightarrow> ledger \<Rightarrow> ledger \<Rightarrow> bool" where
  "pdas_created R rent tree tid q xs L L' \<longleftrightarrow>
     distinct (map (address_of \<circ> fst) xs) \<and>
     (\<forall>i < length xs. case xs ! i of (v, n) \<Rightarrow>
        is_writable v \<and> (\<exists>bump. derive_program_address R (nullifier_pda_seeds tree n) (rt_program_id R) = Some (address_of v, bump))
        \<and> unused_account L (address_of v) \<and> u64_ok (q + i) \<and> acc_owner (L' (address_of v)) = rt_program_id R
        \<and> acc_data (L' (address_of v)) = Bytes (np_to_account_data \<lparr>np_queue_index = q + i, np_tree_id = tid\<rparr>)
        \<and> nullifier_pda_minimum rent \<le> lamports L' (address_of v)) \<and>
     (\<forall>a. a \<notin> address_of ` fst ` set xs \<longrightarrow> a \<noteq> tree \<longrightarrow> L' a = L a) \<and>
     acc_owner (L' tree) = acc_owner (L tree) \<and> acc_data (L' tree) = acc_data (L tree) \<and>
     lamports L' tree \<le> lamports L tree \<and> (lamports L' tree = lamports L tree \<or> tree_minimum rent \<le> lamports L' tree) \<and>
     (\<forall>A. finite A \<longrightarrow> tree \<in> A \<longrightarrow> address_of ` fst ` set xs \<subseteq> A \<longrightarrow> total_lamports A L' = total_lamports A L)"

lemma create_pdas_loop_success:
  assumes "system_ok R" "rt_program_id R \<noteq> system_program_id" "acc_owner (L tree) = rt_program_id R"
    and "create_pdas_loop R rent tree tid first position xs L = Inr L'"
  shows "pdas_created R rent tree tid (first + position) xs L L'"
  using assms(3,4)
proof (induction xs arbitrary: position L)
  case Nil
  then show ?case by (simp add: pdas_created_def)
next
  case (Cons x xs)
  obtain v n where x: "x = (v, n)" by (cases x)
  let ?a = "address_of v" and ?r = "\<lparr>np_queue_index = first + position, np_tree_id = tid\<rparr>"
  obtain L1 L2 where q: "u64_ok (first + position)"
    and L1: "nullifier_pda_init R tree n ?r v L = Inr L1" and L2: "top_up rent tree ?a L1 = Inr L2"
    and rest: "create_pdas_loop R rent tree tid first (position + 1) xs L2 = Inr L'"
    using Cons.prems(2) by (auto simp: x result_simps checked_add_def split: if_splits)
  have i: "is_writable v" "\<exists>bump. derive_program_address R (nullifier_pda_seeds tree n) (rt_program_id R) = Some (?a, bump)"
    "unused_account L ?a" "L1 = install ?a (rt_program_id R) (Bytes (np_to_account_data ?r)) L"
    using nullifier_pda_init_success[OF assms(1) L1] by blast+
  have ne: "tree \<noteq> ?a" using i(3) Cons.prems(1) assms(2) by (auto simp: unused_account_def)
  note t = top_up_success[OF L2 ne]
  have L2a: "acc_owner (L2 ?a) = rt_program_id R" "acc_data (L2 ?a) = Bytes (np_to_account_data ?r)"
    using t(4,5) i(4) by simp_all
  have L2t: "acc_owner (L2 tree) = acc_owner (L tree)" "acc_data (L2 tree) = acc_data (L tree)"
    using t(4,5) i(4) ne by simp_all
  have lam1: "lamports L1 = lamports L" unfolding i(4) by (rule ext) simp
  have other: "L2 a = L a" if "a \<noteq> tree" "a \<noteq> ?a" for a using t(3)[OF that] that i(4) by (simp add: install_def)
  have IH: "pdas_created R rent tree tid (first + (position + 1)) xs L2 L'"
    using Cons.IH[OF _ rest] L2t Cons.prems(1) by simp
  have fresh: "?a \<notin> address_of ` fst ` set xs"
  proof
    assume "?a \<in> address_of ` fst ` set xs"
    then obtain w m where "(w, m) \<in> set xs" "address_of w = ?a" by auto
    then obtain k where "k < length xs" "xs ! k = (w, m)" by (auto simp: in_set_conv_nth)
    then have "unused_account L2 ?a" using IH \<open>address_of w = ?a\<close> by (fastforce simp: pdas_created_def)
    then show False using L2a(1) assms(2) by (simp add: unused_account_def)
  qed
  have kept: "L' ?a = L2 ?a" using IH fresh ne by (simp add: pdas_created_def)
  obtain m where m: "m \<le> lamports L tree" "lamports L2 tree = lamports L tree - m" "lamports L2 ?a = lamports L ?a + m"
    "0 < m \<longrightarrow> tree_minimum rent \<le> lamports L2 tree"
    using t(2) unfolding lam1 by blast
  have total2: "total_lamports A L2 = total_lamports A L" if "finite A" "tree \<in> A" "?a \<in> A" for A
    by (rule total_lamports_move[OF that ne m(1-3)]) (simp add: other lamports_def)
  have nth: "case (x # xs) ! j of (v, n) \<Rightarrow>
        is_writable v \<and> (\<exists>bump. derive_program_address R (nullifier_pda_seeds tree n) (rt_program_id R) = Some (address_of v, bump))
        \<and> unused_account L (address_of v) \<and> u64_ok (first + position + j) \<and> acc_owner (L' (address_of v)) = rt_program_id R
        \<and> acc_data (L' (address_of v)) = Bytes (np_to_account_data \<lparr>np_queue_index = first + position + j, np_tree_id = tid\<rparr>)
        \<and> nullifier_pda_minimum rent \<le> lamports L' (address_of v)" if j: "j < length (x # xs)" for j
  proof (cases j)
    case 0
    then show ?thesis using i q kept L2a t(1) by (simp add: x lamports_def)
  next
    case (Suc k)
    obtain w n' where w: "xs ! k = (w, n')" by (cases "xs ! k")
    have k: "k < length xs" using j Suc by simp
    then have mem: "address_of w \<in> address_of ` fst ` set xs" using w by (metis fst_conv image_eqI nth_mem)
    have "unused_account L2 (address_of w)" using IH k w by (fastforce simp: pdas_created_def)
    moreover have "address_of w \<noteq> tree" using calculation L2t Cons.prems(1) assms(2) by (auto simp: unused_account_def)
    moreover have "address_of w \<noteq> ?a" using mem fresh by metis
    ultimately have "unused_account L (address_of w)" using other by (simp add: unused_account_def)
    then show ?thesis using IH k w Suc by (fastforce simp: pdas_created_def algebra_simps)
  qed
  show ?case
    unfolding pdas_created_def
  proof (intro conjI allI impI)
    show "distinct (map (address_of \<circ> fst) (x # xs))"
      using IH fresh by (auto simp: pdas_created_def x image_image)
    show "L' a = L a" if "a \<notin> address_of ` fst ` set (x # xs)" "a \<noteq> tree" for a
      using that IH other by (simp add: pdas_created_def x)
    show "total_lamports A L' = total_lamports A L"
      if "finite A" "tree \<in> A" "address_of ` fst ` set (x # xs) \<subseteq> A" for A
      using that IH total2 by (simp add: pdas_created_def x)
  qed (use nth IH L2t m in \<open>auto simp: pdas_created_def\<close>)
qed

lemma create_nullifier_pdas_success:
  assumes "system_ok R" "rt_program_id R \<noteq> system_program_id" "acc_owner (L tree) = rt_program_id R"
    and "create_nullifier_pdas R payer tree xs res L = Inr L'"
  obtains pm tr where "minimum_balance R NULLIFIER_PDA_SIZE = Inr pm" "minimum_balance R (data_len (acc_data (L tree))) = Inr tr"
    "itr_tree_fee res \<le> lamports L payer \<or> itr_tree_fee res = 0"
    "pdas_created R \<lparr>nullifier_pda_minimum = pm, tree_minimum = tr + itr_fee_balance res\<rparr> tree (itr_tree_id res)
       (first_input_queue_seq (itr_input_tree res)) xs
       (if itr_tree_fee res = 0 then L else move_lamports payer tree (itr_tree_fee res) L) L'"
proof -
  obtain pm tr L1 where b: "minimum_balance R NULLIFIER_PDA_SIZE = Inr pm"
      "minimum_balance R (data_len (acc_data (L tree))) = Inr tr"
    and fee: "collect_tree_fee R payer tree (itr_tree_fee res) L = Inr L1"
    and loop: "create_pdas_loop R \<lparr>nullifier_pda_minimum = pm, tree_minimum = tr + itr_fee_balance res\<rparr> tree (itr_tree_id res)
      (first_input_queue_seq (itr_input_tree res)) 0 xs L1 = Inr L'"
    using assms(4) by (auto simp: create_nullifier_pdas_def result_simps checked_add_def split: if_splits)
  have L1: "L1 = (if itr_tree_fee res = 0 then L else move_lamports payer tree (itr_tree_fee res) L)"
    "itr_tree_fee res \<le> lamports L payer \<or> itr_tree_fee res = 0"
    using fee system_transfer[OF assms(1)] by (auto simp: collect_tree_fee_def split: if_splits)
  have "acc_owner (L1 tree) = rt_program_id R" using assms(3) by (simp add: L1(1))
  from create_pdas_loop_success[OF assms(1,2) this loop] show ?thesis
    using that[OF b L1(2)] L1(1) by simp
qed

text \<open>Accounts that exist are left alone: creation only touches unused accounts and the tree's balance.\<close>

lemma pdas_created_frame:
  assumes "pdas_created R rent tree tid q xs L L'" "\<not> unused_account L a"
  shows "acc_owner (L' a) = acc_owner (L a)" "acc_data (L' a) = acc_data (L a)" "a \<notin> address_of ` fst ` set xs"
proof -
  show new: "a \<notin> address_of ` fst ` set xs"
  proof
    assume "a \<in> address_of ` fst ` set xs"
    then obtain v n where vn: "(v, n) \<in> set xs" "a = address_of v" by auto
    then obtain i where "i < length xs" "xs ! i = (v, n)" by (auto simp: in_set_conv_nth)
    then have "unused_account L a" using assms(1) vn by (fastforce simp: pdas_created_def)
    then show False using assms(2) by blast
  qed
  show "acc_owner (L' a) = acc_owner (L a)" "acc_data (L' a) = acc_data (L a)"
    using assms(1) new by (cases "a = tree"; simp add: pdas_created_def)+
qed

lemma pdas_created_derived:
  assumes "pdas_created R rent tree tid q xs L L'" "(v, n) \<in> set xs"
  shows "\<exists>bump. derive_program_address R (nullifier_pda_seeds tree n) (rt_program_id R) = Some (address_of v, bump)"
    "unused_account L (address_of v)"
proof -
  obtain i where "i < length xs" "xs ! i = (v, n)" using assms(2) by (auto simp: in_set_conv_nth)
  then show "\<exists>bump. derive_program_address R (nullifier_pda_seeds tree n) (rt_program_id R) = Some (address_of v, bump)"
    "unused_account L (address_of v)"
    using assms(1) by (fastforce simp: pdas_created_def)+
qed

lemma pdas_created_nullifiers_distinct:
  assumes "pdas_created R rent tree tid q xs L L'"
  shows "distinct (map snd xs)"
proof -
  have "distinct (map (address_of \<circ> fst) xs)" using assms by (simp add: pdas_created_def)
  then have inj: "inj_on (address_of \<circ> fst) (set xs)" and d: "distinct xs" by (simp_all add: distinct_map)
  have "inj_on snd (set xs)"
  proof (rule inj_onI)
    fix x y assume xy: "x \<in> set xs" "y \<in> set xs" "snd x = snd y"
    obtain v w n where vw: "x = (v, n)" "y = (w, n)" using xy(3) by (cases x; cases y) simp
    then have "address_of v = address_of w"
      using xy(1,2) pdas_created_derived(1)[OF assms, of v n] pdas_created_derived(1)[OF assms, of w n] by auto
    then show "x = y" using inj_onD[OF inj, of x y] xy(1,2) vw by simp
  qed
  then show ?thesis using d by (simp add: distinct_map)
qed


section \<open>What closing does\<close>

definition pdas_closed :: "runtime \<Rightarrow> nullifier_pda_close \<Rightarrow> address \<Rightarrow> account_view list \<Rightarrow> ledger \<Rightarrow> ledger \<Rightarrow> bool" where
  "pdas_closed R c tree vs L L' \<longleftrightarrow>
     distinct (map address_of vs) \<and>
     (\<forall>v \<in> set vs. is_writable v \<and> acc_owner (L (address_of v)) = rt_program_id R \<and> unused_account L' (address_of v)
        \<and> lamports L' (address_of v) = 0
        \<and> (\<exists>r. acc_data (L (address_of v)) = Bytes (np_to_account_data r) \<and> u64_ok (np_queue_index r) \<and> u16_ok (np_tree_id r)
             \<and> np_tree_id r = close_tree_id c \<and> 0 < np_queue_index r \<and> np_queue_index r < close_below c)) \<and>
     (\<forall>a. a \<notin> address_of ` set vs \<longrightarrow> a \<noteq> tree \<longrightarrow> L' a = L a) \<and>
     acc_owner (L' tree) = acc_owner (L tree) \<and> acc_data (L' tree) = acc_data (L tree) \<and>
     lamports L' tree = lamports L tree + (\<Sum>v \<leftarrow> vs. lamports L (address_of v))"

lemma close_account_sel [simp]:
  "close_account a L b = (if b = a then \<lparr>acc_owner = system_program_id, acc_lamports = 0, acc_data = Bytes []\<rparr> else L b)"
  by (simp add: close_account_def)

lemma close_one_success:
  assumes "nullifier_pda_close_one R c tree v L = Inr L'" "acc_data (L tree) = Tree_Data l"
  shows "pdas_closed R c tree [v] L L'"
proof -
  obtain r where r: "is_writable v" "acc_owner (L (address_of v)) = rt_program_id R"
      "acc_data (L (address_of v)) = Bytes (np_to_account_data r)" "u64_ok (np_queue_index r)" "u16_ok (np_tree_id r)"
      "0 < np_queue_index r" "np_tree_id r = close_tree_id c" "np_queue_index r < close_below c"
    and L': "L' = close_account (address_of v) (set_lamports (address_of v) 0
      (set_lamports tree (lamports L tree + lamports L (address_of v)) L))"
    using assms(1) by (auto simp: nullifier_pda_close_one_def result_simps load_nullifier_pda_eq_Inr np_is_closable_def
        checked_add_def split: if_splits)
  have ne: "tree \<noteq> address_of v" using r(3) assms(2) by auto
  have "lamports L' tree = lamports L tree + lamports L (address_of v)"
    unfolding L' using ne by (simp add: lamports_def set_lamports_def)
  moreover have "lamports L' (address_of v) = 0" unfolding L' by (simp add: lamports_def)
  moreover have "unused_account L' (address_of v)" unfolding L' by (simp add: unused_account_def)
  moreover have "L' a = L a" if "a \<noteq> address_of v" "a \<noteq> tree" for a using that unfolding L' by (simp add: set_lamports_def)
  moreover have "acc_owner (L' tree) = acc_owner (L tree)" "acc_data (L' tree) = acc_data (L tree)"
    unfolding L' using ne by simp_all
  ultimately show ?thesis using r by (auto simp: pdas_closed_def)
qed

lemma close_pdas_loop_success:
  assumes "close_pdas_loop R c tree vs L = Inr L'" "acc_data (L tree) = Tree_Data l" "rt_program_id R \<noteq> system_program_id"
  shows "pdas_closed R c tree vs L L'"
  using assms(1,2)
proof (induction vs arbitrary: L)
  case Nil
  then show ?case by (simp add: pdas_closed_def)
next
  case (Cons v vs)
  obtain L1 where L1: "nullifier_pda_close_one R c tree v L = Inr L1" "close_pdas_loop R c tree vs L1 = Inr L'"
    using Cons.prems(1) by (auto simp: result_simps)
  have one: "pdas_closed R c tree [v] L L1" using close_one_success[OF L1(1) Cons.prems(2)] .
  then have "acc_data (L1 tree) = Tree_Data l" using Cons.prems(2) by (simp add: pdas_closed_def)
  from Cons.IH[OF L1(2) this] have IH: "pdas_closed R c tree vs L1 L'" .
  have gone: "unused_account L1 (address_of v)" "lamports L1 (address_of v) = 0" using one by (simp_all add: pdas_closed_def)
  have new: "address_of v \<notin> address_of ` set vs"
    using IH gone assms(3) by (auto simp: pdas_closed_def unused_account_def)
  have tree: "address_of v \<noteq> tree" using one Cons.prems(2) by (auto simp: pdas_closed_def)
  have L1eq: "L1 a = L a" if "a \<noteq> address_of v" "a \<noteq> tree" for a using one that by (simp add: pdas_closed_def)
  have vs: "L1 (address_of w) = L (address_of w)" if "w \<in> set vs" for w
  proof (rule L1eq)
    show "address_of w \<noteq> address_of v" using new that by (metis image_eqI)
    show "address_of w \<noteq> tree" using IH that \<open>acc_data (L1 tree) = Tree_Data l\<close> by (auto simp: pdas_closed_def)
  qed
  have "(\<Sum>w \<leftarrow> vs. lamports L1 (address_of w)) = (\<Sum>w \<leftarrow> vs. lamports L (address_of w))"
    using vs by (intro arg_cong[of _ _ sum_list] map_cong) (simp_all add: lamports_def)
  moreover have "L' (address_of v) = L1 (address_of v)" using IH new tree by (simp add: pdas_closed_def)
  ultimately show ?case
    using one IH new vs gone L1eq by (auto simp: pdas_closed_def unused_account_def lamports_def)
qed

lemma sum_list_distinct: "distinct (map f xs) \<Longrightarrow> (\<Sum>x \<leftarrow> xs. g (f x)) = (\<Sum>a \<in> f ` set xs. g a :: nat)"
  by (induction xs) auto

lemma pdas_closed_total:
  assumes "pdas_closed R c tree vs L L'" "acc_data (L tree) = Tree_Data l"
    and "finite A" "tree \<in> A" "address_of ` set vs \<subseteq> A"
  shows "total_lamports A L' = total_lamports A L"
proof -
  let ?V = "address_of ` set vs"
  have tree: "tree \<notin> ?V" using assms(1,2) by (auto simp: pdas_closed_def)
  have split: "total_lamports A M = lamports M tree + (\<Sum>a \<in> ?V. lamports M a) + (\<Sum>a \<in> A - {tree} - ?V. lamports M a)" for M
    using assms(3-5) tree unfolding total_lamports_def
    by (simp add: sum.remove[of A tree] sum.subset_diff[of ?V "A - {tree}"] subset_Diff_insert)
  have "(\<Sum>a \<in> ?V. lamports L' a) = 0" using assms(1) by (auto simp: pdas_closed_def)
  moreover have "lamports L' tree = lamports L tree + (\<Sum>a \<in> ?V. lamports L a)"
    using assms(1) sum_list_distinct[of address_of vs "lamports L"] by (simp add: pdas_closed_def)
  moreover have "(\<Sum>a \<in> A - {tree} - ?V. lamports L' a) = (\<Sum>a \<in> A - {tree} - ?V. lamports L a)"
    using assms(1) by (intro sum.cong) (auto simp: pdas_closed_def lamports_def)
  ultimately show ?thesis by (simp add: split)
qed

lemma if_error_eq_Inr [result_simps]:
  "(if c then Inl e else m) = Inr x \<longleftrightarrow> \<not> c \<and> m = Inr x" "(if c then m else Inl e) = Inr x \<longleftrightarrow> c \<and> m = Inr x"
  by simp_all

lemma close_nullifier_pdas_success:
  "process_close_nullifier_pdas R accounts payload L = Inr L' \<longleftrightarrow>
    (\<exists>authority config tree recipient vs c l L1. accounts = authority # config # tree # recipient # vs \<and> payload = [] \<and> vs \<noteq> []
      \<and> is_signer authority \<and> is_writable tree \<and> is_writable recipient \<and> config_at R L config c
      \<and> forester_authority c = address_of authority \<and> \<not> owned_by L recipient (rt_program_id R)
      \<and> tree_at R L tree l \<and> \<not> is_paused l
      \<and> close_pdas_loop R \<lparr>close_tree_id = ta_tree_id l, close_below = close_before_index (ta_nullifier l)\<rparr> (address_of tree) vs
          (set_data (address_of tree)
            (Tree_Data (fst (take_close_reimbursement (length vs) (record_nullifier_pdas_closed (length vs) l)))) L) = Inr L1
      \<and> pay_reimbursement R (address_of tree) (address_of recipient)
          (snd (take_close_reimbursement (length vs) (record_nullifier_pdas_closed (length vs) l))) L1 = Inr L')"
  by (auto simp: process_close_nullifier_pdas_def result_simps next_account_eq_Inr next_signer_eq_Inr next_mut_eq_Inr
      validate_authority_eq_Inr check_reimbursement_recipient_eq_Inr from_account_view_mut_eq_Inr tree_at_def
      from_account_view_mut_allow_paused_eq iterator_is_empty_def iter_len_def case_prod_beta Let_def)

lemma pay_reimbursement_kept:
  assumes "pay_reimbursement R tree recipient paid L = Inr L'"
  shows "acc_owner (L' a) = acc_owner (L a)" "acc_data (L' a) = acc_data (L a)"
    "a \<noteq> tree \<Longrightarrow> a \<noteq> recipient \<Longrightarrow> L' a = L a"
  using pay_reimbursement_cases[OF assms] by (auto simp: pay_reimbursement_with_rent_minimum_eq_Inr set_lamports_def)

lemma tree_at_first_byte:
  assumes "tree_at R L v l"
  shows "acc_data (L (address_of v)) \<noteq> Bytes (np_to_account_data r)"
proof
  assume "acc_data (L (address_of v)) = Bytes (np_to_account_data r)"
  moreover have "data_prefix 1 (Bytes (np_to_account_data r)) = Some [NULLIFIER_PDA]"
    by (simp add: data_prefix_def np_to_account_data_def)
  moreover have "data_prefix 1 (acc_data (L (address_of v))) = Some [of_nat TREE_ACCOUNT_DISCRIMINATOR]"
    using assms by (simp add: tree_at_def from_account_view_mut_allow_paused_eq load_checked_eq_Inr)
  ultimately show False by (simp add: NULLIFIER_PDA_def TREE_ACCOUNT_DISCRIMINATOR_def)
qed

lemma np_to_account_data_inj:
  assumes "np_to_account_data r = np_to_account_data s" "u64_ok (np_queue_index r)" "u16_ok (np_tree_id r)"
    "u64_ok (np_queue_index s)" "u16_ok (np_tree_id s)"
  shows "r = s"
  using np_read_write[OF assms(2,3)] np_read_write[OF assms(4,5)] unfolding assms(1) by simp


section \<open>A PDA stands until the watermark has passed it\<close>

text \<open>
  \<open>pda_at\<close>: the account at \<open>a\<close> is the record of queue index \<open>q\<close> in tree \<open>tid\<close>.
  \<open>pda_step R tid q\<close>: one successful creation of nullifier PDAs, or one
  successful close instruction, the latter on another tree or on a tree whose
  watermark is still at or below \<open>q\<close>.
\<close>

definition pda_at :: "runtime \<Rightarrow> nat \<Rightarrow> nat \<Rightarrow> address \<Rightarrow> ledger \<Rightarrow> bool" where
  "pda_at R tid q a L \<longleftrightarrow> acc_owner (L a) = rt_program_id R
     \<and> acc_data (L a) = Bytes (np_to_account_data \<lparr>np_queue_index = q, np_tree_id = tid\<rparr>)"

inductive pda_step :: "runtime \<Rightarrow> nat \<Rightarrow> nat \<Rightarrow> ledger \<Rightarrow> ledger \<Rightarrow> bool" for R tid q where
  create: "create_nullifier_pdas R payer tree xs res L = Inr L' \<Longrightarrow> acc_owner (L tree) = rt_program_id R
    \<Longrightarrow> pda_step R tid q L L'"
| close: "process_close_nullifier_pdas R (authority # config # tree # recipient # vs) payload L = Inr L'
    \<Longrightarrow> (\<And>l. load_tree R L tree = Inr l \<Longrightarrow> ta_tree_id l = tid \<Longrightarrow> close_before_index (ta_nullifier l) \<le> q)
    \<Longrightarrow> pda_step R tid q L L'"

lemma close_keeps_pda:
  assumes "process_close_nullifier_pdas R (authority # config # tree # recipient # vs) payload L = Inr L'"
    and "rt_program_id R \<noteq> system_program_id" "u64_ok q" "u16_ok tid" "pda_at R tid q a L"
    and watermark: "\<And>l. load_tree R L tree = Inr l \<Longrightarrow> ta_tree_id l = tid \<Longrightarrow> close_before_index (ta_nullifier l) \<le> q"
  shows "pda_at R tid q a L'"
proof -
  let ?t = "address_of tree" and ?r = "\<lparr>np_queue_index = q, np_tree_id = tid\<rparr>"
  obtain l l1 L1 paid where l: "tree_at R L tree l" "\<not> is_paused l"
    and loop: "close_pdas_loop R \<lparr>close_tree_id = ta_tree_id l, close_below = close_before_index (ta_nullifier l)\<rparr> ?t vs
      (set_data ?t (Tree_Data l1) L) = Inr L1"
    and pay: "pay_reimbursement R ?t (address_of recipient) paid L1 = Inr L'"
    using assms(1) unfolding close_nullifier_pdas_success by auto
  have load: "load_tree R L tree = Inr l" using l by (simp add: tree_at_def account_simps)
  have ne: "a \<noteq> ?t" using tree_at_first_byte[OF l(1)] assms(5) by (auto simp: pda_at_def)
  have closed: "pdas_closed R \<lparr>close_tree_id = ta_tree_id l, close_below = close_before_index (ta_nullifier l)\<rparr> ?t vs
      (set_data ?t (Tree_Data l1) L) L1"
    by (rule close_pdas_loop_success[OF loop _ assms(2)]) simp
  have "a \<notin> address_of ` set vs"
  proof
    assume "a \<in> address_of ` set vs"
    then obtain s where s: "acc_data (L a) = Bytes (np_to_account_data s)" "u64_ok (np_queue_index s)" "u16_ok (np_tree_id s)"
      "np_tree_id s = ta_tree_id l" "np_queue_index s < close_before_index (ta_nullifier l)"
      using closed ne by (auto simp: pdas_closed_def)
    then have "np_to_account_data ?r = np_to_account_data s" using assms(5) by (simp add: pda_at_def)
    then have "?r = s" by (rule np_to_account_data_inj) (use assms(3,4) s in simp_all)
    then show False using s(4,5) watermark[OF load] by auto
  qed
  then have "acc_owner (L1 a) = acc_owner (L a)" "acc_data (L1 a) = acc_data (L a)"
    using closed ne by (simp_all add: pdas_closed_def)
  then show ?thesis using assms(5) by (simp add: pda_at_def pay_reimbursement_kept[OF pay])
qed

lemma create_keeps_pda:
  assumes "system_ok R" "rt_program_id R \<noteq> system_program_id" "acc_owner (L tree) = rt_program_id R"
    and "create_nullifier_pdas R payer tree xs res L = Inr L'" "pda_at R tid q a L"
  shows "pda_at R tid q a L' \<and> a \<notin> address_of ` fst ` set xs"
proof -
  define L1 where "L1 = (if itr_tree_fee res = 0 then L else move_lamports payer tree (itr_tree_fee res) L)"
  obtain rent where p: "pdas_created R rent tree (itr_tree_id res) (first_input_queue_seq (itr_input_tree res)) xs L1 L'"
    unfolding L1_def by (rule create_nullifier_pdas_success[OF assms(1-4)])
  have same: "acc_owner (L1 a) = acc_owner (L a)" "acc_data (L1 a) = acc_data (L a)" by (simp_all add: L1_def)
  then have "\<not> unused_account L1 a" using assms(2,5) by (simp add: unused_account_def pda_at_def)
  from pdas_created_frame[OF p this] show ?thesis using assms(5) same by (simp add: pda_at_def)
qed

lemma pda_steps_keep:
  assumes "system_ok R" "rt_program_id R \<noteq> system_program_id" "u64_ok q" "u16_ok tid"
    and "(pda_step R tid q)\<^sup>*\<^sup>* L L'" "pda_at R tid q a L"
  shows "pda_at R tid q a L'"
  using assms(5,6)
proof (induction rule: rtranclp_induct)
  case (step M M')
  from step(2) show ?case
  proof cases
    case (create payer tree xs res)
    then show ?thesis using create_keeps_pda[OF assms(1,2)] step.IH step.prems by blast
  next
    case (close authority config tree recipient vs payload)
    then show ?thesis using close_keeps_pda[OF close(1) assms(2-4)] step.IH step.prems by blast
  qed
qed simp

text \<open>
  C9.  A queued nullifier cannot be queued again before its PDA may be closed.
  Creation only succeeds for pairwise different nullifiers.  After it, through
  any sequence of further creations and of close instructions that find the
  tree's watermark at or below the nullifier's queue index, every creation that
  includes the nullifier for the same tree is rejected.
\<close>
theorem queued_nullifier_is_not_queued_again:
  assumes R: "system_ok R" "rt_program_id R \<noteq> system_program_id"
    and tree: "acc_owner (L tree) = rt_program_id R" "u16_ok (itr_tree_id res)"
    and create: "create_nullifier_pdas R payer tree xs res L = Inr L'"
    and i: "i < length xs"
    and steps: "(pda_step R (itr_tree_id res) (first_input_queue_seq (itr_input_tree res) + i))\<^sup>*\<^sup>* L' M"
    and tree': "acc_owner (M tree) = rt_program_id R"
    and again: "snd (xs ! i) \<in> snd ` set ys"
  shows "distinct (map snd xs) \<and> (\<nexists>M'. create_nullifier_pdas R payer' tree ys res' M = Inr M')"
proof -
  let ?q = "first_input_queue_seq (itr_input_tree res) + i"
  define L1 where "L1 = (if itr_tree_fee res = 0 then L else move_lamports payer tree (itr_tree_fee res) L)"
  obtain rent where p: "pdas_created R rent tree (itr_tree_id res) (first_input_queue_seq (itr_input_tree res)) xs L1 L'"
    unfolding L1_def by (rule create_nullifier_pdas_success[OF R tree(1) create])
  obtain v n where x: "xs ! i = (v, n)" by (cases "xs ! i")
  have at: "pda_at R (itr_tree_id res) ?q (address_of v) L'" "u64_ok ?q"
    using p i x by (fastforce simp: pdas_created_def pda_at_def)+
  then have M: "pda_at R (itr_tree_id res) ?q (address_of v) M" using pda_steps_keep[OF R _ tree(2) steps] by blast
  have "create_nullifier_pdas R payer' tree ys res' M \<noteq> Inr M'" for M'
  proof
    assume c: "create_nullifier_pdas R payer' tree ys res' M = Inr M'"
    define M1 where "M1 = (if itr_tree_fee res' = 0 then M else move_lamports payer' tree (itr_tree_fee res') M)"
    obtain rent' where p': "pdas_created R rent' tree (itr_tree_id res') (first_input_queue_seq (itr_input_tree res')) ys M1 M'"
      unfolding M1_def by (rule create_nullifier_pdas_success[OF R tree' c])
    obtain w where w: "(w, n) \<in> set ys" using again x by auto
    have "(v, n) \<in> set xs" using i x by (metis nth_mem)
    then have "address_of w = address_of v"
      using pdas_created_derived(1)[OF p, of v n] pdas_created_derived(1)[OF p' w] by auto
    then show False
      using create_keeps_pda[OF R tree' c M] w by (metis fst_conv image_eqI)
  qed
  then show ?thesis using pdas_created_nullifiers_distinct[OF p] by blast
qed

definition demo_nullifier_pda :: address where
  "demo_nullifier_pda = NULLIFIER_PDA_SEED @ replicate 23 0"

definition demo_pda_view :: account_view where
  "demo_pda_view = \<lparr>address_of = demo_nullifier_pda, is_signer = False, is_writable = True, is_executable = False\<rparr>"

definition demo_input_tree :: input_tree_result where
  "demo_input_tree = \<lparr>itr_input_tree = \<lparr>its_tree = demo_address 11, first_input_queue_seq = 1\<rparr>, itr_tree_fee = 5000,
     itr_fee_balance = 5000, itr_tree_id = 3\<rparr>"

lemma demo_nullifier_pda_derived: "demo_pda (nullifier_pda_seeds (demo_address 11) n) pid = Some (demo_nullifier_pda, 255)"
  by (simp add: demo_pda_def demo_nullifier_pda_def NULLIFIER_PDA_SEED_def demo_address_def)

lemma demo_nullifier_pda_other: "demo_nullifier_pda \<noteq> demo_address n" "demo_address n \<noteq> demo_nullifier_pda"
proof -
  have "hd demo_nullifier_pda = 110" by (simp add: demo_nullifier_pda_def NULLIFIER_PDA_SEED_def)
  moreover have "hd (demo_address n) = 0" by (simp add: demo_address_def hd_append)
  ultimately show "demo_nullifier_pda \<noteq> demo_address n" "demo_address n \<noteq> demo_nullifier_pda" by auto
qed

definition demo_pda_ledger :: ledger where
  "demo_pda_ledger = install demo_nullifier_pda (demo_address 100)
     (Bytes (np_to_account_data \<lparr>np_queue_index = 1, np_tree_id = 3\<rparr>))
     (move_lamports (demo_address 1) (demo_address 11) 5000 (demo_ledger demo_tree 5000000))"

lemma demo_creation:
  "create_nullifier_pdas demo_runtime (demo_address 1) (demo_address 11) [(demo_pda_view, n)] demo_input_tree
     (demo_ledger demo_tree 5000000) = Inr demo_pda_ledger"
proof -
  let ?L = "move_lamports (demo_address 1) (demo_address 11) 5000 (demo_ledger demo_tree 5000000)"
  have L: "acc_owner (?L demo_nullifier_pda) = system_program_id" "acc_data (?L demo_nullifier_pda) = Bytes []"
    by (simp_all add: demo_ledger_def demo_nullifier_pda_other)
  have rich: "lamports (demo_ledger demo_tree 5000000) (demo_address 1) = 1000000"
    "lamports (demo_ledger demo_tree 5000000) demo_nullifier_pda = 1000000"
    by (simp_all add: demo_ledger_def lamports_def demo_address_inj demo_nullifier_pda_other)
  then have full: "lamports ?L demo_nullifier_pda = 1000000"
    by (simp add: lamports_move_lamports demo_address_inj demo_nullifier_pda_other)
  have fee: "collect_tree_fee demo_runtime (demo_address 1) (demo_address 11) 5000 (demo_ledger demo_tree 5000000) = Inr ?L"
    using rich by (simp add: collect_tree_fee_def demo_runtime_def)
  have init: "nullifier_pda_init demo_runtime (demo_address 11) n \<lparr>np_queue_index = 1, np_tree_id = 3\<rparr> demo_pda_view ?L = Inr demo_pda_ledger"
    using L by (simp add: nullifier_pda_init_def load_unused_nullifier_pda_def verify_pda_def demo_runtime_def demo_pda_view_def
        demo_nullifier_pda_derived resize_bytes_def np_write_to_def set_data_def install_def demo_pda_ledger_def)
  have "top_up \<lparr>nullifier_pda_minimum = 1110, tree_minimum = x\<rparr> (demo_address 11) demo_nullifier_pda demo_pda_ledger = Inr demo_pda_ledger" for x
    using full by (simp add: top_up_def demo_pda_ledger_def saturating_sub_def)
  then show ?thesis
    using fee init by (simp add: create_nullifier_pdas_def demo_input_tree_def demo_runtime_def demo_rent_def NULLIFIER_PDA_SIZE_def
        checked_add_def u64_limit_def data_len_def demo_ledger_def demo_address_inj account_size_value demo_pda_view_def result_simps)
qed

theorem queued_nullifier_is_not_queued_again_witness:
  "create_nullifier_pdas demo_runtime (demo_address 1) (demo_address 11) [(demo_pda_view, zero32)] demo_input_tree
     (demo_ledger demo_tree 5000000) = Inr demo_pda_ledger
   \<and> (\<nexists>M'. create_nullifier_pdas demo_runtime (demo_address 2) (demo_address 11) [(demo_pda_view, zero32)] demo_input_tree
        demo_pda_ledger = Inr M')"
proof -
  have "rt_program_id demo_runtime \<noteq> system_program_id" using demo_system_id[of 100] by (simp add: demo_runtime_def)
  moreover have "acc_owner (demo_ledger demo_tree 5000000 (demo_address 11)) = rt_program_id demo_runtime"
    by (simp add: demo_ledger_def demo_runtime_def demo_address_inj)
  moreover have "acc_owner (demo_pda_ledger (demo_address 11)) = rt_program_id demo_runtime"
    by (simp add: demo_pda_ledger_def demo_ledger_def demo_runtime_def demo_address_inj demo_nullifier_pda_other)
  ultimately show ?thesis
    using queued_nullifier_is_not_queued_again[OF system_ok_demo _ _ _ demo_creation[of zero32], where i = 0
        and M = demo_pda_ledger and ys = "[(demo_pda_view, zero32)]"] demo_creation[of zero32]
    by (auto simp: demo_input_tree_def u16_limit_def)
qed


section \<open>No lamport is created or lost\<close>

lemma pay_reimbursement_total:
  assumes "pay_reimbursement R tree recipient paid L = Inr L'" "tree \<noteq> recipient" "finite A" "tree \<in> A" "recipient \<in> A"
  shows "total_lamports A L' = total_lamports A L"
  using pay_reimbursement_cases[OF assms(1)] pay_total[OF _ assms(2-5)] by auto

lemma total_set_data [simp]: "total_lamports A (set_data a d L) = total_lamports A L"
  by (simp add: total_lamports_def)

lemma create_total:
  assumes "system_ok R" "rt_program_id R \<noteq> system_program_id" "acc_owner (L tree) = rt_program_id R"
    "create_nullifier_pdas R payer tree xs res L = Inr L'"
    "finite A" "payer \<in> A" "tree \<in> A" "address_of ` fst ` set xs \<subseteq> A"
  shows "total_lamports A L' = total_lamports A L"
proof -
  define L1 where "L1 = (if itr_tree_fee res = 0 then L else move_lamports payer tree (itr_tree_fee res) L)"
  obtain rent where "itr_tree_fee res \<le> lamports L payer \<or> itr_tree_fee res = 0"
    and p: "pdas_created R rent tree (itr_tree_id res) (first_input_queue_seq (itr_input_tree res)) xs L1 L'"
    unfolding L1_def by (rule create_nullifier_pdas_success[OF assms(1-4)])
  then have "total_lamports A L1 = total_lamports A L"
    using total_move_lamports[OF assms(5-7)] by (auto simp: L1_def)
  then show ?thesis using p assms(5-8) by (simp add: pdas_created_def)
qed

lemma close_total:
  assumes "rt_program_id R \<noteq> system_program_id"
    "process_close_nullifier_pdas R accounts payload L = Inr L'" "finite A" "address_of ` set accounts \<subseteq> A"
  shows "total_lamports A L' = total_lamports A L"
proof -
  obtain authority config tree recipient vs l l1 L1 paid c where
    acc: "accounts = authority # config # tree # recipient # vs" and foreign: "\<not> owned_by L recipient (rt_program_id R)"
    and l: "tree_at R L tree l"
    and loop: "close_pdas_loop R c (address_of tree) vs (set_data (address_of tree) (Tree_Data l1) L) = Inr L1"
    and pay: "pay_reimbursement R (address_of tree) (address_of recipient) paid L1 = Inr L'"
    using assms(2) unfolding close_nullifier_pdas_success by blast
  have ne: "address_of tree \<noteq> address_of recipient" using foreign tree_at_owned[OF l] by (auto simp: owned_by_def)
  have "pdas_closed R c (address_of tree) vs (set_data (address_of tree) (Tree_Data l1) L) L1"
    by (rule close_pdas_loop_success[OF loop _ assms(1)]) simp
  then have "total_lamports A L1 = total_lamports A (set_data (address_of tree) (Tree_Data l1) L)"
    by (rule pdas_closed_total) (use assms(3,4) acc in auto)
  then show ?thesis
    using pay_reimbursement_total[OF pay ne assms(3)] assms(4) acc by simp
qed

text \<open>
  C38.  Creating and closing nullifier PDAs conserves lamports.  Whatever set of
  accounts contains those the operation names, its total is the same before and
  after; so rent a tree lends to a PDA, the fee the payer adds and what a
  forester is paid are moved, never minted or burnt.
\<close>
theorem nullifier_pda_lamports_conserved:
  assumes "system_ok R" "rt_program_id R \<noteq> system_program_id" "finite A"
  shows "(create_nullifier_pdas R payer tree xs res L = Inr L' \<and> acc_owner (L tree) = rt_program_id R
            \<and> {payer, tree} \<union> address_of ` fst ` set xs \<subseteq> A \<longrightarrow> total_lamports A L' = total_lamports A L)
    \<and> (process_close_nullifier_pdas R accounts payload L = Inr L' \<and> address_of ` set accounts \<subseteq> A
         \<longrightarrow> total_lamports A L' = total_lamports A L)"
  using create_total[OF assms(1,2)] close_total[OF assms(2)] assms(3) by auto

theorem nullifier_pda_lamports_conserved_witness:
  "create_nullifier_pdas demo_runtime (demo_address 1) (demo_address 11) [(demo_pda_view, zero32)] demo_input_tree
     (demo_ledger demo_tree 5000000) = Inr demo_pda_ledger
   \<and> total_lamports {demo_address 1, demo_address 11, demo_nullifier_pda} demo_pda_ledger
       = total_lamports {demo_address 1, demo_address 11, demo_nullifier_pda} (demo_ledger demo_tree 5000000)"
proof -
  have "rt_program_id demo_runtime \<noteq> system_program_id" using demo_system_id[of 100] by (simp add: demo_runtime_def)
  moreover have "acc_owner (demo_ledger demo_tree 5000000 (demo_address 11)) = rt_program_id demo_runtime"
    by (simp add: demo_ledger_def demo_runtime_def demo_address_inj)
  ultimately show ?thesis
    using nullifier_pda_lamports_conserved[OF system_ok_demo, where A = "{demo_address 1, demo_address 11, demo_nullifier_pda}"
        and payer = "demo_address 1" and tree = "demo_address 11" and xs = "[(demo_pda_view, zero32)]" and res = demo_input_tree
        and L = "demo_ledger demo_tree 5000000" and L' = demo_pda_ledger] demo_creation[of zero32]
    by (auto simp: demo_pda_view_def)
qed


section \<open>Batch updates\<close>

lemma batch_update_success:
  "process_batch_update_nullifier_tree P G R accounts payload L = Inr (L', evs) \<longleftrightarrow>
    (\<exists>d authority config tree recipient rest c l t ev.
      try_from_slice read_batch_nullify_inputs payload = Some d
      \<and> accounts = authority # config # tree # recipient # rest \<and> is_signer authority \<and> is_writable tree \<and> is_writable recipient
      \<and> config_at R L config c \<and> forester_authority c = address_of authority \<and> \<not> owned_by L recipient (rt_program_id R)
      \<and> tree_at R L tree l \<and> \<not> is_paused l
      \<and> update_tree_from_queue P G (address_of tree) d (ta_nullifier l) = Inr (t, ev)
      \<and> (case ev of
           None \<Rightarrow> L' = set_data (address_of tree) (Tree_Data (l\<lparr>ta_nullifier := t\<rparr>)) L \<and> evs = []
         | Some e \<Rightarrow>
            pay_reimbursement R (address_of tree) (address_of recipient)
              (snd (take_append_reimbursement (num_update e) (l\<lparr>ta_nullifier := t\<rparr>)))
              (set_data (address_of tree)
                (Tree_Data (fst (take_append_reimbursement (num_update e) (l\<lparr>ta_nullifier := t\<rparr>)))) L) = Inr L'
            \<and> evs = [encode_event_instruction NullifierTreeUpdate_Event (write_update_event e)]))"
  by (auto simp: process_batch_update_nullifier_tree_def result_simps next_account_eq_Inr next_signer_eq_Inr next_mut_eq_Inr
      validate_authority_eq_Inr check_reimbursement_recipient_eq_Inr from_account_view_mut_eq_Inr tree_at_def
      from_account_view_mut_allow_paused_eq emit_event_def case_prod_beta Let_def split: option.splits) blast+

end
