(* ===== verification/Circuits.thy ===== *)
theory Circuits
  imports Wire
begin

text \<open>
  Which circuits a \<open>transact\<close> may name: the supported shapes
  (\<open>program-libs/interface/src/shape.rs\<close>), the circuit selector with its cache
  declaration and its wincode layout (\<open>verifying_keys/circuit.rs\<close>), and the
  protocol limits of \<open>lib.rs\<close>.  The verifying keys themselves are generated data;
  here a key is named by its rail and shape, which is what the selection table
  decides.
\<close>

section \<open>Limits (lib.rs)\<close>

definition N_PUBLIC_SLOTS :: nat where "N_PUBLIC_SLOTS = 3"
definition INPUT_TREES :: nat where "INPUT_TREES = 5"
definition MAX_INPUT_TREES :: nat where "MAX_INPUT_TREES = 2"
definition MAX_INTERFACE_TRANSFERS :: nat where "MAX_INTERFACE_TRANSFERS = 32"
definition MAX_OUTPUTS :: nat where "MAX_OUTPUTS = 16"
definition MAX_TRANSACT_INPUTS :: nat where "MAX_TRANSACT_INPUTS = 49"
definition CACHE_CAPACITY :: nat where "CACHE_CAPACITY = 36"


section \<open>Shapes (shape.rs)\<close>

record shape =
  sh_inputs :: nat
  sh_outputs :: nat

definition shape_new :: "nat \<Rightarrow> nat \<Rightarrow> shape" where
  "shape_new n m = \<lparr>sh_inputs = n, sh_outputs = m\<rparr>"

definition MAX_TRANSACTION_ADDRESSES :: nat where "MAX_TRANSACTION_ADDRESSES = 64"
definition FIXED_TRANSACT_ADDRESSES :: nat where "FIXED_TRANSACT_ADDRESSES = 4"
definition MAX_SIGNERS :: nat where "MAX_SIGNERS = 29"

definition owner_signer_slots :: "nat \<Rightarrow> nat" where
  "owner_signer_slots n =
    (let remaining = saturating_sub MAX_TRANSACTION_ADDRESSES (FIXED_TRANSACT_ADDRESSES + n) in
     if n < remaining then n else remaining)"

definition signer_width :: "shape \<Rightarrow> nat" where
  "signer_width s = owner_signer_slots (sh_inputs s) + 1"

definition SPP_SUPPORTED_SHAPES :: "shape list" where
  "SPP_SUPPORTED_SHAPES =
    [shape_new 1 2, shape_new 1 4, shape_new 1 8, shape_new 2 2, shape_new 2 4, shape_new 1 16, shape_new 2 8,
     shape_new 3 2, shape_new 3 4, shape_new 2 16, shape_new 3 8, shape_new 4 2, shape_new 4 4, shape_new 4 8,
     shape_new 5 2, shape_new 5 4, shape_new 4 16, shape_new 5 8, shape_new 6 2, shape_new 6 4, shape_new 5 16,
     shape_new 6 8, shape_new 8 2, shape_new 8 4, shape_new 8 8, shape_new 8 16, shape_new 12 2, shape_new 12 4,
     shape_new 12 8, shape_new 16 2, shape_new 16 4, shape_new 16 8, shape_new 24 2, shape_new 24 4, shape_new 32 2,
     shape_new 40 2, shape_new 48 2, shape_new 49 2]"

definition CONFIDENTIAL_EDDSA_SHAPES :: "shape list" where
  "CONFIDENTIAL_EDDSA_SHAPES =
    [shape_new 2 8, shape_new 2 16, shape_new 4 8, shape_new 4 16, shape_new 8 8, shape_new 8 16, shape_new 16 8,
     shape_new 16 16, shape_new 24 8, shape_new 24 16, shape_new 48 8, shape_new 48 16]"

definition RING_AUTHORITY_WIDTHS :: "nat list" where "RING_AUTHORITY_WIDTHS = [2, 4]"

fun is_listed :: "shape \<Rightarrow> shape list \<Rightarrow> bool" where
  "is_listed s [] = False"
| "is_listed s (t # rest) = (if sh_inputs t = sh_inputs s \<and> sh_outputs t = sh_outputs s then True else is_listed s rest)"

definition shape_is_supported :: "shape \<Rightarrow> bool" where
  "shape_is_supported s = is_listed s SPP_SUPPORTED_SHAPES"

definition is_confidential_eddsa :: "shape \<Rightarrow> bool" where
  "is_confidential_eddsa s = is_listed s CONFIDENTIAL_EDDSA_SHAPES"

fun is_width :: "nat \<Rightarrow> nat list \<Rightarrow> bool" where
  "is_width n [] = False"
| "is_width n (w # rest) = (if w = n then True else is_width n rest)"

definition is_ring_authority :: "shape \<Rightarrow> bool" where
  "is_ring_authority s = (if sh_inputs s \<noteq> sh_outputs s then False else is_width (sh_inputs s) RING_AUTHORITY_WIDTHS)"


section \<open>Circuit selectors (verifying\_keys/circuit.rs)\<close>

record bsb22_commitment =
  commitment :: bytes
  commitment_pok :: bytes

record anonymous_ring_eddsa_proof_data =
  an_bsb22_commitment :: bsb22_commitment
  an_default_owner_tag :: "bytes option"

record eddsa_proof_data =
  ed_bsb22_commitment :: bsb22_commitment
  ed_owner_pk :: bytes

record cache_write =
  cw_output :: nat
  cw_slot :: nat

record cache_access =
  read_bitmap :: nat
  write_slots :: "cache_write list"

definition MAX_CACHE_WRITES :: nat where "MAX_CACHE_WRITES = 16"

definition CACHE_WRITE_NONE :: cache_write where
  "CACHE_WRITE_NONE = \<lparr>cw_output = 255, cw_slot = 255\<rparr>"

definition cache_writes :: "cache_access \<Rightarrow> cache_write list" where
  "cache_writes a = takeWhile (\<lambda>e. e \<noteq> CACHE_WRITE_NONE) (write_slots a)"

definition writes_cache :: "cache_access \<Rightarrow> bool" where
  "writes_cache a = (case write_slots a of [] \<Rightarrow> False | e # _ \<Rightarrow> e \<noteq> CACHE_WRITE_NONE)"

fun no_later_conflict :: "cache_write list \<Rightarrow> bool" where
  "no_later_conflict [] = True"
| "no_later_conflict (e # rest) =
    ((\<forall>later \<in> set rest. cw_slot later \<noteq> cw_slot e \<and> cw_output later \<noteq> cw_output e) \<and> no_later_conflict rest)"

definition valid_cache_writes :: "cache_write list \<Rightarrow> nat \<Rightarrow> bool" where
  "valid_cache_writes slots output_count =
    (let used = length (takeWhile (\<lambda>e. e \<noteq> CACHE_WRITE_NONE) slots);
         writes = take used slots; unused = drop used slots in
     (\<forall>e \<in> set unused. e = CACHE_WRITE_NONE)
     \<and> (\<forall>e \<in> set writes. cw_output e < output_count \<and> cw_slot e < CACHE_CAPACITY)
     \<and> no_later_conflict writes)"

definition bit_set :: "nat \<Rightarrow> nat \<Rightarrow> bool" where
  "bit_set v i = odd (v div 2 ^ i)"

definition count_ones :: "nat \<Rightarrow> nat" where
  "count_ones v = length (filter (bit_set v) [0..<64])"

definition cache_access_valid :: "cache_access \<Rightarrow> nat \<Rightarrow> nat \<Rightarrow> bool" where
  "cache_access_valid a input_count output_count =
    (read_bitmap a div 2 ^ CACHE_CAPACITY = 0 \<and> count_ones (read_bitmap a) \<le> input_count
     \<and> (read_bitmap a \<noteq> 0 \<or> writes_cache a) \<and> valid_cache_writes (write_slots a) output_count)"

datatype output_owner_mode = Owner_None | Owner_All | Owner_ConfidentialMarked

datatype circuit_id =
    ConfidentialSigner nat nat nat
  | ConfidentialRingEddsa nat nat nat
  | RingAuthority nat nat nat
  | AnonymousRingEddsa nat nat nat anonymous_ring_eddsa_proof_data
  | ConfidentialSignerCached nat nat nat cache_access
  | ConfidentialRingEddsaCached nat nat nat cache_access
  | AnonymousRingEddsaCached nat nat nat anonymous_ring_eddsa_proof_data cache_access
  | ConfidentialEddsa nat nat nat eddsa_proof_data
  | ConfidentialEddsaCached nat nat nat eddsa_proof_data cache_access

fun circuit_cache_access :: "circuit_id \<Rightarrow> cache_access option" where
  "circuit_cache_access (ConfidentialSignerCached _ _ _ selection) = Some selection"
| "circuit_cache_access (ConfidentialRingEddsaCached _ _ _ selection) = Some selection"
| "circuit_cache_access (AnonymousRingEddsaCached _ _ _ _ selection) = Some selection"
| "circuit_cache_access (ConfidentialEddsaCached _ _ _ _ selection) = Some selection"
| "circuit_cache_access _ = None"

fun uncached :: "circuit_id \<Rightarrow> circuit_id" where
  "uncached (ConfidentialSignerCached n m s _) = ConfidentialSigner n m s"
| "uncached (ConfidentialRingEddsaCached n m s _) = ConfidentialRingEddsa n m s"
| "uncached (AnonymousRingEddsaCached n m s p _) = AnonymousRingEddsa n m s p"
| "uncached (ConfidentialEddsaCached n m s p _) = ConfidentialEddsa n m s p"
| "uncached c = c"

primrec num_inputs :: "circuit_id \<Rightarrow> nat" where
  "num_inputs (ConfidentialSigner n _ _) = n"
| "num_inputs (ConfidentialRingEddsa n _ _) = n"
| "num_inputs (RingAuthority n _ _) = n"
| "num_inputs (AnonymousRingEddsa n _ _ _) = n"
| "num_inputs (ConfidentialSignerCached n _ _ _) = n"
| "num_inputs (ConfidentialRingEddsaCached n _ _ _) = n"
| "num_inputs (AnonymousRingEddsaCached n _ _ _ _) = n"
| "num_inputs (ConfidentialEddsa n _ _ _) = n"
| "num_inputs (ConfidentialEddsaCached n _ _ _ _) = n"

primrec num_outputs :: "circuit_id \<Rightarrow> nat" where
  "num_outputs (ConfidentialSigner _ n _) = n"
| "num_outputs (ConfidentialRingEddsa _ n _) = n"
| "num_outputs (RingAuthority _ n _) = n"
| "num_outputs (AnonymousRingEddsa _ n _ _) = n"
| "num_outputs (ConfidentialSignerCached _ n _ _) = n"
| "num_outputs (ConfidentialRingEddsaCached _ n _ _) = n"
| "num_outputs (AnonymousRingEddsaCached _ n _ _ _) = n"
| "num_outputs (ConfidentialEddsa _ n _ _) = n"
| "num_outputs (ConfidentialEddsaCached _ n _ _ _) = n"

primrec num_public_asset_slots :: "circuit_id \<Rightarrow> nat" where
  "num_public_asset_slots (ConfidentialSigner _ _ n) = n"
| "num_public_asset_slots (ConfidentialRingEddsa _ _ n) = n"
| "num_public_asset_slots (RingAuthority _ _ n) = n"
| "num_public_asset_slots (AnonymousRingEddsa _ _ n _) = n"
| "num_public_asset_slots (ConfidentialSignerCached _ _ n _) = n"
| "num_public_asset_slots (ConfidentialRingEddsaCached _ _ n _) = n"
| "num_public_asset_slots (AnonymousRingEddsaCached _ _ n _ _) = n"
| "num_public_asset_slots (ConfidentialEddsa _ _ n _) = n"
| "num_public_asset_slots (ConfidentialEddsaCached _ _ n _ _) = n"

definition circuit_shape :: "circuit_id \<Rightarrow> nat \<times> nat \<times> nat" where
  "circuit_shape c = (num_inputs c, num_outputs c, num_public_asset_slots c)"

definition is_confidential :: "circuit_id \<Rightarrow> bool" where
  "is_confidential c = (case uncached c of
     ConfidentialSigner _ _ _ \<Rightarrow> True | ConfidentialRingEddsa _ _ _ \<Rightarrow> True
   | AnonymousRingEddsa _ _ _ _ \<Rightarrow> True | ConfidentialEddsa _ _ _ _ \<Rightarrow> True | _ \<Rightarrow> False)"

definition is_ring :: "circuit_id \<Rightarrow> bool" where
  "is_ring c = (case uncached c of
     ConfidentialRingEddsa _ _ _ \<Rightarrow> True | RingAuthority _ _ _ \<Rightarrow> True | AnonymousRingEddsa _ _ _ _ \<Rightarrow> True | _ \<Rightarrow> False)"

definition is_authority :: "circuit_id \<Rightarrow> bool" where
  "is_authority c = (case c of RingAuthority _ _ _ \<Rightarrow> True | _ \<Rightarrow> False)"

definition is_anonymous :: "circuit_id \<Rightarrow> bool" where
  "is_anonymous c = (case uncached c of AnonymousRingEddsa _ _ _ _ \<Rightarrow> True | _ \<Rightarrow> False)"

definition has_message_hash :: "circuit_id \<Rightarrow> bool" where
  "has_message_hash c = (case uncached c of
     AnonymousRingEddsa _ _ _ _ \<Rightarrow> True | ConfidentialEddsa _ _ _ _ \<Rightarrow> True | _ \<Rightarrow> False)"

fun circuit_bsb22_commitment :: "circuit_id \<Rightarrow> bsb22_commitment option" where
  "circuit_bsb22_commitment (AnonymousRingEddsa _ _ _ p) = Some (an_bsb22_commitment p)"
| "circuit_bsb22_commitment (AnonymousRingEddsaCached _ _ _ p _) = Some (an_bsb22_commitment p)"
| "circuit_bsb22_commitment (ConfidentialEddsa _ _ _ p) = Some (ed_bsb22_commitment p)"
| "circuit_bsb22_commitment (ConfidentialEddsaCached _ _ _ p _) = Some (ed_bsb22_commitment p)"
| "circuit_bsb22_commitment _ = None"

fun eddsa_owner_pk :: "circuit_id \<Rightarrow> bytes option" where
  "eddsa_owner_pk (ConfidentialEddsa _ _ _ p) = Some (ed_owner_pk p)"
| "eddsa_owner_pk (ConfidentialEddsaCached _ _ _ p _) = Some (ed_owner_pk p)"
| "eddsa_owner_pk _ = None"

fun default_owner_tag :: "circuit_id \<Rightarrow> bytes option" where
  "default_owner_tag (AnonymousRingEddsa _ _ _ p) = an_default_owner_tag p"
| "default_owner_tag (AnonymousRingEddsaCached _ _ _ p _) = an_default_owner_tag p"
| "default_owner_tag _ = None"

definition requires_input_signatures :: "circuit_id \<Rightarrow> bool" where
  "requires_input_signatures c = (\<not> is_authority c)"

fun circuit_output_owner_mode :: "circuit_id \<Rightarrow> output_owner_mode" where
  "circuit_output_owner_mode (ConfidentialSigner _ _ _) = Owner_All"
| "circuit_output_owner_mode (ConfidentialSignerCached _ _ _ _) = Owner_All"
| "circuit_output_owner_mode (ConfidentialEddsa _ _ _ _) = Owner_All"
| "circuit_output_owner_mode (ConfidentialEddsaCached _ _ _ _ _) = Owner_All"
| "circuit_output_owner_mode (RingAuthority _ _ _) = Owner_None"
| "circuit_output_owner_mode _ = Owner_ConfidentialMarked"

definition circuit_is_supported :: "circuit_id \<Rightarrow> bool" where
  "circuit_is_supported c =
    (if num_public_asset_slots c \<noteq> N_PUBLIC_SLOTS then False
     else let s = shape_new (num_inputs c) (num_outputs c) in
       case c of
         RingAuthority _ _ _ \<Rightarrow> is_ring_authority s
       | ConfidentialEddsa _ _ _ _ \<Rightarrow> is_confidential_eddsa s
       | ConfidentialEddsaCached _ _ _ _ _ \<Rightarrow> is_confidential_eddsa s
       | _ \<Rightarrow> shape_is_supported s)"


section \<open>The key table\<close>

datatype key_rail = Transfer_Confidential | Transfer_Ring | Transfer_Eddsa_Ring | Transfer_Ring_Authority
  | Transfer_Confidential_Eddsa

definition TRANSACT_KEYS :: "(nat \<times> nat) list" where
  "TRANSACT_KEYS =
    [(1, 2), (1, 4), (1, 8), (2, 2), (2, 4), (1, 16), (2, 8), (3, 2), (3, 4), (2, 16), (3, 8), (4, 2), (4, 4), (4, 8),
     (5, 2), (5, 4), (4, 16), (5, 8), (6, 2), (6, 4), (5, 16), (6, 8), (8, 2), (8, 4), (8, 8), (8, 16), (12, 2),
     (12, 4), (12, 8), (16, 2), (16, 4), (16, 8), (24, 2), (24, 4), (32, 2), (40, 2), (48, 2), (49, 2)]"

definition AUTHORITY_KEYS :: "(nat \<times> nat) list" where "AUTHORITY_KEYS = [(2, 2), (4, 4)]"

definition CONFIDENTIAL_EDDSA_KEYS :: "(nat \<times> nat) list" where
  "CONFIDENTIAL_EDDSA_KEYS =
    [(2, 8), (2, 16), (4, 8), (4, 16), (8, 8), (8, 16), (16, 8), (16, 16), (24, 8), (24, 16), (48, 8), (48, 16)]"

definition select_key :: "key_rail \<Rightarrow> (nat \<times> nat) list \<Rightarrow> nat \<Rightarrow> nat \<Rightarrow> nat \<Rightarrow> (key_rail \<times> nat \<times> nat) option" where
  "select_key rail keys n m slots =
    (if slots = N_PUBLIC_SLOTS \<and> (n, m) \<in> set keys then Some (rail, n, m) else None)"

fun circuit_key_item :: "circuit_id \<Rightarrow> (key_rail \<times> nat \<times> nat) option" where
  "circuit_key_item (ConfidentialSigner n m s) = select_key Transfer_Confidential TRANSACT_KEYS n m s"
| "circuit_key_item (ConfidentialRingEddsa n m s) = select_key Transfer_Ring TRANSACT_KEYS n m s"
| "circuit_key_item (AnonymousRingEddsa n m s _) = select_key Transfer_Eddsa_Ring TRANSACT_KEYS n m s"
| "circuit_key_item (RingAuthority n m s) = select_key Transfer_Ring_Authority AUTHORITY_KEYS n m s"
| "circuit_key_item (ConfidentialEddsa n m s _) = select_key Transfer_Confidential_Eddsa CONFIDENTIAL_EDDSA_KEYS n m s"
| "circuit_key_item _ = None"

definition verifying_key_name :: "circuit_id \<Rightarrow> (key_rail \<times> nat \<times> nat) option" where
  "verifying_key_name c = circuit_key_item (uncached c)"

section \<open>Wire layout\<close>

definition write_fixed_option :: "bytes option \<Rightarrow> bytes" where
  "write_fixed_option v = (case v of Some tag \<Rightarrow> 1 # tag | None \<Rightarrow> 0 # zero32)"

definition read_fixed_option :: "bytes option reader" where
  "read_fixed_option = read_then (read_uint 1) (\<lambda>present. read_then (read_bytes 32) (\<lambda>tag.
    if present = 0 then if tag \<noteq> zero32 then read_fail else read_return None
    else if present = 1 then read_return (Some tag) else read_fail))"

definition write_bsb22 :: "bsb22_commitment \<Rightarrow> bytes" where
  "write_bsb22 b = commitment b @ commitment_pok b"

definition read_bsb22 :: "bsb22_commitment reader" where
  "read_bsb22 = read_then (read_bytes 32) (\<lambda>c. read_then (read_bytes 32) (\<lambda>p.
    read_return \<lparr>commitment = c, commitment_pok = p\<rparr>))"

definition bsb22_ok :: "bsb22_commitment \<Rightarrow> bool" where
  "bsb22_ok b \<longleftrightarrow> bytes_ok 32 (commitment b) \<and> bytes_ok 32 (commitment_pok b)"

definition write_anonymous :: "anonymous_ring_eddsa_proof_data \<Rightarrow> bytes" where
  "write_anonymous p = write_bsb22 (an_bsb22_commitment p) @ write_fixed_option (an_default_owner_tag p)"

definition read_anonymous :: "anonymous_ring_eddsa_proof_data reader" where
  "read_anonymous = read_then read_bsb22 (\<lambda>b. read_then read_fixed_option (\<lambda>t.
    read_return \<lparr>an_bsb22_commitment = b, an_default_owner_tag = t\<rparr>))"

definition anonymous_ok :: "anonymous_ring_eddsa_proof_data \<Rightarrow> bool" where
  "anonymous_ok p \<longleftrightarrow> bsb22_ok (an_bsb22_commitment p) \<and> option_ok (bytes_ok 32) (an_default_owner_tag p)"

definition write_eddsa :: "eddsa_proof_data \<Rightarrow> bytes" where
  "write_eddsa p = write_bsb22 (ed_bsb22_commitment p) @ ed_owner_pk p"

definition read_eddsa :: "eddsa_proof_data reader" where
  "read_eddsa = read_then read_bsb22 (\<lambda>b. read_then (read_bytes 32) (\<lambda>k.
    read_return \<lparr>ed_bsb22_commitment = b, ed_owner_pk = k\<rparr>))"

definition eddsa_ok :: "eddsa_proof_data \<Rightarrow> bool" where
  "eddsa_ok p \<longleftrightarrow> bsb22_ok (ed_bsb22_commitment p) \<and> bytes_ok 32 (ed_owner_pk p)"

definition write_cache_write :: "cache_write \<Rightarrow> bytes" where
  "write_cache_write e = write_u8 (cw_output e) @ write_u8 (cw_slot e)"

definition read_cache_write :: "cache_write reader" where
  "read_cache_write = read_then read_u8 (\<lambda>out. read_then read_u8 (\<lambda>slot.
    read_return \<lparr>cw_output = out, cw_slot = slot\<rparr>))"

definition cache_write_ok :: "cache_write \<Rightarrow> bool" where
  "cache_write_ok e \<longleftrightarrow> cw_output e < 256 \<and> cw_slot e < 256"

definition write_cache_access :: "cache_access \<Rightarrow> bytes" where
  "write_cache_access a = to_le_bytes 8 (read_bitmap a) @ concat (map write_cache_write (write_slots a))"

definition read_cache_access :: "cache_access reader" where
  "read_cache_access = read_then (read_uint 8) (\<lambda>b. read_then (read_times read_cache_write MAX_CACHE_WRITES) (\<lambda>ws.
    read_return \<lparr>read_bitmap = b, write_slots = ws\<rparr>))"

definition cache_access_ok :: "cache_access \<Rightarrow> bool" where
  "cache_access_ok a \<longleftrightarrow> u64_ok (read_bitmap a) \<and> length (write_slots a) = MAX_CACHE_WRITES \<and> list_all cache_write_ok (write_slots a)"

definition write_dims :: "nat \<Rightarrow> nat \<Rightarrow> nat \<Rightarrow> nat \<Rightarrow> bytes" where
  "write_dims tag n m s = to_le_bytes 2 tag @ write_u8 n @ write_u8 m @ write_u8 s"

primrec write_circuit_id :: "circuit_id \<Rightarrow> bytes" where
  "write_circuit_id (ConfidentialSigner n m s) = write_dims 0 n m s"
| "write_circuit_id (ConfidentialRingEddsa n m s) = write_dims 1 n m s"
| "write_circuit_id (RingAuthority n m s) = write_dims 2 n m s"
| "write_circuit_id (AnonymousRingEddsa n m s p) = write_dims 3 n m s @ write_anonymous p"
| "write_circuit_id (ConfidentialSignerCached n m s a) = write_dims 4 n m s @ write_cache_access a"
| "write_circuit_id (ConfidentialRingEddsaCached n m s a) = write_dims 5 n m s @ write_cache_access a"
| "write_circuit_id (AnonymousRingEddsaCached n m s p a) = write_dims 6 n m s @ write_anonymous p @ write_cache_access a"
| "write_circuit_id (ConfidentialEddsa n m s p) = write_dims 7 n m s @ write_eddsa p"
| "write_circuit_id (ConfidentialEddsaCached n m s p a) = write_dims 8 n m s @ write_eddsa p @ write_cache_access a"

definition read_dims :: "(nat \<Rightarrow> nat \<Rightarrow> nat \<Rightarrow> circuit_id reader) \<Rightarrow> circuit_id reader" where
  "read_dims f = read_then read_u8 (\<lambda>n. read_then read_u8 (\<lambda>m. read_then read_u8 (\<lambda>s. f n m s)))"

definition read_circuit_id :: "circuit_id reader" where
  "read_circuit_id = read_then (read_uint 2) (\<lambda>tag.
    if tag = 0 then read_dims (\<lambda>n m s. read_return (ConfidentialSigner n m s))
    else if tag = 1 then read_dims (\<lambda>n m s. read_return (ConfidentialRingEddsa n m s))
    else if tag = 2 then read_dims (\<lambda>n m s. read_return (RingAuthority n m s))
    else if tag = 3 then read_dims (\<lambda>n m s. read_then read_anonymous (\<lambda>p. read_return (AnonymousRingEddsa n m s p)))
    else if tag = 4 then read_dims (\<lambda>n m s. read_then read_cache_access (\<lambda>a. read_return (ConfidentialSignerCached n m s a)))
    else if tag = 5 then read_dims (\<lambda>n m s. read_then read_cache_access (\<lambda>a. read_return (ConfidentialRingEddsaCached n m s a)))
    else if tag = 6 then read_dims (\<lambda>n m s. read_then read_anonymous (\<lambda>p. read_then read_cache_access (\<lambda>a.
      read_return (AnonymousRingEddsaCached n m s p a))))
    else if tag = 7 then read_dims (\<lambda>n m s. read_then read_eddsa (\<lambda>p. read_return (ConfidentialEddsa n m s p)))
    else if tag = 8 then read_dims (\<lambda>n m s. read_then read_eddsa (\<lambda>p. read_then read_cache_access (\<lambda>a.
      read_return (ConfidentialEddsaCached n m s p a))))
    else read_fail)"

definition circuit_payload_ok :: "circuit_id \<Rightarrow> bool" where
  "circuit_payload_ok c = (case c of
     AnonymousRingEddsa _ _ _ p \<Rightarrow> anonymous_ok p
   | ConfidentialSignerCached _ _ _ a \<Rightarrow> cache_access_ok a
   | ConfidentialRingEddsaCached _ _ _ a \<Rightarrow> cache_access_ok a
   | AnonymousRingEddsaCached _ _ _ p a \<Rightarrow> anonymous_ok p \<and> cache_access_ok a
   | ConfidentialEddsa _ _ _ p \<Rightarrow> eddsa_ok p
   | ConfidentialEddsaCached _ _ _ p a \<Rightarrow> eddsa_ok p \<and> cache_access_ok a
   | _ \<Rightarrow> True)"

definition circuit_id_ok :: "circuit_id \<Rightarrow> bool" where
  "circuit_id_ok c \<longleftrightarrow> num_inputs c < 256 \<and> num_outputs c < 256 \<and> num_public_asset_slots c < 256 \<and> circuit_payload_ok c"

interpretation fixed_option: codec read_fixed_option write_fixed_option "option_ok (bytes_ok 32)"
proof
  fix v :: "bytes option"
  assume ok: "option_ok (bytes_ok 32) v"
  have "reads (read_bytes 32) zero32 zero32" by (rule reads_bytes) simp
  moreover have "reads (read_bytes 32) tag tag" if "v = Some tag" for tag using ok that by (simp add: option_ok_def reads_bytes)
  ultimately show "reads read_fixed_option (write_fixed_option v) v"
    by (cases v) (auto simp: read_fixed_option_def write_fixed_option_def intro!: reads_tag reads_last)
qed

interpretation bsb22: codec read_bsb22 write_bsb22 bsb22_ok
  by unfold_locales (auto simp: read_bsb22_def write_bsb22_def bsb22_ok_def intro!: codec_steps)

interpretation anonymous: codec read_anonymous write_anonymous anonymous_ok
  by unfold_locales
    (auto simp: read_anonymous_def write_anonymous_def anonymous_ok_def
      intro!: reads_then[OF bsb22.law] reads_final[OF fixed_option.law])

interpretation eddsa: codec read_eddsa write_eddsa eddsa_ok
  by unfold_locales
    (auto simp: read_eddsa_def write_eddsa_def eddsa_ok_def intro!: reads_then[OF bsb22.law] codec_steps)

interpretation cache_write: codec read_cache_write write_cache_write cache_write_ok
  by unfold_locales
    (auto simp: read_cache_write_def write_cache_write_def cache_write_ok_def intro!: codec_steps)

interpretation cache_access: codec read_cache_access write_cache_access cache_access_ok
proof
  fix a
  assume ok: "cache_access_ok a"
  have "reads (read_times read_cache_write MAX_CACHE_WRITES) (concat (map write_cache_write (write_slots a))) (write_slots a)"
    using reads_times[of cache_write_ok "write_slots a" read_cache_write write_cache_write] cache_write.law ok
    by (simp add: cache_access_ok_def)
  then show "reads read_cache_access (write_cache_access a) a"
    using ok by (auto simp: read_cache_access_def write_cache_access_def cache_access_ok_def codec_limits
        intro!: codec_steps reads_final)
qed

lemma reads_dims:
  "tag < 9 \<Longrightarrow> n < 256 \<Longrightarrow> m < 256 \<Longrightarrow> s < 256 \<Longrightarrow> f tag = read_dims g \<Longrightarrow> reads (g n m s) ys y \<Longrightarrow>
     reads (read_then (read_uint 2) f) (write_dims tag n m s @ ys) y"
  unfolding write_dims_def append_assoc
  by (rule reads_then[OF reads_uint]) (auto simp: read_dims_def intro!: reads_then[OF reads_u8])

lemma reads_dims_only:
  "tag < 9 \<Longrightarrow> n < 256 \<Longrightarrow> m < 256 \<Longrightarrow> s < 256 \<Longrightarrow> f tag = read_dims (\<lambda>n m s. read_return (g n m s)) \<Longrightarrow>
     reads (read_then (read_uint 2) f) (write_dims tag n m s) (g n m s)"
  using reads_dims[of tag n m s f "\<lambda>n m s. read_return (g n m s)" "[]" "g n m s"] by (simp add: reads_return)

interpretation circuit_id: codec read_circuit_id write_circuit_id circuit_id_ok
proof
  fix c
  assume ok: "circuit_id_ok c"
  then show "reads read_circuit_id (write_circuit_id c) c"
    unfolding read_circuit_id_def
    by (cases c)
      (auto simp: circuit_id_ok_def circuit_payload_ok_def
        intro!: reads_dims_only[where g = ConfidentialSigner] reads_dims_only[where g = ConfidentialRingEddsa]
          reads_dims_only[where g = RingAuthority] reads_dims
          reads_then[OF anonymous.law] reads_final[OF anonymous.law] reads_final[OF cache_access.law]
          reads_then[OF eddsa.law] reads_final[OF eddsa.law])
qed


section \<open>What the selectors guarantee\<close>

lemma is_listed_iff: "is_listed s shapes \<longleftrightarrow> s \<in> set shapes"
  by (induction shapes) (cases s, auto)+

lemma is_width_iff: "is_width n ws \<longleftrightarrow> n \<in> set ws"
  by (induction ws) auto

lemma shape_tables:
  "set SPP_SUPPORTED_SHAPES = (\<lambda>(n, m). shape_new n m) ` set TRANSACT_KEYS"
  "set CONFIDENTIAL_EDDSA_SHAPES = (\<lambda>(n, m). shape_new n m) ` set CONFIDENTIAL_EDDSA_KEYS"
  by (simp_all add: SPP_SUPPORTED_SHAPES_def TRANSACT_KEYS_def CONFIDENTIAL_EDDSA_SHAPES_def CONFIDENTIAL_EDDSA_KEYS_def)

lemma shape_new_in_image: "shape_new n m \<in> (\<lambda>(n, m). shape_new n m) ` A \<longleftrightarrow> (n, m) \<in> A"
  by (force simp: shape_new_def)

lemma supported_iff_key: "circuit_is_supported c \<longleftrightarrow> verifying_key_name c \<noteq> None"
  by (cases c)
    (auto simp: circuit_is_supported_def verifying_key_name_def select_key_def shape_is_supported_def is_confidential_eddsa_def
      is_ring_authority_def is_listed_iff is_width_iff shape_tables shape_new_in_image AUTHORITY_KEYS_def RING_AUTHORITY_WIDTHS_def
      shape_new_def Let_def)

text \<open>The write list of a valid access: a prefix of distinct, in-range entries, then only \<open>NONE\<close>.\<close>

lemma no_later_conflict_iff:
  "no_later_conflict es \<longleftrightarrow> distinct (map cw_slot es) \<and> distinct (map cw_output es)"
  by (induction es) (auto, metis image_eqI, metis image_eqI)

lemma valid_cache_writes_iff:
  "valid_cache_writes slots n \<longleftrightarrow>
     (let writes = takeWhile (\<lambda>e. e \<noteq> CACHE_WRITE_NONE) slots in
      slots = writes @ replicate (length slots - length writes) CACHE_WRITE_NONE
      \<and> distinct (map cw_slot writes) \<and> distinct (map cw_output writes)
      \<and> (\<forall>e \<in> set writes. cw_output e < n \<and> cw_slot e < CACHE_CAPACITY))"
proof -
  let ?w = "takeWhile (\<lambda>e. e \<noteq> CACHE_WRITE_NONE) slots"
  have split: "take (length ?w) slots = ?w" "drop (length ?w) slots = dropWhile (\<lambda>e. e \<noteq> CACHE_WRITE_NONE) slots"
    by (rule takeWhile_eq_take[symmetric], rule dropWhile_eq_drop[symmetric])
  have all: "(\<forall>e \<in> set xs. e = y) \<longleftrightarrow> xs = replicate (length xs) y" for xs :: "cache_write list" and y
    by (metis replicate_length_same in_set_replicate)
  have len: "length (dropWhile (\<lambda>e. e \<noteq> CACHE_WRITE_NONE) slots) = length slots - length ?w"
    by (metis length_append add_diff_cancel_left' takeWhile_dropWhile_id)
  have "(\<forall>e \<in> set (drop (length ?w) slots). e = CACHE_WRITE_NONE) \<longleftrightarrow>
      slots = ?w @ replicate (length slots - length ?w) CACHE_WRITE_NONE"
    unfolding split all len by (metis takeWhile_dropWhile_id same_append_eq)
  then show ?thesis unfolding valid_cache_writes_def Let_def split(1) no_later_conflict_iff by blast
qed

lemma supported_shape_bounds:
  assumes "s \<in> set SPP_SUPPORTED_SHAPES \<union> set CONFIDENTIAL_EDDSA_SHAPES \<union> {shape_new 2 2, shape_new 4 4}"
  shows "signer_width s \<le> MAX_SIGNERS \<and> sh_inputs s \<le> MAX_TRANSACT_INPUTS \<and> sh_outputs s \<le> MAX_OUTPUTS"
  using assms
  by (auto simp: SPP_SUPPORTED_SHAPES_def CONFIDENTIAL_EDDSA_SHAPES_def signer_width_def owner_signer_slots_def
      saturating_sub_def MAX_TRANSACTION_ADDRESSES_def FIXED_TRANSACT_ADDRESSES_def MAX_SIGNERS_def MAX_TRANSACT_INPUTS_def
      MAX_OUTPUTS_def shape_new_def)

lemma supported_shape:
  "circuit_is_supported c \<Longrightarrow>
     shape_new (num_inputs c) (num_outputs c) \<in> set SPP_SUPPORTED_SHAPES \<union> set CONFIDENTIAL_EDDSA_SHAPES \<union> {shape_new 2 2, shape_new 4 4}"
  by (cases c)
    (auto simp: circuit_is_supported_def shape_is_supported_def is_confidential_eddsa_def is_ring_authority_def is_listed_iff
      is_width_iff RING_AUTHORITY_WIDTHS_def shape_new_def Let_def split: if_splits)



end
