(* ===== verification/Tree_Slots.thy ===== *)
theory Tree_Slots
  imports Circuits
begin

text \<open>
  Tree slots and input flags, \<open>program-libs/interface/src/tree_slot.rs\<close>: what a
  spend proof commits to about the trees its inputs come from.  The lemmas show
  that the shortened hash chain over the populated slots is the chain over all
  slots, and that the packed flags determine every input's tree.
\<close>

unbundle bit_operations_syntax

section \<open>Slots\<close>

record tree_context =
  utxo_tree_root_index :: nat
  nullifier_tree_root_index :: nat

record tree_slot =
  ts_id :: bytes
  ts_utxo_root :: bytes
  ts_nullifier_root :: bytes

definition TREE_SLOT_ZERO :: tree_slot where
  "TREE_SLOT_ZERO = \<lparr>ts_id = zero32, ts_utxo_root = zero32, ts_nullifier_root = zero32\<rparr>"

definition tree_id_field :: "nat \<Rightarrow> bytes" where
  "tree_id_field tree_id = right_align (to_be_bytes 2 tree_id)"

definition tree_slot_new :: "nat \<Rightarrow> bytes \<Rightarrow> bytes \<Rightarrow> tree_slot" where
  "tree_slot_new tree_id u n = \<lparr>ts_id = tree_id_field tree_id, ts_utxo_root = u, ts_nullifier_root = n\<rparr>"

definition tree_slot_hash :: "hash_fn \<Rightarrow> tree_slot \<Rightarrow> (hasher_error, bytes) result" where
  "tree_slot_hash P s = P [ts_id s, ts_utxo_root s, ts_nullifier_root s]"

definition resolve_tree_slot :: "tree_layout \<Rightarrow> tree_context \<Rightarrow> (tree_error, tree_slot) result" where
  "resolve_tree_slot l c =
    rbind (get_utxo_tree_root l (utxo_tree_root_index c)) (\<lambda>u.
    rbind (get_nullifier_tree_root l (nullifier_tree_root_index c)) (\<lambda>n.
      Inr \<lparr>ts_id = tree_id_array l, ts_utxo_root = u, ts_nullifier_root = n\<rparr>))"


section \<open>Hash chain over the slots\<close>

definition tree_slots_hash_chain :: "hash_fn \<Rightarrow> tree_slot list \<Rightarrow> (hasher_error, bytes) result" where
  "tree_slots_hash_chain P slots = rbind (traverse (tree_slot_hash P) slots) (create_right_hash_chain_from_slice P)"

definition ZERO_TREE_SLOT_SUFFIX_CHAINS :: "bytes list" where
  "ZERO_TREE_SLOT_SUFFIX_CHAINS =
    [[0x0b, 0xc1, 0x88, 0xd2, 0x7d, 0xcc, 0xea, 0xdc, 0x1d, 0xcf, 0xb6, 0xaf, 0x0a, 0x7a, 0xf0,
      0x8f, 0xe2, 0x86, 0x4e, 0xec, 0xec, 0x96, 0xc5, 0xae, 0x7c, 0xee, 0x6d, 0xb3, 0x1b, 0xa5,
      0x99, 0xaa],
     [0x0b, 0xb8, 0xc4, 0xe7, 0x9b, 0x87, 0xe2, 0x19, 0x62, 0xd4, 0x96, 0xcf, 0xc7, 0xbb, 0xe6,
      0x72, 0x6a, 0x8d, 0x1a, 0xb8, 0xed, 0x98, 0x74, 0x16, 0xde, 0x3c, 0x54, 0x33, 0x3b, 0x1f,
      0x65, 0x1e],
     [0x0d, 0x99, 0x66, 0x90, 0xab, 0xbd, 0xa0, 0xb8, 0xaa, 0xc1, 0x06, 0xd1, 0x5f, 0xa1, 0xc0,
      0xf1, 0xe3, 0x98, 0x10, 0xee, 0x2b, 0x90, 0xed, 0x59, 0x11, 0xb7, 0x96, 0xfc, 0x2b, 0x23,
      0xee, 0xdb],
     [0x0b, 0x62, 0x21, 0x6e, 0x4d, 0xd6, 0xdb, 0x08, 0xea, 0x73, 0xf2, 0x9c, 0xf0, 0x70, 0xf7,
      0xa7, 0x8a, 0xf9, 0x14, 0x17, 0x39, 0x5f, 0x45, 0xbc, 0x7e, 0xc9, 0x8e, 0x5a, 0x4d, 0x93,
      0x46, 0x41]]"

definition populated_tree_slots_hash_chain :: "hash_fn \<Rightarrow> tree_slot list \<Rightarrow> (hasher_error, bytes) result" where
  "populated_tree_slots_hash_chain P populated =
    (let count = length populated in
     if count = 0 \<or> INPUT_TREES < count then Inl (InvalidInputLength count INPUT_TREES)
     else let unused = INPUT_TREES - count in
       rbind (case Option.bind (checked_sub unused 1) (get ZERO_TREE_SLOT_SUFFIX_CHAINS) of
                Some suffix \<Rightarrow> Inr (suffix, populated)
              | None \<Rightarrow> rbind (tree_slot_hash P (last populated)) (\<lambda>h. Inr (h, butlast populated)))
         (\<lambda>(chain, prefix).
           try_fold (\<lambda>chain s. rbind (tree_slot_hash P s) (\<lambda>h. P [h, chain])) chain (rev prefix)))"


section \<open>Input flags\<close>

definition INPUT_FLAGS_TREE_INDEX_BITS :: nat where "INPUT_FLAGS_TREE_INDEX_BITS = 3"

definition input_flags_tree_index_shift :: "nat \<Rightarrow> nat" where
  "input_flags_tree_index_shift index = 1 + INPUT_FLAGS_TREE_INDEX_BITS * index"

text \<open>A \<open>u16\<close> holds the shifted value; its two bytes are or-ed into the element.\<close>

definition or_input_flags_bits :: "bytes \<Rightarrow> nat \<Rightarrow> nat \<Rightarrow> (shielded_pool_error, bytes) result" where
  "or_input_flags_bits flags value shift =
    (let w = push_bit (shift mod 8) (of_nat value :: 16 word); high = ucast (drop_bit 8 w) :: byte; low = ucast w :: byte in
     rbind (ok_or (checked_sub (length flags) (1 + shift div 8)) InvalidTransactShape) (\<lambda>low_index.
     rbind (ok_or (get flags low_index) InvalidTransactShape) (\<lambda>low_byte.
       let flags1 = flags[low_index := low_byte OR low] in
       if high \<noteq> 0
       then rbind (ok_or (checked_sub low_index 1) InvalidTransactShape) (\<lambda>high_index.
            rbind (ok_or (get flags1 high_index) InvalidTransactShape) (\<lambda>high_byte.
              Inr (flags1[high_index := high_byte OR high])))
       else Inr flags1)))"

fun pack_flags_loop :: "nat \<Rightarrow> bytes \<Rightarrow> nat list \<Rightarrow> (shielded_pool_error, bytes) result" where
  "pack_flags_loop index flags [] = Inr flags"
| "pack_flags_loop index flags (tree_index # rest) =
    (if MAX_TRANSACT_INPUTS \<le> index then Inl InvalidTransactShape
     else if INPUT_TREES \<le> tree_index then Inl InputTreeIndexOutOfRange
     else rbind (or_input_flags_bits flags tree_index (input_flags_tree_index_shift index)) (\<lambda>flags'.
       pack_flags_loop (index + 1) flags' rest))"

definition pack_input_flags :: "bool \<Rightarrow> nat list \<Rightarrow> (shielded_pool_error, bytes) result" where
  "pack_input_flags allow_dummy_inputs tree_indexes =
    rbind (or_input_flags_bits zero32 (if allow_dummy_inputs then 1 else 0) 0) (\<lambda>flags.
      pack_flags_loop 0 flags tree_indexes)"


section \<open>The shortened chain\<close>

text \<open>The committed table holds the chains over all-zero slots (Poseidon is a parameter).\<close>

definition tree_slot_suffix_ok :: "hash_fn \<Rightarrow> bool" where
  "tree_slot_suffix_ok P \<longleftrightarrow>
     P [zero32, zero32, zero32] = Inr (ZERO_TREE_SLOT_SUFFIX_CHAINS ! 0) \<and>
     (\<forall>k < 3. P [ZERO_TREE_SLOT_SUFFIX_CHAINS ! 0, ZERO_TREE_SLOT_SUFFIX_CHAINS ! k]
        = Inr (ZERO_TREE_SLOT_SUFFIX_CHAINS ! Suc k))"

lemma traverse_append:
  "traverse f (xs @ ys) = rbind (traverse f xs) (\<lambda>as. rbind (traverse f ys) (\<lambda>bs. Inr (as @ bs)))"
proof (induction xs)
  case Nil
  then show ?case by (cases "traverse f ys") simp_all
qed (simp add: rbind_assoc)

lemma traverse_replicate: "f x = Inr y \<Longrightarrow> traverse f (replicate n x) = Inr (replicate n y)"
  by (induction n) simp_all

text \<open>Hashing each slot when the fold reaches it, or all slots beforehand.\<close>

lemma fold_slots_iff:
  "try_fold (\<lambda>c s. rbind (tree_slot_hash P s) (\<lambda>h. P [h, c])) chain ss = Inr h \<longleftrightarrow>
     (\<exists>hs. traverse (tree_slot_hash P) ss = Inr hs \<and> try_fold (\<lambda>c x. P [x, c]) chain hs = Inr h)"
  by (induction ss arbitrary: chain) (auto simp: result_simps)

lemma traverse_rev: "traverse f (rev xs) = Inr ys \<longleftrightarrow> traverse f xs = Inr (rev ys)"
proof (induction xs arbitrary: ys)
  case (Cons x xs)
  show ?case
    by (auto simp: traverse_append result_simps Cons.IH) (metis rev_rev_ident rev.simps(2))+
qed auto

lemma fold_rev_slots_iff:
  "try_fold (\<lambda>c s. rbind (tree_slot_hash P s) (\<lambda>h. P [h, c])) chain (rev ss) = Inr h \<longleftrightarrow>
     (\<exists>hs. traverse (tree_slot_hash P) ss = Inr hs \<and> try_fold (\<lambda>c x. P [x, c]) chain (rev hs) = Inr h)"
  unfolding fold_slots_iff traverse_rev by (rule iffI; elim exE; rule_tac x = "rev hs" in exI; simp)

lemma zero_suffix_fold:
  assumes "tree_slot_suffix_ok P" "k < 4"
  shows "try_fold (\<lambda>c x. P [x, c]) (ZERO_TREE_SLOT_SUFFIX_CHAINS ! 0) (replicate k (ZERO_TREE_SLOT_SUFFIX_CHAINS ! 0))
    = Inr (ZERO_TREE_SLOT_SUFFIX_CHAINS ! k)"
  using assms(2)
proof (induction k)
  case (Suc k)
  have "replicate (Suc k) z = replicate k z @ [z]" for z :: bytes by (simp add: replicate_append_same)
  then show ?case using Suc assms(1) by (simp add: try_fold_append tree_slot_suffix_ok_def)
qed simp

text \<open>
  C35.  Hashing only the populated slots loses nothing.  With Poseidon agreeing
  with the committed table of all-zero suffixes, the shortened chain over one to
  five populated slots succeeds exactly when the chain over all five slots, the
  unused ones zero, does, and with the same result; no other count is accepted.
\<close>
theorem populated_slots_chain_is_full_chain:
  assumes P: "tree_slot_suffix_ok P"
  shows "populated_tree_slots_hash_chain P ss = Inr h \<longleftrightarrow>
    1 \<le> length ss \<and> length ss \<le> INPUT_TREES
    \<and> tree_slots_hash_chain P (ss @ replicate (INPUT_TREES - length ss) TREE_SLOT_ZERO) = Inr h"
proof (cases "1 \<le> length ss \<and> length ss \<le> INPUT_TREES")
  case False
  then have "length ss = 0 \<or> INPUT_TREES < length ss" by linarith
  then show ?thesis using False by (auto simp: populated_tree_slots_hash_chain_def Let_def)
next
  case count: True
  let ?z = "ZERO_TREE_SLOT_SUFFIX_CHAINS ! 0" and ?f = "\<lambda>c x. P [x, c]" and ?th = "tree_slot_hash P"
  define m where "m = INPUT_TREES - length ss"
  have m: "m \<le> 4" using count unfolding m_def INPUT_TREES_def by linarith
  have z: "?th TREE_SLOT_ZERO = Inr ?z" using P by (simp add: tree_slot_suffix_ok_def tree_slot_hash_def TREE_SLOT_ZERO_def)
  have hashes: "traverse ?th (ss @ replicate m TREE_SLOT_ZERO) = Inr ks \<longleftrightarrow> (\<exists>hs. traverse ?th ss = Inr hs \<and> ks = hs @ replicate m ?z)" for ks
    by (auto simp: traverse_append traverse_replicate[of ?th, OF z] result_simps)
  have table: "Option.bind (checked_sub m 1) (get ZERO_TREE_SLOT_SUFFIX_CHAINS) =
      (if m = 0 then None else Some (ZERO_TREE_SLOT_SUFFIX_CHAINS ! (m - 1)))"
    using m by (auto simp: checked_sub_def get_def ZERO_TREE_SLOT_SUFFIX_CHAINS_def)
  show ?thesis
  proof (cases m)
    case 0
    obtain ys y where ss: "ss = ys @ [y]" using count by (cases ss rule: rev_cases) auto
    have "populated_tree_slots_hash_chain P ss = Inr h \<longleftrightarrow>
        (\<exists>k hs. ?th y = Inr k \<and> traverse ?th ys = Inr hs \<and> try_fold ?f k (rev hs) = Inr h)"
      using count table 0 unfolding m_def
      by (auto simp: populated_tree_slots_hash_chain_def Let_def result_simps fold_rev_slots_iff ss)
    moreover have "tree_slots_hash_chain P ss = Inr h \<longleftrightarrow>
        (\<exists>k hs. ?th y = Inr k \<and> traverse ?th ys = Inr hs \<and> try_fold ?f k (rev hs) = Inr h)"
    proof -
      have "traverse ?th ss = Inr ks \<longleftrightarrow> (\<exists>k hs. ?th y = Inr k \<and> traverse ?th ys = Inr hs \<and> ks = hs @ [k])" for ks
        by (auto simp: ss traverse_append result_simps)
      moreover have "create_right_hash_chain_from_slice P (hs @ [k]) = try_fold ?f k (rev hs)" for hs k
        by (simp add: create_right_hash_chain_from_slice_def)
      ultimately show ?thesis unfolding tree_slots_hash_chain_def rbind_eq_Inr by metis
    qed
    ultimately show ?thesis using count 0 by (simp add: m_def)
  next
    case (Suc k)
    have "populated_tree_slots_hash_chain P ss = Inr h \<longleftrightarrow>
        (\<exists>hs. traverse ?th ss = Inr hs \<and> try_fold ?f (ZERO_TREE_SLOT_SUFFIX_CHAINS ! k) (rev hs) = Inr h)"
      using count table Suc unfolding m_def
      by (auto simp: populated_tree_slots_hash_chain_def Let_def fold_rev_slots_iff)
    moreover have "create_right_hash_chain_from_slice P (hs @ replicate m ?z) =
        try_fold ?f (ZERO_TREE_SLOT_SUFFIX_CHAINS ! k) (rev hs)" for hs
    proof -
      have "replicate m ?z = replicate k ?z @ [?z]" using Suc by (simp add: replicate_append_same)
      then show ?thesis
        using zero_suffix_fold[OF P, of k] m Suc
        by (simp add: create_right_hash_chain_from_slice_def butlast_append try_fold_append)
    qed
    ultimately show ?thesis
      using count hashes by (auto simp: tree_slots_hash_chain_def result_simps m_def)
  qed
qed

definition slot_poseidon :: hash_fn where
  "slot_poseidon xs =
    (if xs = [zero32, zero32, zero32] then Inr (ZERO_TREE_SLOT_SUFFIX_CHAINS ! 0)
     else if xs = [ZERO_TREE_SLOT_SUFFIX_CHAINS ! 0, ZERO_TREE_SLOT_SUFFIX_CHAINS ! 0] then Inr (ZERO_TREE_SLOT_SUFFIX_CHAINS ! 1)
     else if xs = [ZERO_TREE_SLOT_SUFFIX_CHAINS ! 0, ZERO_TREE_SLOT_SUFFIX_CHAINS ! 1] then Inr (ZERO_TREE_SLOT_SUFFIX_CHAINS ! 2)
     else if xs = [ZERO_TREE_SLOT_SUFFIX_CHAINS ! 0, ZERO_TREE_SLOT_SUFFIX_CHAINS ! 2] then Inr (ZERO_TREE_SLOT_SUFFIX_CHAINS ! 3)
     else Inr zero32)"

lemma suffix_chains_distinct: "distinct ZERO_TREE_SLOT_SUFFIX_CHAINS"
  by (simp add: ZERO_TREE_SLOT_SUFFIX_CHAINS_def)

lemma slot_poseidon_ok: "tree_slot_suffix_ok slot_poseidon"
proof -
  have "ZERO_TREE_SLOT_SUFFIX_CHAINS ! i = ZERO_TREE_SLOT_SUFFIX_CHAINS ! j \<longleftrightarrow> i = j" if "i < 4" "j < 4" for i j
    using suffix_chains_distinct that by (intro nth_eq_iff_index_eq) (simp_all add: ZERO_TREE_SLOT_SUFFIX_CHAINS_def)
  moreover have "k = 0 \<or> k = 1 \<or> k = 2" if "k < 3" for k :: nat using that by arith
  ultimately show ?thesis by (auto simp: tree_slot_suffix_ok_def slot_poseidon_def)
qed

theorem populated_slots_chain_is_full_chain_witness:
  "populated_tree_slots_hash_chain slot_poseidon [tree_slot_new 7 zero32 zero32] = Inr zero32
   \<and> tree_slots_hash_chain slot_poseidon (tree_slot_new 7 zero32 zero32 # replicate 4 TREE_SLOT_ZERO) = Inr zero32"
proof -
  let ?s = "tree_slot_new 7 zero32 zero32"
  have "last (tree_id_field 7) = 7" "last zero32 = 0" "hd zero32 = 0" "hd (ZERO_TREE_SLOT_SUFFIX_CHAINS ! 0) = 0x0b"
    by (simp_all add: tree_id_field_def right_align_def to_be_bytes_def numeral_2_eq_2 zero32_def ZERO_TREE_SLOT_SUFFIX_CHAINS_def)
  then have ne: "tree_id_field 7 \<noteq> zero32" "zero32 \<noteq> ZERO_TREE_SLOT_SUFFIX_CHAINS ! 0" by auto
  have "tree_slot_hash slot_poseidon ?s = Inr zero32"
    using ne by (simp add: tree_slot_hash_def tree_slot_new_def slot_poseidon_def)
  moreover have "slot_poseidon [zero32, ZERO_TREE_SLOT_SUFFIX_CHAINS ! 3] = Inr zero32" using ne by (simp add: slot_poseidon_def)
  ultimately have "populated_tree_slots_hash_chain slot_poseidon [?s] = Inr zero32"
    by (simp add: populated_tree_slots_hash_chain_def INPUT_TREES_def checked_sub_def get_def ZERO_TREE_SLOT_SUFFIX_CHAINS_def Let_def)
  then show ?thesis
    using populated_slots_chain_is_full_chain[OF slot_poseidon_ok, of "[?s]" zero32] by (simp add: INPUT_TREES_def)
qed


section \<open>The packed flags\<close>

text \<open>Bit \<open>p\<close> of a big-endian element, and the tree index of input \<open>i\<close> the circuit decodes.\<close>

definition flag_bit :: "bytes \<Rightarrow> nat \<Rightarrow> bool" where
  "flag_bit f p \<longleftrightarrow> p div 8 < length f \<and> bit (f ! (length f - 1 - p div 8)) (p mod 8)"

definition flag_tree_index :: "bytes \<Rightarrow> nat \<Rightarrow> nat" where
  "flag_tree_index f i =
    (let b = (\<lambda>j. if flag_bit f (1 + 3 * i + j) then (2::nat) ^ j else 0) in b 0 + b 1 + b 2)"

lemma bit_small: "bit v j \<Longrightarrow> v < 2 ^ n \<Longrightarrow> j < n" for v :: nat
  by (metis bit_take_bit_iff take_bit_nat_eq_self)

lemma byte_split:
  fixes k m q t :: nat
  assumes "8 * k + m = 8 * q + t" "m < 8" "t < 16"
  shows "k = q \<and> m = t \<or> k = q + 1 \<and> 8 + m = t"
proof -
  have "k = (8 * q + t) div 8" using arg_cong[OF assms(1), of "\<lambda>x. x div 8"] assms(2) by simp
  then have "k = q + t div 8" by simp
  moreover have "t div 8 = 0 \<or> t div 8 = 1" using assms(3) by linarith
  ultimately show ?thesis using assms(1) by auto
qed

lemma or_input_flags_bits_ok:
  assumes len: "length f = 32" and v: "v < 8" and s: "shift + 3 \<le> 256"
  shows "\<exists>f'. or_input_flags_bits f v shift = Inr f' \<and> length f' = 32
    \<and> (\<forall>p. flag_bit f' p \<longleftrightarrow> flag_bit f p \<or> (shift \<le> p \<and> bit v (p - shift)))"
proof -
  define q r where "q = shift div 8" and "r = shift mod 8"
  define w where "w = push_bit r (of_nat v :: 16 word)"
  define hi lo where "hi = (ucast (drop_bit 8 w) :: byte)" and "lo = (ucast w :: byte)"
  define f1 where "f1 = f[31 - q := f ! (31 - q) OR lo]"
  define f' where "f' = (if hi \<noteq> 0 then f1[30 - q := f1 ! (30 - q) OR hi] else f1)"
  have shift: "shift = 8 * q + r" "r < 8" "q \<le> 31" using s by (simp_all add: q_def r_def)
  have small: "bit v j \<Longrightarrow> j < 3" for j using bit_small[of v j 3] v by simp
  have lo: "bit lo i \<longleftrightarrow> i < 8 \<and> r \<le> i \<and> bit v (i - r)" for i by (auto simp: lo_def w_def bit_simps)
  have hi: "bit hi i \<longleftrightarrow> i < 8 \<and> bit v (8 + i - r)" for i using shift(2) by (auto simp: hi_def w_def bit_simps)
  have room: "q < 31" if "hi \<noteq> 0"
  proof -
    obtain i where "bit hi i" using \<open>hi \<noteq> 0\<close> by (metis bit_eqI bit_0_eq bot_apply bot_bool_def)
    then have "8 + i - r < 3" using hi small by blast
    then show ?thesis using s shift by linarith
  qed
  have run: "or_input_flags_bits f v shift = Inr f'"
  proof -
    have idx: "checked_sub 32 (1 + q) = Some (31 - q)" "get f (31 - q) = Some (f ! (31 - q))"
      "hi \<noteq> 0 \<Longrightarrow> checked_sub (31 - q) 1 = Some (30 - q)" "get f1 (30 - q) = Some (f1 ! (30 - q))"
      using room shift(3) len by (auto simp: checked_sub_def get_def f1_def)
    show ?thesis
      unfolding or_input_flags_bits_def r_def[symmetric] q_def[symmetric] w_def[symmetric] Let_def
        hi_def[symmetric] lo_def[symmetric] len
      using idx by (simp add: f'_def f1_def[symmetric])
  qed
  have same: "flag_bit f' p \<longleftrightarrow> flag_bit f p \<or> (p div 8 = q \<and> bit lo (p mod 8)) \<or> (p div 8 = q + 1 \<and> bit hi (p mod 8))" for p
    using room shift(3) len by (auto simp: flag_bit_def f'_def f1_def nth_list_update bit_or_iff)
  have "(p div 8 = q \<and> bit lo (p mod 8)) \<or> (p div 8 = q + 1 \<and> bit hi (p mod 8)) \<longleftrightarrow> shift \<le> p \<and> bit v (p - shift)" for p
  proof -
    define k m where "k = p div 8" and "m = p mod 8"
    have p: "p = 8 * k + m" "m < 8" by (simp_all add: k_def m_def)
    show ?thesis
    proof (intro iffI)
      assume "(p div 8 = q \<and> bit lo (p mod 8)) \<or> (p div 8 = q + 1 \<and> bit hi (p mod 8))"
      then consider "k = q" "r \<le> m" "bit v (m - r)" | "k = q + 1" "bit v (8 + m - r)"
        unfolding k_def[symmetric] m_def[symmetric] lo hi by blast
      then show "shift \<le> p \<and> bit v (p - shift)" by cases (simp_all add: p(1) shift(1), use shift(2) in linarith)
    next
      assume b: "shift \<le> p \<and> bit v (p - shift)"
      define j where "j = p - shift"
      have j: "8 * k + m = 8 * q + (r + j)" "r + j < 16" "j < 3"
        using b p shift small[of j] by (simp_all add: j_def)
      then have "k = q \<and> m = r + j \<or> k = q + 1 \<and> 8 + m = r + j" by (intro byte_split[OF _ p(2)])
      then show "(p div 8 = q \<and> bit lo (p mod 8)) \<or> (p div 8 = q + 1 \<and> bit hi (p mod 8))"
        unfolding k_def[symmetric] m_def[symmetric] lo hi using b p(2) by (auto simp: j_def[symmetric])
    qed
  qed
  then show ?thesis using run same len by (intro exI[of _ f']) (auto simp: f'_def f1_def)
qed

lemma pack_flags_loop_ok:
  assumes "length f = 32" "i + length idxs \<le> MAX_TRANSACT_INPUTS" "list_all (\<lambda>t. t < INPUT_TREES) idxs"
  shows "\<exists>f'. pack_flags_loop i f idxs = Inr f' \<and> length f' = 32
    \<and> (\<forall>p. flag_bit f' p \<longleftrightarrow> flag_bit f p
         \<or> (\<exists>k < length idxs. 1 + 3 * (i + k) \<le> p \<and> bit (idxs ! k) (p - (1 + 3 * (i + k)))))"
  using assms
proof (induction idxs arbitrary: i f)
  case (Cons t ts)
  have t: "t < 8" "input_flags_tree_index_shift i + 3 \<le> 256" "i < MAX_TRANSACT_INPUTS" "t < INPUT_TREES"
    using Cons.prems(2,3)
    by (simp_all add: INPUT_TREES_def MAX_TRANSACT_INPUTS_def input_flags_tree_index_shift_def INPUT_FLAGS_TREE_INDEX_BITS_def)
  obtain f1 where f1: "or_input_flags_bits f t (input_flags_tree_index_shift i) = Inr f1" "length f1 = 32"
    "\<And>p. flag_bit f1 p \<longleftrightarrow> flag_bit f p \<or> (1 + 3 * i \<le> p \<and> bit t (p - (1 + 3 * i)))"
    using or_input_flags_bits_ok[OF Cons.prems(1) t(1,2)]
    by (auto simp: input_flags_tree_index_shift_def INPUT_FLAGS_TREE_INDEX_BITS_def)
  have "(i + 1) + length ts \<le> MAX_TRANSACT_INPUTS" "list_all (\<lambda>t. t < INPUT_TREES) ts" using Cons.prems by simp_all
  then obtain f' where f': "pack_flags_loop (i + 1) f1 ts = Inr f'" "length f' = 32"
    "\<And>p. flag_bit f' p \<longleftrightarrow> flag_bit f1 p
        \<or> (\<exists>k < length ts. 1 + 3 * (i + 1 + k) \<le> p \<and> bit (ts ! k) (p - (1 + 3 * (i + 1 + k))))"
    using Cons.IH[OF f1(2)] by blast
  have "flag_bit f' p \<longleftrightarrow> flag_bit f p
      \<or> (\<exists>k < length (t # ts). 1 + 3 * (i + k) \<le> p \<and> bit ((t # ts) ! k) (p - (1 + 3 * (i + k))))" for p
    unfolding f'(3) f1(3) length_Cons Ex_less_Suc2 by (simp add: algebra_simps)
  then show ?case using f' f1 t(3,4) by (intro exI[of _ f']) simp
qed simp

lemma pack_flags_loop_rejects:
  "pack_flags_loop i f idxs = Inr f' \<Longrightarrow> i + length idxs \<le> MAX_TRANSACT_INPUTS \<or> idxs = []"
  "pack_flags_loop i f idxs = Inr f' \<Longrightarrow> list_all (\<lambda>t. t < INPUT_TREES) idxs"
  by (induction i f idxs rule: pack_flags_loop.induct) (auto simp: result_simps split: if_splits)

lemma tree_index_of_bits:
  fixes t :: nat
  assumes "t < 8"
  shows "(if bit t 0 then 1 else 0) + (if bit t 1 then 2 else 0) + (if bit t 2 then 4 else 0) = t"
proof -
  have "t = 0 \<or> t = 1 \<or> t = 2 \<or> t = 3 \<or> t = 4 \<or> t = 5 \<or> t = 6 \<or> t = 7" using assms by linarith
  then show ?thesis by (elim disjE) (simp_all add: bit_iff_odd)
qed

lemma pack_input_flags_bits:
  assumes "length idxs \<le> MAX_TRANSACT_INPUTS" "list_all (\<lambda>t. t < INPUT_TREES) idxs"
  shows "\<exists>f. pack_input_flags a idxs = Inr f \<and> length f = 32
    \<and> (\<forall>p. flag_bit f p \<longleftrightarrow> p = 0 \<and> a
         \<or> (\<exists>k < length idxs. 1 + 3 * k \<le> p \<and> bit (idxs ! k) (p - (1 + 3 * k))))"
proof -
  have zero: "\<not> flag_bit zero32 p" for p by (auto simp: flag_bit_def zero32_def)
  have first: "bit (if a then 1 else 0 :: nat) p \<longleftrightarrow> p = 0 \<and> a" for p by (simp add: bit_1_iff[where 'a = nat, simplified])
  have "(if a then 1 else 0 :: nat) < 8" "0 + 3 \<le> (256 :: nat)" by simp_all
  then obtain f0 where f0: "or_input_flags_bits zero32 (if a then 1 else 0) 0 = Inr f0" "length f0 = 32"
    "\<And>p. flag_bit f0 p \<longleftrightarrow> p = 0 \<and> a"
    using or_input_flags_bits_ok[of zero32 "if a then 1 else 0" 0] zero first by (auto simp: zero32_def)
  show ?thesis
    using pack_flags_loop_ok[of f0 0 idxs] f0 assms by (simp add: pack_input_flags_def)
qed

text \<open>
  C34.  The packed input flags are faithful.  Packing succeeds exactly for at most
  49 inputs whose tree indexes are in range; bit 0 of the result is the
  dummy-input policy, every input's index is read back from its own three bits,
  and all other bits are zero, so no input's index spills into another's.
\<close>
theorem input_flags_determine_indexes:
  "((\<exists>f. pack_input_flags a idxs = Inr f) \<longleftrightarrow>
      length idxs \<le> MAX_TRANSACT_INPUTS \<and> list_all (\<lambda>t. t < INPUT_TREES) idxs)
   \<and> (pack_input_flags a idxs = Inr f \<longrightarrow>
        length f = 32 \<and> flag_bit f 0 = a \<and> map (flag_tree_index f) [0..<length idxs] = idxs
        \<and> (\<forall>p. 1 + 3 * length idxs \<le> p \<longrightarrow> \<not> flag_bit f p))"
proof (intro conjI impI)
  have ok: "length idxs \<le> MAX_TRANSACT_INPUTS \<and> list_all (\<lambda>t. t < INPUT_TREES) idxs" if "pack_input_flags a idxs = Inr g" for g
    using that pack_flags_loop_rejects by (fastforce simp: pack_input_flags_def result_simps)
  show "(\<exists>f. pack_input_flags a idxs = Inr f) \<longleftrightarrow> length idxs \<le> MAX_TRANSACT_INPUTS \<and> list_all (\<lambda>t. t < INPUT_TREES) idxs"
    using ok pack_input_flags_bits[of idxs a] by blast
  assume f: "pack_input_flags a idxs = Inr f"
  have small: "bit (idxs ! k) j \<Longrightarrow> k < length idxs \<Longrightarrow> j < 3" for k j
    using ok[OF f] bit_small[of "idxs ! k" j 3] by (auto simp: list_all_length INPUT_TREES_def)
  have len: "length f = 32" and bits: "flag_bit f p \<longleftrightarrow> p = 0 \<and> a
      \<or> (\<exists>k < length idxs. 1 + 3 * k \<le> p \<and> bit (idxs ! k) (p - (1 + 3 * k)))" for p
    using pack_input_flags_bits[of idxs a] ok[OF f] f by auto
  show "length f = 32" by (fact len)
  show "flag_bit f 0 = a" using bits[of 0] by simp
  have own: "flag_bit f (1 + 3 * i + j) \<longleftrightarrow> bit (idxs ! i) j" if "i < length idxs" "j < 3" for i j
  proof -
    have "k = i" if "k < length idxs" "1 + 3 * k \<le> 1 + 3 * i + j" "bit (idxs ! k) (1 + 3 * i + j - (1 + 3 * k))" for k
      using small[OF that(3,1)] that(2) \<open>j < 3\<close> by linarith
    then show ?thesis unfolding bits using that by force
  qed
  show "map (flag_tree_index f) [0..<length idxs] = idxs"
  proof (rule nth_equalityI)
    fix i assume "i < length (map (flag_tree_index f) [0..<length idxs])"
    then have i: "i < length idxs" by simp
    then have "idxs ! i < 8" using ok[OF f] by (auto simp: list_all_length INPUT_TREES_def)
    then show "map (flag_tree_index f) [0..<length idxs] ! i = idxs ! i"
      using i own[OF i, of 0] own[OF i, of 1] own[OF i, of 2] tree_index_of_bits[of "idxs ! i"]
      by (simp add: flag_tree_index_def Let_def split: if_splits)
  qed simp
  show "\<forall>p. 1 + 3 * length idxs \<le> p \<longrightarrow> \<not> flag_bit f p"
  proof (intro allI impI notI)
    fix p assume p: "1 + 3 * length idxs \<le> p" "flag_bit f p"
    then obtain k where "k < length idxs" "1 + 3 * k \<le> p" "p - (1 + 3 * k) < 3"
      using bits small by auto
    then show False using p(1) by linarith
  qed
qed

theorem input_flags_determine_indexes_witness:
  "(\<exists>f. pack_input_flags True [4, 0, 3] = Inr f) \<and> (\<forall>t. \<not> (\<exists>f. pack_input_flags False [t + 5] = Inr f))
   \<and> map (flag_tree_index (projr (pack_input_flags True [4, 0, 3]))) [0..<3] = [4, 0, 3]"
proof -
  have yes: "\<exists>f. pack_input_flags True [4, 0, 3] = Inr f"
    using input_flags_determine_indexes[of True "[4, 0, 3]"] by (simp add: MAX_TRANSACT_INPUTS_def INPUT_TREES_def)
  moreover have "map (flag_tree_index (projr (pack_input_flags True [4, 0, 3]))) [0..<3] = [4, 0, 3]"
    using input_flags_determine_indexes[of True "[4, 0, 3]"] yes by (auto simp: upt_rec)
  moreover have "\<not> (\<exists>f. pack_input_flags False [t + 5] = Inr f)" for t
    using input_flags_determine_indexes[of False "[t + 5]"] by (simp add: INPUT_TREES_def)
  ultimately show ?thesis by blast
qed

end
