(* ===== verification/Utxo_Cache.thy ===== *)
theory Utxo_Cache
  imports Nullifier_Pdas Tree_Slots
begin

text \<open>
  Caches of verified output hashes, \<open>program-libs/interface/src/state/cache.rs\<close> and
  \<open>programs/shielded-pool/src/instructions/cache\<close>.  A cache belongs to one tree, is
  filled by its write authority and returns its rent to the account that paid
  it.  The lemmas show that the account layout is exact, that the selection of a
  spend without a cache is the one of an empty selection, and who can change,
  close or recreate a cache.
\<close>

definition CACHE_SEED :: bytes where "CACHE_SEED = [99, 97, 99, 104, 101]"

text \<open>Two's-complement \<open>i64\<close> in little-endian bytes.\<close>

definition i64_from_le_bytes :: "bytes \<Rightarrow> int" where
  "i64_from_le_bytes bs = (let n = int (from_le_bytes bs) in if n < 2 ^ 63 then n else n - 2 ^ 64)"

definition i64_to_le_bytes :: "int \<Rightarrow> bytes" where
  "i64_to_le_bytes i = to_le_bytes 8 (nat (i mod 2 ^ 64))"

definition i64_ok :: "int \<Rightarrow> bool" where "i64_ok i \<longleftrightarrow> - (2 ^ 63) \<le> i \<and> i < 2 ^ 63"

record cache_account =
  ca_discriminator :: byte
  ca_bump :: byte
  ca_tree_id :: bytes
  ca_expires_at :: bytes
  ca_rent_sponsor :: address
  ca_write_authority :: address
  utxo_hashes :: "bytes list"

definition CACHE_SIZE :: nat where "CACHE_SIZE = 1228"

definition cache_fields :: "nat list" where
  "cache_fields = [1, 1, 2, 8, 32, 32] @ replicate CACHE_CAPACITY 32"

definition cache_to_fields :: "cache_account \<Rightarrow> bytes list" where
  "cache_to_fields c = [[ca_discriminator c], [ca_bump c], ca_tree_id c, ca_expires_at c, ca_rent_sponsor c,
     ca_write_authority c] @ utxo_hashes c"

definition cache_of_fields :: "bytes list \<Rightarrow> cache_account" where
  "cache_of_fields fs = \<lparr>ca_discriminator = hd (fs ! 0), ca_bump = hd (fs ! 1), ca_tree_id = fs ! 2,
     ca_expires_at = fs ! 3, ca_rent_sponsor = fs ! 4, ca_write_authority = fs ! 5, utxo_hashes = drop 6 fs\<rparr>"

abbreviation cache_bytes :: "cache_account \<Rightarrow> bytes" where
  "cache_bytes \<equiv> layout_bytes cache_to_fields"

abbreviation cache_of :: "bytes \<Rightarrow> cache_account option" where
  "cache_of \<equiv> layout_read cache_fields cache_of_fields"

definition cache_wf :: "cache_account \<Rightarrow> bool" where
  "cache_wf c \<longleftrightarrow> length (ca_tree_id c) = 2 \<and> length (ca_expires_at c) = 8 \<and> length (ca_rent_sponsor c) = 32
     \<and> length (ca_write_authority c) = 32 \<and> map length (utxo_hashes c) = replicate CACHE_CAPACITY 32"

definition ca_has_discriminator :: "cache_account \<Rightarrow> bool" where
  "ca_has_discriminator c = (ca_discriminator c = CACHE)"

definition expiry_unix_ts :: "cache_account \<Rightarrow> int" where
  "expiry_unix_ts c = i64_from_le_bytes (ca_expires_at c)"

interpretation cache: record_layout cache_fields cache_to_fields cache_of_fields cache_wf
  by unfold_locales
    (auto simp: cache_wf_def cache_fields_def cache_to_fields_def cache_of_fields_def field_list)

lemma cache_size: "sum_list cache_fields = CACHE_SIZE"
  by (simp add: cache_fields_def CACHE_SIZE_def CACHE_CAPACITY_def sum_list_replicate)


section \<open>What a spend publishes about its cached inputs\<close>

definition bind_cache_write :: "hash_fn \<Rightarrow> bytes \<Rightarrow> (address \<times> cache_write list) option \<Rightarrow> (hasher_error, bytes) result" where
  "bind_cache_write sha external_data_hash destination =
    (case destination of
       Some (address, slots) \<Rightarrow>
         (let writes = concat (map (\<lambda>e. [of_nat (cw_output e), of_nat (cw_slot e)]) slots) in
          sha256be_hashv sha [[99, 97, 99, 104, 101, 95, 119, 114, 105, 116, 101], external_data_hash, address,
            take (2 * MAX_CACHE_WRITES) writes @ replicate (2 * MAX_CACHE_WRITES - length writes) 0])
     | None \<Rightarrow> Inr external_data_hash)"

definition empty_cached_input_fields :: "nat \<Rightarrow> (hasher_error, bytes list) result" where
  "empty_cached_input_fields input_count =
    (let groups = div_ceil (saturating_sub input_count 1) 3 in
     rbind (ok_or (get ZERO_SUFFIX_CHAINS groups) (InvalidInputLength ZERO_SUFFIX_GROUPS groups)) (\<lambda>chain.
       Inr [zero32, chain]))"

definition selected_slots :: "nat \<Rightarrow> bytes list \<Rightarrow> bytes list" where
  "selected_slots bitmap slots = map snd (filter (\<lambda>(slot, _). bit_set bitmap slot) (enumerate 0 slots))"

definition cached_input_fields :: "hash_fn \<Rightarrow> nat \<Rightarrow> nat \<Rightarrow> bytes list \<Rightarrow> nat \<Rightarrow> (hasher_error, bytes list) result" where
  "cached_input_fields P bitmap tree_id slots input_count =
    (if bitmap = 0 then empty_cached_input_fields input_count
     else let read_count = count_ones bitmap in
       if bitmap div 2 ^ CACHE_CAPACITY \<noteq> 0 \<or> input_count < read_count
       then Inl (InvalidInputLength input_count read_count)
       else rbind (create_padded_right_hash_chain_4 P (selected_slots bitmap slots) input_count) (\<lambda>chain.
         Inr [tree_id_field tree_id, chain]))"


section \<open>Loading and writing (loader.rs, write.rs)\<close>

definition load_cache :: "runtime \<Rightarrow> ledger \<Rightarrow> account_view \<Rightarrow> cache_account presult" where
  "load_cache R L v = load_config R cache_of InvalidCache ca_has_discriminator L v"

definition load_cache_mut :: "runtime \<Rightarrow> ledger \<Rightarrow> account_view \<Rightarrow> cache_account presult" where
  "load_cache_mut R L v = load_config_mut R cache_of InvalidCache ca_has_discriminator L v"

record cache_write_handle =
  cwh_state :: cache_account
  cwh_address :: address

definition cache_write_load :: "runtime \<Rightarrow> ledger \<Rightarrow> account_view \<Rightarrow> account_view \<Rightarrow> int \<Rightarrow> cache_write_handle presult" where
  "cache_write_load R L v writer now =
    rbind (load_cache_mut R L v) (\<lambda>state.
      if address_of writer \<noteq> ca_write_authority state then Inl (pool_err CacheWriteAuthorityMismatch)
      else if expiry_unix_ts state \<le> now then Inl (pool_err CacheExpired)
      else Inr \<lparr>cwh_state = state, cwh_address = address_of v\<rparr>)"

definition check_slot :: "cache_write_handle \<Rightarrow> nat \<Rightarrow> unit presult" where
  "check_slot h slot = rbind (ok_or (get (utxo_hashes (cwh_state h)) slot) (pool_err InvalidCacheSlot)) (\<lambda>_. Inr ())"

definition check_output_tree :: "cache_write_handle \<Rightarrow> nat \<Rightarrow> unit presult" where
  "check_output_tree h output_tree_id =
    (if output_tree_id \<noteq> from_le_bytes (ca_tree_id (cwh_state h)) then Inl (pool_err CacheTreeMismatch) else Inr ())"

definition cache_write_slot :: "cache_write_handle \<Rightarrow> nat \<Rightarrow> bytes \<Rightarrow> cache_write_handle presult" where
  "cache_write_slot h slot utxo_hash =
    (if length (utxo_hashes (cwh_state h)) \<le> slot then Inl (pool_err InvalidCacheSlot)
     else Inr (h\<lparr>cwh_state := (cwh_state h)\<lparr>utxo_hashes := (utxo_hashes (cwh_state h))[slot := utxo_hash]\<rparr>\<rparr>))"

text \<open>The handle borrows the account data, so its state is the account's when the borrow ends.\<close>

definition store_cache :: "cache_write_handle \<Rightarrow> ledger \<Rightarrow> ledger" where
  "store_cache h L = set_data (cwh_address h) (Bytes (cache_bytes (cwh_state h))) L"


section \<open>Creation (init.rs, create.rs)\<close>

record create_cache_data =
  cc_write_authority :: address
  cc_nonce :: nat
  cc_tree_id :: nat
  cc_expires_at :: int

definition read_create_cache :: "create_cache_data reader" where
  "read_create_cache = read_then (read_bytes 32) (\<lambda>a. read_then (read_uint 8) (\<lambda>n. read_then (read_uint 2) (\<lambda>t.
     read_then (read_bytes 8) (\<lambda>e. read_return \<lparr>cc_write_authority = a, cc_nonce = n, cc_tree_id = t,
       cc_expires_at = i64_from_le_bytes e\<rparr>))))"

definition cache_init :: "byte \<Rightarrow> nat \<Rightarrow> int \<Rightarrow> address \<Rightarrow> address \<Rightarrow> address \<Rightarrow> ledger \<Rightarrow> ledger presult" where
  "cache_init bump tree_id expires_at sponsor authority a L =
    (case acc_data (L a) of
       Bytes bs \<Rightarrow>
         if length bs \<noteq> CACHE_SIZE \<or> (\<exists>b \<in> set bs. b \<noteq> 0) then Inl (pool_err InvalidCache)
         else Inr (set_data a (Bytes (cache_bytes \<lparr>ca_discriminator = CACHE, ca_bump = bump, ca_tree_id = to_le_bytes 2 tree_id,
           ca_expires_at = i64_to_le_bytes expires_at, ca_rent_sponsor = sponsor, ca_write_authority = authority,
           utxo_hashes = replicate CACHE_CAPACITY zero32\<rparr>)) L)
     | Tree_Data _ \<Rightarrow> Inl (pool_err InvalidCache))"

definition process_create_cache :: "runtime \<Rightarrow> account_view list \<Rightarrow> bytes \<Rightarrow> ledger \<Rightarrow> ledger presult" where
  "process_create_cache R accounts payload L =
    rbind (ok_or (try_from_slice read_create_cache payload) (pool_err InvalidInstructionData)) (\<lambda>ix.
    rbind (acct (next_signer (iter_new accounts))) (\<lambda>(payer, it).
    rbind (acct (next_mut it)) (\<lambda>(cache, it).
    rbind (acct (next_account it)) (\<lambda>(system, it).
    if it_accounts it \<noteq> [] then Inl (pool_err InvalidInstructionData)
    else if address_of system \<noteq> system_program_id then Inl (pool_err InvalidSystemProgram)
    else if cc_expires_at ix \<le> unix_timestamp R then Inl (pool_err CacheExpiryNotInFuture)
    else
    let sponsor = address_of payer; nonce_le = to_le_bytes 8 (cc_nonce ix); seeds = [CACHE_SEED, sponsor, nonce_le] in
    rbind (verify_pda R (address_of cache) seeds (rt_program_id R)) (\<lambda>bump.
    if owned_by L cache (rt_program_id R)
    then rbind (load_cache R L cache) (\<lambda>current.
      if ca_write_authority current \<noteq> cc_write_authority ix \<or> ca_tree_id current \<noteq> to_le_bytes 2 (cc_tree_id ix)
         \<or> ca_expires_at current \<noteq> i64_to_le_bytes (cc_expires_at ix)
      then Inl (pool_err CacheConfigMismatch) else Inr L)
    else if acc_owner (L (address_of cache)) \<noteq> system_program_id \<or> data_len (acc_data (L (address_of cache))) \<noteq> 0
    then Inl (pool_err InvalidCache)
    else rbind (create_pda_account R (address_of payer) (address_of cache) CACHE_SIZE (rt_program_id R) seeds bump L) (\<lambda>L1.
      cache_init (of_nat bump) (cc_tree_id ix) (cc_expires_at ix) sponsor (cc_write_authority ix) (address_of cache) L1))))))"


section \<open>Closing (close.rs)\<close>

definition process_close_cache :: "runtime \<Rightarrow> account_view list \<Rightarrow> bytes \<Rightarrow> ledger \<Rightarrow> ledger presult" where
  "process_close_cache R accounts payload L =
    (if payload \<noteq> [] then Inl (pool_err InvalidInstructionData)
     else
     rbind (acct (next_mut (iter_new accounts))) (\<lambda>(cache, it).
     rbind (acct (next_mut it)) (\<lambda>(recipient, it).
     rbind (acct (next_option_signer (length accounts = 3) it)) (\<lambda>(writer, it).
     if it_accounts it \<noteq> [] then Inl (pool_err InvalidInstructionData)
     else
     rbind (load_cache R L cache) (\<lambda>state.
     rbind (if unix_timestamp R < expiry_unix_ts state
            then rbind (ok_or writer (pool_err CacheNotExpired)) (\<lambda>w.
              if address_of w \<noteq> ca_write_authority state then Inl (pool_err CacheWriteAuthorityMismatch) else Inr ())
            else Inr ()) (\<lambda>_.
     if address_of recipient \<noteq> ca_rent_sponsor state then Inl (pool_err CacheRentRecipientMismatch)
     else rbind (ok_or (checked_add (lamports L (address_of recipient)) (lamports L (address_of cache)))
                  Program_ArithmeticOverflow) (\<lambda>balance.
       Inr (close_account (address_of cache)
         (set_lamports (address_of cache) 0 (set_lamports (address_of recipient) balance L))))))))))"


section \<open>The empty selection\<close>

lemma rchunks_set: "g \<in> set (rchunks n xs) \<Longrightarrow> set g \<subseteq> set xs"
proof (induction n xs rule: rchunks.induct)
  case (1 n xs)
  then show ?case by (subst (asm) rchunks.simps) (auto split: if_splits dest: in_set_dropD in_set_takeD)
qed

lemma length_rchunks_3: "length (rchunks 3 xs) = div_ceil (length xs) 3"
proof (induction "3 :: nat" xs rule: rchunks.induct)
  case (1 xs)
  show ?case
  proof (cases "xs = []")
    case False
    have "length (rchunks 3 xs) = Suc (div_ceil (length (take (length xs - 3) xs)) 3)"
      using False 1 by (subst rchunks.simps) simp
    also have "\<dots> = div_ceil (length xs) 3"
    proof (cases "length xs < 3")
      case True
      then show ?thesis using False by (auto simp: div_ceil_def)
    next
      case False
      then obtain k where "length xs = k + 3" by (metis add.commute le_Suc_ex not_le)
      moreover have "(k + 3) div 3 = Suc (k div 3)" by (simp add: div_add_self2)
      ultimately show ?thesis by (simp add: div_ceil_def)
    qed
    finally show ?thesis .
  qed (simp add: rchunks.simps div_ceil_def)
qed

lemma tree_id_field_0: "tree_id_field 0 = zero32"
  by (simp add: tree_id_field_def right_align_def to_be_bytes_zero zero32_def flip: replicate_add)

lemma padded_chain_of_nothing:
  assumes "n \<le> ZERO_SUFFIX_CHAIN_MAX_WIDTH"
  shows "create_padded_right_hash_chain_4 P [] n = Inr (ZERO_SUFFIX_CHAINS ! div_ceil (n - 1) 3)"
    "div_ceil (n - 1) 3 < length ZERO_SUFFIX_CHAINS"
proof -
  show bound: "div_ceil (n - 1) 3 < length ZERO_SUFFIX_CHAINS"
    using assms div_le_mono[of "n - 1" 53 3]
    by (auto simp: length_ZERO_SUFFIX_CHAINS ZERO_SUFFIX_GROUPS_eq ZERO_SUFFIX_CHAIN_MAX_WIDTH_def div_ceil_def)
  have chain: "create_zero_suffix_right_hash_chain_4 P (replicate n zero32) = Inr (ZERO_SUFFIX_CHAINS ! div_ceil (n - 1) 3)"
  proof (cases n)
    case 0
    then show ?thesis by (simp add: create_zero_suffix_right_hash_chain_4_def div_ceil_def ZERO_SUFFIX_CHAINS_0)
  next
    case (Suc m)
    then have s: "replicate n zero32 = replicate m zero32 @ [zero32]" by (simp add: replicate_append_same)
    have "length (takeWhile (\<lambda>g. \<forall>slot \<in> set g. slot = zero32) (rchunks 3 (replicate m zero32))) = div_ceil m 3"
      using length_rchunks_3[of "replicate m zero32"]
      by (subst takeWhile_eq_all_conv[THEN iffD2]) (auto dest!: rchunks_set)
    moreover have "saturating_sub m (3 * div_ceil m 3) = 0"
      using mult_div_mod_eq[of 3 m] mod_less_divisor[of 3 m] by (auto simp: saturating_sub_def div_ceil_def)
    moreover have "rchunks 3 [] = ([] :: bytes list list)" by (simp add: rchunks.simps[of 3 "[]"])
    ultimately show ?thesis
      using bound Suc unfolding s
      by (simp add: create_zero_suffix_right_hash_chain_4_def get_def create_right_hash_chain_4_from_seed_def)
  qed
  show "create_padded_right_hash_chain_4 P [] n = Inr (ZERO_SUFFIX_CHAINS ! div_ceil (n - 1) 3)"
    using assms chain by (simp add: create_padded_right_hash_chain_4_def fill_slots_eq)
qed

lemma empty_selection:
  assumes "n \<le> ZERO_SUFFIX_CHAIN_MAX_WIDTH"
  shows "empty_cached_input_fields n =
    rbind (create_padded_right_hash_chain_4 P [] n) (\<lambda>chain. Inr [tree_id_field 0, chain])"
  using padded_chain_of_nothing[OF assms]
  by (simp add: empty_cached_input_fields_def get_def saturating_sub_def tree_id_field_0)


section \<open>Who can change a cache\<close>

text \<open>\<open>cache_at\<close>: the account holds the cache \<open>c\<close>.\<close>

definition cache_at :: "runtime \<Rightarrow> ledger \<Rightarrow> address \<Rightarrow> cache_account \<Rightarrow> bool" where
  "cache_at R L a c \<longleftrightarrow> acc_owner (L a) = rt_program_id R \<and> acc_data (L a) = Bytes (cache_bytes c)
     \<and> cache_wf c \<and> ca_discriminator c = CACHE"

lemma cast_cache: "cache_of bs = Some c \<longleftrightarrow> bs = cache_bytes c \<and> cache_wf c"
  using cache.dec_enc cache.enc_dec by blast

lemma load_cache_eq_Inr [account_simps]:
  "load_cache R L v = Inr c \<longleftrightarrow> cache_at R L (address_of v) c"
  "load_cache_mut R L v = Inr c \<longleftrightarrow> is_writable v \<and> cache_at R L (address_of v) c"
  by (auto simp: load_cache_def load_cache_mut_def load_config_eq_Inr load_config_mut_eq_Inr cache_at_def owned_by_def
      cast_cache ca_has_discriminator_def)

lemma cache_write_load_eq_Inr [account_simps]:
  "cache_write_load R L v w now = Inr h \<longleftrightarrow> is_writable v \<and> cache_at R L (address_of v) (cwh_state h)
     \<and> cwh_address h = address_of v \<and> ca_write_authority (cwh_state h) = address_of w \<and> now < expiry_unix_ts (cwh_state h)"
  by (cases h) (auto simp: cache_write_load_def result_simps load_cache_eq_Inr)

lemma next_option_signer_eq_Inr [account_simps]:
  "next_option_signer b it = Inr (w, it') \<longleftrightarrow>
     (if b then (\<exists>v. w = Some v \<and> next_signer it = Inr (v, it')) else w = None \<and> it' = it)"
  by (auto simp: next_option_signer_def optionally_def result_simps)

lemma close_cache_success:
  "process_close_cache R accounts payload L = Inr L' \<Longrightarrow>
    (\<exists>cache recipient rest c. payload = [] \<and> accounts = cache # recipient # rest \<and> is_writable cache \<and> is_writable recipient
      \<and> (rest = [] \<or> (\<exists>w. rest = [w] \<and> is_signer w)) \<and> cache_at R L (address_of cache) c
      \<and> (expiry_unix_ts c \<le> unix_timestamp R \<or> (\<exists>w. rest = [w] \<and> address_of w = ca_write_authority c))
      \<and> address_of recipient = ca_rent_sponsor c \<and> u64_ok (lamports L (address_of recipient) + lamports L (address_of cache))
      \<and> L' = close_account (address_of cache) (set_lamports (address_of cache) 0
          (set_lamports (address_of recipient) (lamports L (address_of recipient) + lamports L (address_of cache)) L)))"
  by (auto simp: process_close_cache_def result_simps next_mut_eq_Inr next_option_signer_eq_Inr next_signer_eq_Inr
      load_cache_eq_Inr checked_add_def split: if_splits)

lemma i64_le_roundtrip: "i64_ok i \<Longrightarrow> i64_from_le_bytes (i64_to_le_bytes i) = i" "length (i64_to_le_bytes i) = 8"
proof -
  show "length (i64_to_le_bytes i) = 8" by (simp add: i64_to_le_bytes_def)
  assume i: "i64_ok i"
  have m: "0 \<le> i mod 2 ^ 64" "i mod 2 ^ 64 < 2 ^ 64" by simp_all
  then have "from_le_bytes (i64_to_le_bytes i) = nat (i mod 2 ^ 64)"
    unfolding i64_to_le_bytes_def by (intro le_u64(2)) (simp add: u64_limit_def nat_less_iff)
  then have "i64_from_le_bytes (i64_to_le_bytes i) = (if i mod 2 ^ 64 < 2 ^ 63 then i mod 2 ^ 64 else i mod 2 ^ 64 - 2 ^ 64)"
    using m by (simp add: i64_from_le_bytes_def Let_def)
  moreover have "i mod 2 ^ 64 = (if i < 0 then i + 2 ^ 64 else i)"
    using i mod_pos_pos_trivial[of i "2 ^ 64"] mod_pos_pos_trivial[of "i + 2 ^ 64" "2 ^ 64"]
    by (auto simp: i64_ok_def)
  ultimately show "i64_from_le_bytes (i64_to_le_bytes i) = i" using i by (auto simp: i64_ok_def)
qed

text \<open>The state a new cache starts in.\<close>

definition new_cache :: "create_cache_data \<Rightarrow> address \<Rightarrow> nat \<Rightarrow> cache_account" where
  "new_cache d sponsor bump = \<lparr>ca_discriminator = CACHE, ca_bump = of_nat bump, ca_tree_id = to_le_bytes 2 (cc_tree_id d),
     ca_expires_at = i64_to_le_bytes (cc_expires_at d), ca_rent_sponsor = sponsor, ca_write_authority = cc_write_authority d,
     utxo_hashes = replicate CACHE_CAPACITY zero32\<rparr>"

lemma create_cache_success:
  assumes "system_ok R" "process_create_cache R accounts payload L = Inr L'"
  shows "\<exists>d payer cache system bump. try_from_slice read_create_cache payload = Some d \<and> accounts = [payer, cache, system]
    \<and> is_signer payer \<and> is_writable cache \<and> unix_timestamp R < cc_expires_at d
    \<and> derive_program_address R [CACHE_SEED, address_of payer, to_le_bytes 8 (cc_nonce d)] (rt_program_id R) = Some (address_of cache, bump)
    \<and> ((\<exists>c. cache_at R L (address_of cache) c \<and> ca_write_authority c = cc_write_authority d
           \<and> ca_tree_id c = to_le_bytes 2 (cc_tree_id d) \<and> ca_expires_at c = i64_to_le_bytes (cc_expires_at d) \<and> L' = L)
       \<or> unused_account L (address_of cache) \<and> (\<exists>n. n \<le> lamports L (address_of payer)
           \<and> L' = install (address_of cache) (rt_program_id R) (Bytes (cache_bytes (new_cache d (address_of payer) bump)))
               (move_lamports (address_of payer) (address_of cache) n L)))"
proof -
  obtain d payer cache system bump where d: "try_from_slice read_create_cache payload = Some d" "accounts = [payer, cache, system]"
    "is_signer payer" "is_writable cache" "unix_timestamp R < cc_expires_at d"
    "derive_program_address R [CACHE_SEED, address_of payer, to_le_bytes 8 (cc_nonce d)] (rt_program_id R) = Some (address_of cache, bump)"
    and rest: "(if owned_by L cache (rt_program_id R)
      then rbind (load_cache R L cache) (\<lambda>current.
        if ca_write_authority current \<noteq> cc_write_authority d \<or> ca_tree_id current \<noteq> to_le_bytes 2 (cc_tree_id d)
           \<or> ca_expires_at current \<noteq> i64_to_le_bytes (cc_expires_at d)
        then Inl (pool_err CacheConfigMismatch) else Inr L)
      else if acc_owner (L (address_of cache)) \<noteq> system_program_id \<or> data_len (acc_data (L (address_of cache))) \<noteq> 0
      then Inl (pool_err InvalidCache)
      else rbind (create_pda_account R (address_of payer) (address_of cache) CACHE_SIZE (rt_program_id R)
             [CACHE_SEED, address_of payer, to_le_bytes 8 (cc_nonce d)] bump L) (\<lambda>L1.
        cache_init (of_nat bump) (cc_tree_id d) (cc_expires_at d) (address_of payer) (cc_write_authority d) (address_of cache) L1)) = Inr L'"
    using assms(2) by (auto simp: process_create_cache_def Let_def rbind_eq_Inr next_signer_eq_Inr next_mut_eq_Inr
        next_account_eq_Inr verify_pda_eq_Inr map_err_eq_Inr ok_or_eq_Inr if_error_eq_Inr(1) not_le)
  show ?thesis
  proof (cases "owned_by L cache (rt_program_id R)")
    case True
    then obtain c where "cache_at R L (address_of cache) c" "ca_write_authority c = cc_write_authority d"
      "ca_tree_id c = to_le_bytes 2 (cc_tree_id d)" "ca_expires_at c = i64_to_le_bytes (cc_expires_at d)" "L' = L"
      using rest by (auto simp: result_simps load_cache_eq_Inr)
    then show ?thesis using d by blast
  next
    case False
    then obtain L1 where new: "acc_owner (L (address_of cache)) = system_program_id" "acc_data (L (address_of cache)) = Bytes []"
      and L1: "create_pda_account R (address_of payer) (address_of cache) CACHE_SIZE (rt_program_id R)
        [CACHE_SEED, address_of payer, to_le_bytes 8 (cc_nonce d)] bump L = Inr L1"
      and L': "cache_init (of_nat bump) (cc_tree_id d) (cc_expires_at d) (address_of payer) (cc_write_authority d) (address_of cache) L1 = Inr L'"
      using rest by (auto simp: result_simps)
    obtain n where n: "n \<le> lamports L (address_of payer)"
      "L1 = install (address_of cache) (rt_program_id R) (Bytes (replicate CACHE_SIZE 0)) (move_lamports (address_of payer) (address_of cache) n L)"
      using create_pda_account_success[OF assms(1) L1] by blast
    have "L' = install (address_of cache) (rt_program_id R) (Bytes (cache_bytes (new_cache d (address_of payer) bump)))
        (move_lamports (address_of payer) (address_of cache) n L)"
      using L' unfolding n(2)
      by (auto simp: cache_init_def new_cache_def set_data_def install_def split: if_splits)
    then show ?thesis using d new n(1) by (auto simp: unused_account_def)
  qed
qed

lemma new_cache_at:
  assumes "L (address_of cache) = \<lparr>acc_owner = rt_program_id R, acc_lamports = n, acc_data = Bytes (cache_bytes (new_cache d s b))\<rparr>"
    "length (cc_write_authority d) = 32" "length s = 32"
  shows "cache_at R L (address_of cache) (new_cache d s b)"
  using assms by (simp add: cache_at_def cache_wf_def new_cache_def i64_le_roundtrip(2) zero32_def)

text \<open>
  C39.  The life of a cache.  Creating it again with the same parameters changes
  nothing, so its slots survive a retry; creating it anew takes an unused account
  at the address derived from the signing sponsor and nonce and stores exactly
  the requested authority, tree and expiry with all slots empty.  It is closed
  only after its expiry or with the signature of its write authority, and then
  every lamport it held goes to the sponsor that paid for it.
\<close>
theorem cache_lifecycle:
  assumes "system_ok R" "rt_program_id R \<noteq> system_program_id"
  shows "(process_create_cache R accounts payload L = Inr L' \<longrightarrow>
      (\<exists>d payer cache system bump. try_from_slice read_create_cache payload = Some d \<and> accounts = [payer, cache, system] \<and> is_signer payer
        \<and> derive_program_address R [CACHE_SEED, address_of payer, to_le_bytes 8 (cc_nonce d)] (rt_program_id R) = Some (address_of cache, bump)
        \<and> (if acc_owner (L (address_of cache)) = rt_program_id R then L' = L
           else unused_account L (address_of cache) \<and> acc_owner (L' (address_of cache)) = rt_program_id R
             \<and> acc_data (L' (address_of cache)) = Bytes (cache_bytes (new_cache d (address_of payer) bump))
             \<and> (\<forall>a. a \<noteq> address_of payer \<longrightarrow> a \<noteq> address_of cache \<longrightarrow> L' a = L a))))
    \<and> (process_close_cache R accounts payload L = Inr L' \<longrightarrow>
      (\<exists>cache recipient rest c. accounts = cache # recipient # rest \<and> cache_at R L (address_of cache) c
        \<and> (expiry_unix_ts c \<le> unix_timestamp R \<or> (\<exists>w. rest = [w] \<and> is_signer w \<and> address_of w = ca_write_authority c))
        \<and> address_of recipient = ca_rent_sponsor c \<and> unused_account L' (address_of cache)
        \<and> (address_of cache \<noteq> address_of recipient \<longrightarrow>
             lamports L' (address_of recipient) = lamports L (address_of recipient) + lamports L (address_of cache))
        \<and> lamports L' (address_of cache) = 0
        \<and> (\<forall>a. a \<noteq> address_of cache \<longrightarrow> a \<noteq> address_of recipient \<longrightarrow> L' a = L a)))"
proof (intro conjI impI)
  assume "process_create_cache R accounts payload L = Inr L'"
  from create_cache_success[OF assms(1) this] obtain d payer cache system bump where
    d: "try_from_slice read_create_cache payload = Some d" "accounts = [payer, cache, system]" "is_signer payer"
    "derive_program_address R [CACHE_SEED, address_of payer, to_le_bytes 8 (cc_nonce d)] (rt_program_id R) = Some (address_of cache, bump)"
    and c: "(\<exists>c. cache_at R L (address_of cache) c \<and> L' = L)
       \<or> unused_account L (address_of cache) \<and> (\<exists>n. n \<le> lamports L (address_of payer)
           \<and> L' = install (address_of cache) (rt_program_id R) (Bytes (cache_bytes (new_cache d (address_of payer) bump)))
               (move_lamports (address_of payer) (address_of cache) n L))"
    by blast
  have "if acc_owner (L (address_of cache)) = rt_program_id R then L' = L
      else unused_account L (address_of cache) \<and> acc_owner (L' (address_of cache)) = rt_program_id R
        \<and> acc_data (L' (address_of cache)) = Bytes (cache_bytes (new_cache d (address_of payer) bump))
        \<and> (\<forall>a. a \<noteq> address_of payer \<longrightarrow> a \<noteq> address_of cache \<longrightarrow> L' a = L a)"
    using c assms(2)
    by (auto simp: cache_at_def unused_account_def install_def move_lamports_def set_lamports_def Let_def)
  then show "\<exists>d payer cache system bump. try_from_slice read_create_cache payload = Some d \<and> accounts = [payer, cache, system] \<and> is_signer payer
        \<and> derive_program_address R [CACHE_SEED, address_of payer, to_le_bytes 8 (cc_nonce d)] (rt_program_id R) = Some (address_of cache, bump)
        \<and> (if acc_owner (L (address_of cache)) = rt_program_id R then L' = L
           else unused_account L (address_of cache) \<and> acc_owner (L' (address_of cache)) = rt_program_id R
             \<and> acc_data (L' (address_of cache)) = Bytes (cache_bytes (new_cache d (address_of payer) bump))
             \<and> (\<forall>a. a \<noteq> address_of payer \<longrightarrow> a \<noteq> address_of cache \<longrightarrow> L' a = L a))"
    using d by blast
next
  assume "process_close_cache R accounts payload L = Inr L'"
  from close_cache_success[OF this] obtain cache recipient rest c where
    c: "accounts = cache # recipient # rest" "rest = [] \<or> (\<exists>w. rest = [w] \<and> is_signer w)" "cache_at R L (address_of cache) c"
      "expiry_unix_ts c \<le> unix_timestamp R \<or> (\<exists>w. rest = [w] \<and> address_of w = ca_write_authority c)"
      "address_of recipient = ca_rent_sponsor c"
    and L': "L' = close_account (address_of cache) (set_lamports (address_of cache) 0
          (set_lamports (address_of recipient) (lamports L (address_of recipient) + lamports L (address_of cache)) L))"
    by blast
  have "unused_account L' (address_of cache)" "lamports L' (address_of cache) = 0"
    by (simp_all add: L' unused_account_def)
  moreover have "address_of cache \<noteq> address_of recipient \<longrightarrow>
      lamports L' (address_of recipient) = lamports L (address_of recipient) + lamports L (address_of cache)"
    by (simp add: L' lamports_def set_lamports_def)
  moreover have "\<forall>a. a \<noteq> address_of cache \<longrightarrow> a \<noteq> address_of recipient \<longrightarrow> L' a = L a"
    by (simp add: L' set_lamports_def)
  ultimately show "\<exists>cache recipient rest c. accounts = cache # recipient # rest \<and> cache_at R L (address_of cache) c
        \<and> (expiry_unix_ts c \<le> unix_timestamp R \<or> (\<exists>w. rest = [w] \<and> is_signer w \<and> address_of w = ca_write_authority c))
        \<and> address_of recipient = ca_rent_sponsor c \<and> unused_account L' (address_of cache)
        \<and> (address_of cache \<noteq> address_of recipient \<longrightarrow>
             lamports L' (address_of recipient) = lamports L (address_of recipient) + lamports L (address_of cache))
        \<and> lamports L' (address_of cache) = 0
        \<and> (\<forall>a. a \<noteq> address_of cache \<longrightarrow> a \<noteq> address_of recipient \<longrightarrow> L' a = L a)"
    using c by blast
qed

definition demo_cache_data :: create_cache_data where
  "demo_cache_data = \<lparr>cc_write_authority = demo_address 2, cc_nonce = 6, cc_tree_id = 3, cc_expires_at = 2000\<rparr>"

definition demo_cache_payload :: bytes where
  "demo_cache_payload = demo_address 2 @ to_le_bytes 8 6 @ to_le_bytes 2 3 @ i64_to_le_bytes 2000"

definition demo_cache_address :: address where "demo_cache_address = CACHE_SEED @ replicate 27 0"

definition demo_cache_view :: account_view where
  "demo_cache_view = \<lparr>address_of = demo_cache_address, is_signer = False, is_writable = True, is_executable = False\<rparr>"

lemma demo_cache_read: "try_from_slice read_create_cache demo_cache_payload = Some demo_cache_data"
proof (rule try_from_slice_reads)
  have "i64_from_le_bytes (i64_to_le_bytes 2000) = 2000" by (rule i64_le_roundtrip(1)) (simp add: i64_ok_def)
  then show "reads read_create_cache demo_cache_payload demo_cache_data"
    unfolding read_create_cache_def demo_cache_payload_def demo_cache_data_def
    by (intro codec_steps) (simp_all add: i64_le_roundtrip(2))
qed

lemma demo_cache_other: "demo_cache_address \<noteq> demo_address n" "demo_address n \<noteq> demo_cache_address"
proof -
  have "hd demo_cache_address = 99" by (simp add: demo_cache_address_def CACHE_SEED_def)
  moreover have "hd (demo_address n) = 0" by (simp add: demo_address_def hd_append)
  ultimately show "demo_cache_address \<noteq> demo_address n" "demo_address n \<noteq> demo_cache_address" by auto
qed

definition demo_cache_ledger :: ledger where
  "demo_cache_ledger = install demo_cache_address (demo_address 100) (Bytes (cache_bytes (new_cache demo_cache_data (demo_address 1) 255)))
     (move_lamports (demo_address 1) demo_cache_address 0 (demo_ledger demo_tree 5000000))"

lemma demo_cache_created:
  "process_create_cache demo_runtime [user_view 1, demo_cache_view, demo_system_view] demo_cache_payload (demo_ledger demo_tree 5000000)
     = Inr demo_cache_ledger"
proof -
  let ?L = "demo_ledger demo_tree 5000000"
  have pda: "derive_program_address demo_runtime [CACHE_SEED, demo_address 1, n] pid = Some (demo_cache_address, 255)" for n pid
    by (simp add: demo_runtime_def demo_pda_def demo_cache_address_def CACHE_SEED_def demo_address_def)
  have L: "?L demo_cache_address = \<lparr>acc_owner = system_program_id, acc_lamports = 1000000, acc_data = Bytes []\<rparr>"
    by (simp add: demo_ledger_def demo_cache_other)
  have id: "rt_program_id demo_runtime = demo_address 100" "system_program_id \<noteq> demo_address 100"
    using demo_system_id[of 100] by (simp_all add: demo_runtime_def)
  have "create_pda_account demo_runtime (demo_address 1) demo_cache_address CACHE_SIZE (demo_address 100)
      [CACHE_SEED, demo_address 1, n] 255 ?L = Inr (install demo_cache_address (demo_address 100) (Bytes (replicate CACHE_SIZE 0))
        (move_lamports (demo_address 1) demo_cache_address 0 ?L))" for n
    using L by (simp add: create_pda_account_def demo_runtime_def demo_rent_def CACHE_SIZE_def lamports_def unused_account_def)
  moreover have "cache_init 255 3 2000 (demo_address 1) (demo_address 2) demo_cache_address
      (install demo_cache_address (demo_address 100) (Bytes (replicate CACHE_SIZE 0)) M) =
      Inr (install demo_cache_address (demo_address 100) (Bytes (cache_bytes (new_cache demo_cache_data (demo_address 1) 255))) M)" for M
    by (simp add: cache_init_def new_cache_def demo_cache_data_def set_data_def install_def)
  ultimately show ?thesis
    using demo_cache_read L pda id
    by (simp add: process_create_cache_def next_signer_def next_mut_def next_checked_def next_account_def check_signer_def check_mut_def
        demo_cache_view_def demo_system_view_def verify_pda_def owned_by_def demo_cache_ledger_def demo_cache_data_def demo_runtime_def
        iter_new_def user_view_def Let_def)
qed

theorem cache_lifecycle_witness:
  "process_create_cache demo_runtime [user_view 1, demo_cache_view, demo_system_view] demo_cache_payload (demo_ledger demo_tree 5000000)
     = Inr demo_cache_ledger
   \<and> acc_owner (demo_cache_ledger demo_cache_address) = demo_address 100
   \<and> demo_cache_ledger (demo_address 2) = demo_ledger demo_tree 5000000 (demo_address 2)"
proof -
  have id: "rt_program_id demo_runtime \<noteq> system_program_id" using demo_system_id[of 100] by (simp add: demo_runtime_def)
  have "demo_ledger demo_tree 5000000 demo_cache_address = \<lparr>acc_owner = system_program_id, acc_lamports = 1000000, acc_data = Bytes []\<rparr>"
    by (simp add: demo_ledger_def demo_cache_other)
  then show ?thesis
    using cache_lifecycle[OF system_ok_demo id, of "[user_view 1, demo_cache_view, demo_system_view]" demo_cache_payload
        "demo_ledger demo_tree 5000000" demo_cache_ledger] demo_cache_created demo_system_id[of 100]
    by (auto simp: demo_cache_view_def demo_runtime_def demo_address_inj demo_cache_other split: if_splits)
qed

end
