(* ===== verification/Transact_Data.thy ===== *)
theory Transact_Data
  imports Utxo_Cache
begin

text \<open>
  Instruction data of \<open>transact\<close>,
  \<open>program-libs/interface/src/instruction/instruction_data/transact.rs\<close>: the payload
  with its byte layout, the declared input trees, owner tags, settlement groups
  and the preimage of the external-data hash.  The first eight fields form the
  prefix that hash commits to.  The lemmas show that the payload reads back as
  written, what the tree contexts must satisfy, and that the preimage determines
  everything it is meant to commit to.
\<close>

record transact_proof =
  tp_a :: bytes
  tp_b :: bytes
  tp_c :: bytes

definition NO_UTXO_ROOT :: nat where "NO_UTXO_ROOT = 65535"

record input_utxo =
  nullifier_hash :: bytes
  tree_index :: nat

datatype interface_transfer =
    SolDeposit nat
  | SolWithdrawal nat
  | SplDeposit nat nat
  | SplWithdrawal nat nat

primrec transfer_amount :: "interface_transfer \<Rightarrow> nat" where
  "transfer_amount (SolDeposit n) = n"
| "transfer_amount (SolWithdrawal n) = n"
| "transfer_amount (SplDeposit n _) = n"
| "transfer_amount (SplWithdrawal n _) = n"

primrec is_spl :: "interface_transfer \<Rightarrow> bool" where
  "is_spl (SolDeposit _) = False"
| "is_spl (SolWithdrawal _) = False"
| "is_spl (SplDeposit _ _) = True"
| "is_spl (SplWithdrawal _ _) = True"

primrec is_deposit :: "interface_transfer \<Rightarrow> bool" where
  "is_deposit (SolDeposit _) = True"
| "is_deposit (SolWithdrawal _) = False"
| "is_deposit (SplDeposit _ _) = True"
| "is_deposit (SplWithdrawal _ _) = False"

definition settlement_account_count :: "interface_transfer \<Rightarrow> nat" where
  "settlement_account_count t = (if is_spl t then 5 else 2)"

primrec mint_account_position :: "interface_transfer \<Rightarrow> nat option" where
  "mint_account_position (SolDeposit _) = None"
| "mint_account_position (SolWithdrawal _) = None"
| "mint_account_position (SplDeposit _ _) = Some 0"
| "mint_account_position (SplWithdrawal _ _) = Some 1"

definition settlement_total :: "interface_transfer list \<Rightarrow> nat" where
  "settlement_total ts = sum_list (map settlement_account_count ts)"

definition cache_account_count :: "circuit_id \<Rightarrow> nat" where
  "cache_account_count c = (case circuit_cache_access c of
     None \<Rightarrow> 0
   | Some a \<Rightarrow> (if read_bitmap a \<noteq> 0 then 1 else 0) + 2 * (if writes_cache a then 1 else 0))"

definition settlement_accounts :: "interface_transfer list \<Rightarrow> circuit_id \<Rightarrow> 'a list \<Rightarrow> 'a list option" where
  "settlement_accounts transfers c accounts =
    Option.bind (checked_sub (length accounts) (cache_account_count c)) (\<lambda>stop.
    Option.bind (checked_sub stop (settlement_total transfers)) (\<lambda>start.
      Some (take (stop - start) (drop start accounts))))"

definition validate_interface_transfers :: "interface_transfer list \<Rightarrow> (shielded_pool_error, unit) result" where
  "validate_interface_transfers ts =
    (if MAX_INTERFACE_TRANSFERS < length ts then Inl TooManyInterfaceTransfers
     else if \<exists>t \<in> set ts. transfer_amount t = 0 then Inl ZeroInterfaceTransferAmount
     else Inr ())"

text \<open>One counter per possible tree; the loop may only touch the declared ones.\<close>

fun count_inputs :: "nat \<Rightarrow> nat list \<Rightarrow> input_utxo list \<Rightarrow> (shielded_pool_error, nat list) result" where
  "count_inputs declared counts [] = Inr counts"
| "count_inputs declared counts (i # rest) =
    (if declared \<le> tree_index i then Inl InputTreeIndexOutOfRange
     else count_inputs declared (counts[tree_index i := counts ! tree_index i + 1]) rest)"

definition validate_input_tree_contexts :: "input_utxo list \<Rightarrow> tree_context list \<Rightarrow> (shielded_pool_error, nat list) result" where
  "validate_input_tree_contexts inputs contexts =
    (let declared = length contexts in
     if MAX_INPUT_TREES < declared \<or> declared = 0 then Inl InvalidTreeContextCount
     else rbind (count_inputs declared (replicate MAX_INPUT_TREES 0) inputs) (\<lambda>counts.
       if 0 \<in> set (take declared counts) then Inl UnreferencedTreeContext else Inr counts))"

datatype owner_tag = Inline bytes | Account_Tag nat

definition fetch_tag :: "owner_tag \<Rightarrow> (nat \<Rightarrow> address option) \<Rightarrow> (shielded_pool_error, bytes) result" where
  "fetch_tag tag account_address = (case tag of
     Inline bs \<Rightarrow> Inr bs
   | Account_Tag index \<Rightarrow> ok_or (account_address index) OwnerTagAccountMissing)"

record transact_output =
  to_utxo_hash :: bytes
  to_owner_tag :: owner_tag
  to_data :: "bytes option"

record resolved_output =
  ro_utxo_hash :: bytes
  ro_owner_tag :: bytes
  ro_data :: "bytes option"

definition into_resolved :: "transact_output \<Rightarrow> (nat \<Rightarrow> address option) \<Rightarrow> (shielded_pool_error, resolved_output) result" where
  "into_resolved output account_address =
    rbind (fetch_tag (to_owner_tag output) account_address) (\<lambda>tag.
      Inr \<lparr>ro_utxo_hash = to_utxo_hash output, ro_owner_tag = tag, ro_data = to_data output\<rparr>)"


section \<open>The payload\<close>

text \<open>The fields the external-data hash commits to, then the rest.\<close>

record external_data =
  tx_expiry_unix_ts :: nat
  tx_viewing_pk :: bytes
  tx_salt :: bytes
  interface_transfers :: "interface_transfer list"
  tx_data_hash :: "bytes option"
  tx_ring_data_hash :: "bytes option"
  tx_outputs :: "transact_output list"
  tx_messages :: "message_data list"

record transact_ix_data = external_data +
  private_tx_hash :: bytes
  tx_circuit :: circuit_id
  tx_proof :: transact_proof
  tx_inputs :: "input_utxo list"
  tree_contexts :: "tree_context list"

definition read_interface_transfer :: "interface_transfer reader" where
  "read_interface_transfer = read_then read_u8 (\<lambda>t.
    if t = 0 then read_then (read_uint 8) (\<lambda>n. read_return (SolDeposit n))
    else if t = 1 then read_then (read_uint 8) (\<lambda>n. read_return (SolWithdrawal n))
    else if t = 2 then read_then (read_uint 8) (\<lambda>n. read_then read_u8 (\<lambda>b. read_return (SplDeposit n b)))
    else if t = 3 then read_then (read_uint 8) (\<lambda>n. read_then read_u8 (\<lambda>b. read_return (SplWithdrawal n b)))
    else read_fail)"

primrec write_interface_transfer :: "interface_transfer \<Rightarrow> bytes" where
  "write_interface_transfer (SolDeposit n) = write_u8 0 @ to_le_bytes 8 n"
| "write_interface_transfer (SolWithdrawal n) = write_u8 1 @ to_le_bytes 8 n"
| "write_interface_transfer (SplDeposit n b) = write_u8 2 @ to_le_bytes 8 n @ write_u8 b"
| "write_interface_transfer (SplWithdrawal n b) = write_u8 3 @ to_le_bytes 8 n @ write_u8 b"

primrec interface_transfer_ok :: "interface_transfer \<Rightarrow> bool" where
  "interface_transfer_ok (SolDeposit n) = u64_ok n"
| "interface_transfer_ok (SolWithdrawal n) = u64_ok n"
| "interface_transfer_ok (SplDeposit n b) = (u64_ok n \<and> b < 256)"
| "interface_transfer_ok (SplWithdrawal n b) = (u64_ok n \<and> b < 256)"

definition read_owner_tag :: "owner_tag reader" where
  "read_owner_tag = read_then read_u8 (\<lambda>t.
    if t = 0 then read_then (read_bytes 32) (\<lambda>bs. read_return (Inline bs))
    else if t = 1 then read_then read_u8 (\<lambda>i. read_return (Account_Tag i)) else read_fail)"

primrec write_owner_tag :: "owner_tag \<Rightarrow> bytes" where
  "write_owner_tag (Inline bs) = write_u8 0 @ bs"
| "write_owner_tag (Account_Tag i) = write_u8 1 @ write_u8 i"

primrec owner_tag_ok :: "owner_tag \<Rightarrow> bool" where
  "owner_tag_ok (Inline bs) = bytes_ok 32 bs"
| "owner_tag_ok (Account_Tag i) = (i < 256)"

definition read_transact_output :: "transact_output reader" where
  "read_transact_output = read_then (read_bytes 32) (\<lambda>h. read_then read_owner_tag (\<lambda>t. read_then (read_option (read_blob 2)) (\<lambda>d.
     read_return \<lparr>to_utxo_hash = h, to_owner_tag = t, to_data = d\<rparr>)))"

definition write_transact_output :: "transact_output \<Rightarrow> bytes" where
  "write_transact_output x = to_utxo_hash x @ write_owner_tag (to_owner_tag x) @ write_option (write_blob 2) (to_data x)"

definition transact_output_ok :: "transact_output \<Rightarrow> bool" where
  "transact_output_ok x \<longleftrightarrow> bytes_ok 32 (to_utxo_hash x) \<and> owner_tag_ok (to_owner_tag x) \<and> option_ok (blob_ok 2) (to_data x)"

definition read_message :: "message_data reader" where
  "read_message = read_then (read_bytes 32) (\<lambda>t. read_then (read_blob 2) (\<lambda>d. read_return \<lparr>md_view_tag = t, md_data = d\<rparr>))"

definition write_message :: "message_data \<Rightarrow> bytes" where
  "write_message m = md_view_tag m @ write_blob 2 (md_data m)"

definition message_ok :: "message_data \<Rightarrow> bool" where
  "message_ok m \<longleftrightarrow> bytes_ok 32 (md_view_tag m) \<and> blob_ok 2 (md_data m)"

definition read_transact_proof :: "transact_proof reader" where
  "read_transact_proof = read_then (read_bytes 32) (\<lambda>a. read_then (read_bytes 128) (\<lambda>b. read_then (read_bytes 32) (\<lambda>c.
     read_return \<lparr>tp_a = a, tp_b = b, tp_c = c\<rparr>)))"

definition write_transact_proof :: "transact_proof \<Rightarrow> bytes" where
  "write_transact_proof p = tp_a p @ tp_b p @ tp_c p"

definition transact_proof_ok :: "transact_proof \<Rightarrow> bool" where
  "transact_proof_ok p \<longleftrightarrow> bytes_ok 32 (tp_a p) \<and> bytes_ok 128 (tp_b p) \<and> bytes_ok 32 (tp_c p)"

definition read_input_utxo :: "input_utxo reader" where
  "read_input_utxo = read_then (read_bytes 32) (\<lambda>n. read_then read_u8 (\<lambda>t. read_return \<lparr>nullifier_hash = n, tree_index = t\<rparr>))"

definition write_input_utxo :: "input_utxo \<Rightarrow> bytes" where
  "write_input_utxo i = nullifier_hash i @ write_u8 (tree_index i)"

definition input_utxo_ok :: "input_utxo \<Rightarrow> bool" where
  "input_utxo_ok i \<longleftrightarrow> bytes_ok 32 (nullifier_hash i) \<and> tree_index i < 256"

definition read_tree_context :: "tree_context reader" where
  "read_tree_context = read_then (read_uint 2) (\<lambda>u. read_then (read_uint 2) (\<lambda>n.
     read_return \<lparr>utxo_tree_root_index = u, nullifier_tree_root_index = n\<rparr>))"

definition write_tree_context :: "tree_context \<Rightarrow> bytes" where
  "write_tree_context c = to_le_bytes 2 (utxo_tree_root_index c) @ to_le_bytes 2 (nullifier_tree_root_index c)"

definition tree_context_ok :: "tree_context \<Rightarrow> bool" where
  "tree_context_ok c \<longleftrightarrow> u16_ok (utxo_tree_root_index c) \<and> u16_ok (nullifier_tree_root_index c)"

definition read_external_data :: "external_data reader" where
  "read_external_data = read_then (read_uint 8) (\<lambda>e. read_then (read_bytes 33) (\<lambda>k. read_then (read_bytes 16) (\<lambda>s.
    read_then (read_vec 1 read_interface_transfer) (\<lambda>t. read_then (read_option (read_bytes 32)) (\<lambda>d.
    read_then (read_option (read_bytes 32)) (\<lambda>r. read_then (read_vec 1 read_transact_output) (\<lambda>u.
    read_then (read_vec 1 read_message) (\<lambda>m.
    read_return \<lparr>tx_expiry_unix_ts = e, tx_viewing_pk = k, tx_salt = s, interface_transfers = t, tx_data_hash = d,
      tx_ring_data_hash = r, tx_outputs = u, tx_messages = m\<rparr>))))))))"

definition write_external_data :: "external_data \<Rightarrow> bytes" where
  "write_external_data x = to_le_bytes 8 (tx_expiry_unix_ts x) @ tx_viewing_pk x @ tx_salt x
    @ write_vec 1 write_interface_transfer (interface_transfers x) @ write_option (\<lambda>bs. bs) (tx_data_hash x)
    @ write_option (\<lambda>bs. bs) (tx_ring_data_hash x) @ write_vec 1 write_transact_output (tx_outputs x)
    @ write_vec 1 write_message (tx_messages x)"

definition external_data_ok :: "external_data \<Rightarrow> bool" where
  "external_data_ok x \<longleftrightarrow> u64_ok (tx_expiry_unix_ts x) \<and> bytes_ok 33 (tx_viewing_pk x) \<and> bytes_ok 16 (tx_salt x)
    \<and> vec_ok 1 interface_transfer_ok (interface_transfers x) \<and> option_ok (bytes_ok 32) (tx_data_hash x)
    \<and> option_ok (bytes_ok 32) (tx_ring_data_hash x) \<and> vec_ok 1 transact_output_ok (tx_outputs x)
    \<and> vec_ok 1 message_ok (tx_messages x)"

definition read_transact_ix :: "transact_ix_data reader" where
  "read_transact_ix = read_then read_external_data (\<lambda>e. read_then (read_bytes 32) (\<lambda>h. read_then read_circuit_id (\<lambda>c.
    read_then read_transact_proof (\<lambda>p. read_then (read_vec 1 read_input_utxo) (\<lambda>i. read_then (read_vec 1 read_tree_context) (\<lambda>t.
    read_return (external_data.extend e \<lparr>private_tx_hash = h, tx_circuit = c, tx_proof = p, tx_inputs = i, tree_contexts = t\<rparr>)))))))"

definition write_transact_ix :: "transact_ix_data \<Rightarrow> bytes" where
  "write_transact_ix x = write_external_data (external_data.truncate x) @ private_tx_hash x @ write_circuit_id (tx_circuit x)
    @ write_transact_proof (tx_proof x) @ write_vec 1 write_input_utxo (tx_inputs x) @ write_vec 1 write_tree_context (tree_contexts x)"

definition transact_ix_ok :: "transact_ix_data \<Rightarrow> bool" where
  "transact_ix_ok x \<longleftrightarrow> external_data_ok (external_data.truncate x) \<and> bytes_ok 32 (private_tx_hash x) \<and> circuit_id_ok (tx_circuit x)
    \<and> transact_proof_ok (tx_proof x) \<and> vec_ok 1 input_utxo_ok (tx_inputs x) \<and> vec_ok 1 tree_context_ok (tree_contexts x)"

text \<open>
  The payload and the bytes before \<open>private_tx_hash\<close>, the first field outside the
  prefix.
\<close>

definition parse_with_external_data_prefix :: "bytes \<Rightarrow> (transact_ix_data \<times> bytes) option" where
  "parse_with_external_data_prefix data =
    Option.bind (try_from_slice read_transact_ix data) (\<lambda>ix.
    Option.bind (read_external_data data) (\<lambda>(_, rest).
      Some (ix, take (length data - length rest) data)))"

definition transact_serialize :: "transact_ix_data \<Rightarrow> bytes option" where
  "transact_serialize x =
    (case validate_interface_transfers (interface_transfers x) of Inl _ \<Rightarrow> None | Inr _ \<Rightarrow> Some (write_transact_ix x))"


section \<open>The external-data hash\<close>

definition MAX_EXTERNAL_DATA_HASH_SLICES :: nat where
  "MAX_EXTERNAL_DATA_HASH_SLICES = 2 + 2 * MAX_INTERFACE_TRANSFERS + MAX_OUTPUTS"

definition preimage_new :: "byte \<Rightarrow> bytes \<Rightarrow> bytes list" where
  "preimage_new discriminator prefix = [[discriminator], prefix]"

definition push_address :: "bytes list \<Rightarrow> address \<Rightarrow> (hasher_error, bytes list) result" where
  "push_address slices a =
    (if length slices < MAX_EXTERNAL_DATA_HASH_SLICES then Inr (slices @ [a])
     else Inl (InvalidInputLength MAX_EXTERNAL_DATA_HASH_SLICES (length slices + 1)))"

definition push_settlement :: "bytes list \<Rightarrow> address \<Rightarrow> address \<Rightarrow> (hasher_error, bytes list) result" where
  "push_settlement slices asset user = rbind (push_address slices asset) (\<lambda>s. push_address s user)"

definition push_owner_tag :: "bytes list \<Rightarrow> owner_tag \<Rightarrow> bytes \<Rightarrow> (hasher_error, bytes list) result" where
  "push_owner_tag slices tag resolved =
    (case tag of Inline _ \<Rightarrow> Inr slices | Account_Tag _ \<Rightarrow> push_address slices resolved)"

definition preimage_finish :: "hash_fn \<Rightarrow> bytes list \<Rightarrow> (hasher_error, bytes) result" where
  "preimage_finish sha slices = sha256be_hashv sha slices"


section \<open>Round trips\<close>

interpretation interface_transfer: codec read_interface_transfer write_interface_transfer interface_transfer_ok
proof
  fix t
  assume "interface_transfer_ok t"
  then show "reads read_interface_transfer (write_interface_transfer t) t"
    unfolding read_interface_transfer_def by (cases t) (auto simp: codec_limits intro!: codec_steps)
qed

interpretation owner_tag: codec read_owner_tag write_owner_tag owner_tag_ok
proof
  fix t
  assume "owner_tag_ok t"
  then show "reads read_owner_tag (write_owner_tag t) t"
    unfolding read_owner_tag_def by (cases t) (auto intro!: codec_steps)
qed

interpretation transact_output: codec read_transact_output write_transact_output transact_output_ok
  by unfold_locales
    (auto simp: read_transact_output_def write_transact_output_def transact_output_ok_def
      intro!: reads_then[OF reads_bytes] reads_then[OF owner_tag.law] reads_final[OF blob16.law_option])

interpretation message: codec read_message write_message message_ok
  by unfold_locales (auto simp: read_message_def write_message_def message_ok_def intro!: codec_steps)

interpretation transact_proof: codec read_transact_proof write_transact_proof transact_proof_ok
  by unfold_locales (auto simp: read_transact_proof_def write_transact_proof_def transact_proof_ok_def intro!: codec_steps)

interpretation input_utxo: codec read_input_utxo write_input_utxo input_utxo_ok
  by unfold_locales (auto simp: read_input_utxo_def write_input_utxo_def input_utxo_ok_def intro!: codec_steps)

interpretation tree_context: codec read_tree_context write_tree_context tree_context_ok
  by unfold_locales (auto simp: read_tree_context_def write_tree_context_def tree_context_ok_def codec_limits intro!: codec_steps)

interpretation external_data: codec read_external_data write_external_data external_data_ok
  by unfold_locales
    (auto simp: read_external_data_def write_external_data_def external_data_ok_def codec_limits
      intro!: reads_then[OF interface_transfer.law_vec] reads_then[OF bytes32.law_option] reads_then[OF transact_output.law_vec]
        reads_final[OF message.law_vec] codec_steps)

interpretation transact_ix: codec read_transact_ix write_transact_ix transact_ix_ok
  by unfold_locales
    (auto simp: read_transact_ix_def write_transact_ix_def transact_ix_ok_def external_data.defs
      intro!: reads_then[OF external_data.law, unfolded external_data.defs] reads_then[OF circuit_id.law]
        reads_then[OF transact_proof.law] reads_then[OF input_utxo.law_vec]
        reads_final[OF tree_context.law_vec] codec_steps)

lemma parse_written:
  assumes "transact_ix_ok x"
  shows "parse_with_external_data_prefix (write_transact_ix x) = Some (x, write_external_data (external_data.truncate x))"
proof -
  define e rest where "e = external_data.truncate x" and "rest = private_tx_hash x @ write_circuit_id (tx_circuit x)
    @ write_transact_proof (tx_proof x) @ write_vec 1 write_input_utxo (tx_inputs x) @ write_vec 1 write_tree_context (tree_contexts x)"
  have w: "write_transact_ix x = write_external_data e @ rest" by (simp add: write_transact_ix_def e_def rest_def)
  have "reads read_external_data (write_external_data e) e" using assms external_data.law by (simp add: transact_ix_ok_def e_def)
  then have "read_external_data (write_external_data e @ rest) = Some (e, rest)" by (simp add: reads_def)
  then show ?thesis using transact_ix.decode_encode[OF assms] by (simp add: parse_with_external_data_prefix_def w flip: e_def)
qed


section \<open>Declared input trees\<close>

lemma count_inputs_eq_Inr:
  assumes "declared \<le> length counts"
  shows "count_inputs declared counts is = Inr counts' \<longleftrightarrow>
    list_all (\<lambda>i. tree_index i < declared) is \<and> length counts' = length counts
    \<and> (\<forall>k < length counts. counts' ! k = counts ! k + length (filter (\<lambda>i. tree_index i = k) is))"
  using assms
proof (induction "is" arbitrary: counts)
  case Nil
  then show ?case by (auto simp: list_eq_iff_nth_eq)
next
  case (Cons i "is")
  then show ?case
    by (cases "tree_index i < declared") (auto simp: Cons.IH nth_list_update)
qed

lemma validate_contexts_eq_Inr:
  "validate_input_tree_contexts is cs = Inr counts \<longleftrightarrow>
     1 \<le> length cs \<and> length cs \<le> MAX_INPUT_TREES \<and> list_all (\<lambda>i. tree_index i < length cs) is
     \<and> (\<forall>k < length cs. \<exists>i \<in> set is. tree_index i = k)
     \<and> counts = map (\<lambda>k. length (filter (\<lambda>i. tree_index i = k) is)) [0..<MAX_INPUT_TREES]"
proof -
  have zero: "0 \<in> set (take n xs) \<longleftrightarrow> (\<exists>k < n. xs ! k = 0)" if "n \<le> length xs" for n and xs :: "nat list"
    using that by (auto simp: in_set_conv_nth)
  have eq: "length counts = MAX_INPUT_TREES \<and> (\<forall>k < MAX_INPUT_TREES. counts ! k = length (filter (\<lambda>i. tree_index i = k) is))
      \<longleftrightarrow> counts = map (\<lambda>k. length (filter (\<lambda>i. tree_index i = k) is)) [0..<MAX_INPUT_TREES]"
    by (auto simp: list_eq_iff_nth_eq)
  show ?thesis
  proof (cases "1 \<le> length cs \<and> length cs \<le> MAX_INPUT_TREES")
    case True
    then have "validate_input_tree_contexts is cs = Inr counts \<longleftrightarrow>
        count_inputs (length cs) (replicate MAX_INPUT_TREES 0) is = Inr counts \<and> 0 \<notin> set (take (length cs) counts)"
      by (auto simp: validate_input_tree_contexts_def Let_def result_simps)
    also have "\<dots> \<longleftrightarrow> list_all (\<lambda>i. tree_index i < length cs) is
        \<and> counts = map (\<lambda>k. length (filter (\<lambda>i. tree_index i = k) is)) [0..<MAX_INPUT_TREES]
        \<and> 0 \<notin> set (take (length cs) counts)"
      using True by (auto simp: count_inputs_eq_Inr eq[symmetric])
    also have "\<dots> \<longleftrightarrow> list_all (\<lambda>i. tree_index i < length cs) is
        \<and> counts = map (\<lambda>k. length (filter (\<lambda>i. tree_index i = k) is)) [0..<MAX_INPUT_TREES]
        \<and> (\<forall>k < length cs. \<exists>i \<in> set is. tree_index i = k)"
      using True by (auto simp: zero filter_empty_conv) blast
    finally show ?thesis using True by blast
  qed (auto simp: validate_input_tree_contexts_def Let_def result_simps not_le)
qed


section \<open>The preimage commits to everything\<close>

text \<open>
  The addresses appended after the prefix: two per interface transfer, then one
  per output whose owner tag names an account.
\<close>

definition committed_count :: "external_data \<Rightarrow> nat" where
  "committed_count x = 2 * length (interface_transfers x)
     + length (filter (\<lambda>u. \<exists>i. to_owner_tag u = Account_Tag i) (tx_outputs x))"

definition preimage_slices :: "byte \<Rightarrow> external_data \<Rightarrow> bytes list \<Rightarrow> bytes list" where
  "preimage_slices tag x addresses = preimage_new tag (write_external_data x) @ addresses"

lemma concat_same_length_inj:
  assumes "concat xs = concat ys" "length xs = length ys" "\<forall>x \<in> set xs. length x = n" "\<forall>y \<in> set ys. length y = n"
  shows "xs = ys"
proof (rule concat_injective[OF assms(1,2)], clarify)
  fix a b
  assume "(a, b) \<in> set (zip xs ys)"
  then have "a \<in> set xs" "b \<in> set ys" by (auto dest: set_zip_leftD set_zip_rightD)
  then show "length a = length b" using assms(3,4) by simp
qed

lemma preimage_injective:
  assumes ok: "external_data_ok x" "external_data_ok y"
    and counts: "length as = committed_count x" "length bs = committed_count y"
    and lens: "\<forall>a \<in> set as. length a = 32" "\<forall>b \<in> set bs. length b = 32"
    and eq: "concat (preimage_slices t x as) = concat (preimage_slices u y bs)"
  shows "t = u \<and> x = y \<and> as = bs"
proof -
  have h: "t = u" "write_external_data x @ concat as = write_external_data y @ concat bs"
    using eq by (simp_all add: preimage_slices_def preimage_new_def)
  from external_data.prefix_free[OF ok h(2)] have xy: "x = y" "concat as = concat bs" by simp_all
  then have "as = bs" using counts lens by (intro concat_same_length_inj[where n = 32]) simp_all
  then show ?thesis using h(1) xy(1) by simp
qed

end
