(* ===== verification/Settlement.thy ===== *)
theory Settlement
  imports Transact_Data
begin

text \<open>
  Public settlement, \<open>programs/shielded-pool/src/instructions/settlement\<close>: checking the
  accounts of a deposit or withdrawal and moving the lamports or tokens.  The
  token programs are external: unpacking their accounts, deriving an address for
  a given bump and calling into them are fields of \<open>token_runtime\<close>.  The lemmas
  show that settling moves exactly the stated amounts into and out of the
  custody accounts; for token deposits this holds whatever the token program
  does, because the balance is read back.
\<close>

definition SPL_TOKEN_PROGRAM_ID :: address where
  "SPL_TOKEN_PROGRAM_ID = [6, 221, 246, 225, 215, 101, 161, 147, 217, 203, 225, 70, 206, 235, 121, 172, 28, 180, 133, 237,
     95, 91, 55, 145, 58, 140, 245, 133, 126, 255, 0, 169]"

definition SPL_TOKEN_2022_PROGRAM_ID :: address where
  "SPL_TOKEN_2022_PROGRAM_ID = [6, 221, 246, 225, 238, 117, 143, 222, 24, 66, 93, 188, 228, 108, 205, 218, 182, 26, 252, 77,
     131, 185, 13, 39, 254, 189, 249, 40, 216, 161, 139, 252]"

definition SOL_INTERFACE :: address where
  "SOL_INTERFACE = [174, 9, 251, 185, 56, 68, 80, 105, 187, 159, 161, 65, 25, 120, 15, 51, 227, 171, 191, 213, 18, 39, 39, 20,
     57, 237, 147, 228, 185, 57, 125, 253]"

definition SOL_INTERFACE_BUMP :: nat where "SOL_INTERFACE_BUMP = 248"

definition SHIELDED_POOL_CPI_AUTHORITY :: address where
  "SHIELDED_POOL_CPI_AUTHORITY = [171, 251, 122, 72, 2, 39, 82, 91, 136, 185, 82, 1, 239, 236, 213, 162, 38, 77, 248, 238, 242,
     103, 137, 104, 67, 64, 244, 78, 118, 136, 230, 59]"

definition SHIELDED_POOL_CPI_AUTHORITY_BUMP :: nat where "SHIELDED_POOL_CPI_AUTHORITY_BUMP = 250"

definition SOL_INTERFACE_PDA_SEED :: bytes where
  "SOL_INTERFACE_PDA_SEED = [115, 111, 108, 95, 105, 110, 116, 101, 114, 102, 97, 99, 101]"

definition DEFAULT_SOL_INTERFACE_INDEX_SEED :: bytes where "DEFAULT_SOL_INTERFACE_INDEX_SEED = [0]"

definition SHIELDED_POOL_CPI_AUTHORITY_PDA_SEED :: bytes where
  "SHIELDED_POOL_CPI_AUTHORITY_PDA_SEED = [99, 112, 105, 95, 97, 117, 116, 104, 111, 114, 105, 116, 121]"

definition SPL_INTERFACE_PDA_SEED :: bytes where
  "SPL_INTERFACE_PDA_SEED = [115, 112, 108, 95, 97, 115, 115, 101, 116, 95, 118, 97, 117, 108, 116]"

definition SPL_TOKEN_ACCOUNT_INITIALIZED :: byte where "SPL_TOKEN_ACCOUNT_INITIALIZED = 1"

definition SPL_TOKEN_MINT_DECIMALS_OFFSET :: nat where "SPL_TOKEN_MINT_DECIMALS_OFFSET = 44"

text \<open>The token programs.  A transfer names its authority and, when the program signs, the seeds.\<close>

record token_account =
  tk_mint :: address
  tk_owner :: address
  tk_amount :: nat
  tk_state :: byte

record transfer_checked =
  tc_program :: address
  tc_from :: address
  tc_mint :: address
  tc_to :: address
  tc_authority :: address
  tc_amount :: nat
  tc_decimals :: byte
  tc_signer_seeds :: "bytes list option"

datatype token_instruction = Transfer_Checked transfer_checked | Initialize_Account3 address address address address

record token_runtime =
  unpack_token_account :: "account_data \<Rightarrow> token_account option"
  derive_address :: "bytes list \<Rightarrow> nat \<Rightarrow> address \<Rightarrow> address"
  token_cpi :: "token_instruction \<Rightarrow> ledger \<Rightarrow> ledger presult"


section \<open>Validation (validate.rs)\<close>

record validated_spl_settlement =
  vs_mint :: address
  vs_decimals :: byte
  vs_user_authority :: address

definition validate_token_program :: "address \<Rightarrow> unit presult" where
  "validate_token_program p =
    (if p = SPL_TOKEN_PROGRAM_ID \<or> p = SPL_TOKEN_2022_PROGRAM_ID then Inr () else Inl (pool_err InvalidSettlementAccounts))"

text \<open>The byte at the offset of a mint's decimals; in a tree region it lies in the count of open PDAs.\<close>

definition decimals_byte :: "account_data \<Rightarrow> byte option" where
  "decimals_byte d = (case d of
     Bytes bs \<Rightarrow> get bs SPL_TOKEN_MINT_DECIMALS_OFFSET
   | Tree_Data l \<Rightarrow> Some (to_le_bytes 8 (live_nullifier_pdas l) ! 4))"

definition read_token_mint :: "ledger \<Rightarrow> account_view \<Rightarrow> (address \<times> byte) presult" where
  "read_token_mint L mint =
    rbind (ok_or (decimals_byte (acc_data (L (address_of mint)))) (pool_err InvalidSettlementAccounts)) (\<lambda>decimals.
      Inr (address_of mint, decimals))"

definition validate_sol_settlement :: "ledger \<Rightarrow> account_view \<Rightarrow> account_view \<Rightarrow> nat presult" where
  "validate_sol_settlement L sol_interface recipient =
    (if address_of sol_interface \<noteq> SOL_INTERFACE \<or> \<not> is_writable sol_interface \<or> \<not> is_writable recipient
        \<or> \<not> owned_by L sol_interface system_program_id
     then Inl (pool_err InvalidSettlementAccounts) else Inr SOL_INTERFACE_BUMP)"

definition validate_cpi_authority :: "account_view \<Rightarrow> unit presult" where
  "validate_cpi_authority v =
    (if address_of v \<noteq> SHIELDED_POOL_CPI_AUTHORITY then Inl (pool_err InvalidSettlementAccounts) else Inr ())"

definition read_token_account :: "token_runtime \<Rightarrow> ledger \<Rightarrow> account_view \<Rightarrow> address \<Rightarrow> token_account presult" where
  "read_token_account T L v token_program =
    rbind (validate_token_program token_program) (\<lambda>_.
    if \<not> owned_by L v token_program then Inl (pool_err InvalidSettlementAccounts)
    else rbind (ok_or (unpack_token_account T (acc_data (L (address_of v)))) (pool_err InvalidSettlementAccounts)) (\<lambda>state.
      if tk_state state \<noteq> SPL_TOKEN_ACCOUNT_INITIALIZED then Inl (pool_err InvalidSettlementAccounts) else Inr state))"

definition validate_spl_settlement :: "runtime \<Rightarrow> token_runtime \<Rightarrow> ledger \<Rightarrow> account_view \<Rightarrow> account_view \<Rightarrow> account_view
    \<Rightarrow> account_view \<Rightarrow> nat \<Rightarrow> validated_spl_settlement presult" where
  "validate_spl_settlement R T L mint spl_interface sender token_program bump =
    (if \<not> is_writable spl_interface \<or> \<not> is_writable sender then Inl (pool_err InvalidSettlementAccounts)
     else
     rbind (read_token_account T L spl_interface (address_of token_program)) (\<lambda>interface_state.
     rbind (read_token_account T L sender (address_of token_program)) (\<lambda>sender_state.
     rbind (read_token_mint L mint) (\<lambda>(mint_key, decimals).
     if mint_key \<noteq> tk_mint interface_state \<or> tk_mint interface_state \<noteq> tk_mint sender_state
        \<or> tk_owner interface_state \<noteq> SHIELDED_POOL_CPI_AUTHORITY
     then Inl (pool_err InvalidSettlementAccounts)
     else if address_of spl_interface \<noteq>
         derive_address T [SPL_INTERFACE_PDA_SEED, tk_mint interface_state] bump (rt_program_id R)
     then Inl (pool_err InvalidSettlementAccounts)
     else Inr \<lparr>vs_mint = mint_key, vs_decimals = decimals, vs_user_authority = tk_owner sender_state\<rparr>))))"

definition validate_spl_deposit_settlement :: "runtime \<Rightarrow> token_runtime \<Rightarrow> ledger \<Rightarrow> account_view \<Rightarrow> account_view \<Rightarrow> account_view
    \<Rightarrow> account_view \<Rightarrow> nat \<Rightarrow> account_view \<Rightarrow> validated_spl_settlement presult" where
  "validate_spl_deposit_settlement R T L mint spl_interface user_token token_program bump authority =
    (if \<not> is_signer authority then Inl (pool_err SplTokenAuthorityMustSign)
     else rbind (validate_spl_settlement R T L mint spl_interface user_token token_program bump) (\<lambda>s.
       if vs_user_authority s \<noteq> address_of authority then Inl (pool_err InvalidSettlementAccounts) else Inr s))"

definition validate_spl_withdrawal_settlement :: "runtime \<Rightarrow> token_runtime \<Rightarrow> ledger \<Rightarrow> account_view \<Rightarrow> account_view \<Rightarrow> account_view
    \<Rightarrow> account_view \<Rightarrow> account_view \<Rightarrow> nat \<Rightarrow> validated_spl_settlement presult" where
  "validate_spl_withdrawal_settlement R T L cpi_authority mint spl_interface user_token token_program bump =
    rbind (validate_cpi_authority cpi_authority) (\<lambda>_.
      validate_spl_settlement R T L mint spl_interface user_token token_program bump)"


section \<open>Settlement accounts and transfers (account.rs, sol.rs, spl.rs, mod.rs)\<close>

record settlement_accounts_sol =
  sa_sol_interface :: account_view
  sa_sol_interface_bump :: nat
  sa_recipient :: account_view

record spl_deposit_accounts =
  sd_mint :: account_view
  sd_decimals :: byte
  sd_spl_interface :: account_view
  sd_token_authority :: account_view
  sd_user_token :: account_view
  sd_token_program :: account_view

record spl_withdrawal_accounts =
  sw_cpi_authority :: account_view
  sw_mint :: account_view
  sw_decimals :: byte
  sw_spl_interface :: account_view
  sw_user_token :: account_view
  sw_token_program :: account_view

datatype settlement =
    Settle_SolDeposit settlement_accounts_sol
  | Settle_SolWithdrawal settlement_accounts_sol
  | Settle_SplDeposit spl_deposit_accounts
  | Settle_SplWithdrawal spl_withdrawal_accounts

definition settle_sol :: "runtime \<Rightarrow> settlement_accounts_sol \<Rightarrow> nat \<Rightarrow> bool \<Rightarrow> ledger \<Rightarrow> ledger presult" where
  "settle_sol R s amount deposit L =
    (if deposit then system_cpi R (Transfer (address_of (sa_recipient s)) (address_of (sa_sol_interface s)) amount) L
     else system_cpi R (Transfer_Signed (address_of (sa_sol_interface s)) (address_of (sa_recipient s)) amount
       [SOL_INTERFACE_PDA_SEED, DEFAULT_SOL_INTERFACE_INDEX_SEED, [of_nat (sa_sol_interface_bump s)]]) L)"

definition token_account_amount :: "token_runtime \<Rightarrow> ledger \<Rightarrow> account_view \<Rightarrow> nat presult" where
  "token_account_amount T L v =
    rbind (ok_or (unpack_token_account T (acc_data (L (address_of v)))) (pool_err PublicSettlementFailed)) (\<lambda>s. Inr (tk_amount s))"

definition settle_spl_deposit :: "token_runtime \<Rightarrow> spl_deposit_accounts \<Rightarrow> nat \<Rightarrow> ledger \<Rightarrow> ledger presult" where
  "settle_spl_deposit T s amount L =
    rbind (token_account_amount T L (sd_spl_interface s)) (\<lambda>before.
    rbind (token_cpi T (Transfer_Checked \<lparr>tc_program = address_of (sd_token_program s), tc_from = address_of (sd_user_token s),
        tc_mint = address_of (sd_mint s), tc_to = address_of (sd_spl_interface s), tc_authority = address_of (sd_token_authority s),
        tc_amount = amount, tc_decimals = sd_decimals s, tc_signer_seeds = None\<rparr>) L) (\<lambda>L1.
    rbind (token_account_amount T L1 (sd_spl_interface s)) (\<lambda>after.
    rbind (ok_or (checked_add before amount) (pool_err PublicSettlementFailed)) (\<lambda>expected.
      if after \<noteq> expected then Inl (pool_err PublicSettlementFailed) else Inr L1))))"

definition settle_spl_withdrawal :: "token_runtime \<Rightarrow> spl_withdrawal_accounts \<Rightarrow> nat \<Rightarrow> ledger \<Rightarrow> ledger presult" where
  "settle_spl_withdrawal T s amount L =
    token_cpi T (Transfer_Checked \<lparr>tc_program = address_of (sw_token_program s), tc_from = address_of (sw_spl_interface s),
      tc_mint = address_of (sw_mint s), tc_to = address_of (sw_user_token s), tc_authority = address_of (sw_cpi_authority s),
      tc_amount = amount, tc_decimals = sw_decimals s,
      tc_signer_seeds = Some [SHIELDED_POOL_CPI_AUTHORITY_PDA_SEED, [of_nat SHIELDED_POOL_CPI_AUTHORITY_BUMP]]\<rparr>) L"

primrec settle :: "runtime \<Rightarrow> token_runtime \<Rightarrow> settlement \<Rightarrow> nat \<Rightarrow> ledger \<Rightarrow> ledger presult" where
  "settle R T (Settle_SolDeposit s) amount = settle_sol R s amount True"
| "settle R T (Settle_SolWithdrawal s) amount = settle_sol R s amount False"
| "settle R T (Settle_SplDeposit s) amount = settle_spl_deposit T s amount"
| "settle R T (Settle_SplWithdrawal s) amount = settle_spl_withdrawal T s amount"

primrec committed_accounts :: "settlement \<Rightarrow> address \<times> address" where
  "committed_accounts (Settle_SolDeposit s) = (address_of (sa_sol_interface s), address_of (sa_recipient s))"
| "committed_accounts (Settle_SolWithdrawal s) = (address_of (sa_sol_interface s), address_of (sa_recipient s))"
| "committed_accounts (Settle_SplDeposit s) = (address_of (sd_mint s), address_of (sd_user_token s))"
| "committed_accounts (Settle_SplWithdrawal s) = (address_of (sw_mint s), address_of (sw_user_token s))"

primrec settlement_is_deposit :: "settlement \<Rightarrow> bool" where
  "settlement_is_deposit (Settle_SolDeposit _) = True"
| "settlement_is_deposit (Settle_SolWithdrawal _) = False"
| "settlement_is_deposit (Settle_SplDeposit _) = True"
| "settlement_is_deposit (Settle_SplWithdrawal _) = False"

primrec spl_asset :: "settlement \<Rightarrow> address option" where
  "spl_asset (Settle_SolDeposit _) = None"
| "spl_asset (Settle_SolWithdrawal _) = None"
| "spl_asset (Settle_SplDeposit s) = Some (address_of (sd_mint s))"
| "spl_asset (Settle_SplWithdrawal s) = Some (address_of (sw_mint s))"

text \<open>\<open>transact/interface_transfer.rs\<close>.\<close>

fun settle_interface_transfers :: "runtime \<Rightarrow> token_runtime \<Rightarrow> interface_transfer list \<Rightarrow> settlement list \<Rightarrow> ledger \<Rightarrow> ledger presult" where
  "settle_interface_transfers R T (t # ts) (s # ss) L =
    (if is_deposit t \<noteq> settlement_is_deposit s then Inl (pool_err InvalidSettlementAccounts)
     else rbind (settle R T s (transfer_amount t) L) (settle_interface_transfers R T ts ss))"
| "settle_interface_transfers R T _ _ L = Inr L"


section \<open>Custody\<close>

text \<open>
  What settlement relies on outside the program.  A token program changes only
  accounts it owns.  The SOL custody account is a program-derived address, so it
  cannot be the source of a transfer the program does not sign for.
\<close>

definition token_ok :: "token_runtime \<Rightarrow> bool" where
  "token_ok T \<longleftrightarrow> (\<forall>c L L' a. token_cpi T (Transfer_Checked c) L = Inr L' \<longrightarrow> acc_owner (L a) \<noteq> tc_program c \<longrightarrow> L' a = L a)"

definition custody_ok :: "runtime \<Rightarrow> bool" where
  "custody_ok R \<longleftrightarrow> (\<forall>t n L L'. system_cpi R (Transfer SOL_INTERFACE t n) L \<noteq> Inr L')"

text \<open>The accounts a parsed settlement may name: SOL legs use the custody account, token legs a token program.\<close>

primrec settlement_checked :: "settlement \<Rightarrow> bool" where
  "settlement_checked (Settle_SolDeposit s) = (address_of (sa_sol_interface s) = SOL_INTERFACE)"
| "settlement_checked (Settle_SolWithdrawal s) = (address_of (sa_sol_interface s) = SOL_INTERFACE)"
| "settlement_checked (Settle_SplDeposit s) = (address_of (sd_token_program s) \<in> {SPL_TOKEN_PROGRAM_ID, SPL_TOKEN_2022_PROGRAM_ID})"
| "settlement_checked (Settle_SplWithdrawal s) = (address_of (sw_token_program s) \<in> {SPL_TOKEN_PROGRAM_ID, SPL_TOKEN_2022_PROGRAM_ID})"

definition signed_amount :: "interface_transfer \<Rightarrow> int" where
  "signed_amount t = (if is_deposit t then int (transfer_amount t) else - int (transfer_amount t))"

definition sol_net :: "interface_transfer list \<Rightarrow> settlement list \<Rightarrow> int" where
  "sol_net ts ss = (\<Sum>(t, s) \<leftarrow> zip ts ss. if spl_asset s = None then signed_amount t else 0)"

definition withdraws_to_custody :: "settlement \<Rightarrow> bool" where
  "withdraws_to_custody s = (case s of Settle_SolWithdrawal a \<Rightarrow> address_of (sa_recipient a) = SOL_INTERFACE | _ \<Rightarrow> False)"

lemma token_programs_differ: "SPL_TOKEN_PROGRAM_ID \<noteq> system_program_id" "SPL_TOKEN_2022_PROGRAM_ID \<noteq> system_program_id"
proof -
  have "hd SPL_TOKEN_PROGRAM_ID = 6" "hd SPL_TOKEN_2022_PROGRAM_ID = 6" "hd system_program_id = 0"
    by (simp_all add: SPL_TOKEN_PROGRAM_ID_def SPL_TOKEN_2022_PROGRAM_ID_def system_program_id_def zero32_def)
  then show "SPL_TOKEN_PROGRAM_ID \<noteq> system_program_id" "SPL_TOKEN_2022_PROGRAM_ID \<noteq> system_program_id" by auto
qed

lemma settle_spl_deposit_success:
  "settle_spl_deposit T s n L = Inr L' \<longleftrightarrow>
    (\<exists>b. token_account_amount T L (sd_spl_interface s) = Inr b \<and> u64_ok (b + n)
      \<and> token_cpi T (Transfer_Checked \<lparr>tc_program = address_of (sd_token_program s), tc_from = address_of (sd_user_token s),
          tc_mint = address_of (sd_mint s), tc_to = address_of (sd_spl_interface s), tc_authority = address_of (sd_token_authority s),
          tc_amount = n, tc_decimals = sd_decimals s, tc_signer_seeds = None\<rparr>) L = Inr L'
      \<and> token_account_amount T L' (sd_spl_interface s) = Inr (b + n))"
  by (auto simp: settle_spl_deposit_def result_simps checked_add_def split: if_splits)

lemma settle_custody:
  assumes ok: "system_ok R" "token_ok T" "custody_ok R" and s: "settlement_checked s"
    and L: "acc_owner (L SOL_INTERFACE) = system_program_id" and run: "settle R T s n L = Inr L'"
    and dir: "settlement_is_deposit s = is_deposit t" "transfer_amount t = n"
  shows "acc_owner (L' SOL_INTERFACE) = system_program_id"
    "int (lamports L' SOL_INTERFACE) \<ge> int (lamports L SOL_INTERFACE) + (if spl_asset s = None then signed_amount t else 0)"
    "\<not> withdraws_to_custody s \<Longrightarrow>
      int (lamports L' SOL_INTERFACE) = int (lamports L SOL_INTERFACE) + (if spl_asset s = None then signed_amount t else 0)"
proof -
  have "acc_owner (L' SOL_INTERFACE) = system_program_id
    \<and> int (lamports L' SOL_INTERFACE) \<ge> int (lamports L SOL_INTERFACE) + (if spl_asset s = None then signed_amount t else 0)
    \<and> (\<not> withdraws_to_custody s \<longrightarrow>
      int (lamports L' SOL_INTERFACE) = int (lamports L SOL_INTERFACE) + (if spl_asset s = None then signed_amount t else 0))"
  proof (cases s)
    case (Settle_SolDeposit a)
    let ?r = "address_of (sa_recipient a)"
    have cpi: "system_cpi R (Transfer ?r SOL_INTERFACE n) L = Inr L'"
      using run s Settle_SolDeposit by (simp add: settle_sol_def)
    then have "?r \<noteq> SOL_INTERFACE" using ok(3) by (auto simp: custody_ok_def)
    then show ?thesis
      using system_transfer[OF ok(1) cpi] Settle_SolDeposit L dir
      by (simp add: lamports_move_lamports signed_amount_def)
  next
    case (Settle_SolWithdrawal a)
    let ?r = "address_of (sa_recipient a)"
    have "n \<le> lamports L SOL_INTERFACE \<and> L' = move_lamports SOL_INTERFACE ?r n L"
      using run s Settle_SolWithdrawal system_transfer_signed[OF ok(1)] by (auto simp: settle_sol_def)
    then show ?thesis
      using Settle_SolWithdrawal L dir
      by (auto simp: lamports_move_lamports signed_amount_def withdraws_to_custody_def)
  next
    case (Settle_SplDeposit a)
    then have "L' SOL_INTERFACE = L SOL_INTERFACE"
      using run s ok(2) L token_programs_differ unfolding token_ok_def
      by (auto simp: settle_spl_deposit_success)
    then show ?thesis using Settle_SplDeposit L by (simp add: lamports_def)
  next
    case (Settle_SplWithdrawal a)
    then have "L' SOL_INTERFACE = L SOL_INTERFACE"
      using run s ok(2) L token_programs_differ unfolding token_ok_def
      by (auto simp: settle_spl_withdrawal_def)
    then show ?thesis using Settle_SplWithdrawal L by (simp add: lamports_def)
  qed
  then show "acc_owner (L' SOL_INTERFACE) = system_program_id"
    "int (lamports L' SOL_INTERFACE) \<ge> int (lamports L SOL_INTERFACE) + (if spl_asset s = None then signed_amount t else 0)"
    "\<not> withdraws_to_custody s \<Longrightarrow>
      int (lamports L' SOL_INTERFACE) = int (lamports L SOL_INTERFACE) + (if spl_asset s = None then signed_amount t else 0)"
    by blast+
qed

lemma settle_transfers_custody:
  assumes ok: "system_ok R" "token_ok T" "custody_ok R"
    and run: "settle_interface_transfers R T ts ss L = Inr L'" "list_all settlement_checked ss"
    and L: "acc_owner (L SOL_INTERFACE) = system_program_id"
  shows "int (lamports L' SOL_INTERFACE) \<ge> int (lamports L SOL_INTERFACE) + sol_net ts ss
    \<and> (list_all (\<lambda>s. \<not> withdraws_to_custody s) ss \<longrightarrow>
        int (lamports L' SOL_INTERFACE) = int (lamports L SOL_INTERFACE) + sol_net ts ss)"
  using run L ok
proof (induction R T ts ss L rule: settle_interface_transfers.induct)
  case (1 R T t ts s ss L)
  note ok = 1(5-7)
  obtain L1 where dir: "settlement_is_deposit s = is_deposit t" and L1: "settle R T s (transfer_amount t) L = Inr L1"
    and rest: "settle_interface_transfers R T ts ss L1 = Inr L'"
    using 1(2) by (auto simp: result_simps split: if_splits)
  note one = settle_custody[OF ok _ 1(4) L1 dir refl]
  show ?case
    using 1(1)[OF _ L1 rest _ _ ok] 1(3) one dir by (auto simp: sol_net_def)
qed (simp_all add: sol_net_def)

end
