(* ===== verification/Transact_Proof.thy ===== *)
theory Transact_Proof
  imports Settlement
begin

text \<open>
  The proof of a spend, \<open>programs/shielded-pool/src/instructions/transact/verify.rs\<close> and
  \<open>instructions/verifier.rs\<close>: collecting the values the public input commits to,
  hashing them in the order the circuits fix, and verifying the Groth16 proof.
  Poseidon, SHA-256, the Groth16 library and the field arithmetic of the pairing
  library are parameters.  The lemmas show that every value was assigned before
  it is hashed, that the fixed-size buffers never overflow, that the shortened
  signer chain is the padded one, and that public amounts are netted per asset
  without loss.
\<close>

unbundle bit_operations_syntax

abbreviation hash_err :: "(hasher_error, 'a) result \<Rightarrow> 'a presult" where
  "hash_err m \<equiv> map_err (\<lambda>e. Custom (hasher_error_code e)) m"

definition SOL_ASSET_FIELD :: bytes where
  "SOL_ASSET_FIELD = to_be_bytes 32 0x2098f5fb9e239eab3ceac3f27b81e481dc3124d55ffed523a839ee8446b64864"

definition MAX_OWNER_HASHES :: nat where "MAX_OWNER_HASHES = MAX_SIGNERS + MAX_OUTPUTS"


section \<open>Groth16 (verifier.rs)\<close>

text \<open>The proof library over keys \<open>'k\<close>: a proof may carry a commitment with its proof of knowledge.\<close>

record 'k proof_lib =
  pl_decompress_g1 :: "bytes \<Rightarrow> bytes option"
  pl_has_commitment :: "'k \<Rightarrow> bool"
  pl_new :: "bytes \<times> bytes \<times> bytes \<Rightarrow> (bytes \<times> bytes) option \<Rightarrow> bytes list \<Rightarrow> 'k \<Rightarrow> bool"
  pl_verify :: "bytes \<times> bytes \<times> bytes \<Rightarrow> (bytes \<times> bytes) option \<Rightarrow> bytes list \<Rightarrow> 'k \<Rightarrow> bool"

record groth16_proof =
  gp_a :: bytes
  gp_b :: bytes
  gp_c :: bytes
  gp_commitment :: "(bytes \<times> bytes) option"

definition verify_groth16 :: "'k proof_lib \<Rightarrow> groth16_proof \<Rightarrow> bytes \<Rightarrow> 'k \<Rightarrow> shielded_pool_error \<Rightarrow> shielded_pool_error \<Rightarrow> unit presult" where
  "verify_groth16 V p public_input vk encoding_err verify_err =
    rbind (ok_or (pl_decompress_g1 V (gp_a p)) (pool_err encoding_err)) (\<lambda>a.
    rbind (ok_or (pl_decompress_g1 V (gp_c p)) (pool_err encoding_err)) (\<lambda>c.
    case (gp_commitment p, pl_has_commitment V vk) of
      (Some (cm, pok), True) \<Rightarrow>
        rbind (ok_or (pl_decompress_g1 V cm) (pool_err encoding_err)) (\<lambda>d.
        rbind (ok_or (pl_decompress_g1 V pok) (pool_err encoding_err)) (\<lambda>k.
        rbind (ensure (pl_new V (a, gp_b p, c) (Some (d, k)) [public_input] vk) (pool_err verify_err)) (\<lambda>_.
          ensure (pl_verify V (a, gp_b p, c) (Some (d, k)) [public_input] vk) (pool_err verify_err))))
    | (None, False) \<Rightarrow>
        rbind (ensure (pl_new V (a, gp_b p, c) None [public_input] vk) (pool_err verify_err)) (\<lambda>_.
          ensure (pl_verify V (a, gp_b p, c) None [public_input] vk) (pool_err verify_err))
    | _ \<Rightarrow> Inl (pool_err verify_err)))"


section \<open>Owner identities\<close>

type_synonym owner_hash_cache = "(bytes \<times> bytes) list"

definition cache_entry :: "owner_hash_cache \<Rightarrow> bytes \<Rightarrow> (bytes \<times> bytes) option" where
  "cache_entry cache tag = find (\<lambda>e. fst e = tag) cache"

definition cache_insert :: "hash_fn \<Rightarrow> owner_hash_cache \<Rightarrow> bytes \<Rightarrow> (owner_hash_cache \<times> bytes) presult" where
  "cache_insert P cache tag =
    rbind (hash_err (solana_owner_identity P tag)) (\<lambda>h.
      if length cache < MAX_OWNER_HASHES then Inr (cache @ [(tag, h)], h) else Inl (pool_err InvalidTransactShape))"

definition output_owner_hash :: "hash_fn \<Rightarrow> owner_hash_cache \<Rightarrow> bytes \<Rightarrow> (owner_hash_cache \<times> bytes) presult" where
  "output_owner_hash P cache tag =
    (case cache_entry cache tag of Some e \<Rightarrow> Inr (cache, snd e) | None \<Rightarrow> cache_insert P cache tag)"

definition new_signer_hash :: "hash_fn \<Rightarrow> owner_hash_cache \<Rightarrow> address \<Rightarrow> (owner_hash_cache \<times> bytes option) presult" where
  "new_signer_hash P cache a =
    (case cache_entry cache a of
       Some _ \<Rightarrow> Inr (cache, None)
     | None \<Rightarrow> rbind (cache_insert P cache a) (\<lambda>(cache', h). Inr (cache', Some h)))"


section \<open>Collected values\<close>

definition ASSIGNED_OUTPUT_OWNERS :: byte where "ASSIGNED_OUTPUT_OWNERS = 1"
definition ASSIGNED_OWNER_SIGNERS :: byte where "ASSIGNED_OWNER_SIGNERS = 2"
definition ASSIGNED_PUBLIC_TRANSFERS :: byte where "ASSIGNED_PUBLIC_TRANSFERS = 4"
definition ASSIGNED_INPUT_TREES :: byte where "ASSIGNED_INPUT_TREES = 8"
definition ASSIGNED_EXTERNAL_DATA :: byte where "ASSIGNED_EXTERNAL_DATA = 16"
definition ASSIGNED_RING_PROGRAM :: byte where "ASSIGNED_RING_PROGRAM = 32"
definition ASSIGNED_OUTPUT_TREE :: byte where "ASSIGNED_OUTPUT_TREE = 64"
definition ASSIGNED_CACHED_INPUTS :: byte where "ASSIGNED_CACHED_INPUTS = 128"

definition ALL_ASSIGNMENTS :: byte where
  "ALL_ASSIGNMENTS = ASSIGNED_OUTPUT_OWNERS OR ASSIGNED_OWNER_SIGNERS OR ASSIGNED_PUBLIC_TRANSFERS OR ASSIGNED_INPUT_TREES
     OR ASSIGNED_EXTERNAL_DATA OR ASSIGNED_RING_PROGRAM OR ASSIGNED_OUTPUT_TREE OR ASSIGNED_CACHED_INPUTS"

record transact_proof_inputs =
  pi_tree_slots :: "tree_slot list"
  pi_output_tree_id :: bytes
  signer_pk_hashes :: "bytes list"
  output_owner_pk_hashes :: "bytes list"
  pi_external_data_hash :: bytes
  public_slot_assets :: "bytes list"
  public_slot_amounts :: "int list"
  pi_ring_program_id :: bytes
  pi_input_flags :: bytes
  unique_owner_signer_count :: nat
  assignments :: byte
  cached_inputs :: "bytes list option"

definition proof_inputs_new :: "circuit_id \<Rightarrow> transact_proof_inputs" where
  "proof_inputs_new c = \<lparr>pi_tree_slots = [], pi_output_tree_id = zero32, signer_pk_hashes = replicate MAX_SIGNERS zero32,
     output_owner_pk_hashes = replicate MAX_OUTPUTS zero32, pi_external_data_hash = zero32,
     public_slot_assets = replicate N_PUBLIC_SLOTS zero32, public_slot_amounts = replicate N_PUBLIC_SLOTS 0,
     pi_ring_program_id = zero32, pi_input_flags = zero32, unique_owner_signer_count = 0,
     assignments =
       (if (case circuit_cache_access c of None \<Rightarrow> True | Some a \<Rightarrow> read_bitmap a = 0) then ASSIGNED_CACHED_INPUTS else 0)
       OR (case uncached c of ConfidentialSigner _ _ _ \<Rightarrow> ASSIGNED_RING_PROGRAM | ConfidentialEddsa _ _ _ _ \<Rightarrow> ASSIGNED_RING_PROGRAM
           | _ \<Rightarrow> 0),
     cached_inputs = None\<rparr>"

definition assign_ring_program_id :: "bytes \<Rightarrow> transact_proof_inputs \<Rightarrow> transact_proof_inputs" where
  "assign_ring_program_id h d = d\<lparr>pi_ring_program_id := h, assignments := assignments d OR ASSIGNED_RING_PROGRAM\<rparr>"

definition assign_input_trees :: "tree_slot list \<Rightarrow> bytes \<Rightarrow> transact_proof_inputs \<Rightarrow> transact_proof_inputs" where
  "assign_input_trees slots flags d =
    d\<lparr>pi_tree_slots := slots, pi_input_flags := flags, assignments := assignments d OR ASSIGNED_INPUT_TREES\<rparr>"

definition assign_output_tree_id :: "nat \<Rightarrow> transact_proof_inputs \<Rightarrow> transact_proof_inputs" where
  "assign_output_tree_id tree_id d =
    d\<lparr>pi_output_tree_id := tree_id_field tree_id, assignments := assignments d OR ASSIGNED_OUTPUT_TREE\<rparr>"

definition assign_external_data_hash :: "bytes \<Rightarrow> transact_proof_inputs \<Rightarrow> transact_proof_inputs" where
  "assign_external_data_hash h d = d\<lparr>pi_external_data_hash := h, assignments := assignments d OR ASSIGNED_EXTERNAL_DATA\<rparr>"

definition assign_cached_inputs :: "hash_fn \<Rightarrow> circuit_id \<Rightarrow> cache_account \<Rightarrow> transact_proof_inputs \<Rightarrow> transact_proof_inputs presult" where
  "assign_cached_inputs P c cache d =
    rbind (ok_or (circuit_cache_access c) (pool_err InvalidCache)) (\<lambda>selection.
    if \<exists>(slot, h) \<in> set (enumerate 0 (utxo_hashes cache)). bit_set (read_bitmap selection) slot \<and> h = zero32
    then Inl (pool_err CacheSlotEmpty)
    else rbind (hash_err (cached_input_fields P (read_bitmap selection) (from_le_bytes (ca_tree_id cache))
                  (utxo_hashes cache) (num_inputs c))) (\<lambda>fields.
      Inr (d\<lparr>cached_inputs := Some fields, assignments := assignments d OR ASSIGNED_CACHED_INPUTS\<rparr>)))"

definition ensure_complete :: "transact_proof_inputs \<Rightarrow> unit presult" where
  "ensure_complete d = (if assignments d \<noteq> ALL_ASSIGNMENTS then Inl (pool_err InvalidTransactShape) else Inr ())"

text \<open>The signer loop: state is the owner cache, the hashes written so far and their number.\<close>

fun fill_signers :: "hash_fn \<Rightarrow> address list \<Rightarrow> owner_hash_cache \<Rightarrow> bytes list \<Rightarrow> nat \<Rightarrow> (owner_hash_cache \<times> bytes list \<times> nat) presult" where
  "fill_signers P [] cache hashes count = Inr (cache, hashes, count)"
| "fill_signers P (a # rest) cache hashes count =
    rbind (new_signer_hash P cache a) (\<lambda>(cache', new).
      case new of
        None \<Rightarrow> fill_signers P rest cache' hashes count
      | Some h \<Rightarrow>
          if length hashes \<le> count then Inl (pool_err InvalidTransactShape)
          else fill_signers P rest cache' (hashes[count := h]) (count + 1))"

definition fill_owner_signer_hashes :: "hash_fn \<Rightarrow> bool \<Rightarrow> address \<Rightarrow> address list \<Rightarrow> owner_hash_cache \<Rightarrow> transact_proof_inputs
    \<Rightarrow> (transact_proof_inputs \<times> owner_hash_cache) presult" where
  "fill_owner_signer_hashes P requires_signatures payer owner_signers cache d =
    (if cache \<noteq> [] then Inl (pool_err InvalidTransactShape)
     else rbind (fill_signers P (if requires_signatures then owner_signers else [payer]) cache (signer_pk_hashes d) 0)
       (\<lambda>(cache', hashes, count).
         if 255 < count then Inl (pool_err InvalidTransactShape)
         else Inr (d\<lparr>signer_pk_hashes := hashes, unique_owner_signer_count := count,
           assignments := assignments d OR ASSIGNED_OWNER_SIGNERS\<rparr>, cache')))"

text \<open>One loop serves both owner modes; \<open>committed\<close> selects the outputs whose owner is hashed.\<close>

fun fill_owners :: "hash_fn \<Rightarrow> (resolved_output \<Rightarrow> bool) \<Rightarrow> nat \<Rightarrow> resolved_output list \<Rightarrow> owner_hash_cache \<Rightarrow> bytes list
    \<Rightarrow> (owner_hash_cache \<times> bytes list) presult" where
  "fill_owners P committed index [] cache hashes = Inr (cache, hashes)"
| "fill_owners P committed index (out # rest) cache hashes =
    (if committed out
     then rbind (output_owner_hash P cache (ro_owner_tag out)) (\<lambda>(cache', h).
       if length hashes \<le> index then Inl Panicked
       else fill_owners P committed (index + 1) rest cache' (hashes[index := h]))
     else fill_owners P committed (index + 1) rest cache hashes)"

definition fill_output_owner_pk_hashes :: "hash_fn \<Rightarrow> output_owner_mode \<Rightarrow> resolved_output list \<Rightarrow> owner_hash_cache \<Rightarrow> transact_proof_inputs
    \<Rightarrow> (transact_proof_inputs \<times> owner_hash_cache) presult" where
  "fill_output_owner_pk_hashes P mode outputs cache d =
    (if MAX_OUTPUTS < length outputs then Inl (pool_err InvalidTransactShape)
     else rbind (case mode of
         Owner_None \<Rightarrow> Inr (cache, output_owner_pk_hashes d)
       | Owner_All \<Rightarrow> fill_owners P (\<lambda>_. True) 0 outputs cache (output_owner_pk_hashes d)
       | Owner_ConfidentialMarked \<Rightarrow>
           fill_owners P (\<lambda>x. case ro_data x of None \<Rightarrow> False | Some bs \<Rightarrow> is_confidential_encrypted_output bs) 0 outputs cache
             (output_owner_pk_hashes d)) (\<lambda>(cache', hashes).
       Inr (d\<lparr>output_owner_pk_hashes := hashes, assignments := assignments d OR ASSIGNED_OUTPUT_OWNERS\<rparr>, cache')))"


section \<open>Public amounts\<close>

definition i128_ok :: "int \<Rightarrow> bool" where "i128_ok i \<longleftrightarrow> - (2 ^ 127) \<le> i \<and> i < 2 ^ 127"

definition checked_slot_amount :: "int \<Rightarrow> int presult" where
  "checked_slot_amount net = (if u64_ok (nat \<bar>net\<bar>) then Inr net else Inl (pool_err PublicAssetAmountOverflow))"

definition slot_position :: "bytes list \<Rightarrow> bytes \<Rightarrow> nat option" where
  "slot_position assets a = (let i = length (takeWhile (\<lambda>x. x \<noteq> a) assets) in if i < length assets then Some i else None)"

fun assign_slots :: "hash_fn \<Rightarrow> nat \<Rightarrow> interface_transfer list \<Rightarrow> settlement list \<Rightarrow> bytes list \<Rightarrow> int list \<Rightarrow> nat
    \<Rightarrow> (bytes list \<times> int list \<times> nat) presult" where
  "assign_slots P num_slots (t # ts) (s # ss) assets amounts used =
    (let amount = signed_amount t in
     if amount = 0 \<or> is_deposit t \<noteq> settlement_is_deposit s then Inl (pool_err InvalidSettlementAccounts)
     else rbind (case spl_asset s of Some mint \<Rightarrow> hash_err (hash_bytes P mint) | None \<Rightarrow> Inr SOL_ASSET_FIELD) (\<lambda>asset.
       case slot_position (take used assets) asset of
         Some i \<Rightarrow>
           (if \<not> i128_ok (amounts ! i + amount) then Inl (pool_err PublicAssetAmountOverflow)
            else rbind (checked_slot_amount (amounts ! i + amount)) (\<lambda>net.
              assign_slots P num_slots ts ss assets (amounts[i := net]) used))
       | None \<Rightarrow>
           (if used = num_slots then Inl (pool_err TooManyPublicAssets)
            else rbind (checked_slot_amount amount) (\<lambda>net.
              assign_slots P num_slots ts ss (assets[used := asset]) (amounts[used := net]) (used + 1)))))"
| "assign_slots P num_slots _ _ assets amounts used = Inr (assets, amounts, used)"

definition assign_public_amounts_and_assets :: "hash_fn \<Rightarrow> interface_transfer list \<Rightarrow> settlement list \<Rightarrow> nat \<Rightarrow> transact_proof_inputs
    \<Rightarrow> transact_proof_inputs presult" where
  "assign_public_amounts_and_assets P transfers settlements num_slots d =
    (if length transfers \<noteq> length settlements \<or> N_PUBLIC_SLOTS < num_slots then Inl (pool_err InvalidTransactShape)
     else rbind (assign_slots P num_slots transfers settlements (public_slot_assets d) (public_slot_amounts d) 0)
       (\<lambda>(assets, amounts, used).
         if 0 \<in> set (take used amounts) then Inl (pool_err ZeroNetInterfaceTransferAmount)
         else Inr (d\<lparr>public_slot_assets := assets, public_slot_amounts := amounts,
           assignments := assignments d OR ASSIGNED_PUBLIC_TRANSFERS\<rparr>)))"

text \<open>
  \<open>fr_limbs negative m\<close>: the four little-endian 64-bit limbs of the scalar \<open>m\<close>, or of
  its additive inverse, from the external field library.
\<close>

type_synonym field_lib = "bool \<Rightarrow> nat \<Rightarrow> nat list"

definition field_lib_ok :: "field_lib \<Rightarrow> bool" where
  "field_lib_ok fr_limbs \<longleftrightarrow> (\<forall>neg m. u64_ok m \<longrightarrow>
     fr_limbs neg m = map (\<lambda>i. (if neg \<and> m \<noteq> 0 then bn254_modulus - m else m) div 2 ^ (64 * i) mod 2 ^ 64) [0..<4])"

definition amount_field :: "field_lib \<Rightarrow> int \<Rightarrow> bytes presult" where
  "amount_field fr_limbs amount =
    rbind (if u64_ok (nat \<bar>amount\<bar>) then Inr (nat \<bar>amount\<bar>) else Inl (pool_err PublicAssetAmountOverflow)) (\<lambda>magnitude.
      Inr (concat (map (to_be_bytes 8) (rev (fr_limbs (amount < 0) magnitude)))))"


section \<open>Signer chain\<close>

definition SIGNER_ZERO_SUFFIX_CHAINS :: "bytes list" where
  "SIGNER_ZERO_SUFFIX_CHAINS = map (to_be_bytes 32)
    [0,
     0x2098f5fb9e239eab3ceac3f27b81e481dc3124d55ffed523a839ee8446b64864,
     0x1530572d8faf83d47bb6400a96237d6e9d1db8f3ef40e8670888fb9d65380ac8,
     0x01cbcc842970c5b05d881e0f171822a7088ca3d11efd0aac745ee01303e13ee8,
     0x235f18006fbf4efcc6fdf3c32c8c5e913d2488ce1a06d986e9191cc9b06539a7,
     0x2bd89a7b00c5081812f1ddaf86331f3260787a325c8ae3ced9e4c7ee3fb59b6b,
     0x2a3d8e02bf0a4262e20d41c497c8f6c001f0a2c933bf13cf4c56632ea2600c9e,
     0x256ea2ccdbd9db3a90bb375d35825a6e10f64099830726e5754fb2f6abedeb49,
     0x19319f3dae9b251f799710967d1874ade7d4014bd8cd1e11e14dfcded1664e4d,
     0x015762931450d9ecf2aa6a99370db5d64c9b5062d3f26d6e6603bd45ff1ba2b6,
     0x28fa185f05ba7d366b9b6fb4790f8cc57cbf78a916cedd62e6e9756e6eaa11e2,
     0x20dfd401e43cbd144477826157606b1e97e144f81eee2cced0db90bb60f5ef9d,
     0x2c50eb61ffee84a9aedfa1c8ef70ada4ffe8f851df883bf305f10d3625f98505,
     0x2811f8c5b1187690a02c6044451e1532b5f20cbdd6392e1af2f7901efe614efb,
     0x13825e8d559c090f2ad04766c2b4a81e3c4e62cb785d8514f7c2a25c5793ab4e,
     0x2de9492f0f511e3da54f6a90cf5ed139a751e9b4cc735d37328ce8b01188f0cc,
     0x06c81a6f88da1a29091c960feb2bf67cd3903e8c433b123d3f48603644ef5f11,
     0x12b8fd8c9efa044662378dc95b636411683e3b656961d1557ad1de048e508018,
     0x21db751f759abd291a9ae51f77e182359f88518fa9b35b1f0f6c44c16952dd92,
     0x19c9ee3a9d027d02189418a31f70f69910d854992578467d2ec7341f6adaaeda,
     0x081e209a563c9d8c1922f956ad4c711fa70b332020cd65697ff02393ece32e3a,
     0x2f3b1090017b239c3411e3ce2f3b4be976edb14c451e1ba193721a93cb3104cf,
     0x1dd8f2c538ee091c3210fa473e58db85c6c204f35b8094b1924920f4d3dac1c8,
     0x1f63dce7f52752c1d54f14d65b714190eb9ec96817deaef9a41dc8a2e5ee669e,
     0x19553058d6df21ff0f785ebd5aaf6fb041a899782edea630cee4a2c6bbe581f9,
     0x2723a02b5d5cb820b75d2af2a5aead037d0a1925c72e2b33a0a7bba37c888953,
     0x10509bd896793017dfe2988bd4f299e1678d57c898155369f12a51a6080fc37b,
     0x301a0f5ffe0bb8a71129dcfdd94f14d53d49ea476b248f3e6883094a9e6c4325,
     0x1ab9fd70903c6563373e1d4155b6e8fc79089a1bcce7d7d3ee71d1e4ccae2c57]"

definition fixed_signer_hash_chain :: "hash_fn \<Rightarrow> bytes list \<Rightarrow> nat \<Rightarrow> bytes presult" where
  "fixed_signer_hash_chain P unique width =
    (let count = length unique in
     if width = 0 \<or> length SIGNER_ZERO_SUFFIX_CHAINS < width \<or> width < count then Inl (pool_err InvalidTransactShape)
     else rbind (if count = width then Inr (last unique, butlast unique)
                 else rbind (ok_or (Option.bind (Option.bind (checked_sub width count) (\<lambda>p. checked_sub p 1))
                                     (get SIGNER_ZERO_SUFFIX_CHAINS)) (pool_err InvalidTransactShape)) (\<lambda>suffix.
                   Inr (suffix, unique))) (\<lambda>(chain, prefix).
       try_fold (\<lambda>chain h. map_err (\<lambda>_. pool_err TransactProofVerificationFailed) (P [h, chain])) chain (rev prefix)))"


section \<open>The public input\<close>

definition FIELDS_CAPACITY :: nat where "FIELDS_CAPACITY = 20"

text \<open>\<open>get(..n)\<close> of a fixed-size array.\<close>

definition prefix_of :: "nat \<Rightarrow> 'a list \<Rightarrow> 'a list presult" where
  "prefix_of n xs = (if n \<le> length xs then Inr (take n xs) else Inl (pool_err InvalidTransactShape))"

definition collect_fields :: "hash_fn \<Rightarrow> hash_fn \<Rightarrow> field_lib \<Rightarrow> transact_ix_data \<Rightarrow> transact_proof_inputs \<Rightarrow> bytes list presult" where
  "collect_fields P sha fr_limbs ix d =
    (let c = tx_circuit ix; n_in = num_inputs c; n_out = num_outputs c; n_slots = num_public_asset_slots c;
         width = (if requires_input_signatures c then signer_width (shape_new n_in n_out) else 1) in
     rbind (prefix_of (unique_owner_signer_count d) (signer_pk_hashes d)) (\<lambda>signers.
     rbind (prefix_of n_out (output_owner_pk_hashes d)) (\<lambda>owners.
     rbind (prefix_of n_slots (public_slot_assets d)) (\<lambda>assets.
     rbind (prefix_of n_slots (public_slot_amounts d)) (\<lambda>amounts.
     rbind (hash_err (create_padded_right_hash_chain_4 P (map nullifier_hash (tx_inputs ix)) n_in)) (\<lambda>nullifier_chain.
     rbind (hash_err (create_padded_right_hash_chain_4 P (map to_utxo_hash (tx_outputs ix)) n_out)) (\<lambda>output_chain.
     rbind (hash_err (populated_tree_slots_hash_chain P (pi_tree_slots d))) (\<lambda>slots_chain.
     rbind (if has_message_hash c
            then rbind (map_err (\<lambda>_. pool_err TransactProofVerificationFailed)
                         (sha [private_tx_hash ix, pi_external_data_hash d])) (\<lambda>digest.
              rbind (hash_err (hash_bytes P digest)) (\<lambda>h. Inr [h]))
            else Inr []) (\<lambda>message.
     rbind (case eddsa_owner_pk c of
              Some pk \<Rightarrow> rbind (hash_err (solana_owner_identity P pk)) (\<lambda>h. Inr [h])
            | None \<Rightarrow> Inr []) (\<lambda>eddsa_owner.
     rbind (if is_anonymous c
            then (case default_owner_tag c of
                    Some tag \<Rightarrow> rbind (hash_err (solana_owner_identity P tag)) (\<lambda>h. Inr [h])
                  | None \<Rightarrow> Inr [zero32])
            else Inr []) (\<lambda>hidden_owner.
     rbind (traverse (\<lambda>(asset, amount). rbind (amount_field fr_limbs amount) (\<lambda>f. Inr [asset, f])) (zip assets amounts)) (\<lambda>slots.
     rbind (fixed_signer_hash_chain P signers width) (\<lambda>signer_chain.
     rbind (if circuit_output_owner_mode c \<noteq> Owner_None
            then rbind (hash_err (create_padded_right_hash_chain_4 P owners n_out)) (\<lambda>owner_chain.
              rbind (case cached_inputs d of Some fs \<Rightarrow> Inr fs | None \<Rightarrow> hash_err (empty_cached_input_fields n_in)) (\<lambda>cached.
                Inr (owner_chain # cached)))
            else Inr []) (\<lambda>owner_fields.
     Inr ([nullifier_chain, output_chain, slots_chain, pi_output_tree_id d, private_tx_hash ix] @ message @ eddsa_owner
           @ hidden_owner @ [pi_external_data_hash d] @ concat slots
           @ [pi_ring_program_id d, signer_chain, pi_input_flags d] @ owner_fields)))))))))))))))"

text \<open>The list is collected in a buffer of fixed capacity.\<close>

definition public_input_fields :: "hash_fn \<Rightarrow> hash_fn \<Rightarrow> field_lib \<Rightarrow> transact_ix_data \<Rightarrow> transact_proof_inputs \<Rightarrow> bytes list presult" where
  "public_input_fields P sha fr_limbs ix d =
    rbind (collect_fields P sha fr_limbs ix d) (\<lambda>fields. if FIELDS_CAPACITY < length fields then Inl Panicked else Inr fields)"

definition public_input_hash :: "hash_fn \<Rightarrow> hash_fn \<Rightarrow> field_lib \<Rightarrow> transact_ix_data \<Rightarrow> transact_proof_inputs \<Rightarrow> bytes presult" where
  "public_input_hash P sha fr_limbs ix d =
    rbind (public_input_fields P sha fr_limbs ix d) (\<lambda>fields. hash_err (create_hash_chain_4 P fields))"

type_synonym transact_key = "key_rail \<times> nat \<times> nat"

definition transact_verify :: "hash_fn \<Rightarrow> hash_fn \<Rightarrow> field_lib \<Rightarrow> transact_key proof_lib \<Rightarrow> transact_ix_data \<Rightarrow> transact_proof_inputs \<Rightarrow> unit presult" where
  "transact_verify P sha fr_limbs V ix d =
    rbind (public_input_hash P sha fr_limbs ix d) (\<lambda>public_input.
    rbind (ok_or (verifying_key_name (tx_circuit ix)) (pool_err InvalidTransactShape)) (\<lambda>vk.
      verify_groth16 V \<lparr>gp_a = tp_a (tx_proof ix), gp_b = tp_b (tx_proof ix), gp_c = tp_c (tx_proof ix),
          gp_commitment = map_option (\<lambda>b. (commitment b, commitment_pok b)) (circuit_bsb22_commitment (tx_circuit ix))\<rparr>
        public_input vk InvalidTransactProofEncoding TransactProofVerificationFailed))"


section \<open>Public amounts are netted per asset\<close>

definition asset_field :: "hash_fn \<Rightarrow> settlement \<Rightarrow> bytes presult" where
  "asset_field P s = (case spl_asset s of Some mint \<Rightarrow> hash_err (hash_bytes P mint) | None \<Rightarrow> Inr SOL_ASSET_FIELD)"

definition asset_net :: "hash_fn \<Rightarrow> bytes \<Rightarrow> interface_transfer list \<Rightarrow> settlement list \<Rightarrow> int" where
  "asset_net P a ts ss = (\<Sum>(t, s) \<leftarrow> zip ts ss. if asset_field P s = Inr a then signed_amount t else 0)"

text \<open>The amount the proof commits to for an asset.\<close>

definition committed_amount :: "bytes list \<Rightarrow> int list \<Rightarrow> bytes \<Rightarrow> int" where
  "committed_amount assets amounts a = (\<Sum>(b, n) \<leftarrow> zip assets amounts. if b = a then n else 0)"

lemma slot_position_Some:
  "slot_position xs a = Some i \<Longrightarrow> i < length xs \<and> xs ! i = a"
  unfolding slot_position_def Let_def
  by (auto split: if_splits) (metis (mono_tags, lifting) nth_length_takeWhile)

lemma slot_position_None: "slot_position xs a = None \<longleftrightarrow> a \<notin> set xs"
proof -
  have "length (takeWhile (\<lambda>x. x \<noteq> a) xs) < length xs \<longleftrightarrow> a \<in> set xs"
    by (induction xs) auto
  then show ?thesis by (auto simp: slot_position_def Let_def)
qed

lemma sum_list_update_int:
  "i < length xs \<Longrightarrow> sum_list (xs[i := v :: int]) = sum_list xs - xs ! i + v"
  by (induction xs arbitrary: i) (auto split: nat.splits)

lemma zip_update_snd: "i < length xs \<Longrightarrow> zip xs (ys[i := v]) = (zip xs ys)[i := (xs ! i, v)]"
  by (simp add: update_zip)

lemma committed_update:
  assumes "i < length assets" "length amounts = length assets"
  shows "committed_amount assets (amounts[i := n]) a =
    committed_amount assets amounts a + (if assets ! i = a then n - amounts ! i else 0)"
  using assms by (simp add: committed_amount_def zip_update_snd map_update sum_list_update_int)

lemma committed_update_asset:
  assumes "i < length assets" "length amounts = length assets" "amounts ! i = 0"
  shows "committed_amount (assets[i := b]) amounts a = committed_amount assets amounts a"
proof -
  have "zip (assets[i := b]) amounts = (zip assets amounts)[i := (b, amounts ! i)]"
    by (simp add: update_zip)
  then show ?thesis using assms by (simp add: committed_amount_def map_update sum_list_update_int)
qed

text \<open>Slots from \<open>used\<close> on are still free: their amount is zero.\<close>

lemma assign_slots_net:
  assumes run: "assign_slots P num_slots ts ss assets amounts used = Inr (assets', amounts', used')"
    and inv: "length amounts = length assets" "used \<le> num_slots" "num_slots \<le> length assets" "\<forall>i < length assets. used \<le> i \<longrightarrow> amounts ! i = 0"
    and len: "length ts = length ss"
  shows "committed_amount assets' amounts' a = committed_amount assets amounts a + asset_net P a ts ss
    \<and> length assets' = length assets \<and> length amounts' = length amounts \<and> used \<le> used' \<and> used' \<le> num_slots
    \<and> (\<forall>(t, s) \<in> set (zip ts ss). is_deposit t = settlement_is_deposit s \<and> (\<exists>b. asset_field P s = Inr b))"
  using run inv len
proof (induction P num_slots ts ss assets amounts used arbitrary: assets' amounts' used' rule: assign_slots.induct)
  case (1 P num_slots t ts s ss assets amounts used)
  let ?n = "signed_amount t"
  from 1(3) obtain asset where dir: "is_deposit t = settlement_is_deposit s" and asset: "asset_field P s = Inr asset"
    and rest: "(case slot_position (take used assets) asset of
         Some i \<Rightarrow> if \<not> i128_ok (amounts ! i + ?n) then Inl (pool_err PublicAssetAmountOverflow)
            else rbind (checked_slot_amount (amounts ! i + ?n)) (\<lambda>net. assign_slots P num_slots ts ss assets (amounts[i := net]) used)
       | None \<Rightarrow> if used = num_slots then Inl (pool_err TooManyPublicAssets)
            else rbind (checked_slot_amount ?n) (\<lambda>net. assign_slots P num_slots ts ss (assets[used := asset]) (amounts[used := net]) (used + 1)))
       = Inr (assets', amounts', used')"
    by (auto simp: asset_field_def Let_def result_simps split: if_splits)
  have net: "asset_net P a (t # ts) (s # ss) = (if asset = a then ?n else 0) + asset_net P a ts ss"
    by (simp add: asset_net_def asset)
  have asset': "(case spl_asset s of None \<Rightarrow> Inr SOL_ASSET_FIELD | Some mint \<Rightarrow> hash_err (hash_bytes P mint)) = Inr asset"
    using asset by (simp add: asset_field_def)
  have nz: "\<not> (?n = 0 \<or> is_deposit t \<noteq> settlement_is_deposit s)" using 1(3) by (auto simp: Let_def split: if_splits)
  show ?case
  proof (cases "slot_position (take used assets) asset")
    case (Some i)
    then have i: "i < used" "assets ! i = asset" using slot_position_Some[OF Some] by auto
    have ok: "i128_ok (amounts ! i + ?n)" and v: "checked_slot_amount (amounts ! i + ?n) = Inr (amounts ! i + ?n)"
      and step: "assign_slots P num_slots ts ss assets (amounts[i := amounts ! i + ?n]) used = Inr (assets', amounts', used')"
      using rest Some by (auto simp: result_simps checked_slot_amount_def split: if_splits)
    have "committed_amount assets' amounts' a = committed_amount assets (amounts[i := amounts ! i + ?n]) a + asset_net P a ts ss
      \<and> length assets' = length assets \<and> length amounts' = length (amounts[i := amounts ! i + ?n]) \<and> used \<le> used' \<and> used' \<le> num_slots
      \<and> (\<forall>(t, s) \<in> set (zip ts ss). is_deposit t = settlement_is_deposit s \<and> (\<exists>b. asset_field P s = Inr b))"
      using 1(2)[OF refl nz asset' Some _ v step] ok 1(4-8) i by (auto simp: nth_list_update)
    then show ?thesis using i 1(4-6) dir asset by (auto simp: committed_update net)
  next
    case None
    have lt: "used < num_slots" and v: "checked_slot_amount ?n = Inr ?n"
      and step: "assign_slots P num_slots ts ss (assets[used := asset]) (amounts[used := ?n]) (used + 1) = Inr (assets', amounts', used')"
      using rest None 1(5) by (auto simp: result_simps checked_slot_amount_def split: if_splits)
    have "committed_amount assets' amounts' a = committed_amount (assets[used := asset]) (amounts[used := ?n]) a + asset_net P a ts ss
      \<and> length assets' = length (assets[used := asset]) \<and> length amounts' = length (amounts[used := ?n]) \<and> used + 1 \<le> used' \<and> used' \<le> num_slots
      \<and> (\<forall>(t, s) \<in> set (zip ts ss). is_deposit t = settlement_is_deposit s \<and> (\<exists>b. asset_field P s = Inr b))"
      using 1(1)[OF refl nz asset' None _ v step] lt 1(4-8) by (auto simp: nth_list_update)
    then show ?thesis
      using lt 1(4-7) dir asset by (auto simp: committed_update committed_update_asset net)
  qed
qed (auto simp: asset_net_def)

text \<open>What the assignment leaves in a record whose slots were still free.\<close>

lemma committed_zero: "committed_amount (replicate n z) (replicate n 0) a = 0"
  by (induction n) (simp_all add: committed_amount_def)

lemma assign_public_amounts_success:
  assumes run: "assign_public_amounts_and_assets P ts ss n d = Inr d'"
    and free: "public_slot_assets d = replicate N_PUBLIC_SLOTS zero32" "public_slot_amounts d = replicate N_PUBLIC_SLOTS 0"
  shows "(\<forall>a. committed_amount (public_slot_assets d') (public_slot_amounts d') a = asset_net P a ts ss)
    \<and> length ts = length ss \<and> length (public_slot_assets d') = N_PUBLIC_SLOTS \<and> length (public_slot_amounts d') = N_PUBLIC_SLOTS
    \<and> (\<forall>(t, s) \<in> set (zip ts ss). is_deposit t = settlement_is_deposit s \<and> (\<exists>b. asset_field P s = Inr b))
    \<and> d' = d\<lparr>public_slot_assets := public_slot_assets d', public_slot_amounts := public_slot_amounts d',
        assignments := assignments d OR ASSIGNED_PUBLIC_TRANSFERS\<rparr>"
proof -
  obtain assets amounts used where r: "assign_slots P n ts ss (public_slot_assets d) (public_slot_amounts d) 0 = Inr (assets, amounts, used)"
    and len: "length ts = length ss" "n \<le> N_PUBLIC_SLOTS"
    and d': "d' = d\<lparr>public_slot_assets := assets, public_slot_amounts := amounts, assignments := assignments d OR ASSIGNED_PUBLIC_TRANSFERS\<rparr>"
    using run by (auto simp: assign_public_amounts_and_assets_def result_simps split: if_splits)
  note net = assign_slots_net[OF r _ _ _ _ len(1)]
  show ?thesis
    using net len d' free by (simp add: committed_zero)
qed

text \<open>
  The SOL part of the public amounts, when no mint hashes to the field that
  stands for SOL.
\<close>

lemma asset_net_sol:
  assumes "length ts = length ss" "\<forall>s \<in> set ss. spl_asset s \<noteq> None \<longrightarrow> asset_field P s \<noteq> Inr SOL_ASSET_FIELD"
  shows "asset_net P SOL_ASSET_FIELD ts ss = sol_net ts ss"
  using assms
  by (induction ts ss rule: list_induct2) (auto simp: asset_net_def sol_net_def asset_field_def split: option.splits)


section \<open>Signers\<close>

definition identity_of :: "hash_fn \<Rightarrow> bytes \<Rightarrow> bytes \<Rightarrow> bool" where
  "identity_of P a h \<longleftrightarrow> solana_owner_identity P a = Inr h"

definition owners_known :: "hash_fn \<Rightarrow> owner_hash_cache \<Rightarrow> bool" where
  "owners_known P cache \<longleftrightarrow> (\<forall>(a, h) \<in> set cache. identity_of P a h)"

lemma cache_entry_Some: "cache_entry cache a = Some e \<Longrightarrow> e \<in> set cache \<and> fst e = a"
  by (auto simp: cache_entry_def find_Some_iff)

lemma cache_entry_None: "cache_entry cache a = None \<longleftrightarrow> a \<notin> fst ` set cache"
  by (force simp: cache_entry_def find_None_iff)

lemma cache_insert_eq_Inr:
  "cache_insert P cache a = Inr (cache', h) \<longleftrightarrow>
    identity_of P a h \<and> length cache < MAX_OWNER_HASHES \<and> cache' = cache @ [(a, h)]"
  by (auto simp: cache_insert_def identity_of_def result_simps split: if_splits)

lemma fill_signers_success:
  assumes "fill_signers P as cache hashes count = Inr (cache', hashes', count')"
    and "owners_known P cache" "count \<le> length hashes" "set (take count hashes) = snd ` set cache"
  shows "owners_known P cache' \<and> length hashes' = length hashes \<and> count \<le> count' \<and> count' \<le> length hashes
    \<and> fst ` set cache' = fst ` set cache \<union> set as \<and> set (take count' hashes') = snd ` set cache'
    \<and> (\<forall>i < length hashes. count' \<le> i \<longrightarrow> hashes' ! i = hashes ! i)"
  using assms
proof (induction P as cache hashes count arbitrary: cache' hashes' count' rule: fill_signers.induct)
  case (2 P a as cache hashes count)
  show ?case
  proof (cases "cache_entry cache a")
    case (Some e)
    then have a: "insert a (fst ` set cache) = fst ` set cache" using cache_entry_Some[OF Some] by (intro insert_absorb) auto
    have new: "new_signer_hash P cache a = Inr (cache, None)" using Some by (simp add: new_signer_hash_def)
    then have "fill_signers P as cache hashes count = Inr (cache', hashes', count')" using 2(3) by simp
    from 2(1)[OF new refl refl this 2(4-6)] a show ?thesis by auto
  next
    case None
    then obtain h where h: "identity_of P a h" "new_signer_hash P cache a = Inr (cache @ [(a, h)], Some h)" "count < length hashes"
      and rest: "fill_signers P as (cache @ [(a, h)]) (hashes[count := h]) (count + 1) = Inr (cache', hashes', count')"
      using 2(3) by (auto simp: new_signer_hash_def result_simps cache_insert_eq_Inr not_le split: if_splits option.splits)
    have "set (take (count + 1) (hashes[count := h])) = snd ` set (cache @ [(a, h)])"
      using h(3) 2(6) by (simp add: take_Suc_conv_app_nth)
    then have "owners_known P cache' \<and> length hashes' = length (hashes[count := h]) \<and> count + 1 \<le> count' \<and> count' \<le> length (hashes[count := h])
      \<and> fst ` set cache' = fst ` set (cache @ [(a, h)]) \<union> set as \<and> set (take count' hashes') = snd ` set cache'
      \<and> (\<forall>i < length (hashes[count := h]). count' \<le> i \<longrightarrow> hashes' ! i = hashes[count := h] ! i)"
      using 2(2)[OF h(2) refl refl _ rest] 2(4) h(1,3) by (auto simp: owners_known_def)
    then show ?thesis by (auto simp: nth_list_update)
  qed
qed auto

text \<open>
  The signer vector holds exactly the identities of the accounts that authorise
  the spend; the rest stays zero.
\<close>

lemma fill_owner_signer_hashes_success:
  assumes run: "fill_owner_signer_hashes P req payer signers [] d = Inr (d', cache)"
    and free: "signer_pk_hashes d = replicate MAX_SIGNERS zero32"
  shows "(\<forall>h. h \<in> set (take (unique_owner_signer_count d') (signer_pk_hashes d'))
      \<longleftrightarrow> (\<exists>a \<in> (if req then set signers else {payer}). identity_of P a h))
    \<and> unique_owner_signer_count d' \<le> MAX_SIGNERS \<and> length (signer_pk_hashes d') = MAX_SIGNERS \<and> owners_known P cache
    \<and> d' = d\<lparr>signer_pk_hashes := signer_pk_hashes d', unique_owner_signer_count := unique_owner_signer_count d',
        assignments := assignments d OR ASSIGNED_OWNER_SIGNERS\<rparr>"
proof -
  obtain hashes count where r: "fill_signers P (if req then signers else [payer]) [] (signer_pk_hashes d) 0 = Inr (cache, hashes, count)"
    and d': "d' = d\<lparr>signer_pk_hashes := hashes, unique_owner_signer_count := count, assignments := assignments d OR ASSIGNED_OWNER_SIGNERS\<rparr>"
    using run by (auto simp: fill_owner_signer_hashes_def result_simps split: if_splits)
  have s: "owners_known P cache" "length hashes = length (signer_pk_hashes d)" "count \<le> length (signer_pk_hashes d)"
    "fst ` set cache = set (if req then signers else [payer])" "set (take count hashes) = snd ` set cache"
    using fill_signers_success[OF r] by (auto simp: owners_known_def)
  have "h \<in> snd ` set cache \<longleftrightarrow> (\<exists>a \<in> fst ` set cache. identity_of P a h)" for h
    using s(1) by (force simp: owners_known_def identity_of_def)
  then show ?thesis using s d' free by auto
qed


section \<open>The shortened signer chain\<close>

text \<open>The committed table holds the chains over zeros (Poseidon is a parameter).\<close>

definition signer_suffix_ok :: "hash_fn \<Rightarrow> bool" where
  "signer_suffix_ok P \<longleftrightarrow> (\<forall>k. Suc k < length SIGNER_ZERO_SUFFIX_CHAINS \<longrightarrow>
     P [zero32, SIGNER_ZERO_SUFFIX_CHAINS ! k] = Inr (SIGNER_ZERO_SUFFIX_CHAINS ! Suc k))"

lemma length_SIGNER_ZERO_SUFFIX_CHAINS: "length SIGNER_ZERO_SUFFIX_CHAINS = MAX_SIGNERS"
  by (simp add: SIGNER_ZERO_SUFFIX_CHAINS_def MAX_SIGNERS_def MAX_TRANSACTION_ADDRESSES_def FIXED_TRANSACT_ADDRESSES_def)

lemma SIGNER_ZERO_SUFFIX_CHAINS_0: "SIGNER_ZERO_SUFFIX_CHAINS ! 0 = zero32"
  by (simp add: SIGNER_ZERO_SUFFIX_CHAINS_def to_be_bytes_zero zero32_def)

lemma try_fold_map_err: "try_fold (\<lambda>s x. map_err g (f s x)) s xs = map_err g (try_fold f s xs)"
proof (induction xs arbitrary: s)
  case (Cons x xs)
  then show ?case by (cases "f s x") auto
qed simp

lemma signer_zero_fold:
  assumes "signer_suffix_ok P" "k < length SIGNER_ZERO_SUFFIX_CHAINS"
  shows "try_fold (\<lambda>h x. P [x, h]) zero32 (replicate k zero32) = Inr (SIGNER_ZERO_SUFFIX_CHAINS ! k)"
  using assms(2)
proof (induction k)
  case (Suc k)
  have "replicate (Suc k) z = replicate k z @ [z]" for z :: bytes by (simp add: replicate_append_same)
  then show ?case using Suc assms(1) by (simp add: try_fold_append signer_suffix_ok_def)
qed (simp add: SIGNER_ZERO_SUFFIX_CHAINS_0)

lemma signer_chain_is_padded_chain:
  assumes P: "signer_suffix_ok P"
  shows "fixed_signer_hash_chain P unique width =
    (if width = 0 \<or> MAX_SIGNERS < width \<or> width < length unique then Inl (pool_err InvalidTransactShape)
     else map_err (\<lambda>_. pool_err TransactProofVerificationFailed)
       (create_right_hash_chain_from_slice P (unique @ replicate (width - length unique) zero32)))"
proof (cases "width = 0 \<or> MAX_SIGNERS < width \<or> width < length unique")
  case False
  define m where "m = width - length unique"
  have w: "0 < width" "width \<le> MAX_SIGNERS" "length unique \<le> width" using False by auto
  show ?thesis
  proof (cases m)
    case 0
    then have "length unique = width" "unique \<noteq> []" using w unfolding m_def by auto
    then show ?thesis
      using False w
      by (simp add: fixed_signer_hash_chain_def Let_def length_SIGNER_ZERO_SUFFIX_CHAINS try_fold_map_err
          create_right_hash_chain_from_slice_def)
  next
    case (Suc k)
    then have k: "k < length SIGNER_ZERO_SUFFIX_CHAINS" using w unfolding m_def length_SIGNER_ZERO_SUFFIX_CHAINS by linarith
    have ne: "length unique \<noteq> width" using Suc unfolding m_def by auto
    have sub: "Option.bind (checked_sub width (length unique)) (\<lambda>p. checked_sub p 1) = Some k"
      using Suc w unfolding m_def by (simp add: checked_sub_def)
    have get: "get SIGNER_ZERO_SUFFIX_CHAINS k = Some (SIGNER_ZERO_SUFFIX_CHAINS ! k)" using k by (simp add: get_def)
    have "fixed_signer_hash_chain P unique width =
        map_err (\<lambda>_. pool_err TransactProofVerificationFailed) (try_fold (\<lambda>h x. P [x, h]) (SIGNER_ZERO_SUFFIX_CHAINS ! k) (rev unique))"
      using False ne sub get
      by (simp add: fixed_signer_hash_chain_def Let_def length_SIGNER_ZERO_SUFFIX_CHAINS try_fold_map_err)
    moreover have "create_right_hash_chain_from_slice P (unique @ replicate m zero32) =
        try_fold (\<lambda>h x. P [x, h]) (SIGNER_ZERO_SUFFIX_CHAINS ! k) (rev unique)"
    proof -
      have "replicate m zero32 = replicate k zero32 @ [zero32]" using Suc by (simp add: replicate_append_same)
      then show ?thesis
        using signer_zero_fold[OF P k] by (simp add: create_right_hash_chain_from_slice_def butlast_append try_fold_append)
    qed
    ultimately show ?thesis using False unfolding m_def by simp
  qed
qed (auto simp: fixed_signer_hash_chain_def Let_def length_SIGNER_ZERO_SUFFIX_CHAINS)


section \<open>The field list\<close>

definition slot_fields :: "field_lib \<Rightarrow> bytes list \<Rightarrow> int list \<Rightarrow> bytes list list presult" where
  "slot_fields fr_limbs assets amounts =
    traverse (\<lambda>(asset, amount). rbind (amount_field fr_limbs amount) (\<lambda>f. Inr [asset, f])) (zip assets amounts)"

lemma slot_fields_length:
  "slot_fields fr assets amounts = Inr slots \<Longrightarrow> length (concat slots) = 2 * min (length assets) (length amounts)"
proof (induction assets amounts arbitrary: slots rule: list_induct2')
  case (4 a as n ns)
  then show ?case by (auto simp: slot_fields_def result_simps)
qed (auto simp: slot_fields_def)

text \<open>The parts of the list, in order, and the values they come from.\<close>

lemma collect_fields_success:
  assumes "collect_fields P sha fr ix d = Inr fs"
  obtains nc oc sc msg ed hid slots sig own where
    "create_padded_right_hash_chain_4 P (map nullifier_hash (tx_inputs ix)) (num_inputs (tx_circuit ix)) = Inr nc"
    "create_padded_right_hash_chain_4 P (map to_utxo_hash (tx_outputs ix)) (num_outputs (tx_circuit ix)) = Inr oc"
    "populated_tree_slots_hash_chain P (pi_tree_slots d) = Inr sc"
    "length msg = (if has_message_hash (tx_circuit ix) then 1 else 0)"
    "length ed = (if eddsa_owner_pk (tx_circuit ix) = None then 0 else 1)"
    "length hid = (if is_anonymous (tx_circuit ix) then 1 else 0)"
    "slot_fields fr (take (num_public_asset_slots (tx_circuit ix)) (public_slot_assets d))
       (take (num_public_asset_slots (tx_circuit ix)) (public_slot_amounts d)) = Inr slots"
    "num_public_asset_slots (tx_circuit ix) \<le> length (public_slot_assets d)"
    "num_public_asset_slots (tx_circuit ix) \<le> length (public_slot_amounts d)"
    "fixed_signer_hash_chain P (take (unique_owner_signer_count d) (signer_pk_hashes d))
       (if requires_input_signatures (tx_circuit ix) then signer_width (shape_new (num_inputs (tx_circuit ix)) (num_outputs (tx_circuit ix))) else 1)
       = Inr sig"
    "circuit_output_owner_mode (tx_circuit ix) = Owner_None \<and> own = [] \<or> circuit_output_owner_mode (tx_circuit ix) \<noteq> Owner_None
       \<and> (\<exists>oo cached. own = oo # cached \<and> (cached_inputs d = Some cached
            \<or> cached_inputs d = None \<and> empty_cached_input_fields (num_inputs (tx_circuit ix)) = Inr cached))"
    "fs = [nc, oc, sc, pi_output_tree_id d, private_tx_hash ix] @ msg @ ed @ hid @ [pi_external_data_hash d] @ concat slots
       @ [pi_ring_program_id d, sig, pi_input_flags d] @ own"
  using assms unfolding collect_fields_def Let_def slot_fields_def
  apply (simp only: rbind_eq_Inr map_err_eq_Inr)
  apply (elim exE conjE)
  subgoal premises prems for signers owners assets amounts nc oc sc msg ed hid slots sig own
    by (rule prems(1)[of nc oc sc msg ed hid slots sig own])
      (use prems(2-) in \<open>auto simp: prefix_of_def result_simps split: if_splits option.splits\<close>)
  done

text \<open>
  The list has at most twenty entries, the capacity of the buffer the program
  collects it in, so pushing to it never panics.
\<close>

lemma no_panic_simps:
  "pool_err e \<noteq> Panicked" "Panicked \<noteq> pool_err e" "hash_err m \<noteq> Inl Panicked"
  "prefix_of n xs \<noteq> Inl Panicked" "amount_field fr a \<noteq> Inl Panicked"
  by (auto simp: pool_err_def result_simps prefix_of_def amount_field_def split: if_splits)

lemma slot_fields_no_panic: "slot_fields fr assets amounts \<noteq> Inl Panicked"
proof (induction assets amounts rule: list_induct2')
  case (4 a as n ns)
  then show ?case by (auto simp: slot_fields_def result_simps no_panic_simps)
qed (auto simp: slot_fields_def)

lemma signer_chain_no_panic: "fixed_signer_hash_chain P unique width \<noteq> Inl Panicked"
  by (auto simp: fixed_signer_hash_chain_def Let_def result_simps try_fold_map_err no_panic_simps split: if_splits)

lemma message_and_owner_fields:
  "length msg = (if has_message_hash c then 1 else 0) \<Longrightarrow> length ed = (if eddsa_owner_pk c = None then 0 else 1)
    \<Longrightarrow> length hid = (if is_anonymous c then 1 else 0) \<Longrightarrow> length msg + length ed + length hid \<le> 2"
  by (cases c) (auto simp: has_message_hash_def is_anonymous_def)

lemma length_empty_cached: "empty_cached_input_fields n = Inr xs \<Longrightarrow> length xs = 2"
  by (auto simp: empty_cached_input_fields_def Let_def result_simps)

lemma hash_err_no_panic': "map_err (\<lambda>_. pool_err e) m \<noteq> Inl Panicked"
  by (auto simp: result_simps pool_err_def)

lemma collect_fields_no_panic: "collect_fields P sha fr ix d \<noteq> Inl Panicked"
  unfolding collect_fields_def Let_def
  by (auto simp: result_simps no_panic_simps hash_err_no_panic' signer_chain_no_panic slot_fields_no_panic
      simp flip: slot_fields_def split: if_splits option.splits)

lemma collect_fields_bounded:
  assumes "collect_fields P sha fr ix d = Inr fs"
    and "num_public_asset_slots (tx_circuit ix) \<le> N_PUBLIC_SLOTS" "\<forall>fs. cached_inputs d = Some fs \<longrightarrow> length fs = 2"
  shows "length fs \<le> FIELDS_CAPACITY"
  using assms(1)
proof (cases rule: collect_fields_success)
  case (1 nc oc sc msg ed hid slots sig own)
  have "length (concat slots) \<le> 2 * N_PUBLIC_SLOTS" using slot_fields_length[OF 1(7)] assms(2) by simp
  moreover have "length own \<le> 3" using 1(11) assms(3) length_empty_cached by fastforce
  ultimately show ?thesis
    using message_and_owner_fields[OF 1(4-6)] 1(12) by (simp add: FIELDS_CAPACITY_def N_PUBLIC_SLOTS_def)
qed

lemma public_input_fields_eq_collect:
  assumes "num_public_asset_slots (tx_circuit ix) \<le> N_PUBLIC_SLOTS" "\<forall>fs. cached_inputs d = Some fs \<longrightarrow> length fs = 2"
  shows "public_input_fields P sha fr ix d = collect_fields P sha fr ix d"
  using collect_fields_bounded[OF _ assms, of P sha fr]
  by (cases "collect_fields P sha fr ix d") (auto simp: public_input_fields_def not_less)

end
