(* ===== verification/Ring_Config.thy ===== *)
theory Ring_Config
  imports Protocol_Config
begin

text \<open>
  Ring configs, \<open>programs/shielded-pool/src/instructions/ring_config\<close>.  A ring
  registers itself; governance activates it; the ring's own authority pauses it
  and can hand itself over.  The lemmas show that each flag has exactly one
  writer and that the binding to the ring's program never changes.
\<close>

definition RING_AUTH_PDA_SEED :: bytes where
  "RING_AUTH_PDA_SEED = [114, 105, 110, 103, 95, 97, 117, 116, 104]"

section \<open>Loaders (loader.rs)\<close>

definition load_ring_config :: "runtime \<Rightarrow> ledger \<Rightarrow> account_view \<Rightarrow> ring_config presult" where
  "load_ring_config R L v = load_config R ring_config_of InvalidRingConfig rc_has_discriminator L v"

definition load_ring_config_mut :: "runtime \<Rightarrow> ledger \<Rightarrow> account_view \<Rightarrow> ring_config presult" where
  "load_ring_config_mut R L v = load_config_mut R ring_config_of InvalidRingConfig rc_has_discriminator L v"

definition load_active_ring_config :: "runtime \<Rightarrow> ledger \<Rightarrow> account_view \<Rightarrow> ring_config presult" where
  "load_active_ring_config R L v =
    rbind (load_ring_config R L v) (\<lambda>c.
      if \<not> rc_is_activated c then Inl (pool_err RingNotActivated)
      else if rc_is_paused c then Inl (pool_err RingPaused)
      else Inr c)"

definition load_and_validate_ring_authority_mut :: "runtime \<Rightarrow> ledger \<Rightarrow> account_view \<Rightarrow> account_view \<Rightarrow> ring_config presult" where
  "load_and_validate_ring_authority_mut R L config_account authority =
    (if \<not> is_signer authority then Inl (pool_err InvalidRingConfig)
     else rbind (load_ring_config_mut R L config_account) (\<lambda>c.
       if \<not> rc_check_authority c (address_of authority) then Inl (pool_err UnauthorizedCaller) else Inr c))"


section \<open>Creation (create.rs, init.rs)\<close>

definition ring_config_init :: "address \<Rightarrow> address \<Rightarrow> bool \<Rightarrow> nat \<Rightarrow> address \<Rightarrow> ledger \<Rightarrow> ledger presult" where
  "ring_config_init authority program_id activated bump a L =
    (case acc_data (L a) of
       Tree_Data _ \<Rightarrow> Inl (pool_err InvalidRingConfig)
     | Bytes bs \<Rightarrow>
        if length bs \<noteq> RING_CONFIG_SIZE \<or> (\<exists>b \<in> set bs. b \<noteq> 0)
        then Inl (pool_err InvalidRingConfig)
        else Inr (set_data a (Bytes (ring_config_bytes
          \<lparr>rc_discriminator = RING_CONFIG, rc_authority = authority, rc_program_id = program_id,
           ring_authority_transact_is_enabled = 0, rc_paused = 0, rc_activated = bool_byte activated,
           rc_bump = of_nat bump\<rparr>)) L))"

text \<open>\<open>find_program_address\<close> aborts when no bump gives an address.\<close>

definition derive_ring_auth :: "runtime \<Rightarrow> address \<Rightarrow> (address \<times> nat) presult" where
  "derive_ring_auth R program_id = ok_or (derive_program_address R [RING_AUTH_PDA_SEED] program_id) Panicked"

definition process_create_ring_config :: "runtime \<Rightarrow> account_view list \<Rightarrow> bytes \<Rightarrow> ledger \<Rightarrow> ledger presult" where
  "process_create_ring_config R accounts payload L =
    rbind (ok_or (try_from_slice read_create_ring_config payload) (pool_err InvalidInstructionData)) (\<lambda>d.
    rbind (acct (next_signer (iter_new accounts))) (\<lambda>(payer, it).
    rbind (acct (next_account it)) (\<lambda>(config, it).
    rbind (acct (next_mut it)) (\<lambda>(ring, it).
    rbind (acct (next_account it)) (\<lambda>(system_program, it).
    if address_of system_program \<noteq> system_program_id then Inl IncorrectProgramId
    else if \<not> is_signer ring then Inl (pool_err InvalidRingConfig)
    else rbind (derive_ring_auth R (crc_program_id d)) (\<lambda>(expected, bump).
    if address_of ring \<noteq> expected then Inl (pool_err InvalidRingConfig)
    else rbind (load_protocol_config R L config) (\<lambda>c.
    rbind (map_err (\<lambda>_. pool_err InvalidRingConfig)
             (system_cpi R (Create_With_Minimum_Balance (address_of ring) RING_CONFIG_SIZE (rt_program_id R)
                (address_of payer) None) L)) (\<lambda>L1.
    ring_config_init (crc_authority d) (crc_program_id d) (allows_permissionless_ring_activation c) bump
      (address_of ring) L1))))))))"


section \<open>Updates (update.rs, update\_owner.rs, set\_activation.rs)\<close>

definition process_update_ring_config :: "runtime \<Rightarrow> account_view list \<Rightarrow> bytes \<Rightarrow> ledger \<Rightarrow> ledger presult" where
  "process_update_ring_config R accounts payload L =
    rbind (ok_or (try_from_slice read_update_ring_config payload) (pool_err InvalidInstructionData)) (\<lambda>paused.
    rbind (acct (next_signer (iter_new accounts))) (\<lambda>(authority, it).
    rbind (acct (next_mut it)) (\<lambda>(ring, it).
    rbind (load_and_validate_ring_authority_mut R L ring authority) (\<lambda>c.
    Inr (set_data (address_of ring) (Bytes (ring_config_bytes (c\<lparr>rc_paused := bool_byte paused\<rparr>))) L)))))"

definition check_incoming_authority :: "account_view \<Rightarrow> unit presult" where
  "check_incoming_authority new_authority =
    (if address_of new_authority \<noteq> zero32 then acct (check_signer new_authority) else Inr ())"

definition process_update_ring_config_owner :: "runtime \<Rightarrow> account_view list \<Rightarrow> bytes \<Rightarrow> ledger \<Rightarrow> ledger presult" where
  "process_update_ring_config_owner R accounts payload L =
    (if payload \<noteq> [] then Inl (pool_err InvalidInstructionData)
     else rbind (acct (next_signer (iter_new accounts))) (\<lambda>(authority, it).
     rbind (acct (next_mut it)) (\<lambda>(ring, it).
     rbind (acct (next_account it)) (\<lambda>(new_authority, it).
     rbind (check_incoming_authority new_authority) (\<lambda>_.
     rbind (load_and_validate_ring_authority_mut R L ring authority) (\<lambda>c.
     Inr (set_data (address_of ring) (Bytes (ring_config_bytes (c\<lparr>rc_authority := address_of new_authority\<rparr>))) L)))))))"

definition apply_activation :: "set_ring_activation_data \<Rightarrow> ring_config \<Rightarrow> ring_config" where
  "apply_activation d c =
    c\<lparr>rc_activated := bool_byte (sra_activated d \<noteq> 0),
      ring_authority_transact_is_enabled := bool_byte (sra_transact_is_enabled d \<noteq> 0)\<rparr>"

definition process_set_ring_activation :: "runtime \<Rightarrow> account_view list \<Rightarrow> bytes \<Rightarrow> ledger \<Rightarrow> ledger presult" where
  "process_set_ring_activation R accounts payload L =
    rbind (ok_or (set_ring_activation_of payload) (pool_err InvalidInstructionData)) (\<lambda>d.
    rbind (acct (next_signer (iter_new accounts))) (\<lambda>(authority, it).
    rbind (acct (next_account it)) (\<lambda>(config, it).
    rbind (acct (next_mut it)) (\<lambda>(ring, it).
    rbind (validate_ring_creation_authority R L config authority) (\<lambda>_.
    rbind (load_ring_config_mut R L ring) (\<lambda>c.
    Inr (set_data (address_of ring) (Bytes (ring_config_bytes (apply_activation d c))) L)))))))"


section \<open>Laws\<close>

definition ring_at :: "runtime \<Rightarrow> ledger \<Rightarrow> account_view \<Rightarrow> ring_config \<Rightarrow> bool" where
  "ring_at R L v c \<longleftrightarrow> acc_owner (L (address_of v)) = rt_program_id R
     \<and> acc_data (L (address_of v)) = Bytes (ring_config_bytes c) \<and> ring_config_wf c \<and> rc_discriminator c = RING_CONFIG"

lemma cast_ring_config: "ring_config_of bs = Some c \<longleftrightarrow> bs = ring_config_bytes c \<and> ring_config_wf c"
  using ring_config.dec_enc ring_config.enc_dec by blast

lemma load_ring_config_eq_Inr [account_simps]:
  "load_ring_config R L v = Inr c \<longleftrightarrow> ring_at R L v c"
  "load_ring_config_mut R L v = Inr c \<longleftrightarrow> is_writable v \<and> ring_at R L v c"
  by (auto simp: load_ring_config_def load_ring_config_mut_def account_simps ring_at_def owned_by_def
      cast_ring_config rc_has_discriminator_def)

lemma load_active_ring_config_eq_Inr [account_simps]:
  "load_active_ring_config R L v = Inr c \<longleftrightarrow> ring_at R L v c \<and> rc_is_activated c \<and> \<not> rc_is_paused c"
  by (auto simp: load_active_ring_config_def result_simps account_simps split: if_splits)

lemma ring_authority_eq_Inr [account_simps]:
  "load_and_validate_ring_authority_mut R L ring v = Inr c \<longleftrightarrow>
     is_signer v \<and> is_writable ring \<and> ring_at R L ring c \<and> rc_authority c = address_of v"
  by (auto simp: load_and_validate_ring_authority_mut_def result_simps account_simps rc_check_authority_def split: if_splits)

lemma ring_at_set_data:
  assumes "ring_at R L v c" "ring_config_wf c'" "rc_discriminator c' = RING_CONFIG"
  shows "ring_at R (set_data (address_of v) (Bytes (ring_config_bytes c')) L) v c'"
  using assms by (simp add: ring_at_def)

lemma update_ring_config_success:
  "process_update_ring_config R accounts payload L = Inr L' \<longleftrightarrow>
     (\<exists>paused authority ring rest c.
        try_from_slice read_update_ring_config payload = Some paused
        \<and> accounts = authority # ring # rest \<and> is_signer authority \<and> is_writable ring
        \<and> ring_at R L ring c \<and> rc_authority c = address_of authority
        \<and> L' = set_data (address_of ring) (Bytes (ring_config_bytes (c\<lparr>rc_paused := bool_byte paused\<rparr>))) L)"
  by (auto simp: process_update_ring_config_def result_simps account_simps)

lemma check_incoming_authority_eq_Inr [account_simps]:
  "check_incoming_authority v = Inr u \<longleftrightarrow> is_signer v \<or> address_of v = zero32"
  by (auto simp: check_incoming_authority_def result_simps account_simps)

lemma update_ring_config_owner_success:
  "process_update_ring_config_owner R accounts payload L = Inr L' \<longleftrightarrow>
     (\<exists>authority ring new rest c.
        payload = [] \<and> accounts = authority # ring # new # rest \<and> is_signer authority \<and> is_writable ring
        \<and> (is_signer new \<or> address_of new = zero32) \<and> ring_at R L ring c \<and> rc_authority c = address_of authority
        \<and> L' = set_data (address_of ring) (Bytes (ring_config_bytes (c\<lparr>rc_authority := address_of new\<rparr>))) L)"
  by (auto simp: process_update_ring_config_owner_def result_simps account_simps split: if_splits)

lemma set_ring_activation_success:
  "process_set_ring_activation R accounts payload L = Inr L' \<longleftrightarrow>
     (\<exists>d authority config ring rest c g.
        set_ring_activation_of payload = Some d
        \<and> accounts = authority # config # ring # rest \<and> is_signer authority \<and> is_writable ring
        \<and> config_at R L config c \<and> ring_creation_authority c = address_of authority \<and> ring_at R L ring g
        \<and> L' = set_data (address_of ring) (Bytes (ring_config_bytes (apply_activation d g))) L)"
  by (auto simp: process_set_ring_activation_def result_simps account_simps) blast


section \<open>Properties\<close>

datatype ring_op = Ring_update | Ring_update_owner | Ring_set_activation

fun run_ring_op :: "ring_op \<Rightarrow> runtime \<Rightarrow> account_view list \<Rightarrow> bytes \<Rightarrow> ledger \<Rightarrow> ledger presult" where
  "run_ring_op Ring_update = process_update_ring_config"
| "run_ring_op Ring_update_owner = process_update_ring_config_owner"
| "run_ring_op Ring_set_activation = process_set_ring_activation"

text \<open>The effect of one operation on the config of the ring it names.\<close>

definition ring_change :: "runtime \<Rightarrow> account_view list \<Rightarrow> ledger \<Rightarrow> ring_config \<Rightarrow> ring_config \<Rightarrow> bool" where
  "ring_change R accounts L g g' \<longleftrightarrow>
     rc_program_id g' = rc_program_id g \<and> rc_bump g' = rc_bump g
     \<and> (rc_paused g' = rc_paused g \<or> (\<exists>v \<in> set accounts. is_signer v \<and> address_of v = rc_authority g))
     \<and> (rc_authority g' = rc_authority g \<or>
          (\<exists>v \<in> set accounts. is_signer v \<and> address_of v = rc_authority g)
          \<and> (rc_authority g' = zero32 \<or> (\<exists>v \<in> set accounts. is_signer v \<and> address_of v = rc_authority g')))
     \<and> (rc_activated g' = rc_activated g \<and> ring_authority_transact_is_enabled g' = ring_authority_transact_is_enabled g \<or>
          rc_paused g' = rc_paused g \<and> rc_authority g' = rc_authority g \<and>
          (\<exists>v \<in> set accounts. \<exists>cfg c. is_signer v \<and> config_at R L cfg c \<and> address_of v = ring_creation_authority c))"

lemma ring_op_effect:
  assumes "ring \<in> set accounts" "ring_at R L ring g" "ring_config_wf g'" "rc_discriminator g' = RING_CONFIG"
    "ring_change R accounts L g g'" "L' = set_data (address_of ring) (Bytes (ring_config_bytes g')) L"
  shows "\<exists>ring g g'. ring \<in> set accounts \<and> ring_at R L ring g \<and> ring_at R L' ring g' \<and> ring_change R accounts L g g'
    \<and> (\<forall>a. a \<noteq> address_of ring \<longrightarrow> L' a = L a) \<and> (\<forall>a. lamports L' a = lamports L a)"
  using assms ring_at_set_data[OF assms(2-4)] set_data_other by (metis ledger_sel(6))

text \<open>
  C27.  Every ring flag has one writer.  Whichever ring operation succeeds, it
  changes one ring config and no lamports; the ring's program binding and bump
  never change; \<open>paused\<close> and the ring authority change only under the
  signature of the current ring authority (and a new authority signs too, unless
  control is burned); activation and the authority-transact rail change only
  under the signature of the protocol's ring-creation authority, which in turn
  can neither pause nor take over a ring.  (If the owner or pause state changes,
  the governance flags do not.)
\<close>
theorem ring_flags_have_one_writer:
  assumes "run_ring_op op R accounts payload L = Inr L'" and "\<forall>v \<in> set accounts. length (address_of v) = 32"
  shows "\<exists>ring g g'. ring \<in> set accounts \<and> ring_at R L ring g \<and> ring_at R L' ring g' \<and> ring_change R accounts L g g'
    \<and> (\<forall>a. a \<noteq> address_of ring \<longrightarrow> L' a = L a) \<and> (\<forall>a. lamports L' a = lamports L a)"
proof (cases op)
  case Ring_update
  then obtain paused authority ring rest c where
    a: "accounts = authority # ring # rest" "is_signer authority" "ring_at R L ring c" "rc_authority c = address_of authority"
      "L' = set_data (address_of ring) (Bytes (ring_config_bytes (c\<lparr>rc_paused := bool_byte paused\<rparr>))) L"
    using assms(1) by (auto simp: update_ring_config_success)
  show ?thesis
    by (rule ring_op_effect[OF _ a(3) _ _ _ a(5)]) (use a in \<open>auto simp: ring_change_def ring_at_def ring_config_wf_def\<close>)
next
  case Ring_update_owner
  then obtain authority ring new rest c where
    a: "accounts = authority # ring # new # rest" "is_signer authority" "is_signer new \<or> address_of new = zero32"
      "ring_at R L ring c" "rc_authority c = address_of authority"
      "L' = set_data (address_of ring) (Bytes (ring_config_bytes (c\<lparr>rc_authority := address_of new\<rparr>))) L"
    using assms(1) by (auto simp: update_ring_config_owner_success)
  have "length (address_of new) = 32" using assms(2) a(1) by simp
  show ?thesis
    by (rule ring_op_effect[OF _ a(4) _ _ _ a(6)])
      (use a \<open>length _ = 32\<close> in \<open>auto simp: ring_change_def ring_at_def ring_config_wf_def\<close>)
next
  case Ring_set_activation
  then obtain d authority config ring rest c g where
    a: "accounts = authority # config # ring # rest" "is_signer authority"
      "config_at R L config c" "ring_creation_authority c = address_of authority" "ring_at R L ring g"
      "L' = set_data (address_of ring) (Bytes (ring_config_bytes (apply_activation d g))) L"
    using assms(1) by (auto simp: set_ring_activation_success)
  have "\<exists>cfg c'. config_at R L cfg c' \<and> address_of authority = ring_creation_authority c'" using a(3,4) by metis
  then show ?thesis
    by (intro ring_op_effect[OF _ a(5) _ _ _ a(6)])
      (use a in \<open>auto simp: apply_activation_def ring_change_def ring_at_def ring_config_wf_def\<close>)
qed


definition demo_ring :: ring_config where
  "demo_ring = \<lparr>rc_discriminator = RING_CONFIG, rc_authority = demo_address 20, rc_program_id = demo_address 21,
     ring_authority_transact_is_enabled = 0, rc_paused = 0, rc_activated = 0, rc_bump = 255\<rparr>"

definition ring_ledger :: ledger where
  "ring_ledger = install (demo_address 12) (demo_address 100) (Bytes (ring_config_bytes demo_ring)) (demo_ledger demo_tree 0)"

lemma ring_ledger_at:
  "config_at demo_runtime ring_ledger (user_view 10) demo_config" "ring_at demo_runtime ring_ledger (user_view 12) demo_ring"
  using demo_config_at[of demo_tree 0]
  by (simp_all add: ring_ledger_def config_at_def ring_at_def demo_address_inj demo_runtime_def demo_ring_def ring_config_wf_def)

theorem ring_flags_have_one_writer_witness:
  "\<exists>L'. run_ring_op Ring_set_activation demo_runtime [user_view 4, user_view 10, user_view 12] [1, 0] ring_ledger = Inr L'
    \<and> (\<exists>ring g g'. ring \<in> set [user_view 4, user_view 10, user_view 12] \<and> ring_at demo_runtime L' ring g'
         \<and> ring_change demo_runtime [user_view 4, user_view 10, user_view 12] ring_ledger g g')"
proof -
  let ?d = "\<lparr>sra_activated = 1, sra_transact_is_enabled = 0\<rparr>"
  let ?L = "set_data (demo_address 12) (Bytes (ring_config_bytes (apply_activation ?d demo_ring))) ring_ledger"
  have run: "run_ring_op Ring_set_activation demo_runtime [user_view 4, user_view 10, user_view 12] [1, 0] ring_ledger = Inr ?L"
    unfolding run_ring_op.simps set_ring_activation_success
    by (rule exI[of _ ?d], rule exI[of _ "user_view 4"], rule exI[of _ "user_view 10"], rule exI[of _ "user_view 12"],
        rule exI[of _ "[]"], rule exI[of _ demo_config], rule exI[of _ demo_ring])
      (simp add: ring_ledger_at set_ring_activation_of_def)
  show ?thesis using run ring_flags_have_one_writer[OF run] by fastforce
qed

text \<open>
  C28.  Registering a ring is permissionless but gives it no power: creation needs
  the signature of the ring program's own \<open>ring_auth\<close> address and an unused
  account, stores the requested authority with the authority-transact rail off,
  and unless the protocol config allows permissionless activation every
  operational ring instruction is rejected with \<open>RingNotActivated\<close> until
  governance activates the ring.
\<close>
theorem created_ring_is_inert_until_activated:
  assumes "system_ok R" "process_create_ring_config R accounts payload L = Inr L'"
  shows "\<exists>ring config c g bump. ring \<in> set accounts \<and> is_signer ring \<and> config_at R L config c
    \<and> derive_program_address R [RING_AUTH_PDA_SEED] (rc_program_id g) = Some (address_of ring, bump)
    \<and> unused_account L (address_of ring) \<and> ring_at R L' ring g \<and> \<not> rc_enabled g \<and> \<not> rc_is_paused g
    \<and> rc_is_activated g = allows_permissionless_ring_activation c
    \<and> load_active_ring_config R L' ring =
        (if allows_permissionless_ring_activation c then Inr g else Inl (pool_err RingNotActivated))"
proof -
  obtain d payer config ring system rest expected bump c L1 where
    a: "try_from_slice read_create_ring_config payload = Some d" "accounts = payer # config # ring # system # rest"
      "is_signer ring" "derive_program_address R [RING_AUTH_PDA_SEED] (crc_program_id d) = Some (address_of ring, bump)"
      "config_at R L config c"
    and L1: "system_cpi R (Create_With_Minimum_Balance (address_of ring) RING_CONFIG_SIZE (rt_program_id R)
        (address_of payer) None) L = Inr L1"
      "ring_config_init (crc_authority d) (crc_program_id d) (allows_permissionless_ring_activation c) bump (address_of ring) L1 = Inr L'"
    using assms(2)
    by (auto simp: process_create_ring_config_def derive_ring_auth_def result_simps account_simps split: if_splits)
  let ?g = "\<lparr>rc_discriminator = RING_CONFIG, rc_authority = crc_authority d, rc_program_id = crc_program_id d,
     ring_authority_transact_is_enabled = 0, rc_paused = 0,
     rc_activated = bool_byte (allows_permissionless_ring_activation c), rc_bump = of_nat bump\<rparr>"
  have wf: "ring_config_wf ?g"
    using a(1) by (auto simp: try_from_slice_def read_create_ring_config_def read_then_def read_bytes_def read_return_def
        ring_config_wf_def split: option.splits prod.splits list.splits if_splits)
  have fresh: "unused_account L (address_of ring)"
    and zero: "acc_owner (L1 (address_of ring)) = rt_program_id R"
      "acc_data (L1 (address_of ring)) = Bytes (replicate RING_CONFIG_SIZE 0)"
    using system_create_with_minimum_balance[OF assms(1) L1(1)] by auto
  have "L' = set_data (address_of ring) (Bytes (ring_config_bytes ?g)) L1"
    using L1(2) zero(2) by (simp add: ring_config_init_def)
  then have at: "ring_at R L' ring ?g" using zero(1) wf by (simp add: ring_at_def)
  then have "load_ring_config R L' ring = Inr ?g" by (simp add: load_ring_config_eq_Inr)
  then have "load_active_ring_config R L' ring =
      (if allows_permissionless_ring_activation c then Inr ?g else Inl (pool_err RingNotActivated))"
    by (simp add: load_active_ring_config_def rc_is_activated_def rc_is_paused_def bool_byte_def)
  then show ?thesis
    by (rule_tac exI[of _ ring], rule_tac exI[of _ config], rule_tac exI[of _ c], rule_tac exI[of _ ?g], rule_tac exI[of _ bump])
      (use a at fresh in \<open>simp add: rc_enabled_def rc_is_paused_def rc_is_activated_def bool_byte_def\<close>)
qed

definition ring_pda_view :: account_view where
  "ring_pda_view = (user_view 0)\<lparr>address_of := take 32 (RING_AUTH_PDA_SEED @ replicate 32 7)\<rparr>"

lemma ring_pda_fresh: "address_of ring_pda_view \<noteq> demo_address n"
proof -
  have "hd (address_of ring_pda_view) = 114" by (simp add: ring_pda_view_def RING_AUTH_PDA_SEED_def)
  moreover have "hd (demo_address n) = 0" by (simp add: demo_address_def)
  ultimately show ?thesis by auto
qed

theorem created_ring_is_inert_until_activated_witness:
  "\<exists>L'. process_create_ring_config demo_runtime [user_view 6, user_view 10, ring_pda_view, program_view 0]
      (demo_address 21 @ demo_address 20) (demo_ledger demo_tree 0) = Inr L'
    \<and> (\<exists>ring g. ring \<in> set [user_view 6, user_view 10, ring_pda_view, program_view 0] \<and> ring_at demo_runtime L' ring g
         \<and> \<not> rc_enabled g)"
proof -
  let ?L = "demo_ledger demo_tree 0" and ?p = "demo_address 21 @ demo_address 20"
  have d: "try_from_slice read_create_ring_config ?p = Some \<lparr>crc_program_id = demo_address 21, crc_authority = demo_address 20\<rparr>"
    unfolding read_create_ring_config_def
    by (rule try_from_slice_reads, rule reads_then[OF reads_bytes reads_last[OF reads_bytes]]) simp_all
  have ids: "address_of (program_view 0) = system_program_id" "is_writable ring_pda_view" "is_signer ring_pda_view"
    by (simp_all add: program_view_def ring_pda_view_def demo_address_def system_program_id_def zero32_def
        replicate_append_same[symmetric] numeral_eq_Suc)
  have pda: "derive_program_address demo_runtime [RING_AUTH_PDA_SEED] p = Some (address_of ring_pda_view, 255)" for p
    by (simp add: demo_runtime_def demo_pda_def ring_pda_view_def)
  have "unused_account ?L (address_of ring_pda_view)" "lamports ?L (address_of ring_pda_view) = 1000000"
    using ring_pda_fresh by (simp_all add: unused_account_def lamports_def demo_ledger_def)
  then obtain L1 where cpi: "system_cpi demo_runtime (Create_With_Minimum_Balance (address_of ring_pda_view) RING_CONFIG_SIZE
      (rt_program_id demo_runtime) (demo_address 6) None) ?L = Inr L1"
    "acc_data (L1 (address_of ring_pda_view)) = Bytes (replicate RING_CONFIG_SIZE 0)"
    by (simp add: demo_runtime_def demo_rent_def RING_CONFIG_SIZE_def)
  have cfg: "load_protocol_config demo_runtime ?L (user_view 10) = Inr demo_config"
    using demo_config_at by (simp add: account_simps)
  obtain L' where run: "process_create_ring_config demo_runtime [user_view 6, user_view 10, ring_pda_view, program_view 0] ?p ?L = Inr L'"
    using d ids pda cpi cfg
    by (auto simp: process_create_ring_config_def derive_ring_auth_def next_signer_def next_mut_def next_checked_def
        next_account_def check_signer_def check_mut_def ring_config_init_def)
  show ?thesis using run created_ring_is_inert_until_activated[OF system_ok_demo run] by blast
qed

end
