(* ===== verification/Transact.thy ===== *)
theory Transact
  imports Transact_Proof Ring_Config
begin

text \<open>
  The three spend instructions -- \<open>transact\<close>, \<open>ring_transact\<close> and
  \<open>ring_authority_transact\<close> -- as the one handler of
  \<open>programs/shielded-pool/src/instructions/transact\<close>: the checks on the payload, the
  account list (\<open>account.rs\<close>), the cache (\<open>cache.rs\<close>), the input and output trees
  (\<open>tree.rs\<close>), the external-data hash and the order of all effects (\<open>processor.rs\<close>).
  The gate on circuits with an in-circuit signature is \<open>circuit_features.rs\<close> with
  \<open>program-libs/feature-gate\<close>.

  The lemmas show what a successful spend has done and checked: which effects it
  had on the trees and accounts, that a proof for exactly these effects was
  verified, and that the proof cannot be reused for another instruction.
\<close>

text \<open>
  What a spend takes from outside the sources: the hash functions, the field and
  proof libraries, the digests of the proving keys (a generated table and one
  constant per key) and the build feature.
\<close>

record spend_env =
  se_poseidon :: hash_fn
  se_sha :: hash_fn
  se_field :: field_lib
  se_proofs :: "transact_key proof_lib"
  se_key_table :: "(bytes \<times> bytes) list"
  se_proving_key :: "transact_key \<Rightarrow> bytes"
  se_confidential_eddsa :: bool


section \<open>Circuit features\<close>

record circuit_feature =
  cf_enabled :: bool
  cf_proving_key_sha256s :: "bytes list"

definition feature_allows :: "circuit_feature \<Rightarrow> bytes \<Rightarrow> bool" where
  "feature_allows f h \<longleftrightarrow> cf_enabled f \<and> h \<in> set (cf_proving_key_sha256s f)"

definition starts_with :: "bytes \<Rightarrow> bytes \<Rightarrow> bool" where
  "starts_with bs prefix = (take (length prefix) bs = prefix)"

text \<open>Evaluated at compile time: \<open>None\<close> is a build that fails.\<close>

definition hashes_with_prefix :: "nat \<Rightarrow> (bytes \<times> bytes) list \<Rightarrow> bytes \<Rightarrow> bytes list option" where
  "hashes_with_prefix n keys prefix =
    (let selected = map snd (filter (\<lambda>(name, _). starts_with name prefix) keys) in
     if length selected = n then Some selected else None)"

text \<open>\<open>transfer_confidential_eddsa_\<close>.\<close>

definition EDDSA_KEY_PREFIX :: bytes where
  "EDDSA_KEY_PREFIX = [116, 114, 97, 110, 115, 102, 101, 114, 95, 99, 111, 110, 102, 105, 100, 101, 110, 116, 105, 97, 108, 95,
     101, 100, 100, 115, 97, 95]"

definition CONFIDENTIAL_EDDSA :: "spend_env \<Rightarrow> circuit_feature option" where
  "CONFIDENTIAL_EDDSA S =
    map_option (\<lambda>keys. \<lparr>cf_enabled = se_confidential_eddsa S, cf_proving_key_sha256s = keys\<rparr>)
      (hashes_with_prefix (length CONFIDENTIAL_EDDSA_SHAPES) (se_key_table S) EDDSA_KEY_PREFIX)"

definition proving_key_sha256 :: "spend_env \<Rightarrow> circuit_id \<Rightarrow> bytes option" where
  "proving_key_sha256 S c = map_option (se_proving_key S) (circuit_key_item (uncached c))"

definition circuit_enabled :: "spend_env \<Rightarrow> circuit_id \<Rightarrow> bool" where
  "circuit_enabled S c =
    (case eddsa_owner_pk c of
       None \<Rightarrow> True
     | Some _ \<Rightarrow> (case (proving_key_sha256 S c, CONFIDENTIAL_EDDSA S) of (Some h, Some f) \<Rightarrow> feature_allows f h | _ \<Rightarrow> False))"


section \<open>Checks on the payload (processor.rs)\<close>

definition validate_cache_selection :: "transact_ix_data \<Rightarrow> unit presult" where
  "validate_cache_selection ix =
    (case circuit_cache_access (tx_circuit ix) of
       Some selection \<Rightarrow>
         if \<not> cache_access_valid selection (length (tx_inputs ix)) (length (tx_outputs ix)) then Inl (pool_err InvalidCacheBitmap)
         else Inr ()
     | None \<Rightarrow> Inr ())"

definition circuit_matches :: "instruction_tag \<Rightarrow> circuit_id \<Rightarrow> bool" where
  "circuit_matches tag c =
    (case tag of
       Transact \<Rightarrow> (case uncached c of ConfidentialSigner _ _ _ \<Rightarrow> True | ConfidentialEddsa _ _ _ _ \<Rightarrow> True | _ \<Rightarrow> False)
     | RingTransact \<Rightarrow> (case uncached c of ConfidentialRingEddsa _ _ _ \<Rightarrow> True | AnonymousRingEddsa _ _ _ _ \<Rightarrow> True | _ \<Rightarrow> False)
     | RingAuthorityTransact \<Rightarrow> is_authority c
     | _ \<Rightarrow> False)"

definition validate_circuit_type :: "spend_env \<Rightarrow> transact_ix_data \<Rightarrow> instruction_tag \<Rightarrow> unit presult" where
  "validate_circuit_type S ix tag =
    (let c = tx_circuit ix; nullifiers = map nullifier_hash (tx_inputs ix); hashes = map to_utxo_hash (tx_outputs ix) in
     if \<not> circuit_matches tag c then Inl (pool_err MismatchedCircuitType)
     else if tx_inputs ix = [] \<or> num_inputs c < length (tx_inputs ix) \<or> num_outputs c < length (tx_outputs ix)
       \<or> N_PUBLIC_SLOTS < num_public_asset_slots c \<or> \<not> circuit_is_supported c
     then Inl (pool_err InvalidTransactShape)
     else if \<not> circuit_enabled S c then Inl (pool_err CircuitFeatureDisabled)
     else rbind (check_field_elements nullifiers NonCanonicalInputNullifier) (\<lambda>_.
     rbind (check_field_elements hashes NonCanonicalOutputUtxoHash) (\<lambda>_.
     rbind (check_nonzero_field_elements nullifiers ZeroInputNullifier) (\<lambda>_.
     rbind (check_nonzero_field_elements hashes ZeroOutputUtxoHash) (\<lambda>_.
     rbind (check_field_element (private_tx_hash ix) NonCanonicalPrivateTxHash) (\<lambda>_.
       validate_cache_selection ix))))))"

fun resolve_outputs_loop :: "account_view list \<Rightarrow> transact_output list \<Rightarrow> resolved_output list \<Rightarrow> resolved_output list presult" where
  "resolve_outputs_loop accounts [] acc = Inr acc"
| "resolve_outputs_loop accounts (output # rest) acc =
    rbind (map_err pool_err (into_resolved output (\<lambda>i. map_option address_of (get accounts i)))) (\<lambda>r.
      if length acc < MAX_OUTPUTS then resolve_outputs_loop accounts rest (acc @ [r])
      else Inl (pool_err InvalidTransactShape))"

definition resolve_outputs :: "account_view list \<Rightarrow> transact_ix_data \<Rightarrow> resolved_output list presult" where
  "resolve_outputs accounts ix = resolve_outputs_loop accounts (tx_outputs ix) []"


section \<open>Accounts (account.rs)\<close>

record transact_cache_accounts =
  tc_read_cache :: "account_view option"
  tc_write_cache :: "(account_view \<times> account_view) option"

record transact_accounts =
  tx_payer :: account_view
  tx_input_trees :: "account_view list"
  tx_output_tree :: account_view
  tx_nullifier_pdas :: "account_view list"
  tx_owner_signers :: "account_view list"
  tx_settlements :: "settlement list"
  tx_cache :: "transact_cache_accounts option"

definition validate_program_prefix :: "runtime \<Rightarrow> account_iterator \<Rightarrow> account_iterator presult" where
  "validate_program_prefix R it =
    rbind (acct (next_account it)) (\<lambda>(pool, it).
    if address_of pool \<noteq> rt_program_id R then Inl IncorrectProgramId
    else rbind (acct (next_account it)) (\<lambda>(system, it).
      if address_of system \<noteq> system_program_id then Inl (pool_err InvalidSystemProgram) else Inr it))"

fun parse_input_trees :: "nat \<Rightarrow> account_view list \<Rightarrow> account_iterator \<Rightarrow> (account_view list \<times> account_iterator) presult" where
  "parse_input_trees 0 trees it = Inr (trees, it)"
| "parse_input_trees (Suc n) trees it =
    rbind (acct (next_mut it)) (\<lambda>(tree, it).
      if \<exists>t \<in> set trees. address_of t = address_of tree then Inl (pool_err DuplicateInputTree)
      else if length trees < INPUT_TREES then parse_input_trees n (trees @ [tree]) it
      else Inl (pool_err InvalidTreeContextCount))"

fun parse_nullifier_pdas :: "nat \<Rightarrow> account_view list \<Rightarrow> account_iterator \<Rightarrow> (account_view list \<times> account_iterator) presult" where
  "parse_nullifier_pdas 0 pdas it = Inr (pdas, it)"
| "parse_nullifier_pdas (Suc n) pdas it =
    rbind (acct (next_mut it)) (\<lambda>(pda, it).
      if length pdas < MAX_TRANSACT_INPUTS then parse_nullifier_pdas n (pdas @ [pda]) it
      else Inl (pool_err InvalidTransactShape))"

definition parse_settlement :: "runtime \<Rightarrow> token_runtime \<Rightarrow> ledger \<Rightarrow> interface_transfer \<Rightarrow> account_iterator
    \<Rightarrow> (settlement \<times> account_iterator) presult" where
  "parse_settlement R T L transfer it =
    (case transfer of
       SplDeposit _ bump \<Rightarrow>
         rbind (acct (next_account it)) (\<lambda>(mint, it).
         rbind (acct (next_account it)) (\<lambda>(vault, it).
         rbind (acct (next_account it)) (\<lambda>(authority, it).
         rbind (acct (next_account it)) (\<lambda>(user, it).
         rbind (acct (next_account it)) (\<lambda>(program, it).
         rbind (validate_spl_deposit_settlement R T L mint vault user program bump authority) (\<lambda>v.
           Inr (Settle_SplDeposit \<lparr>sd_mint = mint, sd_decimals = vs_decimals v, sd_spl_interface = vault, sd_token_authority = authority,
             sd_user_token = user, sd_token_program = program\<rparr>, it)))))))
     | SplWithdrawal _ bump \<Rightarrow>
         rbind (acct (next_non_mut it)) (\<lambda>(authority, it).
         rbind (acct (next_account it)) (\<lambda>(mint, it).
         rbind (acct (next_account it)) (\<lambda>(vault, it).
         rbind (acct (next_account it)) (\<lambda>(user, it).
         rbind (acct (next_account it)) (\<lambda>(program, it).
         rbind (validate_spl_withdrawal_settlement R T L authority mint vault user program bump) (\<lambda>v.
           Inr (Settle_SplWithdrawal \<lparr>sw_cpi_authority = authority, sw_mint = mint, sw_decimals = vs_decimals v, sw_spl_interface = vault,
             sw_user_token = user, sw_token_program = program\<rparr>, it)))))))
     | SolDeposit _ \<Rightarrow>
         rbind (acct (next_account it)) (\<lambda>(pool, it).
         rbind (acct (next_account it)) (\<lambda>(recipient, it).
         rbind (validate_sol_settlement L pool recipient) (\<lambda>bump.
           Inr (Settle_SolDeposit \<lparr>sa_sol_interface = pool, sa_sol_interface_bump = bump, sa_recipient = recipient\<rparr>, it))))
     | SolWithdrawal _ \<Rightarrow>
         rbind (acct (next_account it)) (\<lambda>(pool, it).
         rbind (acct (next_account it)) (\<lambda>(recipient, it).
         rbind (validate_sol_settlement L pool recipient) (\<lambda>bump.
           Inr (Settle_SolWithdrawal \<lparr>sa_sol_interface = pool, sa_sol_interface_bump = bump, sa_recipient = recipient\<rparr>, it)))))"

fun parse_settlements :: "runtime \<Rightarrow> token_runtime \<Rightarrow> ledger \<Rightarrow> interface_transfer list \<Rightarrow> settlement list \<Rightarrow> account_iterator
    \<Rightarrow> (settlement list \<times> account_iterator) presult" where
  "parse_settlements R T L [] acc it = Inr (acc, it)"
| "parse_settlements R T L (t # ts) acc it =
    rbind (parse_settlement R T L t it) (\<lambda>(s, it).
      if length acc < MAX_INTERFACE_TRANSFERS then parse_settlements R T L ts (acc @ [s]) it
      else Inl (pool_err TooManyInterfaceTransfers))"

definition parse_cache_accounts :: "bool \<Rightarrow> bool \<Rightarrow> account_iterator \<Rightarrow> transact_cache_accounts option presult" where
  "parse_cache_accounts reads_cache writes it =
    (if reads_cache \<or> writes
     then rbind (acct (next_option reads_cache it)) (\<lambda>(read_cache, it).
       rbind (if writes
              then rbind (acct (next_mut it)) (\<lambda>(cache, it).
                   rbind (acct (next_signer it)) (\<lambda>(writer, it). Inr (Some (cache, writer))))
              else Inr None) (\<lambda>write_cache.
         Inr (Some \<lparr>tc_read_cache = read_cache, tc_write_cache = write_cache\<rparr>)))
     else Inr None)"

definition accounts_from_iter :: "runtime \<Rightarrow> token_runtime \<Rightarrow> ledger \<Rightarrow> account_iterator \<Rightarrow> transact_ix_data \<Rightarrow> account_view
    \<Rightarrow> account_view list \<Rightarrow> account_view \<Rightarrow> bool \<Rightarrow> transact_accounts presult" where
  "accounts_from_iter R T L it ix payer input_trees output_tree allow_owner_signers =
    rbind (map_err pool_err (validate_interface_transfers (interface_transfers ix))) (\<lambda>_.
    rbind (parse_nullifier_pdas (length (tx_inputs ix)) [] it) (\<lambda>(pdas, it).
    rbind (acct (remaining_unchecked it)) (\<lambda>rest.
    let signer_count = length (takeWhile is_signer rest);
        reads_cache = (case circuit_cache_access (tx_circuit ix) of Some a \<Rightarrow> read_bitmap a \<noteq> 0 | None \<Rightarrow> False);
        writes = (case circuit_cache_access (tx_circuit ix) of Some a \<Rightarrow> writes_cache a | None \<Rightarrow> False);
        settlement_accounts = drop signer_count rest in
    if owner_signer_slots (num_inputs (tx_circuit ix)) + 1 < signer_count \<or> (\<not> allow_owner_signers \<and> signer_count \<noteq> 0)
    then Inl (pool_err InvalidTransactShape)
    else if length settlement_accounts \<noteq> settlement_total (interface_transfers ix) + (if reads_cache then 1 else 0)
      + 2 * (if writes then 1 else 0)
    then Inl (pool_err InvalidSettlementAccounts)
    else rbind (parse_settlements R T L (interface_transfers ix) [] (iter_new settlement_accounts)) (\<lambda>(settlements, it).
      rbind (parse_cache_accounts reads_cache writes it) (\<lambda>cache.
        Inr \<lparr>tx_payer = payer, tx_input_trees = input_trees, tx_output_tree = output_tree, tx_nullifier_pdas = pdas,
          tx_owner_signers = take signer_count rest, tx_settlements = settlements, tx_cache = cache\<rparr>)))))"

definition transact_parse :: "runtime \<Rightarrow> token_runtime \<Rightarrow> ledger \<Rightarrow> account_view list \<Rightarrow> transact_ix_data \<Rightarrow> transact_accounts presult" where
  "transact_parse R T L accounts ix =
    rbind (acct (next_signer (iter_new accounts))) (\<lambda>(payer, it).
    rbind (acct (next_mut it)) (\<lambda>(output_tree, it).
    rbind (validate_program_prefix R it) (\<lambda>it.
    rbind (parse_input_trees (length (tree_contexts ix)) [] it) (\<lambda>(input_trees, it).
      accounts_from_iter R T L it ix payer input_trees output_tree True))))"

definition ring_transact_parse :: "runtime \<Rightarrow> token_runtime \<Rightarrow> ledger \<Rightarrow> account_view list \<Rightarrow> transact_ix_data \<Rightarrow> bool
    \<Rightarrow> (transact_accounts \<times> bytes) presult" where
  "ring_transact_parse R T L accounts ix require_enabled =
    rbind (acct (next_signer (iter_new accounts))) (\<lambda>(payer, it).
    rbind (acct (next_mut it)) (\<lambda>(output_tree, it).
    rbind (validate_program_prefix R it) (\<lambda>it.
    rbind (acct (next_signer it)) (\<lambda>(ring, it).
    rbind (load_active_ring_config R L ring) (\<lambda>config.
    if require_enabled \<and> \<not> rc_enabled config then Inl (pool_err RingAuthorityTransactDisabled)
    else rbind (parse_input_trees (length (tree_contexts ix)) [] it) (\<lambda>(input_trees, it).
      rbind (accounts_from_iter R T L it ix payer input_trees output_tree (\<not> require_enabled)) (\<lambda>a.
        Inr (a, rc_program_id config))))))))"


section \<open>The cache (cache.rs)\<close>

datatype cache_read = Read_Own cache_account | Read_Write_Cache

record transact_cache =
  tca_read :: "cache_read option"
  tca_write :: "cache_write_handle option"

definition transact_cache_load :: "runtime \<Rightarrow> ledger \<Rightarrow> transact_cache_accounts option \<Rightarrow> int \<Rightarrow> transact_cache option presult" where
  "transact_cache_load R L accounts now =
    (case accounts of
       None \<Rightarrow> Inr None
     | Some a \<Rightarrow>
         (let shared = (case (tc_read_cache a, tc_write_cache a) of
             (Some r, Some (w, _)) \<Rightarrow> address_of r = address_of w | _ \<Rightarrow> False) in
          rbind (case tc_write_cache a of
                   Some (cache, writer) \<Rightarrow> rbind (cache_write_load R L cache writer now) (\<lambda>h. Inr (Some h))
                 | None \<Rightarrow> Inr None) (\<lambda>write.
          rbind (case tc_read_cache a of
                   Some cache \<Rightarrow> if shared then Inr (Some Read_Write_Cache)
                     else rbind (load_cache R L cache) (\<lambda>c. Inr (Some (Read_Own c)))
                 | None \<Rightarrow> Inr None) (\<lambda>read.
            Inr (Some \<lparr>tca_read = read, tca_write = write\<rparr>)))))"

definition read_state :: "transact_cache \<Rightarrow> cache_account option" where
  "read_state c =
    (case tca_read c of
       Some (Read_Own state) \<Rightarrow> Some state
     | Some Read_Write_Cache \<Rightarrow> map_option cwh_state (tca_write c)
     | None \<Rightarrow> None)"

definition bind_cached_inputs :: "hash_fn \<Rightarrow> transact_cache option \<Rightarrow> transact_ix_data \<Rightarrow> transact_proof_inputs \<Rightarrow> transact_proof_inputs presult" where
  "bind_cached_inputs P cache ix d =
    (case Option.bind cache read_state of
       None \<Rightarrow> Inr d
     | Some state \<Rightarrow> assign_cached_inputs P (tx_circuit ix) state d)"

definition transact_bind_cache_write :: "hash_fn \<Rightarrow> transact_cache option \<Rightarrow> transact_ix_data \<Rightarrow> bytes \<Rightarrow> bytes presult" where
  "transact_bind_cache_write sha cache ix h =
    map_err (\<lambda>_. pool_err TransactProofVerificationFailed)
      (bind_cache_write sha h
        (case (Option.bind cache tca_write, map_option write_slots (circuit_cache_access (tx_circuit ix))) of
           (Some w, Some slots) \<Rightarrow> Some (cwh_address w, slots) | _ \<Rightarrow> None))"

definition check_cache_output_tree :: "transact_cache option \<Rightarrow> nat \<Rightarrow> unit presult" where
  "check_cache_output_tree cache output_tree_id =
    (case Option.bind cache tca_write of Some w \<Rightarrow> check_output_tree w output_tree_id | None \<Rightarrow> Inr ())"

definition write_cached_outputs :: "transact_cache option \<Rightarrow> transact_ix_data \<Rightarrow> ledger \<Rightarrow> ledger presult" where
  "write_cached_outputs cache ix L =
    (case (Option.bind cache tca_write, circuit_cache_access (tx_circuit ix)) of
       (Some w, Some access) \<Rightarrow>
         rbind (try_fold (\<lambda>w e.
             rbind (ok_or (get (tx_outputs ix) (cw_output e)) (pool_err InvalidCacheBitmap)) (\<lambda>out.
               cache_write_slot w (cw_slot e) (to_utxo_hash out))) w (cache_writes access)) (\<lambda>w'.
           Inr (store_cache w' L))
     | _ \<Rightarrow> Inr L)"


section \<open>Trees (tree.rs)\<close>

definition resolve_input_tree_slot :: "tree_layout \<Rightarrow> tree_context \<Rightarrow> tree_slot presult" where
  "resolve_input_tree_slot l context =
    (if utxo_tree_root_index context \<noteq> NO_UTXO_ROOT then map_err tree_program_error (resolve_tree_slot l context)
     else rbind (map_err tree_program_error (get_nullifier_tree_root l (nullifier_tree_root_index context))) (\<lambda>root.
       Inr \<lparr>ts_id = tree_id_array l, ts_utxo_root = zero32, ts_nullifier_root = root\<rparr>))"

definition queue_nullifiers :: "hash_fn \<Rightarrow> bytes list \<Rightarrow> nullifier_tree \<Rightarrow> nullifier_tree presult" where
  "queue_nullifiers P nullifiers t =
    try_fold (\<lambda>t n. map_err (\<lambda>_. pool_err NullifierTreeUpdateFailed)
      (rbind (insert_nullifier_into_queue P n t) (\<lambda>(t', _). Inr t'))) t nullifiers"

definition apply_input_tree :: "hash_fn \<Rightarrow> runtime \<Rightarrow> address \<Rightarrow> transact_ix_data \<Rightarrow> account_view list \<Rightarrow> nat \<Rightarrow> account_view
    \<Rightarrow> tree_context \<Rightarrow> nat \<Rightarrow> ledger \<Rightarrow> (ledger \<times> bool \<times> tree_slot \<times> input_tree_sequence) presult" where
  "apply_input_tree P R payer ix pdas k tree context count L =
    rbind (map_err tree_program_error (load_tree R L tree)) (\<lambda>l.
    rbind (map_err tree_program_error (dummy_input_headroom l)) (\<lambda>headroom.
    rbind (resolve_input_tree_slot l context) (\<lambda>slot.
    rbind (queue_nullifiers P (map nullifier_hash (filter (\<lambda>i. tree_index i = k) (tx_inputs ix))) (ta_nullifier l)) (\<lambda>t.
    rbind (map_err tree_program_error (credit_tree_fee (l\<lparr>ta_nullifier := t\<rparr>))) (\<lambda>(l1, fee).
    let l2 = record_nullifier_pdas_created count l1;
        sequence = \<lparr>its_tree = address_of tree, first_input_queue_seq = queue_next_index (ta_nullifier l)\<rparr> in
    rbind (create_nullifier_pdas R payer (address_of tree)
            (map (\<lambda>(pda, i). (pda, nullifier_hash i)) (filter (\<lambda>(_, i). tree_index i = k) (zip pdas (tx_inputs ix))))
            \<lparr>itr_input_tree = sequence, itr_tree_fee = fee, itr_fee_balance = fee_balance l2, itr_tree_id = ta_tree_id l2\<rparr>
            (set_data (address_of tree) (Tree_Data l2) L)) (\<lambda>L'.
      Inr (L', count \<le> headroom, slot, sequence)))))))"

fun apply_trees_loop :: "hash_fn \<Rightarrow> runtime \<Rightarrow> address \<Rightarrow> transact_ix_data \<Rightarrow> account_view list \<Rightarrow> nat
    \<Rightarrow> (account_view \<times> tree_context \<times> nat) list \<Rightarrow> bool \<Rightarrow> tree_slot list \<Rightarrow> input_tree_sequence list \<Rightarrow> ledger
    \<Rightarrow> (ledger \<times> bool \<times> tree_slot list \<times> input_tree_sequence list) presult" where
  "apply_trees_loop P R payer ix pdas k [] allow slots sequences L = Inr (L, allow, slots, sequences)"
| "apply_trees_loop P R payer ix pdas k ((tree, context, count) # rest) allow slots sequences L =
    rbind (apply_input_tree P R payer ix pdas k tree context count L) (\<lambda>(L', room, slot, sequence).
      if INPUT_TREES \<le> length slots \<or> INPUT_TREES \<le> length sequences then Inl (pool_err InvalidTransactShape)
      else apply_trees_loop P R payer ix pdas (k + 1) rest (allow \<and> room) (slots @ [slot]) (sequences @ [sequence]) L')"

definition apply_input_trees :: "hash_fn \<Rightarrow> runtime \<Rightarrow> transact_accounts \<Rightarrow> transact_ix_data \<Rightarrow> nat list \<Rightarrow> transact_proof_inputs \<Rightarrow> ledger
    \<Rightarrow> (ledger \<times> transact_proof_inputs \<times> input_tree_sequence list) presult" where
  "apply_input_trees P R a ix counts d L =
    (if length (tx_nullifier_pdas a) \<noteq> length (tx_inputs ix) then Inl (pool_err InvalidNullifierPda)
     else if length (tx_input_trees a) \<noteq> length (tree_contexts ix) \<or> MAX_INPUT_TREES < length (tree_contexts ix)
     then Inl (pool_err InvalidTransactShape)
     else rbind (apply_trees_loop P R (address_of (tx_payer a)) ix (tx_nullifier_pdas a) 0
            (zip (tx_input_trees a) (zip (tree_contexts ix) counts)) True [] [] L) (\<lambda>(L', allow, slots, sequences).
       rbind (map_err pool_err (pack_input_flags allow (map tree_index (tx_inputs ix)))) (\<lambda>flags.
         Inr (L', assign_input_trees slots flags d, sequences))))"

record tree_write =
  tw_first_output_leaf_index :: nat
  tw_output_tree :: address
  tw_output_tree_id :: nat

definition apply_output_tree :: "hash_fn \<Rightarrow> runtime \<Rightarrow> account_view \<Rightarrow> transact_ix_data \<Rightarrow> nat \<Rightarrow> bool \<Rightarrow> ledger
    \<Rightarrow> (ledger \<times> tree_write \<times> nat) presult" where
  "apply_output_tree P R tree ix slot is_input_tree L =
    rbind (map_err tree_program_error (load_tree R L tree)) (\<lambda>l.
    let (u, appended) = append_batch P (map to_utxo_hash (tx_outputs ix)) slot (ta_utxo l) in
    rbind (map_err tree_program_error appended) (\<lambda>_.
    rbind (if tx_outputs ix = [] then Inr (l\<lparr>ta_utxo := u\<rparr>, 0) else credit_output_tree_fee (l\<lparr>ta_utxo := u\<rparr>) is_input_tree) (\<lambda>(l', fee).
      Inr (set_data (address_of tree) (Tree_Data l') L,
        \<lparr>tw_first_output_leaf_index = utxo_next_index (ta_utxo l), tw_output_tree = address_of tree, tw_output_tree_id = ta_tree_id l'\<rparr>,
        fee))))"

definition build_transact_event :: "tree_write \<Rightarrow> input_tree_sequence list \<Rightarrow> transact_event" where
  "build_transact_event w sequences =
    \<lparr>te_input_trees = sequences, te_output_tree = tw_output_tree w, te_first_output_leaf_index = tw_first_output_leaf_index w\<rparr>"


section \<open>The handler (processor.rs)\<close>

definition hash_external_data :: "hash_fn \<Rightarrow> byte \<Rightarrow> bytes \<Rightarrow> transact_ix_data \<Rightarrow> settlement list \<Rightarrow> resolved_output list \<Rightarrow> bytes presult" where
  "hash_external_data sha tag prefix ix settlements resolved =
    map_err (\<lambda>_. pool_err TooManyExternalDataHashSlices)
      (rbind (try_fold (\<lambda>p s. push_settlement p (fst (committed_accounts s)) (snd (committed_accounts s)))
               (preimage_new tag prefix) settlements) (\<lambda>p.
       rbind (try_fold (\<lambda>p (out, r). push_owner_tag p (to_owner_tag out) (ro_owner_tag r)) p (zip (tx_outputs ix) resolved)) (\<lambda>p.
         preimage_finish sha p)))"

definition parse_transact_accounts :: "spend_env \<Rightarrow> runtime \<Rightarrow> token_runtime \<Rightarrow> ledger \<Rightarrow> account_view list \<Rightarrow> transact_ix_data
    \<Rightarrow> transact_proof_inputs \<Rightarrow> (transact_accounts \<times> transact_proof_inputs) presult" where
  "parse_transact_accounts S R T L accounts ix d =
    (if is_ring (tx_circuit ix)
     then rbind (ring_transact_parse R T L accounts ix (is_authority (tx_circuit ix))) (\<lambda>(a, ring).
       rbind (hash_err (hash_bytes (se_poseidon S) ring)) (\<lambda>h. Inr (a, assign_ring_program_id h d)))
     else rbind (transact_parse R T L accounts ix) (\<lambda>a. Inr (a, d)))"

definition process_resolved_transact :: "spend_env \<Rightarrow> runtime \<Rightarrow> token_runtime \<Rightarrow> account_view list \<Rightarrow> transact_ix_data \<Rightarrow> bytes
    \<Rightarrow> instruction_tag \<Rightarrow> nat list \<Rightarrow> resolved_output list \<Rightarrow> ledger \<Rightarrow> outcome presult" where
  "process_resolved_transact S R T accounts ix prefix tag counts resolved L =
    (let P = se_poseidon S; c = tx_circuit ix in
     rbind (parse_transact_accounts S R T L accounts ix (proof_inputs_new c)) (\<lambda>(a, d0).
     rbind (transact_cache_load R L (tx_cache a) (unix_timestamp R)) (\<lambda>cache.
     rbind (fill_owner_signer_hashes P (requires_input_signatures c) (address_of (tx_payer a)) (map address_of (tx_owner_signers a)) [] d0)
       (\<lambda>(d1, owners).
     rbind (fill_output_owner_pk_hashes P (circuit_output_owner_mode c) resolved owners d1) (\<lambda>(d2, _).
     rbind (assign_public_amounts_and_assets P (interface_transfers ix) (tx_settlements a) (num_public_asset_slots c) d2) (\<lambda>d3.
     rbind (apply_input_trees P R a ix counts d3 L) (\<lambda>(L1, d4, sequences).
     rbind (bind_cached_inputs P cache ix d4) (\<lambda>d5.
     rbind (apply_output_tree P R (tx_output_tree a) ix (clock_slot R)
             (\<exists>t \<in> set (tx_input_trees a). address_of t = address_of (tx_output_tree a)) L1) (\<lambda>(L2, write, fee).
     rbind (collect_tree_fee R (address_of (tx_payer a)) (address_of (tx_output_tree a)) fee L2) (\<lambda>L3.
     rbind (check_cache_output_tree cache (tw_output_tree_id write)) (\<lambda>_.
     rbind (hash_external_data (se_sha S) (of_nat (instruction_tag_byte tag)) prefix ix (tx_settlements a) resolved) (\<lambda>h.
     rbind (transact_bind_cache_write (se_sha S) cache ix h) (\<lambda>h'.
     let d6 = assign_external_data_hash h' (assign_output_tree_id (tw_output_tree_id write) d5) in
     rbind (ensure_complete d6) (\<lambda>_.
     rbind (transact_verify P (se_sha S) (se_field S) (se_proofs S) ix d6) (\<lambda>_.
     rbind (write_cached_outputs cache ix L3) (\<lambda>L4.
     rbind (settle_interface_transfers R T (interface_transfers ix) (tx_settlements a) L4) (\<lambda>L5.
       emit_event Transact_Event (write_transact_event (build_transact_event write sequences)) L5)))))))))))))))))"

definition process_transact_ix :: "spend_env \<Rightarrow> runtime \<Rightarrow> token_runtime \<Rightarrow> account_view list \<Rightarrow> bytes \<Rightarrow> instruction_tag \<Rightarrow> ledger
    \<Rightarrow> outcome presult" where
  "process_transact_ix S R T accounts payload tag L =
    rbind (ok_or (parse_with_external_data_prefix payload) Program_InvalidInstructionData) (\<lambda>(ix, prefix).
    rbind (validate_circuit_type S ix tag) (\<lambda>_.
    rbind (map_err pool_err (validate_input_tree_contexts (tx_inputs ix) (tree_contexts ix))) (\<lambda>counts.
    rbind (check_not_expired (tx_expiry_unix_ts ix) (unix_timestamp R)) (\<lambda>_.
    rbind (resolve_outputs accounts ix) (\<lambda>resolved.
      process_resolved_transact S R T accounts ix prefix tag counts resolved L)))))"

end
