(* ===== verification/Spend_Effects.thy ===== *)
theory Spend_Effects
  imports Transact
begin

text \<open>
  What a successful spend did.  The handler is taken apart once
  (\<open>spend_success\<close>); the rest follows the ledger through its steps and states what
  each of them keeps and changes.
\<close>

section \<open>The steps of a spend\<close>

lemma resolved_success:
  assumes "process_resolved_transact S R T accounts ix prefix tag counts resolved L = Inr (L', events)"
  obtains a d0 cache d1 owners d2 owners' d3 L1 d4 sequences d5 L2 w fee L3 h h' L4 where
    "parse_transact_accounts S R T L accounts ix (proof_inputs_new (tx_circuit ix)) = Inr (a, d0)"
    "transact_cache_load R L (tx_cache a) (unix_timestamp R) = Inr cache"
    "fill_owner_signer_hashes (se_poseidon S) (requires_input_signatures (tx_circuit ix)) (address_of (tx_payer a))
       (map address_of (tx_owner_signers a)) [] d0 = Inr (d1, owners)"
    "fill_output_owner_pk_hashes (se_poseidon S) (circuit_output_owner_mode (tx_circuit ix)) resolved owners d1 = Inr (d2, owners')"
    "assign_public_amounts_and_assets (se_poseidon S) (interface_transfers ix) (tx_settlements a)
       (num_public_asset_slots (tx_circuit ix)) d2 = Inr d3"
    "apply_input_trees (se_poseidon S) R a ix counts d3 L = Inr (L1, d4, sequences)"
    "bind_cached_inputs (se_poseidon S) cache ix d4 = Inr d5"
    "apply_output_tree (se_poseidon S) R (tx_output_tree a) ix (clock_slot R)
       (\<exists>t \<in> set (tx_input_trees a). address_of t = address_of (tx_output_tree a)) L1 = Inr (L2, w, fee)"
    "collect_tree_fee R (address_of (tx_payer a)) (address_of (tx_output_tree a)) fee L2 = Inr L3"
    "check_cache_output_tree cache (tw_output_tree_id w) = Inr ()"
    "hash_external_data (se_sha S) (of_nat (instruction_tag_byte tag)) prefix ix (tx_settlements a) resolved = Inr h"
    "transact_bind_cache_write (se_sha S) cache ix h = Inr h'"
    "ensure_complete (assign_external_data_hash h' (assign_output_tree_id (tw_output_tree_id w) d5)) = Inr ()"
    "transact_verify (se_poseidon S) (se_sha S) (se_field S) (se_proofs S) ix
       (assign_external_data_hash h' (assign_output_tree_id (tw_output_tree_id w) d5)) = Inr ()"
    "write_cached_outputs cache ix L3 = Inr L4"
    "settle_interface_transfers R T (interface_transfers ix) (tx_settlements a) L4 = Inr L'"
    "events = [encode_event_instruction Transact_Event (write_transact_event (build_transact_event w sequences))]"
  using assms unfolding process_resolved_transact_def Let_def
  apply (simp only: rbind_eq_Inr split_paired_Ex prod.case emit_event_def)
  apply (elim exE conjE)
  subgoal premises prems for a d0 cache d1 owners d2 owners' d3 L1 d4 sequences d5 L2 w fee L3 u h h' u' u'' L4 L5
    by (rule prems(1)[of a d0 cache d1 owners d2 owners' d3 L1 d4 sequences d5 L2 w fee L3 h h' L4])
      (use prems(2-) in \<open>simp_all\<close>)
  done

lemma spend_success:
  assumes "process_transact_ix S R T accounts payload tag L = Inr (L', events)"
  obtains ix prefix counts resolved where
    "parse_with_external_data_prefix payload = Some (ix, prefix)"
    "validate_circuit_type S ix tag = Inr ()"
    "validate_input_tree_contexts (tx_inputs ix) (tree_contexts ix) = Inr counts"
    "check_not_expired (tx_expiry_unix_ts ix) (unix_timestamp R) = Inr ()"
    "resolve_outputs accounts ix = Inr resolved"
    "process_resolved_transact S R T accounts ix prefix tag counts resolved L = Inr (L', events)"
  using assms by (auto simp: process_transact_ix_def result_simps)


section \<open>One input tree\<close>

text \<open>The PDAs a tree's step creates, with their nullifiers.\<close>

definition tree_pdas :: "transact_ix_data \<Rightarrow> account_view list \<Rightarrow> nat \<Rightarrow> (account_view \<times> bytes) list" where
  "tree_pdas ix pdas k = map (\<lambda>(pda, i). (pda, nullifier_hash i)) (filter (\<lambda>(_, i). tree_index i = k) (zip pdas (tx_inputs ix)))"

lemma create_pdas_payer:
  assumes "custody_ok R" "create_nullifier_pdas R payer tree xs res L = Inr L'"
  shows "itr_tree_fee res = 0 \<or> payer \<noteq> SOL_INTERFACE"
  using assms by (auto simp: create_nullifier_pdas_def collect_tree_fee_def custody_ok_def result_simps split: if_splits)

lemma record_created_sel [simp]:
  "ta_tree_id (record_nullifier_pdas_created n l) = ta_tree_id l" "ta_utxo (record_nullifier_pdas_created n l) = ta_utxo l"
  by (simp_all add: record_nullifier_pdas_created_def)

lemma credit_fee_sel: "credit_tree_fee l = Inr (l', fee) \<Longrightarrow> ta_tree_id l' = ta_tree_id l \<and> ta_utxo l' = ta_utxo l \<and> ta_nullifier l' = ta_nullifier l"
  by (auto simp: credit_tree_fee_def Let_def result_simps)

lemma load_tree_owned: "load_tree R L v = Inr l \<Longrightarrow> acc_owner (L (address_of v)) = rt_program_id R"
  by (simp add: account_simps owned_by_def)

lemma apply_input_tree_success:
  assumes ok: "system_ok R" "rt_program_id R \<noteq> system_program_id"
    and run: "apply_input_tree P R payer ix pdas k tree context count L = Inr (L', room, slot, sequence)"
  obtains l l2 fee rent L0 where
    "load_tree R L tree = Inr l" "resolve_input_tree_slot l context = Inr slot"
    "L0 = (if fee = 0 then set_data (address_of tree) (Tree_Data l2) L
       else move_lamports payer (address_of tree) fee (set_data (address_of tree) (Tree_Data l2) L))"
    "fee = 0 \<or> fee \<le> lamports L payer" "custody_ok R \<longrightarrow> fee = 0 \<or> payer \<noteq> SOL_INTERFACE"
    "pdas_created R rent (address_of tree) (ta_tree_id l) (queue_next_index (ta_nullifier l)) (tree_pdas ix pdas k) L0 L'"
    "ta_utxo l2 = ta_utxo l" "ta_tree_id l2 = ta_tree_id l"
proof -
  let ?xs = "map (\<lambda>(pda, i). (pda, nullifier_hash i)) (filter (\<lambda>(_, i). tree_index i = k) (zip pdas (tx_inputs ix)))"
  obtain l t l1 fee where l: "load_tree R L tree = Inr l" "resolve_input_tree_slot l context = Inr slot"
    and l1: "credit_tree_fee (l\<lparr>ta_nullifier := t\<rparr>) = Inr (l1, fee)"
    and c: "create_nullifier_pdas R payer (address_of tree) ?xs
        \<lparr>itr_input_tree = \<lparr>its_tree = address_of tree, first_input_queue_seq = queue_next_index (ta_nullifier l)\<rparr>, itr_tree_fee = fee,
          itr_fee_balance = fee_balance (record_nullifier_pdas_created count l1), itr_tree_id = ta_tree_id (record_nullifier_pdas_created count l1)\<rparr>
        (set_data (address_of tree) (Tree_Data (record_nullifier_pdas_created count l1)) L) = Inr L'"
    using run by (auto simp: apply_input_tree_def result_simps Let_def)
  have tid: "ta_tree_id l1 = ta_tree_id l" "ta_utxo l1 = ta_utxo l" using credit_fee_sel[OF l1] by simp_all
  have own: "acc_owner (set_data (address_of tree) (Tree_Data (record_nullifier_pdas_created count l1)) L (address_of tree)) = rt_program_id R"
    using load_tree_owned[OF l(1)] by simp
  show ?thesis
  proof (rule create_nullifier_pdas_success[OF ok own c], goal_cases)
    case (1 pm tr)
    then have "fee = 0 \<or> fee \<le> lamports L payer" by auto
    moreover note 1(4)[unfolded tid record_created_sel input_tree_result.simps input_tree_sequence.simps, folded tree_pdas_def]
    ultimately show ?thesis
      using create_pdas_payer[OF _ c] l tid by (intro that[where ?l2.0 = "record_nullifier_pdas_created count l1", OF l refl]) simp_all
  qed
qed


section \<open>Frames\<close>

text \<open>
  What the steps up to the proof keep: an account that exists does not become
  unused, a nullifier PDA stays, and the custody account is not touched.
\<close>

definition spend_frame :: "runtime \<Rightarrow> ledger \<Rightarrow> ledger \<Rightarrow> bool" where
  "spend_frame R L L' \<longleftrightarrow>
     (\<forall>a. unused_account L' a \<longrightarrow> unused_account L a) \<and> (\<forall>a tid q. pda_at R tid q a L \<longrightarrow> pda_at R tid q a L') \<and>
     (acc_owner (L SOL_INTERFACE) = system_program_id \<longrightarrow>
        acc_owner (L' SOL_INTERFACE) = system_program_id \<and> lamports L' SOL_INTERFACE = lamports L SOL_INTERFACE)"

text \<open>A nullifier PDA never has the address of the custody account.\<close>

definition pda_custody_ok :: "runtime \<Rightarrow> bool" where
  "pda_custody_ok R \<longleftrightarrow>
     (\<forall>tree n bump. derive_program_address R (nullifier_pda_seeds tree n) (rt_program_id R) \<noteq> Some (SOL_INTERFACE, bump))"

lemma spend_frame_refl [simp]: "spend_frame R L L"
  by (simp add: spend_frame_def)

lemma spend_frame_trans: "spend_frame R L L1 \<Longrightarrow> spend_frame R L1 L2 \<Longrightarrow> spend_frame R L L2"
  by (simp add: spend_frame_def)

lemma load_tree_not_pda: "load_tree R L v = Inr l \<Longrightarrow> \<not> pda_at R tid q (address_of v) L"
  using tree_at_first_byte[of R L v l] by (auto simp: pda_at_def tree_at_def account_simps)

text \<open>Writing a tree back and moving a fee into it.\<close>

lemma tree_write_frame:
  assumes "rt_program_id R \<noteq> system_program_id" "load_tree R L tree = Inr l"
    and "fee = 0 \<or> fee \<le> lamports L payer" "fee = 0 \<or> payer \<noteq> SOL_INTERFACE"
    and "L0 = (if fee = 0 then set_data (address_of tree) (Tree_Data l2) L
       else move_lamports payer (address_of tree) fee (set_data (address_of tree) (Tree_Data l2) L))"
  shows "spend_frame R L L0"
proof -
  note own = load_tree_owned[OF assms(2)]
  have data: "acc_owner (L0 a) = acc_owner (L a)" "acc_data (L0 a) = (if a = address_of tree then Tree_Data l2 else acc_data (L a))" for a
    using assms(5) by simp_all
  have "unused_account L a" if "unused_account L0 a" for a
    using that by (auto simp: unused_account_def data split: if_splits)
  moreover have "pda_at R tid q a L0" if "pda_at R tid q a L" for a tid q
    using that load_tree_not_pda[OF assms(2)] by (auto simp: pda_at_def data)
  moreover have "acc_owner (L0 SOL_INTERFACE) = system_program_id \<and> lamports L0 SOL_INTERFACE = lamports L SOL_INTERFACE"
    if "acc_owner (L SOL_INTERFACE) = system_program_id"
  proof -
    have "address_of tree \<noteq> SOL_INTERFACE" using own that assms(1) by auto
    then show ?thesis using that assms(3-5) by (auto simp: lamports_move_lamports)
  qed
  ultimately show ?thesis by (simp add: spend_frame_def)
qed

lemma pdas_created_spend_frame:
  assumes "pdas_created R rent tree tid q xs L L'" "pda_custody_ok R" "rt_program_id R \<noteq> system_program_id"
    "acc_owner (L tree) = rt_program_id R"
  shows "spend_frame R L L'"
proof -
  note frame = pdas_created_frame[OF assms(1)]
  have used: "\<not> unused_account L' a" if "\<not> unused_account L a" for a
    using frame(1,2)[OF that] that by (simp add: unused_account_def)
  have "pda_at R tid q a L'" if "pda_at R tid q a L" for a tid q
  proof -
    have "\<not> unused_account L a" using that assms(3) by (auto simp: pda_at_def unused_account_def)
    then show ?thesis using frame that by (simp add: pda_at_def)
  qed
  moreover have "SOL_INTERFACE \<notin> address_of ` fst ` set xs"
    using pdas_created_derived(1)[OF assms(1)] assms(2) unfolding pda_custody_ok_def by (force simp: image_iff)
  then have "L' SOL_INTERFACE = L SOL_INTERFACE" if "acc_owner (L SOL_INTERFACE) = system_program_id"
  proof -
    have "SOL_INTERFACE \<noteq> tree" using that assms(3,4) by metis
    then show ?thesis using assms(1) \<open>SOL_INTERFACE \<notin> address_of ` fst ` set xs\<close> by (simp add: pdas_created_def)
  qed
  ultimately show ?thesis using used by (auto simp: spend_frame_def lamports_def)
qed


section \<open>All input trees\<close>

text \<open>Outside \<open>A\<close> an account keeps owner and data, or an unused one becomes a nullifier PDA.\<close>

definition data_kept :: "runtime \<Rightarrow> address set \<Rightarrow> ledger \<Rightarrow> ledger \<Rightarrow> bool" where
  "data_kept R A L L' \<longleftrightarrow>
     (\<forall>a. a \<notin> A \<longrightarrow> acc_owner (L' a) = acc_owner (L a) \<and> acc_data (L' a) = acc_data (L a)
        \<or> unused_account L a \<and> (\<exists>tid q. pda_at R tid q a L'))"

lemma data_kept_trans:
  assumes "rt_program_id R \<noteq> system_program_id" "data_kept R A L L1" "data_kept R B L1 L2"
  shows "data_kept R (A \<union> B) L L2"
  using assms unfolding data_kept_def pda_at_def unused_account_def by (metis UnI1 UnI2)

lemma load_tree_cong:
  "acc_owner (L' (address_of v)) = acc_owner (L (address_of v)) \<Longrightarrow> acc_data (L' (address_of v)) = acc_data (L (address_of v))
    \<Longrightarrow> load_tree R L' v = load_tree R L v"
  by (simp add: from_account_view_mut_def load_checked_def owned_by_def)

lemma load_tree_before:
  assumes "data_kept R A L L'" "load_tree R L' v = Inr l" "address_of v \<notin> A"
  shows "load_tree R L v = Inr l"
proof -
  have "\<not> pda_at R tid q (address_of v) L'" for tid q by (rule load_tree_not_pda[OF assms(2)])
  then have "acc_owner (L' (address_of v)) = acc_owner (L (address_of v))" "acc_data (L' (address_of v)) = acc_data (L (address_of v))"
    using assms(1,3) unfolding data_kept_def by blast+
  then show ?thesis using load_tree_cong assms(2) by metis
qed

text \<open>The nullifier \<open>n\<close> of the tree at \<open>t\<close> is recorded by the account \<open>a\<close>, which was unused before.\<close>

definition newly_recorded :: "runtime \<Rightarrow> address \<Rightarrow> bytes \<Rightarrow> address \<Rightarrow> ledger \<Rightarrow> ledger \<Rightarrow> bool" where
  "newly_recorded R t n a L L' \<longleftrightarrow>
     (\<exists>bump. derive_program_address R (nullifier_pda_seeds t n) (rt_program_id R) = Some (a, bump))
     \<and> unused_account L a \<and> (\<exists>tid q. pda_at R tid q a L')"

text \<open>What a spend relies on outside the program.\<close>

definition spend_runtime_ok :: "runtime \<Rightarrow> bool" where
  "spend_runtime_ok R \<longleftrightarrow> system_ok R \<and> rt_program_id R \<noteq> system_program_id \<and> custody_ok R \<and> pda_custody_ok R"

lemma input_tree_effect:
  assumes ok: "spend_runtime_ok R"
    and run: "apply_input_tree P R payer ix pdas k tree context count L = Inr (L', room, slot, sequence)"
  shows "spend_frame R L L' \<and> data_kept R {address_of tree} L L' \<and> distinct (map snd (tree_pdas ix pdas k))
    \<and> (\<forall>(v, n) \<in> set (tree_pdas ix pdas k). newly_recorded R (address_of tree) n (address_of v) L L')
    \<and> (\<exists>l. load_tree R L tree = Inr l \<and> resolve_input_tree_slot l context = Inr slot)"
proof -
  have sys: "system_ok R" "rt_program_id R \<noteq> system_program_id" "custody_ok R" "pda_custody_ok R"
    using ok by (simp_all add: spend_runtime_ok_def)
  let ?t = "address_of tree"
  show ?thesis
    using sys(1,2) run
  proof (cases rule: apply_input_tree_success)
    case (1 l l2 fee rent L0)
    have f: "fee = 0 \<or> payer \<noteq> SOL_INTERFACE" using 1(5) sys(3) by simp
    have f1: "spend_frame R L L0" by (rule tree_write_frame[OF sys(2) 1(1,4) f 1(3)])
    have own: "acc_owner (L0 a) = acc_owner (L a)" for a using 1(3) by simp
    have data: "acc_data (L0 a) = acc_data (L a)" if "a \<noteq> ?t" for a using 1(3) that by simp
    have f2: "spend_frame R L0 L'"
      by (rule pdas_created_spend_frame[OF 1(6) sys(4,2)]) (simp add: own load_tree_owned[OF 1(1)])
    have new: "newly_recorded R ?t n (address_of v) L L'" if vn: "(v, n) \<in> set (tree_pdas ix pdas k)" for v n
    proof -
      obtain i where i: "i < length (tree_pdas ix pdas k)" "tree_pdas ix pdas k ! i = (v, n)" using vn by (auto simp: in_set_conv_nth)
      have "\<exists>bump. derive_program_address R (nullifier_pda_seeds ?t n) (rt_program_id R) = Some (address_of v, bump)"
        "unused_account L0 (address_of v)" using pdas_created_derived[OF 1(6) vn] by blast+
      moreover have "pda_at R (ta_tree_id l) (queue_next_index (ta_nullifier l) + i) (address_of v) L'"
        using 1(6) i by (fastforce simp: pdas_created_def pda_at_def)
      ultimately show ?thesis using f1 unfolding newly_recorded_def spend_frame_def by blast
    qed
    have "data_kept R {?t} L L'"
      unfolding data_kept_def
    proof (intro allI impI)
      fix a assume "a \<notin> {?t}"
      show "acc_owner (L' a) = acc_owner (L a) \<and> acc_data (L' a) = acc_data (L a) \<or> unused_account L a \<and> (\<exists>tid q. pda_at R tid q a L')"
      proof (cases "a \<in> address_of ` fst ` set (tree_pdas ix pdas k)")
        case True
        then show ?thesis using new unfolding newly_recorded_def by force
      next
        case False
        then show ?thesis using 1(6) own data \<open>a \<notin> {?t}\<close> by (simp add: pdas_created_def)
      qed
    qed
    then show ?thesis
      using new spend_frame_trans[OF f1 f2] pdas_created_nullifiers_distinct[OF 1(6)] 1(1,2) by blast
  qed
qed

lemma newly_recorded_before:
  "newly_recorded R t n a L1 L2 \<Longrightarrow> spend_frame R L L1 \<Longrightarrow> newly_recorded R t n a L L2"
  by (auto simp: newly_recorded_def spend_frame_def)

lemma newly_recorded_after:
  "newly_recorded R t n a L L1 \<Longrightarrow> spend_frame R L1 L2 \<Longrightarrow> newly_recorded R t n a L L2"
  unfolding newly_recorded_def spend_frame_def by blast

text \<open>The step of tree number \<open>j\<close>: its nullifiers are recorded, and its slot has roots the tree accepts.\<close>

definition tree_applied :: "runtime \<Rightarrow> transact_ix_data \<Rightarrow> account_view list \<Rightarrow> nat \<Rightarrow> account_view \<Rightarrow> tree_context \<Rightarrow> tree_slot
    \<Rightarrow> ledger \<Rightarrow> ledger \<Rightarrow> bool" where
  "tree_applied R ix pdas j tree context slot L L' \<longleftrightarrow>
     distinct (map snd (tree_pdas ix pdas j))
     \<and> (\<forall>(v, n) \<in> set (tree_pdas ix pdas j). newly_recorded R (address_of tree) n (address_of v) L L')
     \<and> (\<exists>l. load_tree R L tree = Inr l \<and> resolve_input_tree_slot l context = Inr slot)"

lemma trees_loop_effect:
  assumes "apply_trees_loop P R payer ix pdas k zs allow slots sequences L = Inr (L', allow', slots', sequences')"
    and "distinct (map (address_of \<circ> fst) zs)" "spend_runtime_ok R"
  shows "spend_frame R L L' \<and> data_kept R (address_of ` fst ` set zs) L L'
    \<and> (\<exists>new. slots' = slots @ new \<and> length new = length zs
        \<and> (\<forall>j < length zs. tree_applied R ix pdas (k + j) (fst (zs ! j)) (fst (snd (zs ! j))) (new ! j) L L'))"
  using assms
proof (induction P R payer ix pdas k zs allow slots sequences L rule: apply_trees_loop.induct)
  case (1 P R payer ix pdas k allow slots sequences L)
  then show ?case by (auto simp: data_kept_def)
next
  case (2 P R payer ix pdas k tree ctx count rest allow slots sequences L)
  obtain L1 room slot sequence where
    one: "apply_input_tree P R payer ix pdas k tree ctx count L = Inr (L1, room, slot, sequence)"
    and cap: "\<not> (INPUT_TREES \<le> length slots \<or> INPUT_TREES \<le> length sequences)"
    and more: "apply_trees_loop P R payer ix pdas (k + 1) rest (allow \<and> room) (slots @ [slot]) (sequences @ [sequence]) L1
      = Inr (L', allow', slots', sequences')"
    using 2(2) by (auto simp: result_simps)
  note e = input_tree_effect[OF 2(4) one]
  have pid: "rt_program_id R \<noteq> system_program_id" using 2(4) by (simp add: spend_runtime_ok_def)
  from 2(1)[OF one refl refl refl cap more] 2(3,4) obtain new where
    IH: "spend_frame R L1 L'" "data_kept R (address_of ` fst ` set rest) L1 L'" "slots' = (slots @ [slot]) @ new" "length new = length rest"
      "\<And>j. j < length rest \<Longrightarrow> tree_applied R ix pdas (k + 1 + j) (fst (rest ! j)) (fst (snd (rest ! j))) (new ! j) L1 L'"
    by auto
  have first: "tree_applied R ix pdas k tree ctx slot L L'"
    using e newly_recorded_after[OF _ IH(1)] unfolding tree_applied_def by blast
  have later: "tree_applied R ix pdas (k + 1 + j) (fst (rest ! j)) (fst (snd (rest ! j))) (new ! j) L L'" if j: "j < length rest" for j
  proof -
    have "fst (rest ! j) \<in> fst ` set rest" using j by simp
    then have "address_of (fst (rest ! j)) \<noteq> address_of tree" using 2(3) by (auto simp: image_iff)
    then have "load_tree R L (fst (rest ! j)) = Inr l" if "load_tree R L1 (fst (rest ! j)) = Inr l" for l
      using e that by (intro load_tree_before[of R "{address_of tree}" L L1]) auto
    then show ?thesis
      using IH(5)[OF j] newly_recorded_before[OF _ e[THEN conjunct1]] unfolding tree_applied_def by blast
  qed
  have "\<forall>j < length ((tree, ctx, count) # rest).
      tree_applied R ix pdas (k + j) (fst (((tree, ctx, count) # rest) ! j)) (fst (snd (((tree, ctx, count) # rest) ! j)))
        ((slot # new) ! j) L L'"
  proof (intro allI impI)
    fix j assume "j < length ((tree, ctx, count) # rest)"
    then show "tree_applied R ix pdas (k + j) (fst (((tree, ctx, count) # rest) ! j)) (fst (snd (((tree, ctx, count) # rest) ! j)))
        ((slot # new) ! j) L L'"
      using first later[of "j - 1"] by (cases j) simp_all
  qed
  moreover have "data_kept R (address_of ` fst ` set ((tree, ctx, count) # rest)) L L'"
    using data_kept_trans[OF pid e[THEN conjunct2, THEN conjunct1] IH(2)] by simp
  ultimately show ?case
    using spend_frame_trans[OF e[THEN conjunct1] IH(1)] IH(3,4) by (intro conjI exI[of _ "slot # new"]) simp_all
qed


section \<open>The account list\<close>

lemma parse_input_trees_success:
  assumes "parse_input_trees n trees it = Inr (trees', it')" "distinct (map address_of trees)"
  shows "trees' = trees @ take n (it_accounts it) \<and> n \<le> length (it_accounts it) \<and> it_accounts it' = drop n (it_accounts it)
    \<and> distinct (map address_of trees')"
  using assms
proof (induction n trees it rule: parse_input_trees.induct)
  case (2 n trees it)
  obtain tree rest where t: "it_accounts it = tree # rest" "is_writable tree" "\<not> (\<exists>t \<in> set trees. address_of t = address_of tree)"
    "length trees < INPUT_TREES" and more: "parse_input_trees n (trees @ [tree]) \<lparr>it_accounts = rest, it_position = it_position it + 1\<rparr> = Inr (trees', it')"
    using 2(2) by (auto simp: result_simps next_mut_eq_Inr)
  have nx: "map_err account_err (next_mut it) = Inr (tree, \<lparr>it_accounts = rest, it_position = it_position it + 1\<rparr>)"
    using t by (simp add: result_simps next_mut_eq_Inr)
  have "distinct (map address_of (trees @ [tree]))" using 2(3) t(3) by (auto simp: image_iff)
  note ih = 2(1)[OF nx refl t(3,4) more this]
  show ?case by (intro conjI; (rule ih[THEN conjunct2, THEN conjunct2, THEN conjunct2])?) (use ih t(1) in simp_all)
qed simp

lemma parse_nullifier_pdas_success:
  assumes "parse_nullifier_pdas n pdas it = Inr (pdas', it')"
  shows "pdas' = pdas @ take n (it_accounts it) \<and> n \<le> length (it_accounts it) \<and> it_accounts it' = drop n (it_accounts it)"
  using assms
proof (induction n pdas it rule: parse_nullifier_pdas.induct)
  case (2 n pdas it)
  obtain pda rest where t: "it_accounts it = pda # rest" "is_writable pda" "length pdas < MAX_TRANSACT_INPUTS"
    and more: "parse_nullifier_pdas n (pdas @ [pda]) \<lparr>it_accounts = rest, it_position = it_position it + 1\<rparr> = Inr (pdas', it')"
    using 2(2) by (auto simp: result_simps next_mut_eq_Inr)
  have nx: "map_err account_err (next_mut it) = Inr (pda, \<lparr>it_accounts = rest, it_position = it_position it + 1\<rparr>)"
    using t by (simp add: result_simps next_mut_eq_Inr)
  from 2(1)[OF nx refl t(3) more] t(1) show ?case by auto
qed simp

lemma validate_token_program_eq_Inr:
  "validate_token_program p = Inr u \<longleftrightarrow> p \<in> {SPL_TOKEN_PROGRAM_ID, SPL_TOKEN_2022_PROGRAM_ID}"
  by (auto simp: validate_token_program_def)

lemma parse_settlement_checked:
  assumes "parse_settlement R T L t it = Inr (s, it')"
  shows "settlement_checked s \<and> settlement_is_deposit s = is_deposit t \<and> (spl_asset s = None \<longleftrightarrow> \<not> is_spl t)"
  using assms
  by (cases t)
    (auto simp: parse_settlement_def result_simps validate_sol_settlement_def validate_spl_deposit_settlement_def
      validate_spl_withdrawal_settlement_def validate_spl_settlement_def read_token_account_def validate_token_program_eq_Inr)

lemma parse_settlements_checked:
  assumes "parse_settlements R T L ts acc it = Inr (ss, it')" "list_all settlement_checked acc"
  shows "list_all settlement_checked ss"
  using assms
proof (induction R T L ts acc it rule: parse_settlements.induct)
  case (2 R T L t ts acc it)
  then show ?case using parse_settlement_checked by (fastforce simp: result_simps)
qed simp

text \<open>Where the trees and the nullifier PDAs stand in the account list.\<close>

definition tree_base :: "circuit_id \<Rightarrow> nat" where "tree_base c = (if is_ring c then 5 else 4)"

definition accounts_parsed :: "account_view list \<Rightarrow> transact_ix_data \<Rightarrow> transact_accounts \<Rightarrow> bool" where
  "accounts_parsed accounts ix a \<longleftrightarrow>
     tx_input_trees a = take (length (tree_contexts ix)) (drop (tree_base (tx_circuit ix)) accounts)
     \<and> tx_nullifier_pdas a = take (length (tx_inputs ix)) (drop (length (tree_contexts ix)) (drop (tree_base (tx_circuit ix)) accounts))
     \<and> length (tx_input_trees a) = length (tree_contexts ix) \<and> length (tx_nullifier_pdas a) = length (tx_inputs ix)
     \<and> distinct (map address_of (tx_input_trees a)) \<and> list_all settlement_checked (tx_settlements a)
     \<and> is_signer (tx_payer a) \<and> list_all is_signer (tx_owner_signers a)
     \<and> (\<exists>rest. accounts = tx_payer a # tx_output_tree a # rest) \<and> set (tx_owner_signers a) \<subseteq> set accounts"

lemma accounts_from_iter_success:
  assumes "accounts_from_iter R T L it ix payer trees out allow = Inr a"
  shows "tx_payer a = payer \<and> tx_output_tree a = out \<and> tx_input_trees a = trees
    \<and> tx_nullifier_pdas a = take (length (tx_inputs ix)) (it_accounts it) \<and> length (tx_inputs ix) \<le> length (it_accounts it)
    \<and> list_all settlement_checked (tx_settlements a) \<and> list_all is_signer (tx_owner_signers a)
    \<and> set (tx_owner_signers a) \<subseteq> set (it_accounts it) \<and> (\<not> allow \<longrightarrow> tx_owner_signers a = [])"
proof -
  obtain pdas it1 ss it2 where p: "parse_nullifier_pdas (length (tx_inputs ix)) [] it = Inr (pdas, it1)"
    and s: "parse_settlements R T L (interface_transfers ix) [] (iter_new (drop (length (takeWhile is_signer (it_accounts it1))) (it_accounts it1))) = Inr (ss, it2)"
    and a: "tx_payer a = payer" "tx_output_tree a = out" "tx_input_trees a = trees" "tx_nullifier_pdas a = pdas"
      "tx_owner_signers a = take (length (takeWhile is_signer (it_accounts it1))) (it_accounts it1)" "tx_settlements a = ss"
      "\<not> allow \<longrightarrow> takeWhile is_signer (it_accounts it1) = []"
    using assms by (auto simp: accounts_from_iter_def result_simps Let_def remaining_unchecked_def)
  have "tx_owner_signers a = takeWhile is_signer (it_accounts it1)" using a(5) by (metis takeWhile_eq_take)
  moreover have "set (takeWhile is_signer (it_accounts it1)) \<subseteq> set (it_accounts it)"
    using parse_nullifier_pdas_success[OF p] by (auto dest: set_takeWhileD in_set_dropD)
  ultimately show ?thesis
    using parse_nullifier_pdas_success[OF p] parse_settlements_checked[OF s] a by (auto simp: list_all_iff dest: set_takeWhileD)
qed

lemma validate_program_prefix_eq_Inr:
  "validate_program_prefix R it = Inr it' \<longleftrightarrow>
    (\<exists>p s rest. it_accounts it = p # s # rest \<and> address_of p = rt_program_id R \<and> address_of s = system_program_id
      \<and> it' = \<lparr>it_accounts = rest, it_position = it_position it + 2\<rparr>)"
  by (auto simp: validate_program_prefix_def result_simps next_account_eq_Inr)

lemma parse_transact_accounts_success:
  assumes "parse_transact_accounts S R T L accounts ix d = Inr (a, d')"
  shows "accounts_parsed accounts ix a"
    "is_ring (tx_circuit ix) \<Longrightarrow> \<exists>ring config h. accounts ! 4 = ring \<and> is_signer ring \<and> load_active_ring_config R L ring = Inr config
       \<and> (is_authority (tx_circuit ix) \<longrightarrow> rc_enabled config) \<and> hash_bytes (se_poseidon S) (rc_program_id config) = Inr h
       \<and> d' = assign_ring_program_id h d"
    "\<not> is_ring (tx_circuit ix) \<Longrightarrow> d' = d"
proof -
  show "accounts_parsed accounts ix a"
  proof (cases "is_ring (tx_circuit ix)")
    case True
    obtain payer out p s ring rest trees it1 m allow where acc: "accounts = payer # out # p # s # ring # rest" "is_signer payer"
      and t: "parse_input_trees (length (tree_contexts ix)) [] \<lparr>it_accounts = rest, it_position = m\<rparr> = Inr (trees, it1)"
      and f: "accounts_from_iter R T L it1 ix payer trees out allow = Inr a"
      using assms True
      by (auto simp: parse_transact_accounts_def ring_transact_parse_def result_simps next_signer_eq_Inr next_mut_eq_Inr
          validate_program_prefix_eq_Inr)
    show ?thesis
      using parse_input_trees_success[OF t] accounts_from_iter_success[OF f] acc True
      by (auto simp: accounts_parsed_def tree_base_def simp del: drop_drop dest: in_set_dropD)
  next
    case False
    obtain payer out p s rest trees it1 m where acc: "accounts = payer # out # p # s # rest" "is_signer payer"
      and t: "parse_input_trees (length (tree_contexts ix)) [] \<lparr>it_accounts = rest, it_position = m\<rparr> = Inr (trees, it1)"
      and f: "accounts_from_iter R T L it1 ix payer trees out True = Inr a"
      using assms False
      by (auto simp: parse_transact_accounts_def transact_parse_def result_simps next_signer_eq_Inr next_mut_eq_Inr
          validate_program_prefix_eq_Inr)
    show ?thesis
      using parse_input_trees_success[OF t] accounts_from_iter_success[OF f] acc False
      by (auto simp: accounts_parsed_def tree_base_def simp del: drop_drop dest: in_set_dropD)
  qed
  show "\<exists>ring config h. accounts ! 4 = ring \<and> is_signer ring \<and> load_active_ring_config R L ring = Inr config
       \<and> (is_authority (tx_circuit ix) \<longrightarrow> rc_enabled config) \<and> hash_bytes (se_poseidon S) (rc_program_id config) = Inr h
       \<and> d' = assign_ring_program_id h d" if "is_ring (tx_circuit ix)"
    using assms that
    by (auto simp: parse_transact_accounts_def ring_transact_parse_def result_simps next_signer_eq_Inr next_mut_eq_Inr
        validate_program_prefix_eq_Inr)
  show "d' = d" if "\<not> is_ring (tx_circuit ix)"
    using assms that by (auto simp: parse_transact_accounts_def result_simps)
qed


section \<open>The steps after the input trees\<close>

lemma output_tree_frame:
  assumes ok: "spend_runtime_ok R"
    and run: "apply_output_tree P R tree ix slot is_input L = Inr (L1, w, fee)" "collect_tree_fee R payer (address_of tree) fee L1 = Inr L2"
  shows "spend_frame R L L2 \<and> (\<exists>l. load_tree R L tree = Inr l \<and> tw_output_tree_id w = ta_tree_id l
    \<and> tw_first_output_leaf_index w = utxo_next_index (ta_utxo l)
    \<and> snd (append_batch P (map to_utxo_hash (tx_outputs ix)) slot (ta_utxo l)) = Inr ()
    \<and> (\<exists>l'. acc_data (L2 (address_of tree)) = Tree_Data l'
         \<and> ta_utxo l' = fst (append_batch P (map to_utxo_hash (tx_outputs ix)) slot (ta_utxo l))
         \<and> ta_nullifier l' = ta_nullifier l \<and> ta_tree_id l' = ta_tree_id l)
    \<and> (\<forall>a. acc_owner (L2 a) = acc_owner (L a) \<and> (a \<noteq> address_of tree \<longrightarrow> acc_data (L2 a) = acc_data (L a))))"
proof -
  have sys: "system_ok R" "rt_program_id R \<noteq> system_program_id" "custody_ok R"
    using ok by (simp_all add: spend_runtime_ok_def)
  let ?u = "append_batch P (map to_utxo_hash (tx_outputs ix)) slot"
  obtain l l' where l: "load_tree R L tree = Inr l" "snd (?u (ta_utxo l)) = Inr ()"
    and fee: "(if tx_outputs ix = [] then Inr (l\<lparr>ta_utxo := fst (?u (ta_utxo l))\<rparr>, 0)
        else credit_output_tree_fee (l\<lparr>ta_utxo := fst (?u (ta_utxo l))\<rparr>) is_input) = Inr (l', fee)"
    and L1: "L1 = set_data (address_of tree) (Tree_Data l') L"
    and w: "w = \<lparr>tw_first_output_leaf_index = utxo_next_index (ta_utxo l), tw_output_tree = address_of tree, tw_output_tree_id = ta_tree_id l'\<rparr>"
    using run(1) by (auto simp: apply_output_tree_def result_simps Let_def case_prod_beta)
  have sel: "ta_tree_id l' = ta_tree_id l" "ta_utxo l' = fst (?u (ta_utxo l))" "ta_nullifier l' = ta_nullifier l"
    using fee by (auto simp: credit_output_tree_fee_def result_simps dest!: credit_fee_sel split: if_splits)
  have sol: "fee = 0 \<or> payer \<noteq> SOL_INTERFACE"
    using run(2) sys(3) by (auto simp: collect_tree_fee_def custody_ok_def split: if_splits)
  have pay: "fee = 0 \<or> fee \<le> lamports L payer"
    "L2 = (if fee = 0 then L1 else move_lamports payer (address_of tree) fee L1)"
    using run(2) L1
    by (auto simp: collect_tree_fee_def dest!: system_transfer[OF sys(1)] split: if_splits)
  have "spend_frame R L L2"
    by (rule tree_write_frame[OF sys(2) l(1) pay(1) sol, where ?l2.0 = l']) (simp add: pay(2) L1)
  then show ?thesis using l sel w pay(2) L1 by auto
qed

lemma cache_load_address:
  assumes "transact_cache_load R L accounts now = Inr (Some c)" "tca_write c = Some h"
  shows "acc_owner (L (cwh_address h)) = rt_program_id R" "\<exists>bs. acc_data (L (cwh_address h)) = Bytes bs \<and> cache_of bs = Some (cwh_state h)"
  using assms
  by (auto simp: transact_cache_load_def cache_write_load_def load_cache_mut_def load_config_mut_eq_Inr owned_by_def result_simps Let_def
      split: option.splits if_splits)

lemma cache_write_slot_address: "cache_write_slot h slot u = Inr h' \<Longrightarrow> cwh_address h' = cwh_address h"
  by (auto simp: cache_write_slot_def split: if_splits)

lemma write_cached_success:
  assumes "write_cached_outputs cache ix L = Inr L'"
  shows "L' = L \<or> (\<exists>c h h'. cache = Some c \<and> tca_write c = Some h \<and> cwh_address h' = cwh_address h \<and> L' = store_cache h' L)"
proof -
  consider "L' = L" | c h access h' where "cache = Some c" "tca_write c = Some h"
    "try_fold (\<lambda>w e. rbind (ok_or (get (tx_outputs ix) (cw_output e)) (pool_err InvalidCacheBitmap)) (\<lambda>out.
        cache_write_slot w (cw_slot e) (to_utxo_hash out))) h (cache_writes access) = Inr h'" "L' = store_cache h' L"
    using assms by (auto simp: write_cached_outputs_def result_simps bind_eq_Some_conv split: option.splits)
  then show ?thesis
  proof cases
    case (2 c h access h')
    have "cwh_address h' = cwh_address h"
      by (rule try_fold_invariant[OF 2(3)]) (auto simp: result_simps dest!: cache_write_slot_address)
    then show ?thesis using 2 by blast
  qed blast
qed

text \<open>Settlement leaves the accounts of the pool program alone.\<close>

definition token_ids_ok :: "runtime \<Rightarrow> bool" where
  "token_ids_ok R \<longleftrightarrow> rt_program_id R \<notin> {SPL_TOKEN_PROGRAM_ID, SPL_TOKEN_2022_PROGRAM_ID}"

lemma settle_keeps_pool_data:
  assumes "system_ok R" "token_ok T" "token_ids_ok R" "settlement_checked s" "settle R T s n L = Inr L'" "acc_owner (L a) = rt_program_id R"
  shows "acc_owner (L' a) = acc_owner (L a) \<and> acc_data (L' a) = acc_data (L a)"
proof (cases s)
  case (Settle_SolDeposit x)
  then show ?thesis using assms(5) by (auto simp: settle_sol_def dest!: system_transfer[OF assms(1)])
next
  case (Settle_SolWithdrawal x)
  then show ?thesis using assms(5) by (auto simp: settle_sol_def dest!: system_transfer_signed[OF assms(1)])
next
  case (Settle_SplDeposit x)
  then have "L' a = L a"
    using assms(2-6) unfolding token_ok_def token_ids_ok_def by (auto simp: settle_spl_deposit_success)
  then show ?thesis by simp
next
  case (Settle_SplWithdrawal x)
  then have "L' a = L a"
    using assms(2-6) unfolding token_ok_def token_ids_ok_def by (auto simp: settle_spl_withdrawal_def)
  then show ?thesis by simp
qed

lemma settlements_keep_pool_data:
  assumes "settle_interface_transfers R T ts ss L = Inr L'" "list_all settlement_checked ss" "acc_owner (L a) = rt_program_id R"
    and "system_ok R" "token_ok T" "token_ids_ok R"
  shows "acc_owner (L' a) = acc_owner (L a) \<and> acc_data (L' a) = acc_data (L a)"
  using assms
proof (induction R T ts ss L rule: settle_interface_transfers.induct)
  case (1 R T t ts s ss L)
  obtain L1 where one: "settle R T s (transfer_amount t) L = Inr L1" "settle_interface_transfers R T ts ss L1 = Inr L'"
    and d: "\<not> is_deposit t \<noteq> settlement_is_deposit s"
    using 1(2) by (auto simp: result_simps)
  have s: "settlement_checked s" "list_all settlement_checked ss" using 1(3) by simp_all
  note k = settle_keeps_pool_data[OF 1(5-7) s(1) one(1) 1(4)]
  then have "acc_owner (L1 a) = rt_program_id R" using 1(4) by simp
  from 1(1)[OF d one s(2) this 1(5-7)] k show ?case by simp
qed auto


section \<open>Spent nullifiers are recorded\<close>

text \<open>The nullifiers of a spend, each with the address of its tree.\<close>

definition spend_inputs :: "account_view list \<Rightarrow> transact_ix_data \<Rightarrow> (address \<times> bytes) list" where
  "spend_inputs accounts ix =
    map (\<lambda>i. (address_of (accounts ! (tree_base (tx_circuit ix) + tree_index i)), nullifier_hash i)) (tx_inputs ix)"

lemma distinct_by_group:
  assumes "\<And>k. distinct (map f (filter (\<lambda>i. g i = k) xs))"
  shows "distinct (map (\<lambda>i. (g i, f i)) xs)"
  using assms
proof (induction xs)
  case (Cons x xs)
  have "distinct (map f (filter (\<lambda>i. g i = k) xs))" for k using Cons.prems[of k] by (auto split: if_splits)
  moreover have "(g x, f x) \<notin> (\<lambda>i. (g i, f i)) ` set xs" using Cons.prems[of "g x"] by auto
  ultimately show ?case using Cons.IH by simp
qed simp

lemma tree_pdas_nullifiers:
  "length pdas = length (tx_inputs ix) \<Longrightarrow> map snd (tree_pdas ix pdas k) = map nullifier_hash (filter (\<lambda>i. tree_index i = k) (tx_inputs ix))"
proof -
  have "length ps = length xs \<Longrightarrow> map snd (map (\<lambda>(pda, i). (pda, nullifier_hash i)) (filter (\<lambda>(_, i). tree_index i = k) (zip ps xs)))
      = map nullifier_hash (filter (\<lambda>i. tree_index i = k) xs)" for ps :: "account_view list" and xs
    by (induction ps xs rule: list_induct2) auto
  then show "length pdas = length (tx_inputs ix) \<Longrightarrow> ?thesis" by (simp add: tree_pdas_def)
qed

lemma tree_pdas_member:
  assumes "length pdas = length (tx_inputs ix)" "i < length (tx_inputs ix)"
  shows "(pdas ! i, nullifier_hash (tx_inputs ix ! i)) \<in> set (tree_pdas ix pdas (tree_index (tx_inputs ix ! i)))"
proof -
  have "(pdas ! i, tx_inputs ix ! i) \<in> set (zip pdas (tx_inputs ix))" using assms by (force simp: in_set_zip)
  then show ?thesis by (force simp: tree_pdas_def)
qed

lemma apply_input_trees_success:
  assumes run: "apply_input_trees P R a ix counts d L = Inr (L', d', sequences)" and ok: "spend_runtime_ok R"
    and contexts: "validate_input_tree_contexts (tx_inputs ix) (tree_contexts ix) = Inr counts"
    and acc: "distinct (map address_of (tx_input_trees a))"
  shows "spend_frame R L L' \<and> length (tx_nullifier_pdas a) = length (tx_inputs ix) \<and> length (tx_input_trees a) = length (tree_contexts ix)
    \<and> (\<exists>slots flags allow. d' = assign_input_trees slots flags d \<and> length slots = length (tree_contexts ix)
        \<and> pack_input_flags allow (map tree_index (tx_inputs ix)) = Inr flags
        \<and> (\<forall>j < length (tree_contexts ix).
            tree_applied R ix (tx_nullifier_pdas a) j (tx_input_trees a ! j) (tree_contexts ix ! j) (slots ! j) L L'))"
proof -
  let ?zs = "zip (tx_input_trees a) (zip (tree_contexts ix) counts)"
  have cs: "length (tree_contexts ix) \<le> length counts"
    using contexts by (auto simp: validate_contexts_eq_Inr)
  obtain allow slots flags where l: "length (tx_nullifier_pdas a) = length (tx_inputs ix)" "length (tx_input_trees a) = length (tree_contexts ix)"
    and loop: "apply_trees_loop P R (address_of (tx_payer a)) ix (tx_nullifier_pdas a) 0 ?zs True [] [] L = Inr (L', allow, slots, sequences)"
    and flags: "pack_input_flags allow (map tree_index (tx_inputs ix)) = Inr flags" and d': "d' = assign_input_trees slots flags d"
    using run by (auto simp: apply_input_trees_def result_simps)
  have len: "length ?zs = length (tree_contexts ix)" using l(2) cs by simp
  have "map (address_of \<circ> fst) ?zs = map address_of (tx_input_trees a)"
    using l(2) cs by (intro nth_equalityI) simp_all
  then have "distinct (map (address_of \<circ> fst) ?zs)" using acc by simp
  from trees_loop_effect[OF loop this ok] obtain new where
    e: "spend_frame R L L'" "slots = new" "length new = length ?zs"
      "\<forall>j < length ?zs. tree_applied R ix (tx_nullifier_pdas a) j (fst (?zs ! j)) (fst (snd (?zs ! j))) (new ! j) L L'"
    by auto
  then show ?thesis using l flags d' len cs by (auto intro!: exI[of _ slots] exI[of _ flags])
qed

lemma inputs_recorded:
  assumes trees: "\<forall>j < length (tree_contexts ix). tree_applied R ix (tx_nullifier_pdas a) j (tx_input_trees a ! j) (cs j) (slots j) L L'"
    and acc: "accounts_parsed accounts ix a" and idx: "list_all (\<lambda>i. tree_index i < length (tree_contexts ix)) (tx_inputs ix)"
  shows "distinct (spend_inputs accounts ix) \<and> (\<forall>(t, n) \<in> set (spend_inputs accounts ix). \<exists>v. newly_recorded R t n v L L')"
proof -
  let ?c = "tree_base (tx_circuit ix)" and ?is = "tx_inputs ix"
  have len: "length (tx_input_trees a) = length (tree_contexts ix)" "length (tx_nullifier_pdas a) = length ?is"
    and dist: "distinct (map address_of (tx_input_trees a))"
    and trees_eq: "tx_input_trees a = take (length (tree_contexts ix)) (drop ?c accounts)"
    using acc unfolding accounts_parsed_def by blast+
  have addr: "accounts ! (?c + k) = tx_input_trees a ! k" if "k < length (tree_contexts ix)" for k
    using that trees_eq len(1) by simp
  have k: "tree_index i < length (tree_contexts ix)" if "i \<in> set ?is" for i using idx that by (simp add: list_all_iff)
  have eq: "spend_inputs accounts ix = map (\<lambda>i. (address_of (tx_input_trees a ! tree_index i), nullifier_hash i)) ?is"
    using k addr by (simp add: spend_inputs_def)
  have groups: "distinct (map nullifier_hash (filter (\<lambda>i. tree_index i = k) ?is))" for k
  proof (cases "k < length (tree_contexts ix)")
    case True
    then show ?thesis using trees tree_pdas_nullifiers[OF len(2)] unfolding tree_applied_def by metis
  next
    case False
    then have "filter (\<lambda>i. tree_index i = k) ?is = []" using k by (auto simp: filter_empty_conv)
    then show ?thesis by simp
  qed
  have "map (\<lambda>i. (address_of (tx_input_trees a ! tree_index i), nullifier_hash i)) ?is
      = map (\<lambda>(j, n). (address_of (tx_input_trees a ! j), n)) (map (\<lambda>i. (tree_index i, nullifier_hash i)) ?is)" by simp
  moreover have "inj_on (\<lambda>(j, n). (address_of (tx_input_trees a ! j), n)) (set (map (\<lambda>i. (tree_index i, nullifier_hash i)) ?is))"
  proof (rule inj_onI, clarsimp)
    fix i j assume "i \<in> set ?is" "j \<in> set ?is" and e: "address_of (tx_input_trees a ! tree_index i) = address_of (tx_input_trees a ! tree_index j)"
    then have "tree_index i < length (tx_input_trees a)" "tree_index j < length (tx_input_trees a)" using k len(1) by auto
    then show "tree_index i = tree_index j" using dist e nth_eq_iff_index_eq[OF dist] by simp
  qed
  ultimately have "distinct (spend_inputs accounts ix)"
    using distinct_by_group[of nullifier_hash tree_index, OF groups] unfolding eq by (simp only: distinct_map)
  moreover have "\<exists>v. newly_recorded R t n v L L'" if "(t, n) \<in> set (spend_inputs accounts ix)" for t n
  proof -
    obtain i where i: "i < length ?is" "t = address_of (tx_input_trees a ! tree_index (?is ! i))" "n = nullifier_hash (?is ! i)"
      using \<open>(t, n) \<in> set (spend_inputs accounts ix)\<close> unfolding eq by (auto simp: in_set_conv_nth)
    have "tree_index (?is ! i) < length (tree_contexts ix)" using k i(1) by simp
    then show ?thesis
      using trees tree_pdas_member[OF len(2) i(1)] i(2,3) unfolding tree_applied_def by blast
  qed
  ultimately show ?thesis by blast
qed

lemma after_proof_keeps_pda:
  assumes ok: "spend_runtime_ok R" "token_ok T" "token_ids_ok R" and ss: "list_all settlement_checked ss"
    and load: "transact_cache_load R L accounts now = Inr cache" and unused: "unused_account L v"
    and wr: "write_cached_outputs cache ix L3 = Inr L4" and settle: "settle_interface_transfers R T ts ss L4 = Inr L'"
    and pda: "pda_at R tid q v L3"
  shows "pda_at R tid q v L'"
proof -
  have pid: "rt_program_id R \<noteq> system_program_id" "system_ok R" using ok(1) by (simp_all add: spend_runtime_ok_def)
  have "pda_at R tid q v L4"
    using write_cached_success[OF wr]
  proof (elim disjE exE conjE)
    fix c h h' assume c: "cache = Some c" "tca_write c = Some h" "cwh_address h' = cwh_address h" "L4 = store_cache h' L3"
    have "cwh_address h \<noteq> v"
      using cache_load_address(1)[of R L accounts now c h] load c(1,2) unused pid(1) by (auto simp: unused_account_def)
    then show ?thesis using pda c(3,4) by (simp add: pda_at_def store_cache_def)
  qed (use pda in simp)
  then show ?thesis
    using settlements_keep_pool_data[OF settle ss _ pid(2) ok(2,3), of v] by (simp add: pda_at_def)
qed

end
