(* ===== verification/Spend_Demo.thy ===== *)
theory Spend_Demo
  imports Spend_Effects
begin

text \<open>
  A concrete spend that succeeds: one nullifier of the demo tree is spent on the
  transact rail together with a public deposit of 500 lamports.  The hash is
  constant and the proof library accepts every proof, so the run exercises the
  program and not the libraries.
\<close>

section \<open>The services\<close>

definition flat_hash :: hash_fn where "flat_hash xs = Inr (demo_address 9)"

text \<open>The demo system program, which refuses a transfer from the custody account that nobody signs for.\<close>

definition spend_system :: "system_instruction \<Rightarrow> ledger \<Rightarrow> ledger presult" where
  "spend_system i L =
    (case i of Transfer f t n \<Rightarrow> if f = SOL_INTERFACE then Inl (Cpi_failed 1) else demo_system i L | _ \<Rightarrow> demo_system i L)"

definition spend_runtime :: runtime where
  "spend_runtime = demo_runtime\<lparr>system_cpi := spend_system\<rparr>"

lemma spend_runtime_sel [simp]:
  "rt_program_id spend_runtime = demo_address 100" "derive_program_address spend_runtime = demo_pda"
  "minimum_balance spend_runtime = (\<lambda>n. Inr (demo_rent n))" "unix_timestamp spend_runtime = 1000" "clock_slot spend_runtime = 50"
  "system_cpi spend_runtime = spend_system" "tree_decode spend_runtime = demo_decode"
  by (simp_all add: spend_runtime_def demo_runtime_def)

definition demo_token :: token_runtime where
  "demo_token = \<lparr>unpack_token_account = (\<lambda>_. None), derive_address = (\<lambda>_ _ _. zero32), token_cpi = (\<lambda>_ _. Inl (Cpi_failed 2))\<rparr>"

definition demo_limbs :: field_lib where
  "demo_limbs neg m = map (\<lambda>i. (if neg \<and> m \<noteq> 0 then bn254_modulus - m else m) div 2 ^ (64 * i) mod 2 ^ 64) [0..<4]"

definition demo_spend_env :: spend_env where
  "demo_spend_env = \<lparr>se_poseidon = flat_hash, se_sha = flat_hash, se_field = demo_limbs,
     se_proofs = \<lparr>pl_decompress_g1 = Some, pl_has_commitment = (\<lambda>_. False), pl_new = (\<lambda>_ _ _ _. True), pl_verify = (\<lambda>_ _ _ _. True)\<rparr>,
     se_key_table = [], se_proving_key = (\<lambda>_. zero32), se_confidential_eddsa = False\<rparr>"

lemma demo_spend_env_sel [simp]:
  "se_poseidon demo_spend_env = flat_hash" "se_sha demo_spend_env = flat_hash" "se_field demo_spend_env = demo_limbs"
  "pl_decompress_g1 (se_proofs demo_spend_env) = Some" "pl_has_commitment (se_proofs demo_spend_env) = (\<lambda>_. False)"
  "pl_new (se_proofs demo_spend_env) = (\<lambda>_ _ _ _. True)" "pl_verify (se_proofs demo_spend_env) = (\<lambda>_ _ _ _. True)"
  by (simp_all add: demo_spend_env_def)

lemma flat_hash_ok: "poseidon_ok flat_hash"
  by (simp add: poseidon_ok_def flat_hash_def demo_address_def leading_zero_canonical numeral_eq_Suc)

lemma SOL_INTERFACE_other: "SOL_INTERFACE \<noteq> demo_address n" "demo_address n \<noteq> SOL_INTERFACE"
  "SOL_INTERFACE \<noteq> demo_nullifier_pda" "demo_nullifier_pda \<noteq> SOL_INTERFACE" "SOL_INTERFACE \<noteq> system_program_id"
proof -
  have h: "hd SOL_INTERFACE = 174" "hd (demo_address n) = 0" "hd demo_nullifier_pda = 110" "hd system_program_id = 0"
    by (simp_all add: SOL_INTERFACE_def demo_address_def demo_nullifier_pda_def NULLIFIER_PDA_SEED_def system_program_id_def zero32_def)
  then show "SOL_INTERFACE \<noteq> demo_address n" "demo_address n \<noteq> SOL_INTERFACE" "SOL_INTERFACE \<noteq> demo_nullifier_pda"
    "demo_nullifier_pda \<noteq> SOL_INTERFACE" "SOL_INTERFACE \<noteq> system_program_id" by auto
qed

lemma spend_runtime_ok_demo: "spend_runtime_ok spend_runtime"
proof -
  have "system_ok spend_runtime"
    by (auto simp: system_ok_def spend_system_def demo_runtime_def Let_def split: if_splits)
  moreover have "derive_program_address spend_runtime (nullifier_pda_seeds t n) pid \<noteq> Some (SOL_INTERFACE, bump)" for t n pid bump
    by (simp add: demo_pda_def SOL_INTERFACE_def NULLIFIER_PDA_SEED_def)
  ultimately show ?thesis
    using demo_system_id[of 100] by (simp add: spend_runtime_ok_def custody_ok_def pda_custody_ok_def spend_system_def)
qed

lemma demo_token_ok: "token_ok demo_token" "token_ids_ok spend_runtime"
proof -
  have "hd SPL_TOKEN_PROGRAM_ID = 6" "hd SPL_TOKEN_2022_PROGRAM_ID = 6" "hd (demo_address 100) = 0"
    by (simp_all add: SPL_TOKEN_PROGRAM_ID_def SPL_TOKEN_2022_PROGRAM_ID_def demo_address_def)
  then show "token_ids_ok spend_runtime" by (auto simp: token_ids_ok_def)
qed (simp add: token_ok_def demo_token_def)


section \<open>The tree\<close>

lemma demo_tree_parts:
  "utxo_init UTXO_TREE_HEIGHT (utxo_zeroed UTXO_TREE_HEIGHT) = (ta_utxo demo_tree, Inr ())"
  "nt_init 1000 10 40 (zeroed_layout NULLIFIER_TREE_ZKP_BATCHES) = Inr (ta_nullifier demo_tree)"
proof -
  obtain u n where i: "utxo_init UTXO_TREE_HEIGHT (utxo_zeroed UTXO_TREE_HEIGHT) = (u, Inr ())"
    "nt_init 1000 10 40 (zeroed_layout NULLIFIER_TREE_ZKP_BATCHES) = Inr n"
    and e: "\<lparr>ta_discriminator = 1, ta_state = INITIALIZED, ta_tree_id = 7, ta_padding = replicate 4 0, fees = default_tree_fees,
      fee_balance = 0, live_nullifier_pdas = 0, ta_reserved = replicate TREE_RESERVED_BYTES 0, ta_utxo = u, ta_nullifier = n\<rparr> = demo_tree"
    using demo_tree_init(1)
    by (auto simp: tree_account_init_def tree_init_def demo_decode_def zeroed_account_def result_simps Let_def UNINITIALIZED_def
      split: prod.splits sum.splits if_splits)
  then show "utxo_init UTXO_TREE_HEIGHT (utxo_zeroed UTXO_TREE_HEIGHT) = (ta_utxo demo_tree, Inr ())"
    "nt_init 1000 10 40 (zeroed_layout NULLIFIER_TREE_ZKP_BATCHES) = Inr (ta_nullifier demo_tree)"
    unfolding e[symmetric] by simp_all
qed

lemma demo_tree_roots:
  obtains u n where "root_by_index (ta_utxo demo_tree) 0 = Inr u" "nt_root_by_index (ta_nullifier demo_tree) 0 = Some n"
proof -
  let ?r = "ZERO_BYTES ! UTXO_TREE_HEIGHT"
  have h: "UTXO_TREE_HEIGHT < length ZERO_BYTES" "UTXO_TREE_HEIGHT \<noteq> 0" by (simp_all add: UTXO_TREE_HEIGHT_def length_ZERO_BYTES)
  have "?r \<noteq> ZERO_BYTES ! 0" using distinct_ZERO_BYTES h by (auto simp: nth_eq_iff_index_eq length_ZERO_BYTES)
  moreover have "length ?r = 32" using ZERO_BYTES_field_element h(1) by auto
  ultimately have nz: "\<not> (\<forall>b \<in> set ?r. b = 0)" using replicate_eqI[of ?r 32 0] by (auto simp: ZERO_BYTES_0 zero32_def)
  have "ta_utxo demo_tree = fst (utxo_init UTXO_TREE_HEIGHT (utxo_zeroed UTXO_TREE_HEIGHT))"
    "snd (utxo_init UTXO_TREE_HEIGHT (utxo_zeroed UTXO_TREE_HEIGHT)) = Inr ()" by (simp_all add: demo_tree_parts)
  then have "root_history_len (ta_utxo demo_tree) = 1" "root_history (ta_utxo demo_tree) = (replicate ROOT_HISTORY_CAPACITY zero32)[0 := ?r]"
    by (auto simp: utxo_init_def utxo_zeroed_def get_def split: if_splits)
  then have u: "root_by_index (ta_utxo demo_tree) 0 = Inr ?r"
    using nz by (simp add: root_by_index_def Let_def get_def ROOT_HISTORY_CAPACITY_def)
  have "roots (nt_root_history (ta_nullifier demo_tree)) = (replicate NULLIFIER_TREE_ZKP_BATCHES zero32)[0 := NULLIFIER_TREE_INIT_ROOT_40]"
    using demo_tree_parts(2) by (auto simp: nt_init_def zeroed_layout_def result_simps split: if_splits) (erule subst, simp)+
  moreover have "NULLIFIER_TREE_INIT_ROOT_40 \<noteq> zero32" by (simp add: NULLIFIER_TREE_INIT_ROOT_40_def zero32_def numeral_eq_Suc)
  ultimately have "nt_root_by_index (ta_nullifier demo_tree) 0 = Some NULLIFIER_TREE_INIT_ROOT_40"
    by (simp add: nt_root_by_index_def get_def NULLIFIER_TREE_ZKP_BATCHES_def)
  then show thesis using that u by blast
qed

lemma demo_insert: "\<exists>t q. insert_nullifier_into_queue flat_hash (demo_address 7) (ta_nullifier demo_tree) = Inr (t, q)"
proof -
  have v: "field_element (demo_address 7)" "is_canonical_bn254_scalar_be (demo_address 7)"
    by (simp_all add: demo_address_def leading_zero_canonical numeral_eq_Suc)
  have "nt_repr flat_hash NULLIFIER_TREE_ZKP_BATCHES 10 (ta_nullifier demo_tree) [] [NULLIFIER_TREE_INIT_ROOT_40]"
    using nt_init_repr(1)[of NULLIFIER_TREE_ZKP_BATCHES 10] demo_tree_parts(2) by (simp add: NULLIFIER_TREE_ZKP_BATCHES_def)
  then show ?thesis using insert_repr[OF flat_hash_ok _ refl v] by (fastforce simp: queue_blocked_def)
qed

text \<open>The demo tree after its first nullifier, and the accounts then.\<close>

definition spent_tree :: tree_layout where
  "spent_tree = record_nullifier_pdas_created 1 (demo_tree\<lparr>ta_nullifier := fst (projr (insert_nullifier_into_queue flat_hash (demo_address 7)
     (ta_nullifier demo_tree))), fee_balance := 5000\<rparr>)"

abbreviation spend_ledger :: ledger where "spend_ledger \<equiv> demo_ledger demo_tree 5000000"

definition spent_ledger :: ledger where
  "spent_ledger = install demo_nullifier_pda (demo_address 100) (Bytes (np_to_account_data \<lparr>np_queue_index = 1, np_tree_id = 7\<rparr>))
     (move_lamports (demo_address 1) (demo_address 11) 5000 (set_data (demo_address 11) (Tree_Data spent_tree) spend_ledger))"

definition demo_spend :: transact_ix_data where
  "demo_spend = \<lparr>tx_expiry_unix_ts = 2000, tx_viewing_pk = replicate 33 0, tx_salt = replicate 16 0, interface_transfers = [SolDeposit 500],
     tx_data_hash = None, tx_ring_data_hash = None, tx_outputs = [], tx_messages = [], private_tx_hash = demo_address 8,
     tx_circuit = ConfidentialSigner 1 2 3, tx_proof = \<lparr>tp_a = zero32, tp_b = replicate 128 0, tp_c = zero32\<rparr>,
     tx_inputs = [\<lparr>nullifier_hash = demo_address 7, tree_index = 0\<rparr>],
     tree_contexts = [\<lparr>utxo_tree_root_index = 0, nullifier_tree_root_index = 0\<rparr>]\<rparr>"

lemma demo_spend_sel [simp]:
  "tx_expiry_unix_ts demo_spend = 2000" "interface_transfers demo_spend = [SolDeposit 500]" "tx_outputs demo_spend = []"
  "private_tx_hash demo_spend = demo_address 8" "tx_circuit demo_spend = ConfidentialSigner 1 2 3"
  "tx_inputs demo_spend = [\<lparr>nullifier_hash = demo_address 7, tree_index = 0\<rparr>]"
  "tree_contexts demo_spend = [\<lparr>utxo_tree_root_index = 0, nullifier_tree_root_index = 0\<rparr>]"
  "tx_proof demo_spend = \<lparr>tp_a = zero32, tp_b = replicate 128 0, tp_c = zero32\<rparr>"
  by (simp_all add: demo_spend_def)

lemma queue_start: "queue_next_index (ta_nullifier demo_tree) = 1" "nt_capacity (ta_nullifier demo_tree) = 2 ^ 40"
  using demo_tree_parts(2) by (auto simp: nt_init_def zeroed_layout_def result_simps split: if_splits) (erule subst, simp)+

lemma spent_tree_reachable: "tree_reachable flat_hash accept_all demo_decode spent_tree []"
  and spent_tree_insert: "queue_nullifiers flat_hash [demo_address 7] (ta_nullifier demo_tree) = Inr (ta_nullifier spent_tree)"
  and spent_tree_sel: "ta_tree_id spent_tree = 7" "ta_state spent_tree = INITIALIZED" "ta_discriminator spent_tree = 1"
    "ta_utxo spent_tree = ta_utxo demo_tree" "fee_balance spent_tree = 5000"
    "spent_tree = record_nullifier_pdas_created 1 (demo_tree\<lparr>ta_nullifier := ta_nullifier spent_tree, fee_balance := 5000\<rparr>)"
proof -
  obtain t q where t: "insert_nullifier_into_queue flat_hash (demo_address 7) (ta_nullifier demo_tree) = Inr (t, q)" using demo_insert by blast
  then have e: "spent_tree = record_nullifier_pdas_created 1 (demo_tree\<lparr>ta_nullifier := t, fee_balance := 5000\<rparr>)" by (simp add: spent_tree_def)
  have sel: "ta_nullifier spent_tree = t" by (simp add: e record_nullifier_pdas_created_def)
  have "tree_reachable flat_hash accept_all demo_decode (demo_tree\<lparr>ta_nullifier := t\<rparr>) []"
    by (rule tree_insert[OF tree_created[OF demo_tree_init(1)] _ t]) simp
  moreover have "credit_tree_fee (demo_tree\<lparr>ta_nullifier := t\<rparr>) = Inr (demo_tree\<lparr>ta_nullifier := t, fee_balance := 5000\<rparr>, 5000)"
    by (simp add: credit_tree_fee_def demo_tree_init(5,6) default_tree_fees_def DEFAULT_FEE_PER_TREE_LAMPORTS_def checked_add_def
        u64_limit_def result_simps)
  ultimately show "tree_reachable flat_hash accept_all demo_decode spent_tree []"
    unfolding e by (blast intro: tree_pdas_created tree_credit)
  show "queue_nullifiers flat_hash [demo_address 7] (ta_nullifier demo_tree) = Inr (ta_nullifier spent_tree)"
    by (simp add: queue_nullifiers_def t sel)
  show "ta_tree_id spent_tree = 7" "ta_state spent_tree = INITIALIZED" "ta_discriminator spent_tree = 1"
    "ta_utxo spent_tree = ta_utxo demo_tree" "fee_balance spent_tree = 5000"
    by (simp_all add: e record_nullifier_pdas_created_def demo_tree_init)
  show "spent_tree = record_nullifier_pdas_created 1 (demo_tree\<lparr>ta_nullifier := ta_nullifier spent_tree, fee_balance := 5000\<rparr>)"
    unfolding sel by (rule e)
qed

lemma spent_tree_layout: "check_layout spent_tree = Inr ()" "check_layout demo_tree = Inr ()"
  using tree_ok_check_layout[OF flat_hash_ok] tree_reachable_ok[OF flat_hash_ok decode_ok_demo] spent_tree_reachable
    tree_created[OF demo_tree_init(1)] by blast+


section \<open>The run\<close>

definition sol_interface_view :: account_view where
  "sol_interface_view = \<lparr>address_of = SOL_INTERFACE, is_signer = False, is_writable = True, is_executable = False\<rparr>"

definition spend_accounts :: "account_view list" where
  "spend_accounts = [user_view 1, user_view 11, program_view 100, demo_system_view, user_view 11, demo_pda_view, user_view 3,
     sol_interface_view, user_view 2]"

lemma spend_views [simp]:
  "address_of sol_interface_view = SOL_INTERFACE" "\<not> is_signer sol_interface_view" "is_writable sol_interface_view"
  "address_of demo_pda_view = demo_nullifier_pda" "is_writable demo_pda_view" "\<not> is_signer demo_pda_view"
  "address_of (program_view n) = demo_address n" "address_of demo_system_view = system_program_id"
  by (simp_all add: sol_interface_view_def demo_pda_view_def program_view_def demo_system_view_def)

abbreviation demo_context :: tree_context where
  "demo_context \<equiv> \<lparr>utxo_tree_root_index = 0, nullifier_tree_root_index = 0\<rparr>"

lemma demo_pdas_created:
  "create_nullifier_pdas spend_runtime (demo_address 1) (demo_address 11) [(demo_pda_view, n)]
     \<lparr>itr_input_tree = \<lparr>its_tree = demo_address 11, first_input_queue_seq = 1\<rparr>, itr_tree_fee = 5000, itr_fee_balance = 5000, itr_tree_id = 7\<rparr>
     (set_data (demo_address 11) (Tree_Data spent_tree) spend_ledger) = Inr spent_ledger"
proof -
  let ?M = "set_data (demo_address 11) (Tree_Data spent_tree) spend_ledger"
  let ?L = "move_lamports (demo_address 1) (demo_address 11) 5000 ?M"
  have L: "acc_owner (?L demo_nullifier_pda) = system_program_id" "acc_data (?L demo_nullifier_pda) = Bytes []"
    by (simp_all add: demo_ledger_def demo_nullifier_pda_other)
  have rich: "lamports ?M (demo_address 1) = 1000000" "lamports ?M demo_nullifier_pda = 1000000"
    by (simp_all add: demo_ledger_def lamports_def set_data_def demo_address_inj demo_nullifier_pda_other)
  then have full: "lamports ?L demo_nullifier_pda = 1000000"
    by (simp add: lamports_move_lamports demo_address_inj demo_nullifier_pda_other)
  have fee: "collect_tree_fee spend_runtime (demo_address 1) (demo_address 11) 5000 ?M = Inr ?L"
    using rich by (simp add: collect_tree_fee_def spend_system_def SOL_INTERFACE_other)
  have init: "nullifier_pda_init spend_runtime (demo_address 11) n \<lparr>np_queue_index = 1, np_tree_id = 7\<rparr> demo_pda_view ?L = Inr spent_ledger"
    using L by (simp add: nullifier_pda_init_def load_unused_nullifier_pda_def verify_pda_def spend_system_def
        demo_nullifier_pda_derived resize_bytes_def np_write_to_def set_data_def install_def spent_ledger_def)
  have "top_up \<lparr>nullifier_pda_minimum = 1110, tree_minimum = x\<rparr> (demo_address 11) demo_nullifier_pda spent_ledger = Inr spent_ledger" for x
    using full by (simp add: top_up_def spent_ledger_def saturating_sub_def)
  then show ?thesis
    using fee init by (simp add: create_nullifier_pdas_def demo_rent_def NULLIFIER_PDA_SIZE_def
        checked_add_def u64_limit_def data_len_def account_size_value result_simps)
qed

lemma demo_tree_load: "load_tree spend_runtime spend_ledger (user_view 11) = Inr demo_tree"
  by (simp add: account_simps owned_by_def demo_ledger_def demo_address_inj data_prefix_def demo_tree_init tree_of_data_def
      TREE_ACCOUNT_DISCRIMINATOR_def spent_tree_layout is_paused_def INITIALIZED_def PAUSED_def)

lemma demo_tree_step:
  "\<exists>room slot sequence. apply_input_tree flat_hash spend_runtime (demo_address 1) demo_spend [demo_pda_view] 0 (user_view 11) demo_context 1 spend_ledger
     = Inr (spent_ledger, room, slot, sequence)"
proof -
  obtain u n where r: "root_by_index (ta_utxo demo_tree) 0 = Inr u" "nt_root_by_index (ta_nullifier demo_tree) 0 = Some n" by (rule demo_tree_roots)
  then have slot: "resolve_input_tree_slot demo_tree demo_context = Inr \<lparr>ts_id = tree_id_array demo_tree, ts_utxo_root = u, ts_nullifier_root = n\<rparr>"
    by (simp add: resolve_input_tree_slot_def resolve_tree_slot_def get_utxo_tree_root_def get_nullifier_tree_root_def NO_UTXO_ROOT_def)
  obtain k where room: "dummy_input_headroom demo_tree = Inr k"
    by (simp add: dummy_input_headroom_def remaining_queue_capacity_def queue_start checked_sub_def)
  have credit: "credit_tree_fee (demo_tree\<lparr>ta_nullifier := ta_nullifier spent_tree\<rparr>)
      = Inr (demo_tree\<lparr>ta_nullifier := ta_nullifier spent_tree, fee_balance := 5000\<rparr>, 5000)"
    by (simp add: credit_tree_fee_def demo_tree_init(5,6) default_tree_fees_def DEFAULT_FEE_PER_TREE_LAMPORTS_def checked_add_def
        u64_limit_def result_simps)
  have "apply_input_tree flat_hash spend_runtime (demo_address 1) demo_spend [demo_pda_view] 0 (user_view 11) demo_context 1 spend_ledger
    = Inr (spent_ledger, 1 \<le> k, \<lparr>ts_id = tree_id_array demo_tree, ts_utxo_root = u, ts_nullifier_root = n\<rparr>,
        \<lparr>its_tree = demo_address 11, first_input_queue_seq = 1\<rparr>)"
    unfolding apply_input_tree_def demo_tree_load slot room Let_def
    by (simp add: slot room spent_tree_insert credit queue_start spent_tree_sel(5) demo_tree_init(3) demo_pdas_created del: One_nat_def flip: spent_tree_sel(6))
  then show ?thesis by blast
qed

definition demo_transact_accounts :: transact_accounts where
  "demo_transact_accounts = \<lparr>tx_payer = user_view 1, tx_input_trees = [user_view 11], tx_output_tree = user_view 11,
     tx_nullifier_pdas = [demo_pda_view], tx_owner_signers = [user_view 3],
     tx_settlements = [Settle_SolDeposit \<lparr>sa_sol_interface = sol_interface_view, sa_sol_interface_bump = SOL_INTERFACE_BUMP,
       sa_recipient = user_view 2\<rparr>], tx_cache = None\<rparr>"

lemma demo_parse_accounts:
  "parse_transact_accounts demo_spend_env spend_runtime demo_token spend_ledger spend_accounts demo_spend d = Inr (demo_transact_accounts, d)"
  by (simp add: parse_transact_accounts_def is_ring_def transact_parse_def spend_accounts_def next_signer_def next_mut_def next_checked_def
      next_account_def check_signer_def check_mut_def validate_program_prefix_def INPUT_TREES_def accounts_from_iter_def
      validate_interface_transfers_def MAX_INTERFACE_TRANSFERS_def MAX_TRANSACT_INPUTS_def remaining_unchecked_def
      owner_signer_slots_def saturating_sub_def MAX_TRANSACTION_ADDRESSES_def FIXED_TRANSACT_ADDRESSES_def settlement_total_def
      settlement_account_count_def parse_settlement_def validate_sol_settlement_def owned_by_def demo_ledger_def SOL_INTERFACE_other
      parse_cache_accounts_def demo_transact_accounts_def iter_new_def)

lemma demo_payload: "parse_with_external_data_prefix (write_transact_ix demo_spend)
    = Some (demo_spend, write_external_data (external_data.truncate demo_spend))"
  by (rule parse_written)
    (simp add: transact_ix_ok_def external_data_ok_def external_data.truncate_def demo_spend_def u64_limit_def u16_limit_def vec_ok_def option_ok_def
      circuit_id_ok_def circuit_payload_ok_def transact_proof_ok_def input_utxo_ok_def tree_context_ok_def zero32_def)

lemma demo_checks:
  "validate_circuit_type demo_spend_env demo_spend Transact = Inr ()"
  "validate_input_tree_contexts (tx_inputs demo_spend) (tree_contexts demo_spend) = Inr [1, 0]"
  "check_not_expired (tx_expiry_unix_ts demo_spend) (unix_timestamp spend_runtime) = Inr ()" "resolve_outputs spend_accounts demo_spend = Inr []"
proof -
  have "check_field_element (demo_address n) e = Inr ()" for n e
    by (simp add: check_field_element_def demo_address_def leading_zero_canonical numeral_eq_Suc)
  moreover have "demo_address 7 \<noteq> zero32" using demo_system_id[of 7] by (simp add: system_program_id_def)
  ultimately show "validate_circuit_type demo_spend_env demo_spend Transact = Inr ()"
    by (simp add: validate_circuit_type_def circuit_matches_def circuit_is_supported_def N_PUBLIC_SLOTS_def shape_is_supported_def
        SPP_SUPPORTED_SHAPES_def shape_new_def circuit_enabled_def check_nonzero_field_elements_def validate_cache_selection_def Let_def)
  show "validate_input_tree_contexts (tx_inputs demo_spend) (tree_contexts demo_spend) = Inr [1, 0]"
    by (simp add: validate_input_tree_contexts_def MAX_INPUT_TREES_def numeral_eq_Suc)
  show "check_not_expired (tx_expiry_unix_ts demo_spend) (unix_timestamp spend_runtime) = Inr ()" by (simp add: check_not_expired_def)
  show "resolve_outputs spend_accounts demo_spend = Inr []" by (simp add: resolve_outputs_def)
qed

lemma flat_fold: "cs \<noteq> [] \<Longrightarrow> try_fold (\<lambda>acc c. flat_hash (f acc c)) x cs = Inr (demo_address 9)"
proof (induction cs arbitrary: x)
  case (Cons c cs)
  then show ?case by (cases "cs = []") (simp_all add: flat_hash_def)
qed simp

lemma flat_hash_bytes:
  assumes "31 < length bs"
  shows "hash_bytes flat_hash bs = Inr (demo_address 9)"
proof -
  have ne: "drop 31 bs \<noteq> []" "bs \<noteq> []" using assms by auto
  then have "chunks 31 bs = take 31 bs # chunks 31 (drop 31 bs)" "chunks 31 (drop 31 bs) \<noteq> []"
    using chunks.simps[of 31 bs] chunks.simps[of 31 "drop 31 bs"] by simp_all
  then show ?thesis by (simp add: hash_bytes_def PACK_BE_CHUNK_BYTES_def flat_fold)
qed

lemma flat_identity: "solana_owner_identity flat_hash (demo_address n) = Inr (demo_address 9)"
  by (simp add: solana_owner_identity_def tagged_identity_def flat_hash_bytes)

lemma replicate_three: "replicate 3 x = [x, x, x]"
  by (simp add: numeral_3_eq_3)

definition demo_values :: transact_proof_inputs where
  "demo_values = (proof_inputs_new (ConfidentialSigner 1 2 3))\<lparr>
     signer_pk_hashes := (replicate MAX_SIGNERS zero32)[0 := demo_address 9], unique_owner_signer_count := 1,
     public_slot_assets := (replicate N_PUBLIC_SLOTS zero32)[0 := SOL_ASSET_FIELD],
     public_slot_amounts := (replicate N_PUBLIC_SLOTS 0)[0 := 500],
     assignments := 167\<rparr>"

lemma demo_values_assigned:
  "\<exists>d1 owners d2 owners'. fill_owner_signer_hashes flat_hash True (demo_address 1) [demo_address 3] [] (proof_inputs_new (ConfidentialSigner 1 2 3))
      = Inr (d1, owners)
    \<and> fill_output_owner_pk_hashes flat_hash Owner_All [] owners d1 = Inr (d2, owners')
    \<and> assign_public_amounts_and_assets flat_hash [SolDeposit 500] (tx_settlements demo_transact_accounts) 3 d2 = Inr demo_values"
proof -
  define d0 where "d0 = proof_inputs_new (ConfidentialSigner 1 2 3)"
  have d0: "signer_pk_hashes d0 = replicate MAX_SIGNERS zero32" "public_slot_assets d0 = replicate N_PUBLIC_SLOTS zero32"
    "public_slot_amounts d0 = replicate N_PUBLIC_SLOTS 0" "assignments d0 = 160"
    by (simp_all add: d0_def proof_inputs_new_def ASSIGNED_CACHED_INPUTS_def ASSIGNED_RING_PROGRAM_def)
  define d1 where "d1 = d0\<lparr>signer_pk_hashes := (replicate MAX_SIGNERS zero32)[0 := demo_address 9], unique_owner_signer_count := 1,
    assignments := 162\<rparr>"
  have 1: "fill_owner_signer_hashes flat_hash True (demo_address 1) [demo_address 3] [] d0 = Inr (d1, [(demo_address 3, demo_address 9)])"
    by (simp add: fill_owner_signer_hashes_def new_signer_hash_def cache_entry_def cache_insert_def flat_identity MAX_OWNER_HASHES_def
        d0 MAX_SIGNERS_def MAX_OUTPUTS_def ASSIGNED_OWNER_SIGNERS_def d1_def)
  have 2: "fill_output_owner_pk_hashes flat_hash Owner_All [] [(demo_address 3, demo_address 9)] d1
      = Inr (d1\<lparr>assignments := 163\<rparr>, [(demo_address 3, demo_address 9)])"
    by (simp add: fill_output_owner_pk_hashes_def d1_def ASSIGNED_OUTPUT_OWNERS_def)
  have 3: "assign_public_amounts_and_assets flat_hash [SolDeposit 500] (tx_settlements demo_transact_accounts) 3 (d1\<lparr>assignments := 163\<rparr>)
      = Inr demo_values"
    unfolding demo_values_def d0_def[symmetric]
    by (simp add: assign_public_amounts_and_assets_def demo_transact_accounts_def signed_amount_def slot_position_def
        checked_slot_amount_def u64_limit_def d1_def d0 replicate_three ASSIGNED_PUBLIC_TRANSFERS_def N_PUBLIC_SLOTS_def)
  show ?thesis unfolding d0_def[symmetric] by (intro exI conjI) (rule 1, rule 2, rule 3)
qed

text \<open>The proof is accepted, whatever the slots and the external data hash are.\<close>

lemma demo_spent_load: "load_tree spend_runtime spent_ledger (user_view 11) = Inr spent_tree"
  by (simp add: account_simps owned_by_def spent_ledger_def demo_nullifier_pda_other demo_ledger_def demo_address_inj data_prefix_def
      spent_tree_sel(1-5) tree_of_data_def TREE_ACCOUNT_DISCRIMINATOR_def spent_tree_layout is_paused_def INITIALIZED_def PAUSED_def)

lemma demo_output_tree:
  "\<exists>w. apply_output_tree flat_hash spend_runtime (user_view 11) demo_spend 50 b spent_ledger
     = Inr (set_data (demo_address 11) (Tree_Data spent_tree) spent_ledger, w, 0)"
  unfolding apply_output_tree_def demo_spent_load by (simp add: append_batch_def)

lemma demo_external: "\<exists>h. hash_external_data flat_hash t prefix demo_spend (tx_settlements demo_transact_accounts) [] = Inr h"
  by (simp add: hash_external_data_def demo_transact_accounts_def push_settlement_def push_address_def preimage_new_def preimage_finish_def
      sha256be_hashv_def flat_hash_def MAX_EXTERNAL_DATA_HASH_SLICES_def MAX_INTERFACE_TRANSFERS_def MAX_OUTPUTS_def)

lemma flat_hash_chain_4: "\<exists>h. hash_chain_4_loop flat_hash x xs = Inr h"
  by (induction flat_hash x xs rule: hash_chain_4_loop.induct) (simp_all add: flat_hash_def)

lemma demo_chains:
  "create_padded_right_hash_chain_4 flat_hash [demo_address 7] 1 = Inr (demo_address 7)"
  "\<exists>h. create_padded_right_hash_chain_4 flat_hash [] 2 = Inr h"
  "\<exists>h. create_padded_right_hash_chain_4 flat_hash (take 2 (replicate MAX_OUTPUTS zero32)) 2 = Inr h"
  "\<exists>h. populated_tree_slots_hash_chain flat_hash [slot] = Inr h"
proof -
  have two: "replicate 2 zero32 = [zero32, zero32]" by (simp add: numeral_2_eq_2)
  have "demo_address 7 \<noteq> zero32" using demo_system_id[of 7] by (simp add: system_program_id_def)
  then show "create_padded_right_hash_chain_4 flat_hash [demo_address 7] 1 = Inr (demo_address 7)"
    by (simp add: create_padded_right_hash_chain_4_def ZERO_SUFFIX_CHAIN_MAX_WIDTH_def create_zero_suffix_right_hash_chain_4_def Let_def
        create_right_hash_chain_4_from_seed_def rchunks.simps[of 3 "[]"])
  have chain: "\<exists>h. create_zero_suffix_right_hash_chain_4 flat_hash [zero32, zero32] = Inr h"
    by (simp add: create_zero_suffix_right_hash_chain_4_def Let_def rchunks.simps[of 3 "[zero32]"] rchunks.simps[of 3 "[]"] get_def
        length_ZERO_SUFFIX_CHAINS ZERO_SUFFIX_GROUPS_eq saturating_sub_def create_right_hash_chain_4_from_seed_def)
  then show "\<exists>h. create_padded_right_hash_chain_4 flat_hash [] 2 = Inr h"
    "\<exists>h. create_padded_right_hash_chain_4 flat_hash (take 2 (replicate MAX_OUTPUTS zero32)) 2 = Inr h"
    by (simp_all add: create_padded_right_hash_chain_4_def ZERO_SUFFIX_CHAIN_MAX_WIDTH_def two MAX_OUTPUTS_def take_replicate)
  show "\<exists>h. populated_tree_slots_hash_chain flat_hash [slot] = Inr h"
    by (simp add: populated_tree_slots_hash_chain_def INPUT_TREES_def checked_sub_def get_def ZERO_TREE_SLOT_SUFFIX_CHAINS_def
        tree_slot_hash_def flat_hash_def)
qed

lemma demo_amounts: "\<exists>f. amount_field demo_limbs n = Inr f" if "u64_ok (nat \<bar>n\<bar>)"
  using that by (simp add: amount_field_def)

lemma demo_signers: "\<exists>h. fixed_signer_hash_chain flat_hash [x] 2 = Inr h"
  by (simp add: fixed_signer_hash_chain_def SIGNER_ZERO_SUFFIX_CHAINS_def checked_sub_def get_def flat_hash_def)

lemma demo_verified:
  assumes "d = assign_external_data_hash h (assign_output_tree_id tid (assign_input_trees [slot] flags demo_values))"
  shows "ensure_complete d = Inr ()" "transact_verify flat_hash flat_hash demo_limbs (se_proofs demo_spend_env) demo_spend d = Inr ()"
proof -
  show "ensure_complete d = Inr ()"
    by (simp add: assms ensure_complete_def assign_external_data_hash_def assign_output_tree_id_def assign_input_trees_def demo_values_def
        ALL_ASSIGNMENTS_def ASSIGNED_OUTPUT_OWNERS_def ASSIGNED_OWNER_SIGNERS_def ASSIGNED_PUBLIC_TRANSFERS_def ASSIGNED_INPUT_TREES_def
        ASSIGNED_EXTERNAL_DATA_def ASSIGNED_RING_PROGRAM_def ASSIGNED_OUTPUT_TREE_def ASSIGNED_CACHED_INPUTS_def)
  have d: "unique_owner_signer_count d = 1" "signer_pk_hashes d = (replicate MAX_SIGNERS zero32)[0 := demo_address 9]"
    "output_owner_pk_hashes d = replicate MAX_OUTPUTS zero32" "public_slot_assets d = [SOL_ASSET_FIELD, zero32, zero32]"
    "public_slot_amounts d = [500, 0, 0]" "pi_tree_slots d = [slot]" "cached_inputs d = None"
    by (simp_all add: assms assign_external_data_hash_def assign_output_tree_id_def assign_input_trees_def demo_values_def proof_inputs_new_def
        N_PUBLIC_SLOTS_def replicate_three)
  show "transact_verify flat_hash flat_hash demo_limbs (se_proofs demo_spend_env) demo_spend d = Inr ()"
  proof -
    obtain h1 h2 h3 f g k where h: "create_padded_right_hash_chain_4 flat_hash [] 2 = Inr h1"
      "create_padded_right_hash_chain_4 flat_hash (take 2 (replicate MAX_OUTPUTS zero32)) 2 = Inr h2"
      "populated_tree_slots_hash_chain flat_hash [slot] = Inr h3"
      "amount_field demo_limbs 500 = Inr f" "amount_field demo_limbs 0 = Inr g" "fixed_signer_hash_chain flat_hash [demo_address 9] 2 = Inr k"
      using demo_chains(2,3) demo_chains(4)[of slot] demo_amounts[of 500] demo_amounts[of 0] demo_signers[of "demo_address 9"]
      by (fastforce simp: u64_limit_def)
    have e: "\<exists>c. empty_cached_input_fields 1 = Inr [zero32, c]"
      by (simp add: empty_cached_input_fields_def saturating_sub_def div_ceil_def get_def length_ZERO_SUFFIX_CHAINS)
    have sg: "take (Suc 0) ((replicate 29 zero32)[0 := demo_address 9]) = [demo_address 9]" "Suc (Suc 0) = 2"
      by (simp_all add: numeral_eq_Suc)
    have "\<exists>fs. collect_fields flat_hash flat_hash demo_limbs demo_spend d = Inr fs \<and> length fs \<le> FIELDS_CAPACITY"
      using e h demo_chains(1)
      by (auto simp: sg collect_fields_def d prefix_of_def MAX_SIGNERS_def MAX_OUTPUTS_def Let_def has_message_hash_def is_anonymous_def
          requires_input_signatures_def is_authority_def signer_width_def shape_new_def owner_signer_slots_def saturating_sub_def
          MAX_TRANSACTION_ADDRESSES_def FIXED_TRANSACT_ADDRESSES_def FIELDS_CAPACITY_def)
    then obtain fs where "public_input_fields flat_hash flat_hash demo_limbs demo_spend d = Inr fs" by (auto simp: public_input_fields_def)
    moreover have "\<exists>x. create_hash_chain_4 flat_hash fs = Inr x"
      using flat_hash_chain_4 by (auto simp: create_hash_chain_4_def split: list.splits)
    ultimately show ?thesis
      by (auto simp: transact_verify_def public_input_hash_def verifying_key_name_def select_key_def TRANSACT_KEYS_def N_PUBLIC_SLOTS_def
          verify_groth16_def)
  qed
qed

lemma demo_trees:
  "\<exists>slot flags sequences. apply_input_trees flat_hash spend_runtime demo_transact_accounts demo_spend [1, 0] d spend_ledger
     = Inr (spent_ledger, assign_input_trees [slot] flags d, sequences)"
proof -
  obtain room slot sequence where step: "apply_input_tree flat_hash spend_runtime (demo_address 1) demo_spend [demo_pda_view] 0 (user_view 11) demo_context 1
    spend_ledger = Inr (spent_ledger, room, slot, sequence)" using demo_tree_step by blast
  obtain flags where "pack_input_flags room [0] = Inr flags"
    using pack_input_flags_bits[of "[0]" room] by (auto simp: MAX_TRANSACT_INPUTS_def INPUT_TREES_def)
  then show ?thesis
    using step by (intro exI[of _ slot] exI[of _ flags] exI[of _ "[sequence]"])
      (simp add: apply_input_trees_def demo_transact_accounts_def MAX_INPUT_TREES_def INPUT_TREES_def)
qed

text \<open>The spend succeeds.\<close>

lemma demo_spend_runs:
  "\<exists>L' events. process_transact_ix demo_spend_env spend_runtime demo_token spend_accounts (write_transact_ix demo_spend) Transact spend_ledger
     = Inr (L', events)"
proof -
  obtain d1 owners d2 owners' where v: "fill_owner_signer_hashes flat_hash True (demo_address 1) [demo_address 3] [] (proof_inputs_new (ConfidentialSigner 1 2 3))
      = Inr (d1, owners)"
    "fill_output_owner_pk_hashes flat_hash Owner_All [] owners d1 = Inr (d2, owners')"
    "assign_public_amounts_and_assets flat_hash [SolDeposit 500] (tx_settlements demo_transact_accounts) 3 d2 = Inr demo_values"
    using demo_values_assigned by blast
  obtain slot flags sequences where t: "apply_input_trees flat_hash spend_runtime demo_transact_accounts demo_spend [1, 0] demo_values spend_ledger
     = Inr (spent_ledger, assign_input_trees [slot] flags demo_values, sequences)" using demo_trees by blast
  let ?L = "set_data (demo_address 11) (Tree_Data spent_tree) spent_ledger"
  obtain w where w: "apply_output_tree flat_hash spend_runtime (user_view 11) demo_spend 50 True spent_ledger = Inr (?L, w, 0)"
    using demo_output_tree by blast
  obtain h where h: "hash_external_data flat_hash (of_nat (instruction_tag_byte Transact)) (write_external_data (external_data.truncate demo_spend)) demo_spend
      (tx_settlements demo_transact_accounts) [] = Inr h" using demo_external by blast
  note ok = demo_verified[OF refl, of h "tw_output_tree_id w" slot flags]
  have "lamports spend_ledger (demo_address 2) = 1000000" "lamports spend_ledger (demo_address 1) = 1000000"
    by (simp_all add: demo_ledger_def lamports_def demo_address_inj)
  then have "lamports ?L (demo_address 2) = 1000000"
    by (simp add: spent_ledger_def lamports_move_lamports demo_address_inj)
  then have s: "\<exists>M. settle_interface_transfers spend_runtime demo_token [SolDeposit 500] (tx_settlements demo_transact_accounts) ?L = Inr M"
    by (simp add: demo_transact_accounts_def settle_sol_def spend_system_def SOL_INTERFACE_other)
  have a: "tx_payer demo_transact_accounts = user_view 1" "tx_owner_signers demo_transact_accounts = [user_view 3]" "tx_cache demo_transact_accounts = None"
    "tx_output_tree demo_transact_accounts = user_view 11" "tx_input_trees demo_transact_accounts = [user_view 11]"
    by (simp_all add: demo_transact_accounts_def)
  show ?thesis
    using s
    unfolding process_transact_ix_def demo_payload
    by (auto simp: demo_checks[simplified] process_resolved_transact_def demo_parse_accounts a transact_cache_load_def v[simplified]
        t[simplified] w h[simplified] ok Let_def
        requires_input_signatures_def is_authority_def bind_cached_inputs_def collect_tree_fee_def check_cache_output_tree_def
        transact_bind_cache_write_def bind_cache_write_def write_cached_outputs_def emit_event_def)
qed

end
