(* ===== verification/Spend_Safety.thy ===== *)
theory Spend_Safety
  imports Spend_Demo
begin

text \<open>
  What a verified spend means.  The values the public input commits to are
  followed from the steps that assign them to the verification.  The theorems
  show that spent nullifiers are recorded once, that the verified values are the
  accepted roots, the signing accounts, the appended leaves and the public
  amounts of this very instruction, and that the pool's custody of SOL changes
  by the committed amount.
\<close>

section \<open>Values the proof commits to\<close>

lemma fill_output_owner_success:
  assumes "fill_output_owner_pk_hashes P mode outputs cache d = Inr (d', cache')"
  obtains hs where "d' = d\<lparr>output_owner_pk_hashes := hs, assignments := assignments d OR ASSIGNED_OUTPUT_OWNERS\<rparr>"
  using assms by (auto simp: fill_output_owner_pk_hashes_def result_simps)

lemma bind_cached_success:
  assumes "bind_cached_inputs P cache ix d = Inr d'"
  obtains u a where "d' = d\<lparr>cached_inputs := u, assignments := a\<rparr>"
proof (cases "Option.bind cache read_state")
  case None
  then have "d' = d\<lparr>cached_inputs := cached_inputs d, assignments := assignments d\<rparr>" using assms by (simp add: bind_cached_inputs_def)
  then show thesis by (rule that)
next
  case Some
  then show thesis
    using assms that by (auto simp: bind_cached_inputs_def assign_cached_inputs_def result_simps)
qed

lemma proof_inputs_chain:
  assumes d0: "d0 = proof_inputs_new c \<or> (\<exists>r. d0 = assign_ring_program_id r (proof_inputs_new c))"
    and d1: "fill_owner_signer_hashes P req payer signers [] d0 = Inr (d1, owners)"
    and d2: "fill_output_owner_pk_hashes P mode resolved owners d1 = Inr (d2, owners')"
    and d3: "assign_public_amounts_and_assets P ts ss n d2 = Inr d3"
    and d5: "bind_cached_inputs P cache ix (assign_input_trees slots flags d3) = Inr d5"
    and d: "d = assign_external_data_hash h (assign_output_tree_id tid d5)"
  shows "pi_tree_slots d = slots" "pi_output_tree_id d = tree_id_field tid" "pi_external_data_hash d = h" "pi_input_flags d = flags"
    "x \<in> set (take (unique_owner_signer_count d) (signer_pk_hashes d)) \<longleftrightarrow> (\<exists>a \<in> (if req then set signers else {payer}). identity_of P a x)"
    "committed_amount (public_slot_assets d) (public_slot_amounts d) a = asset_net P a ts ss"
    "length ts = length ss" "pi_ring_program_id d = pi_ring_program_id d0"
proof -
  have free: "signer_pk_hashes d0 = replicate MAX_SIGNERS zero32" "public_slot_assets d0 = replicate N_PUBLIC_SLOTS zero32"
    "public_slot_amounts d0 = replicate N_PUBLIC_SLOTS 0"
    using d0 by (auto simp: assign_ring_program_id_def proof_inputs_new_def)
  define hs1 k1 as1 where e1: "hs1 = signer_pk_hashes d1" "k1 = unique_owner_signer_count d1" "as1 = assignments d1"
  have s1: "x \<in> set (take k1 hs1) \<longleftrightarrow> (\<exists>a \<in> (if req then set signers else {payer}). identity_of P a x)" for x
    using fill_owner_signer_hashes_success[OF d1 free(1)] unfolding e1 by blast
  have d1': "d1 = d0\<lparr>signer_pk_hashes := hs1, unique_owner_signer_count := k1, assignments := assignments d0 OR ASSIGNED_OWNER_SIGNERS\<rparr>"
    using fill_owner_signer_hashes_success[OF d1 free(1)] unfolding e1 by blast
  obtain hs2 where d2': "d2 = d1\<lparr>output_owner_pk_hashes := hs2, assignments := assignments d1 OR ASSIGNED_OUTPUT_OWNERS\<rparr>"
    using fill_output_owner_success[OF d2] .
  have free2: "public_slot_assets d2 = replicate N_PUBLIC_SLOTS zero32" "public_slot_amounts d2 = replicate N_PUBLIC_SLOTS 0"
    using free by (simp_all add: d2' d1')
  define sa sm where e3: "sa = public_slot_assets d3" "sm = public_slot_amounts d3"
  have s3: "committed_amount sa sm a = asset_net P a ts ss" "length ts = length ss" for a
    using assign_public_amounts_success[OF d3 free2] unfolding e3 by blast+
  have d3': "d3 = d2\<lparr>public_slot_assets := sa, public_slot_amounts := sm, assignments := assignments d2 OR ASSIGNED_PUBLIC_TRANSFERS\<rparr>"
    using assign_public_amounts_success[OF d3 free2] unfolding e3 by blast
  obtain u b where d5': "d5 = (assign_input_trees slots flags d3)\<lparr>cached_inputs := u, assignments := b\<rparr>" using bind_cached_success[OF d5] .
  note defs = d d5' assign_external_data_hash_def assign_output_tree_id_def assign_input_trees_def d3' d2' d1'
  show "pi_tree_slots d = slots" "pi_output_tree_id d = tree_id_field tid" "pi_external_data_hash d = h" "pi_input_flags d = flags"
    "pi_ring_program_id d = pi_ring_program_id d0" by (simp_all add: defs)
  show "length ts = length ss" by (rule s3(2))
  have "unique_owner_signer_count d = k1" "signer_pk_hashes d = hs1" by (simp_all add: defs)
  then show "x \<in> set (take (unique_owner_signer_count d) (signer_pk_hashes d)) \<longleftrightarrow> (\<exists>a \<in> (if req then set signers else {payer}). identity_of P a x)"
    by (simp only: s1)
  have "public_slot_assets d = sa" "public_slot_amounts d = sm" by (simp_all add: defs)
  then show "committed_amount (public_slot_assets d) (public_slot_amounts d) a = asset_net P a ts ss" by (simp only: s3)
qed

text \<open>A cache account is not a tree.\<close>

lemma cache_not_tree:
  assumes "load_tree R L v = Inr l"
  shows "\<not> cache_at R L (address_of v) c"
proof
  assume c: "cache_at R L (address_of v) c"
  then have "data_prefix 1 (acc_data (L (address_of v))) = Some [CACHE]"
    by (simp add: cache_at_def data_prefix_def layout_bytes_def cache_to_fields_def)
  moreover have "data_prefix 1 (acc_data (L (address_of v))) = Some [of_nat TREE_ACCOUNT_DISCRIMINATOR]"
    using assms by (simp add: account_simps)
  ultimately show False by (simp add: CACHE_def TREE_ACCOUNT_DISCRIMINATOR_def)
qed

lemma cache_load_at:
  assumes "transact_cache_load R L accounts now = Inr (Some c)" "tca_write c = Some h"
  shows "cache_at R L (cwh_address h) (cwh_state h)"
  using assms
  by (auto simp: transact_cache_load_def cache_write_load_eq_Inr result_simps Let_def split: option.splits if_splits)

lemma load_tree_of_address:
  "load_tree R L v = Inr l \<Longrightarrow> address_of w = address_of v \<Longrightarrow> is_writable w \<Longrightarrow> load_tree R L w = Inr l"
  by (simp add: account_simps owned_by_def)

text \<open>Spending from a tree changes its nullifiers, not its leaves.\<close>

definition leaves_kept :: "runtime \<Rightarrow> ledger \<Rightarrow> ledger \<Rightarrow> bool" where
  "leaves_kept R L L' \<longleftrightarrow> (\<forall>v l'. load_tree R L' v = Inr l' \<longrightarrow>
     (\<exists>l. load_tree R L v = Inr l \<and> ta_utxo l = ta_utxo l' \<and> ta_tree_id l = ta_tree_id l'))"

lemma leaves_kept_trans: "leaves_kept R L L1 \<Longrightarrow> leaves_kept R L1 L2 \<Longrightarrow> leaves_kept R L L2"
  unfolding leaves_kept_def by metis

lemma input_tree_leaves:
  assumes ok: "spend_runtime_ok R"
    and run: "apply_input_tree P R payer ix pdas k tree context count L = Inr (L', room, slot, sequence)"
  shows "leaves_kept R L L'"
  unfolding leaves_kept_def
proof (intro allI impI)
  fix v l' assume l': "load_tree R L' v = Inr l'"
  have sys: "system_ok R" "rt_program_id R \<noteq> system_program_id" using ok by (simp_all add: spend_runtime_ok_def)
  note effect = input_tree_effect[OF ok run]
  show "\<exists>l. load_tree R L v = Inr l \<and> ta_utxo l = ta_utxo l' \<and> ta_tree_id l = ta_tree_id l'"
  proof (cases "address_of v = address_of tree")
    case False
    then show ?thesis using load_tree_before[of R "{address_of tree}" L L' v l'] effect l' by blast
  next
    case True
    show ?thesis
      using sys run
    proof (cases rule: apply_input_tree_success)
      case (1 l l2 fee rent L0)
      have "acc_owner (L0 (address_of tree)) = rt_program_id R" using 1(3) load_tree_owned[OF 1(1)] by simp
      then have "\<not> unused_account L0 (address_of tree)" using sys(2) by (simp add: unused_account_def)
      then have "address_of tree \<notin> address_of ` fst ` set (tree_pdas ix pdas k)"
        using pdas_created_derived[OF 1(6)] by force
      then have "acc_data (L' (address_of tree)) = Tree_Data l2" using 1(3,6) by (simp add: pdas_created_def)
      then have "l2 = l'" using l' True by (simp add: account_simps tree_of_data_def)
      moreover have "load_tree R L v = Inr l"
        using load_tree_of_address[OF 1(1) True] l' by (simp add: account_simps)
      ultimately show ?thesis using 1(7,8) by auto
    qed
  qed
qed

lemma trees_loop_leaves:
  assumes "apply_trees_loop P R payer ix pdas k zs allow slots sequences L = Inr (L', allow', slots', sequences')" "spend_runtime_ok R"
  shows "leaves_kept R L L'"
  using assms
proof (induction P R payer ix pdas k zs allow slots sequences L rule: apply_trees_loop.induct)
  case (2 P R payer ix pdas k tree ctx count rest allow slots sequences L)
  obtain L1 room slot sequence where
    one: "apply_input_tree P R payer ix pdas k tree ctx count L = Inr (L1, room, slot, sequence)"
    and cap: "\<not> (INPUT_TREES \<le> length slots \<or> INPUT_TREES \<le> length sequences)"
    and more: "apply_trees_loop P R payer ix pdas (k + 1) rest (allow \<and> room) (slots @ [slot]) (sequences @ [sequence]) L1
      = Inr (L', allow', slots', sequences')"
    using 2(2) by (auto simp: result_simps)
  show ?case
    by (rule leaves_kept_trans[OF input_tree_leaves[OF 2(3) one] 2(1)[OF one refl refl refl cap more 2(3)]])
qed (auto simp: leaves_kept_def)

lemma input_trees_leaves:
  "apply_input_trees P R a ix counts d L = Inr (L', d', sequences) \<Longrightarrow> spend_runtime_ok R \<Longrightarrow> leaves_kept R L L'"
  by (auto simp: apply_input_trees_def result_simps dest!: trees_loop_leaves)


section \<open>Spent nullifiers are recorded\<close>

text \<open>
  C1.  A nullifier is spent at most once while its record stands.  A successful
  spend -- on any of the three rails -- spends pairwise distinct nullifiers per
  tree, finds no record of any of them, and leaves a record of every one, owned
  by the program, at the address derived from its tree and its value.  So a spend
  of a nullifier whose record exists fails, whatever proof comes with it.
\<close>
theorem spent_nullifiers_are_recorded_once:
  assumes ok: "spend_runtime_ok R" "token_ok T" "token_ids_ok R"
    and run: "process_transact_ix S R T accounts payload tag L = Inr (L', events)"
  shows "\<exists>ix prefix. parse_with_external_data_prefix payload = Some (ix, prefix) \<and> tx_inputs ix \<noteq> []
    \<and> distinct (spend_inputs accounts ix)
    \<and> (\<forall>(t, n) \<in> set (spend_inputs accounts ix). \<exists>v bump. derive_program_address R (nullifier_pda_seeds t n) (rt_program_id R) = Some (v, bump)
        \<and> unused_account L v \<and> (\<exists>tid q. pda_at R tid q v L'))"
  using run
proof (cases rule: spend_success)
  case (1 ix prefix counts resolved)
  note parsed = 1(1) and contexts = 1(3)
  have ne: "tx_inputs ix \<noteq> []" using 1(2) by (auto simp: validate_circuit_type_def Let_def split: if_splits)
  have idx: "list_all (\<lambda>i. tree_index i < length (tree_contexts ix)) (tx_inputs ix)" using contexts by (simp add: validate_contexts_eq_Inr)
  show ?thesis
    using 1(6)
  proof (cases rule: resolved_success)
    case (1 a d0 cache d1 owners d2 owners' d3 L1 d4 sequences d5 L2 w fee L3 h h' L4)
    have acc: "accounts_parsed accounts ix a" by (rule parse_transact_accounts_success(1)[OF 1(1)])
    then have dist: "distinct (map address_of (tx_input_trees a))" "list_all settlement_checked (tx_settlements a)"
      unfolding accounts_parsed_def by blast+
    obtain slots where trees: "\<forall>j < length (tree_contexts ix).
        tree_applied R ix (tx_nullifier_pdas a) j (tx_input_trees a ! j) (tree_contexts ix ! j) (slots ! j) L L1"
      using apply_input_trees_success[OF 1(6) ok(1) contexts dist(1)] by blast
    have L3: "spend_frame R L1 L3" using output_tree_frame[OF ok(1) 1(8,9)] by blast
    have rec: "distinct (spend_inputs accounts ix)" "\<And>t n. (t, n) \<in> set (spend_inputs accounts ix) \<Longrightarrow> \<exists>v. newly_recorded R t n v L L1"
      using inputs_recorded[where cs = "\<lambda>j. tree_contexts ix ! j" and slots = "\<lambda>j. slots ! j", OF trees acc idx] by blast+
    have "\<exists>v bump. derive_program_address R (nullifier_pda_seeds t n) (rt_program_id R) = Some (v, bump) \<and> unused_account L v
        \<and> (\<exists>tid q. pda_at R tid q v L')" if m: "(t, n) \<in> set (spend_inputs accounts ix)" for t n
    proof -
      obtain v where v: "newly_recorded R t n v L L3" using rec(2)[OF m] newly_recorded_after[OF _ L3] by blast
      then have "\<exists>tid q. pda_at R tid q v L'"
        using after_proof_keeps_pda[OF ok dist(2) 1(2) _ 1(15,16)] unfolding newly_recorded_def by blast
      then show ?thesis using v unfolding newly_recorded_def by blast
    qed
    then show ?thesis using parsed ne rec(1) by blast
  qed
qed

theorem spent_nullifiers_are_recorded_once_witness:
  "\<exists>L' events. process_transact_ix demo_spend_env spend_runtime demo_token spend_accounts (write_transact_ix demo_spend) Transact spend_ledger
       = Inr (L', events)
     \<and> unused_account spend_ledger demo_nullifier_pda \<and> (\<exists>tid q. pda_at spend_runtime tid q demo_nullifier_pda L')"
proof -
  obtain L' events where run: "process_transact_ix demo_spend_env spend_runtime demo_token spend_accounts (write_transact_ix demo_spend) Transact
    spend_ledger = Inr (L', events)" using demo_spend_runs by blast
  have "set (spend_inputs spend_accounts demo_spend) = {(demo_address 11, demo_address 7)}"
    by (simp add: spend_inputs_def spend_accounts_def tree_base_def is_ring_def)
  then show ?thesis
    using spent_nullifiers_are_recorded_once[OF spend_runtime_ok_demo demo_token_ok run] run
    by (auto simp: demo_payload demo_nullifier_pda_derived)
qed


section \<open>The verified values are those of the spend\<close>

text \<open>Every committed signer is an account that signed.\<close>

definition signed_by :: "hash_fn \<Rightarrow> account_view list \<Rightarrow> transact_proof_inputs \<Rightarrow> bool" where
  "signed_by P accounts d \<longleftrightarrow>
     (\<forall>h \<in> set (take (unique_owner_signer_count d) (signer_pk_hashes d)). \<exists>v \<in> set accounts. is_signer v \<and> identity_of P (address_of v) h)"

text \<open>Every committed pair of roots is one the tree of that slot accepted when the spend began.\<close>

definition roots_accepted :: "runtime \<Rightarrow> ledger \<Rightarrow> account_view list \<Rightarrow> transact_ix_data \<Rightarrow> transact_proof_inputs \<Rightarrow> bool" where
  "roots_accepted R L accounts ix d \<longleftrightarrow>
     length (pi_tree_slots d) = length (tree_contexts ix)
     \<and> (\<forall>j < length (tree_contexts ix). \<exists>l. load_tree R L (accounts ! (tree_base (tx_circuit ix) + j)) = Inr l
          \<and> resolve_input_tree_slot l (tree_contexts ix ! j) = Inr (pi_tree_slots d ! j))"

text \<open>The committed output tree is the one that got the instruction's leaves, and nothing else.\<close>

definition outputs_appended :: "hash_fn \<Rightarrow> runtime \<Rightarrow> ledger \<Rightarrow> ledger \<Rightarrow> account_view list \<Rightarrow> transact_ix_data \<Rightarrow> transact_proof_inputs \<Rightarrow> bool" where
  "outputs_appended P R L L' accounts ix d \<longleftrightarrow>
     (\<exists>l l'. load_tree R L (accounts ! 1) = Inr l \<and> acc_data (L' (address_of (accounts ! 1))) = Tree_Data l'
        \<and> pi_output_tree_id d = tree_id_field (ta_tree_id l) \<and> ta_tree_id l' = ta_tree_id l
        \<and> append_batch P (map to_utxo_hash (tx_outputs ix)) (clock_slot R) (ta_utxo l) = (ta_utxo l', Inr ()))"

text \<open>The committed ring is the registered program of the ring account that signed; zero without a ring.\<close>

definition ring_committed :: "hash_fn \<Rightarrow> runtime \<Rightarrow> ledger \<Rightarrow> account_view list \<Rightarrow> transact_ix_data \<Rightarrow> transact_proof_inputs \<Rightarrow> bool" where
  "ring_committed P R L accounts ix d \<longleftrightarrow>
     (if is_ring (tx_circuit ix)
      then is_signer (accounts ! 4) \<and> (\<exists>config. load_active_ring_config R L (accounts ! 4) = Inr config
        \<and> (is_authority (tx_circuit ix) \<longrightarrow> rc_enabled config)
        \<and> hash_bytes P (rc_program_id config) = Inr (pi_ring_program_id d))
      else pi_ring_program_id d = zero32)"

lemma after_proof_keeps_tree:
  assumes ok: "spend_runtime_ok R" "token_ok T" "token_ids_ok R" and ss: "list_all settlement_checked ss"
    and load: "transact_cache_load R L accounts now = Inr cache" and tree: "load_tree R L v = Inr l"
    and wr: "write_cached_outputs cache ix L3 = Inr L4" and settle: "settle_interface_transfers R T ts ss L4 = Inr L'"
    and own: "acc_owner (L3 (address_of v)) = rt_program_id R"
  shows "acc_data (L' (address_of v)) = acc_data (L3 (address_of v))"
proof -
  have sys: "system_ok R" using ok(1) by (simp add: spend_runtime_ok_def)
  have "acc_owner (L4 (address_of v)) = acc_owner (L3 (address_of v)) \<and> acc_data (L4 (address_of v)) = acc_data (L3 (address_of v))"
    using write_cached_success[OF wr]
  proof (elim disjE exE conjE)
    fix c h h' assume c: "cache = Some c" "tca_write c = Some h" "cwh_address h' = cwh_address h" "L4 = store_cache h' L3"
    have "cache_at R L (cwh_address h) (cwh_state h)" using cache_load_at load c(1,2) by blast
    then have "cwh_address h \<noteq> address_of v" using cache_not_tree[OF tree] by auto
    then show ?thesis using c(3,4) by (simp add: store_cache_def)
  qed simp
  then show ?thesis using settlements_keep_pool_data[OF settle ss _ sys ok(2,3), of "address_of v"] own by simp
qed

text \<open>What the values of a verified proof are, from the steps of the handler.\<close>

lemma spend_values:
  assumes ok: "spend_runtime_ok R" "token_ok T" "token_ids_ok R"
    and contexts: "validate_input_tree_contexts (tx_inputs ix) (tree_contexts ix) = Inr counts"
    and run: "process_resolved_transact S R T accounts ix prefix tag counts resolved L = Inr (L', events)"
  obtains a d L4 cache h where
    "transact_verify (se_poseidon S) (se_sha S) (se_field S) (se_proofs S) ix d = Inr ()" "ensure_complete d = Inr ()"
    "signed_by (se_poseidon S) accounts d" "roots_accepted R L accounts ix d"
    "outputs_appended (se_poseidon S) R L L' accounts ix d" "ring_committed (se_poseidon S) R L accounts ix d"
    "\<And>b. committed_amount (public_slot_assets d) (public_slot_amounts d) b
        = asset_net (se_poseidon S) b (interface_transfers ix) (tx_settlements a)"
    "length (interface_transfers ix) = length (tx_settlements a)"
    "settle_interface_transfers R T (interface_transfers ix) (tx_settlements a) L4 = Inr L'"
    "hash_external_data (se_sha S) (of_nat (instruction_tag_byte tag)) prefix ix (tx_settlements a) resolved = Inr h"
    "transact_bind_cache_write (se_sha S) cache ix h = Inr (pi_external_data_hash d)"
    "transact_cache_load R L (tx_cache a) (unix_timestamp R) = Inr cache"
    "\<exists>d0. parse_transact_accounts S R T L accounts ix (proof_inputs_new (tx_circuit ix)) = Inr (a, d0)"
    "acc_owner (L SOL_INTERFACE) = system_program_id \<Longrightarrow>
       acc_owner (L4 SOL_INTERFACE) = system_program_id \<and> lamports L4 SOL_INTERFACE = lamports L SOL_INTERFACE"
  using run
proof (cases rule: resolved_success)
  case (1 a d0 cache d1 owners d2 owners' d3 L1 d4 sequences d5 L2 w fee L3 h h' L4)
  let ?P = "se_poseidon S" and ?c = "tx_circuit ix"
  have pid: "rt_program_id R \<noteq> system_program_id" using ok(1) by (simp add: spend_runtime_ok_def)
  note parsed = parse_transact_accounts_success[OF 1(1)]
  have acc: "accounts_parsed accounts ix a" by (rule parsed(1))
  then have dist: "distinct (map address_of (tx_input_trees a))" "list_all settlement_checked (tx_settlements a)"
    and signer: "is_signer (tx_payer a)" "list_all is_signer (tx_owner_signers a)" "set (tx_owner_signers a) \<subseteq> set accounts"
      "tx_payer a \<in> set accounts" and out: "tx_output_tree a = accounts ! 1"
    and trees: "tx_input_trees a = take (length (tree_contexts ix)) (drop (tree_base ?c) accounts)"
      "length (tx_input_trees a) = length (tree_contexts ix)"
    unfolding accounts_parsed_def by auto
  have d0: "d0 = proof_inputs_new ?c \<or> (\<exists>r. d0 = assign_ring_program_id r (proof_inputs_new ?c))"
    using parsed(2,3) by blast
  obtain slots flags where d4: "d4 = assign_input_trees slots flags d3" and slots: "length slots = length (tree_contexts ix)"
    "\<forall>j < length (tree_contexts ix).
        tree_applied R ix (tx_nullifier_pdas a) j (tx_input_trees a ! j) (tree_contexts ix ! j) (slots ! j) L L1"
    and L1: "spend_frame R L L1"
    using apply_input_trees_success[OF 1(6) ok(1) contexts dist(1)] by blast
  let ?d = "assign_external_data_hash h' (assign_output_tree_id (tw_output_tree_id w) d5)"
  note v = proof_inputs_chain[where tid = "tw_output_tree_id w" and h = h', OF d0 1(3,4,5) 1(7)[unfolded d4] refl]
  have "signed_by ?P accounts ?d"
    unfolding signed_by_def
  proof
    fix x assume "x \<in> set (take (unique_owner_signer_count ?d) (signer_pk_hashes ?d))"
    then obtain b where b: "b \<in> (if requires_input_signatures ?c then set (map address_of (tx_owner_signers a)) else {address_of (tx_payer a)})"
      "identity_of ?P b x" unfolding v(5) by blast
    then obtain v where "v \<in> set (tx_owner_signers a) \<union> {tx_payer a}" "b = address_of v" by (auto split: if_splits)
    then show "\<exists>v \<in> set accounts. is_signer v \<and> identity_of ?P (address_of v) x"
      using b(2) signer by (auto simp: list_all_iff)
  qed
  moreover have "roots_accepted R L accounts ix ?d"
  proof -
    have nth: "accounts ! (tree_base ?c + j) = tx_input_trees a ! j" if "j < length (tree_contexts ix)" for j
      using that trees by simp
    show ?thesis unfolding roots_accepted_def v(1) using slots nth unfolding tree_applied_def by simp
  qed
  moreover note frame = output_tree_frame[OF ok(1) 1(8,9)]
  have "outputs_appended ?P R L L' accounts ix ?d"
  proof -
    obtain l1 l' where l1: "load_tree R L1 (accounts ! 1) = Inr l1" "tw_output_tree_id w = ta_tree_id l1"
      "snd (append_batch ?P (map to_utxo_hash (tx_outputs ix)) (clock_slot R) (ta_utxo l1)) = Inr ()"
      "acc_data (L3 (address_of (accounts ! 1))) = Tree_Data l'"
      "ta_utxo l' = fst (append_batch ?P (map to_utxo_hash (tx_outputs ix)) (clock_slot R) (ta_utxo l1))" "ta_tree_id l' = ta_tree_id l1"
      "acc_owner (L3 (address_of (accounts ! 1))) = rt_program_id R"
      using frame load_tree_owned unfolding out by metis
    obtain l where l: "load_tree R L (accounts ! 1) = Inr l" "ta_utxo l = ta_utxo l1" "ta_tree_id l = ta_tree_id l1"
      using input_trees_leaves[OF 1(6) ok(1)] l1(1) unfolding leaves_kept_def by blast
    have "acc_data (L' (address_of (accounts ! 1))) = Tree_Data l'"
      using after_proof_keeps_tree[OF ok dist(2) 1(2) l(1) 1(15,16) l1(7)] l1(4) by simp
    then show ?thesis unfolding outputs_appended_def v(2) using l l1 by (metis prod.collapse)
  qed
  moreover have "ring_committed ?P R L accounts ix ?d"
    unfolding ring_committed_def v(8) using parsed(2,3) by (auto simp: assign_ring_program_id_def proof_inputs_new_def)
  moreover have "acc_owner (L4 SOL_INTERFACE) = system_program_id \<and> lamports L4 SOL_INTERFACE = lamports L SOL_INTERFACE"
    if sol: "acc_owner (L SOL_INTERFACE) = system_program_id"
  proof -
    have L3: "acc_owner (L3 SOL_INTERFACE) = system_program_id" "lamports L3 SOL_INTERFACE = lamports L SOL_INTERFACE"
      using L1 frame sol unfolding spend_frame_def by auto
    show ?thesis
      using write_cached_success[OF 1(15)]
    proof (elim disjE exE conjE)
      fix c h h' assume c: "cache = Some c" "tca_write c = Some h" "cwh_address h' = cwh_address h" "L4 = store_cache h' L3"
      have "cache_at R L (cwh_address h) (cwh_state h)" using cache_load_at 1(2) c(1,2) by blast
      then have "cwh_address h \<noteq> SOL_INTERFACE" using sol pid by (auto simp: cache_at_def)
      then show ?thesis using L3 c(3,4) by (simp add: store_cache_def)
    qed (use L3 in simp)
  qed
  moreover have "transact_bind_cache_write (se_sha S) cache ix h = Inr (pi_external_data_hash ?d)" unfolding v(3) by (rule 1(12))
  moreover have "committed_amount (public_slot_assets ?d) (public_slot_amounts ?d) b = asset_net ?P b (interface_transfers ix) (tx_settlements a)" for b
    by (rule v(6))
  ultimately show thesis using 1(1) v(7) by (intro that[OF 1(14,13) _ _ _ _ _ _ 1(16,11) _ 1(2)]) auto
qed

text \<open>
  The committed external data is the hash of the instruction's bytes, the tag it
  came with, the accounts its public transfers settle with and the owner tags of
  its outputs, bound to the cache slots it writes.
\<close>

definition external_committed :: "spend_env \<Rightarrow> runtime \<Rightarrow> token_runtime \<Rightarrow> ledger \<Rightarrow> account_view list \<Rightarrow> transact_ix_data \<Rightarrow> bytes
    \<Rightarrow> instruction_tag \<Rightarrow> transact_proof_inputs \<Rightarrow> bool" where
  "external_committed S R T L accounts ix prefix tag d \<longleftrightarrow>
     (\<exists>a d0 cache resolved h. parse_transact_accounts S R T L accounts ix (proof_inputs_new (tx_circuit ix)) = Inr (a, d0)
        \<and> transact_cache_load R L (tx_cache a) (unix_timestamp R) = Inr cache \<and> resolve_outputs accounts ix = Inr resolved
        \<and> hash_external_data (se_sha S) (of_nat (instruction_tag_byte tag)) prefix ix (tx_settlements a) resolved = Inr h
        \<and> transact_bind_cache_write (se_sha S) cache ix h = Inr (pi_external_data_hash d))"




section \<open>Custody\<close>

text \<open>
  Only the zero address hashes to the field of SOL, and no initialised token
  account has the zero address -- the system program -- as its mint.
\<close>

definition sol_field_ok :: "hash_fn \<Rightarrow> bool" where
  "sol_field_ok P \<longleftrightarrow> (\<forall>a. length a = 32 \<longrightarrow> hash_bytes P a = Inr SOL_ASSET_FIELD \<longrightarrow> a = system_program_id)"

definition token_mints_ok :: "token_runtime \<Rightarrow> bool" where
  "token_mints_ok T \<longleftrightarrow> (\<forall>x t. unpack_token_account T x = Some t \<longrightarrow> tk_state t = SPL_TOKEN_ACCOUNT_INITIALIZED \<longrightarrow>
     length (tk_mint t) = 32 \<and> tk_mint t \<noteq> system_program_id)"

lemma parse_settlement_mint:
  assumes "parse_settlement R T L t it = Inr (s, it')" "spl_asset s = Some m" "token_mints_ok T"
  shows "length m = 32 \<and> m \<noteq> system_program_id"
  using assms
  by (cases t)
    (auto simp: parse_settlement_def result_simps validate_spl_deposit_settlement_def validate_spl_withdrawal_settlement_def
      validate_spl_settlement_def read_token_account_def read_token_mint_def token_mints_ok_def)

lemma parse_settlements_mint:
  assumes "parse_settlements R T L ts acc it = Inr (ss, it')" "token_mints_ok T"
    and "\<forall>s \<in> set acc. \<forall>m. spl_asset s = Some m \<longrightarrow> length m = 32 \<and> m \<noteq> system_program_id"
  shows "\<forall>s \<in> set ss. \<forall>m. spl_asset s = Some m \<longrightarrow> length m = 32 \<and> m \<noteq> system_program_id"
  using assms
proof (induction R T L ts acc it rule: parse_settlements.induct)
  case (2 R T L t ts acc it)
  obtain s it1 where s: "parse_settlement R T L t it = Inr (s, it1)" "length acc < MAX_INTERFACE_TRANSFERS"
    "parse_settlements R T L ts (acc @ [s]) it1 = Inr (ss, it')"
    using 2(2) by (auto simp: result_simps split: if_splits)
  show ?case
    by (rule 2(1)[OF s(1) refl s(2,3) 2(3)]) (use 2(4) parse_settlement_mint[OF s(1) _ 2(3)] in auto)
qed simp

lemma spend_mints:
  assumes "parse_transact_accounts S R T L accounts ix d = Inr (a, d')" "token_mints_ok T"
  shows "\<forall>s \<in> set (tx_settlements a). \<forall>m. spl_asset s = Some m \<longrightarrow> length m = 32 \<and> m \<noteq> system_program_id"
proof -
  obtain it it' where "parse_settlements R T L (interface_transfers ix) [] it = Inr (tx_settlements a, it')"
    using assms(1)
    by (auto simp: parse_transact_accounts_def ring_transact_parse_def transact_parse_def accounts_from_iter_def result_simps Let_def
        split: if_splits)
  then show ?thesis using parse_settlements_mint assms(2) by fastforce
qed

text \<open>
  C3.  Custody of SOL is governed by the proof.  Over a successful spend the
  pool's SOL account gains at least the signed amount that the verified proof
  commits to for SOL -- a deposit raises it by that much, a withdrawal never
  takes more -- whatever fees, nullifier records, cache writes and token
  transfers the spend carries besides.
\<close>
theorem custody_follows_committed_amount:
  assumes ok: "spend_runtime_ok R" "token_ok T" "token_ids_ok R" "token_mints_ok T" "sol_field_ok (se_poseidon S)"
    and sol: "acc_owner (L SOL_INTERFACE) = system_program_id"
    and run: "process_transact_ix S R T accounts payload tag L = Inr (L', events)"
  shows "\<exists>ix prefix d. parse_with_external_data_prefix payload = Some (ix, prefix)
    \<and> transact_verify (se_poseidon S) (se_sha S) (se_field S) (se_proofs S) ix d = Inr ()
    \<and> int (lamports L' SOL_INTERFACE)
      \<ge> int (lamports L SOL_INTERFACE) + committed_amount (public_slot_assets d) (public_slot_amounts d) SOL_ASSET_FIELD"
  using run
proof (cases rule: spend_success)
  case (1 ix prefix counts resolved)
  note parsed = 1(1)
  show ?thesis
    using ok(1-3) 1(3,6)
  proof (cases rule: spend_values)
    case (1 a d L4 cache h)
    have sys: "system_ok R" "custody_ok R" using ok(1) by (simp_all add: spend_runtime_ok_def)
    obtain d0 where p: "parse_transact_accounts S R T L accounts ix (proof_inputs_new (tx_circuit ix)) = Inr (a, d0)" using 1(13) by blast
    have checked: "list_all settlement_checked (tx_settlements a)"
      using parse_transact_accounts_success(1)[OF p] unfolding accounts_parsed_def by blast
    have "\<forall>s \<in> set (tx_settlements a). spl_asset s \<noteq> None \<longrightarrow> asset_field (se_poseidon S) s \<noteq> Inr SOL_ASSET_FIELD"
      using spend_mints[OF p ok(4)] ok(5) unfolding sol_field_ok_def asset_field_def by (fastforce simp: result_simps)
    then have "committed_amount (public_slot_assets d) (public_slot_amounts d) SOL_ASSET_FIELD = sol_net (interface_transfers ix) (tx_settlements a)"
      using asset_net_sol[OF 1(8)] 1(7) by simp
    moreover have "int (lamports L' SOL_INTERFACE) \<ge> int (lamports L4 SOL_INTERFACE) + sol_net (interface_transfers ix) (tx_settlements a)"
      using settle_transfers_custody[OF sys(1) ok(2) sys(2) 1(9) checked] 1(14)[OF sol] by blast
    ultimately show ?thesis using 1(1) 1(14)[OF sol] parsed by (intro exI[of _ ix] exI[of _ prefix] exI[of _ d]) simp
  qed
qed

theorem custody_follows_committed_amount_witness:
  "\<exists>L' events d. process_transact_ix demo_spend_env spend_runtime demo_token spend_accounts (write_transact_ix demo_spend) Transact spend_ledger
       = Inr (L', events)
     \<and> transact_verify flat_hash flat_hash demo_limbs (se_proofs demo_spend_env) demo_spend d = Inr ()
     \<and> int (lamports L' SOL_INTERFACE)
       \<ge> int (lamports spend_ledger SOL_INTERFACE) + committed_amount (public_slot_assets d) (public_slot_amounts d) SOL_ASSET_FIELD"
proof -
  obtain L' events where run: "process_transact_ix demo_spend_env spend_runtime demo_token spend_accounts (write_transact_ix demo_spend) Transact
    spend_ledger = Inr (L', events)" using demo_spend_runs by blast
  have "demo_address 9 \<noteq> SOL_ASSET_FIELD"
  proof -
    have "from_be_bytes SOL_ASSET_FIELD = 0x2098f5fb9e239eab3ceac3f27b81e481dc3124d55ffed523a839ee8446b64864"
      unfolding SOL_ASSET_FIELD_def by (rule from_to_be_bytes) simp
    moreover have "from_be_bytes (demo_address 9) = 9"
      unfolding demo_address_def from_be_bytes_replicate_zero by (simp add: from_be_bytes_def)
    ultimately show ?thesis by auto
  qed
  then have "sol_field_ok (se_poseidon demo_spend_env)" by (simp add: sol_field_ok_def flat_hash_bytes)
  moreover have "token_mints_ok demo_token" by (simp add: token_mints_ok_def demo_token_def)
  moreover have "acc_owner (spend_ledger SOL_INTERFACE) = system_program_id" by (simp add: demo_ledger_def SOL_INTERFACE_other)
  ultimately show ?thesis
    using custody_follows_committed_amount[OF spend_runtime_ok_demo demo_token_ok _ _ _ run] run by (auto simp: demo_payload)
qed

end
