(* ===== verification/Deposit.thy ===== *)
theory Deposit
  imports Spend_Demo
begin

text \<open>
  Proofless deposits, \<open>programs/shielded-pool/src/instructions/deposit\<close> and
  \<open>program-libs/interface/src/instruction/instruction_data/deposit.rs\<close>: a batch of
  public outputs, each appended to the tree under a hash the program computes
  itself, funded by one transfer per asset.  No proof is involved, so the hash
  and the funding are all that ties an output to its amount.  The lemmas show
  that the appended leaves are exactly the hashes of the entries, that every
  asset is settled with the sum of its entries, and that the payload reads back
  as written.
\<close>

section \<open>Instruction data (deposit.rs)\<close>

definition MAX_DEPOSIT_ASSETS :: nat where "MAX_DEPOSIT_ASSETS = 5"

text \<open>\<open>b"Deposit"\<close>.\<close>

definition DEPOSIT_BLINDING_DOMAIN :: bytes where "DEPOSIT_BLINDING_DOMAIN = [68, 101, 112, 111, 115, 105, 116]"

definition deposit_blinding :: "hash_fn \<Rightarrow> address \<Rightarrow> nat \<Rightarrow> (hasher_error, bytes) result" where
  "deposit_blinding sha tree leaf_index = sha256be_hashv sha [DEPOSIT_BLINDING_DOMAIN, tree, to_be_bytes 8 leaf_index]"

datatype deposit_asset_kind = Sol_Asset | Spl_Asset nat

record deposit_entry =
  de_asset_index :: nat
  de_view_tag :: bytes
  de_owner :: bytes
  de_amount :: nat
  de_memo :: "bytes option"

record ring_deposit_entry =
  re_asset_index :: nat
  re_view_tag :: bytes
  re_owner_utxo_hash :: bytes
  re_amount :: nat
  re_ring_data_hash :: bytes
  re_encrypted :: encrypted_ring_deposit_data

definition write_asset_kind :: "deposit_asset_kind \<Rightarrow> bytes" where
  "write_asset_kind k = (case k of Sol_Asset \<Rightarrow> write_u8 0 | Spl_Asset bump \<Rightarrow> write_u8 1 @ write_u8 bump)"

definition read_asset_kind :: "deposit_asset_kind reader" where
  "read_asset_kind = read_then read_u8 (\<lambda>t.
    if t = 0 then read_return Sol_Asset
    else if t = 1 then read_then read_u8 (\<lambda>b. read_return (Spl_Asset b)) else read_fail)"

definition asset_kind_ok :: "deposit_asset_kind \<Rightarrow> bool" where
  "asset_kind_ok k = (case k of Sol_Asset \<Rightarrow> True | Spl_Asset bump \<Rightarrow> bump < 256)"

definition write_deposit_entry :: "deposit_entry \<Rightarrow> bytes" where
  "write_deposit_entry e = write_u8 (de_asset_index e) @ de_view_tag e @ de_owner e @ to_le_bytes 8 (de_amount e)
    @ write_option (write_blob 2) (de_memo e)"

definition read_deposit_entry :: "deposit_entry reader" where
  "read_deposit_entry = read_then read_u8 (\<lambda>i. read_then (read_bytes 32) (\<lambda>t. read_then (read_bytes 32) (\<lambda>owner.
    read_then (read_uint 8) (\<lambda>n. read_then (read_option (read_blob 2)) (\<lambda>m.
    read_return \<lparr>de_asset_index = i, de_view_tag = t, de_owner = owner, de_amount = n, de_memo = m\<rparr>)))))"

definition deposit_entry_ok :: "deposit_entry \<Rightarrow> bool" where
  "deposit_entry_ok e \<longleftrightarrow> de_asset_index e < 256 \<and> bytes_ok 32 (de_view_tag e) \<and> bytes_ok 32 (de_owner e) \<and> u64_ok (de_amount e)
    \<and> option_ok (blob_ok 2) (de_memo e)"

definition write_encrypted_deposit :: "encrypted_ring_deposit_data \<Rightarrow> bytes" where
  "write_encrypted_deposit d = erd_tx_viewing_pk d @ erd_salt d @ write_blob 2 (erd_ciphertext d)"

definition read_encrypted_deposit :: "encrypted_ring_deposit_data reader" where
  "read_encrypted_deposit = read_then (read_bytes 33) (\<lambda>k. read_then (read_bytes 16) (\<lambda>s. read_then (read_blob 2) (\<lambda>c.
    read_return \<lparr>erd_tx_viewing_pk = k, erd_salt = s, erd_ciphertext = c\<rparr>)))"

definition encrypted_deposit_ok :: "encrypted_ring_deposit_data \<Rightarrow> bool" where
  "encrypted_deposit_ok d \<longleftrightarrow> bytes_ok 33 (erd_tx_viewing_pk d) \<and> bytes_ok 16 (erd_salt d) \<and> blob_ok 2 (erd_ciphertext d)"

definition write_ring_deposit_entry :: "ring_deposit_entry \<Rightarrow> bytes" where
  "write_ring_deposit_entry e = write_u8 (re_asset_index e) @ re_view_tag e @ re_owner_utxo_hash e @ to_le_bytes 8 (re_amount e)
    @ re_ring_data_hash e @ write_encrypted_deposit (re_encrypted e)"

definition read_ring_deposit_entry :: "ring_deposit_entry reader" where
  "read_ring_deposit_entry = read_then read_u8 (\<lambda>i. read_then (read_bytes 32) (\<lambda>t. read_then (read_bytes 32) (\<lambda>h.
    read_then (read_uint 8) (\<lambda>n. read_then (read_bytes 32) (\<lambda>r. read_then read_encrypted_deposit (\<lambda>d.
    read_return \<lparr>re_asset_index = i, re_view_tag = t, re_owner_utxo_hash = h, re_amount = n, re_ring_data_hash = r, re_encrypted = d\<rparr>))))))"

definition ring_deposit_entry_ok :: "ring_deposit_entry \<Rightarrow> bool" where
  "ring_deposit_entry_ok e \<longleftrightarrow> re_asset_index e < 256 \<and> bytes_ok 32 (re_view_tag e) \<and> bytes_ok 32 (re_owner_utxo_hash e)
    \<and> u64_ok (re_amount e) \<and> bytes_ok 32 (re_ring_data_hash e) \<and> encrypted_deposit_ok (re_encrypted e)"

type_synonym 'e deposit_ix_data = "deposit_asset_kind list \<times> 'e list"

definition write_deposit_ix :: "deposit_entry deposit_ix_data \<Rightarrow> bytes" where
  "write_deposit_ix x = write_vec 1 write_asset_kind (fst x) @ write_vec 1 write_deposit_entry (snd x)"

definition read_deposit_ix :: "deposit_entry deposit_ix_data reader" where
  "read_deposit_ix = read_then (read_vec 1 read_asset_kind) (\<lambda>a. read_then (read_vec 1 read_deposit_entry) (\<lambda>es. read_return (a, es)))"

definition deposit_ix_ok :: "deposit_entry deposit_ix_data \<Rightarrow> bool" where
  "deposit_ix_ok x \<longleftrightarrow> vec_ok 1 asset_kind_ok (fst x) \<and> vec_ok 1 deposit_entry_ok (snd x)"

definition write_ring_deposit_ix :: "ring_deposit_entry deposit_ix_data \<Rightarrow> bytes" where
  "write_ring_deposit_ix x = write_vec 1 write_asset_kind (fst x) @ write_vec 1 write_ring_deposit_entry (snd x)"

definition read_ring_deposit_ix :: "ring_deposit_entry deposit_ix_data reader" where
  "read_ring_deposit_ix = read_then (read_vec 1 read_asset_kind) (\<lambda>a. read_then (read_vec 1 read_ring_deposit_entry) (\<lambda>es. read_return (a, es)))"

definition ring_deposit_ix_ok :: "ring_deposit_entry deposit_ix_data \<Rightarrow> bool" where
  "ring_deposit_ix_ok x \<longleftrightarrow> vec_ok 1 asset_kind_ok (fst x) \<and> vec_ok 1 ring_deposit_entry_ok (snd x)"


section \<open>Accounts (account.rs)\<close>

record deposit_asset_group =
  dg_asset :: bytes
  dg_asset_field :: bytes
  dg_settlement :: settlement

record deposit_accounts =
  da_tree :: account_view
  da_groups :: "deposit_asset_group list"

definition deposit_validate_sol :: "ledger \<Rightarrow> account_view \<Rightarrow> account_view \<Rightarrow> account_view \<Rightarrow> nat presult" where
  "deposit_validate_sol L depositor system sol_interface =
    (if address_of system \<noteq> system_program_id then Inl (pool_err InvalidSettlementAccounts)
     else validate_sol_settlement L sol_interface depositor)"

definition deposit_validate_spl :: "runtime \<Rightarrow> token_runtime \<Rightarrow> ledger \<Rightarrow> account_view \<Rightarrow> account_view \<Rightarrow> account_view
    \<Rightarrow> account_view \<Rightarrow> account_view \<Rightarrow> nat \<Rightarrow> validated_spl_settlement presult" where
  "deposit_validate_spl R T L authority mint user_token spl_interface token_program bump =
    validate_spl_deposit_settlement R T L mint spl_interface user_token token_program bump authority"

definition deposit_group :: "hash_fn \<Rightarrow> runtime \<Rightarrow> token_runtime \<Rightarrow> ledger \<Rightarrow> account_view \<Rightarrow> deposit_asset_kind \<Rightarrow> account_iterator
    \<Rightarrow> (deposit_asset_group \<times> account_iterator) presult" where
  "deposit_group P R T L depositor kind it =
    (case kind of
       Sol_Asset \<Rightarrow>
         rbind (acct (next_account it)) (\<lambda>(system, it).
         rbind (acct (next_account it)) (\<lambda>(pool, it).
         rbind (deposit_validate_sol L depositor system pool) (\<lambda>bump.
           Inr (\<lparr>dg_asset = zero32, dg_asset_field = SOL_ASSET_FIELD, dg_settlement = Settle_SolDeposit
             \<lparr>sa_sol_interface = pool, sa_sol_interface_bump = bump, sa_recipient = depositor\<rparr>\<rparr>, it))))
     | Spl_Asset bump \<Rightarrow>
         rbind (acct (next_account it)) (\<lambda>(program, it).
         rbind (acct (next_account it)) (\<lambda>(mint, it).
         rbind (acct (next_account it)) (\<lambda>(user, it).
         rbind (acct (next_account it)) (\<lambda>(vault, it).
         rbind (deposit_validate_spl R T L depositor mint user vault program bump) (\<lambda>v.
         rbind (hash_err (hash_bytes P (vs_mint v))) (\<lambda>field.
           Inr (\<lparr>dg_asset = vs_mint v, dg_asset_field = field, dg_settlement = Settle_SplDeposit
             \<lparr>sd_mint = mint, sd_decimals = vs_decimals v, sd_spl_interface = vault, sd_token_authority = depositor,
               sd_user_token = user, sd_token_program = program\<rparr>\<rparr>, it))))))))"

fun deposit_groups :: "hash_fn \<Rightarrow> runtime \<Rightarrow> token_runtime \<Rightarrow> ledger \<Rightarrow> account_view \<Rightarrow> deposit_asset_kind list
    \<Rightarrow> deposit_asset_group list \<Rightarrow> account_iterator \<Rightarrow> (deposit_asset_group list \<times> account_iterator) presult" where
  "deposit_groups P R T L depositor [] groups it = Inr (groups, it)"
| "deposit_groups P R T L depositor (kind # kinds) groups it =
    rbind (deposit_group P R T L depositor kind it) (\<lambda>(group, it).
      if \<exists>g \<in> set groups. dg_asset g = dg_asset group then Inl (pool_err DuplicateDepositAsset)
      else deposit_groups P R T L depositor kinds (groups @ [group]) it)"

definition deposit_validate_and_parse :: "hash_fn \<Rightarrow> runtime \<Rightarrow> token_runtime \<Rightarrow> ledger \<Rightarrow> bool \<Rightarrow> account_view list
    \<Rightarrow> deposit_asset_kind list \<Rightarrow> (deposit_accounts \<times> bytes option) presult" where
  "deposit_validate_and_parse P R T L has_ring accounts assets =
    (if assets = [] then Inl (pool_err InvalidSettlementAccounts)
     else if MAX_DEPOSIT_ASSETS < length assets then Inl (pool_err TooManyDepositAssets)
     else
     rbind (acct (next_mut (iter_new accounts))) (\<lambda>(tree, it).
     rbind (acct (next_signer it)) (\<lambda>(depositor, it).
     rbind (if has_ring
            then rbind (acct (next_signer it)) (\<lambda>(account, it).
                 rbind (load_active_ring_config R L account) (\<lambda>config. Inr (Some (rc_program_id config), it)))
            else Inr (None, it)) (\<lambda>(ring, it).
     rbind (acct (next_account it)) (\<lambda>(program, it).
     if address_of program \<noteq> rt_program_id R then Inl (pool_err InvalidSettlementAccounts)
     else rbind (deposit_groups P R T L depositor assets [] it) (\<lambda>(groups, it).
       if \<not> iterator_is_empty it then Inl (pool_err InvalidSettlementAccounts)
       else Inr (\<lparr>da_tree = tree, da_groups = groups\<rparr>, ring)))))))"


section \<open>The handler (processor.rs, event.rs)\<close>

definition field_from_u64 :: "nat \<Rightarrow> bytes" where "field_from_u64 value = replicate 24 0 @ to_be_bytes 8 value"

definition UTXO_DOMAIN_FIELD :: bytes where "UTXO_DOMAIN_FIELD = field_from_u64 3"

datatype processing_entry = Default_Entry deposit_entry | Ring_Entry ring_deposit_entry

definition check_entry_field_elements :: "processing_entry \<Rightarrow> unit presult" where
  "check_entry_field_elements e =
    (case e of
       Default_Entry d \<Rightarrow> check_field_element (de_owner d) NonCanonicalDepositField
     | Ring_Entry r \<Rightarrow> rbind (check_field_element (re_owner_utxo_hash r) NonCanonicalDepositField) (\<lambda>_.
         check_field_element (re_ring_data_hash r) NonCanonicalDepositField))"

primrec entry_asset_index :: "processing_entry \<Rightarrow> nat" where
  "entry_asset_index (Default_Entry d) = de_asset_index d"
| "entry_asset_index (Ring_Entry r) = re_asset_index r"

primrec entry_amount :: "processing_entry \<Rightarrow> nat" where
  "entry_amount (Default_Entry d) = de_amount d"
| "entry_amount (Ring_Entry r) = re_amount r"

definition proof_failed :: "(hasher_error, 'a) result \<Rightarrow> 'a presult" where
  "proof_failed m = map_err (\<lambda>_. pool_err TransactProofVerificationFailed) m"

definition hash_with_program_id :: "hash_fn \<Rightarrow> bytes \<Rightarrow> bytes \<Rightarrow> bytes presult" where
  "hash_with_program_id P data_hash program_id_field = proof_failed (P [data_hash, program_id_field])"

definition proofless_output_utxo :: "deposit_entry \<Rightarrow> bytes \<Rightarrow> bytes \<Rightarrow> bytes \<Rightarrow> output_utxo presult" where
  "proofless_output_utxo e blinding utxo_hash asset =
    rbind (ok_or (encode_output_data \<lparr>po_owner = de_owner e, po_blinding = blinding, po_asset = asset, po_amount = de_amount e,
        po_data_hash = None, po_utxo_data = None, po_ring_program_id = None, po_ring_data_hash = None, po_ring_data = None,
        po_memo = de_memo e\<rparr>) Panicked) (\<lambda>bs.
      Inr \<lparr>ou_view_tag = de_view_tag e, ou_utxo_hash = utxo_hash, ou_data = bs\<rparr>)"

definition encrypted_ring_output_utxo :: "ring_deposit_entry \<Rightarrow> bytes \<Rightarrow> bytes \<Rightarrow> bytes \<Rightarrow> output_utxo presult" where
  "encrypted_ring_output_utxo e utxo_hash asset ring_program_id =
    rbind (ok_or (encode_encrypted_ring_deposit_output \<lparr>ero_owner_utxo_hash = re_owner_utxo_hash e, ero_asset = asset,
        ero_amount = re_amount e, ero_data_hash = None, ero_ring_program_id = ring_program_id, ero_ring_data_hash = re_ring_data_hash e,
        ero_encrypted = re_encrypted e\<rparr>) Panicked) (\<lambda>bs.
      Inr \<lparr>ou_view_tag = re_view_tag e, ou_utxo_hash = utxo_hash, ou_data = bs\<rparr>)"

text \<open>What the loop reads besides the entry: the tree's address, its id as a field, its next leaf, the groups and the ring.\<close>

record deposit_context =
  dc_tree :: address
  dc_tree_id :: bytes
  dc_first_leaf :: nat
  dc_groups :: "deposit_asset_group list"
  dc_has_ring :: bool
  dc_ring :: "bytes option"
  dc_ring_field :: bytes

definition entry_blinding :: "hash_fn \<Rightarrow> deposit_context \<Rightarrow> nat \<Rightarrow> bytes presult" where
  "entry_blinding sha c index =
    (if dc_has_ring c then Inr zero32
     else rbind (ok_or (checked_add (dc_first_leaf c) index) (pool_err StateAppendFailed)) (\<lambda>leaf.
       map_err (\<lambda>_. pool_err DepositBlindingDerivationFailed) (deposit_blinding sha (dc_tree c) leaf)))"

definition entry_utxo_hash :: "hash_fn \<Rightarrow> deposit_context \<Rightarrow> deposit_asset_group \<Rightarrow> bytes \<Rightarrow> processing_entry \<Rightarrow> bytes presult" where
  "entry_utxo_hash P c g blinding e =
    rbind (case e of
        Default_Entry d \<Rightarrow> rbind (proof_failed (P [de_owner d, blinding])) (\<lambda>h. Inr (ZERO_BYTES ! 1, h))
      | Ring_Entry r \<Rightarrow> rbind (hash_with_program_id P (re_ring_data_hash r) (dc_ring_field c)) (\<lambda>h. Inr (h, re_owner_utxo_hash r)))
      (\<lambda>(ring_hash, owner_utxo_hash).
        proof_failed (P [UTXO_DOMAIN_FIELD, dc_tree_id c, dg_asset_field g, field_from_u64 (entry_amount e), zero32, ring_hash,
          owner_utxo_hash]))"

text \<open>The running totals: a map of fixed capacity, its entries in the order they were added.\<close>

definition add_asset_sum :: "nat \<Rightarrow> nat \<Rightarrow> (nat \<times> nat) list \<Rightarrow> (nat \<times> nat) list presult" where
  "add_asset_sum index amount sums =
    (case map_of sums index of
       Some acc \<Rightarrow> rbind (ok_or (checked_add acc amount) (pool_err DepositAmountOverflow)) (\<lambda>t.
         Inr (map (\<lambda>(k, v). if k = index then (k, t) else (k, v)) sums))
     | None \<Rightarrow> if length sums < MAX_DEPOSIT_ASSETS then Inr (sums @ [(index, amount)]) else Inl (pool_err TooManyDepositAssets))"

definition entry_output :: "deposit_context \<Rightarrow> processing_entry \<Rightarrow> bytes \<Rightarrow> bytes \<Rightarrow> bytes \<Rightarrow> output_utxo presult" where
  "entry_output c e blinding utxo_hash asset =
    (case e of
       Default_Entry d \<Rightarrow> proofless_output_utxo d blinding utxo_hash asset
     | Ring_Entry r \<Rightarrow> rbind (ok_or (dc_ring c) (pool_err InvalidRingConfig)) (encrypted_ring_output_utxo r utxo_hash asset))"

fun deposit_entries :: "hash_fn \<Rightarrow> hash_fn \<Rightarrow> deposit_context \<Rightarrow> nat \<Rightarrow> processing_entry list
    \<Rightarrow> bytes list \<Rightarrow> (nat \<times> nat) list \<Rightarrow> output_utxo list \<Rightarrow> (bytes list \<times> (nat \<times> nat) list \<times> output_utxo list) presult" where
  "deposit_entries P sha c index [] hashes sums outputs = Inr (hashes, sums, outputs)"
| "deposit_entries P sha c index (e # rest) hashes sums outputs =
    rbind (check_entry_field_elements e) (\<lambda>_.
    rbind (ok_or (get (dc_groups c) (entry_asset_index e)) (pool_err InvalidDepositAssetIndex)) (\<lambda>group.
    rbind (entry_blinding sha c index) (\<lambda>blinding.
    rbind (entry_utxo_hash P c group blinding e) (\<lambda>utxo_hash.
    rbind (add_asset_sum (entry_asset_index e) (entry_amount e) sums) (\<lambda>sums'.
    rbind (entry_output c e blinding utxo_hash (dg_asset group)) (\<lambda>output.
      deposit_entries P sha c (index + 1) rest (hashes @ [utxo_hash]) sums' (outputs @ [output])))))))"

fun settle_deposits :: "runtime \<Rightarrow> token_runtime \<Rightarrow> deposit_asset_group list \<Rightarrow> (nat \<times> nat) list \<Rightarrow> spl_transfer list \<Rightarrow> ledger
    \<Rightarrow> (spl_transfer list \<times> ledger) presult" where
  "settle_deposits R T groups [] transfers L = Inr (transfers, L)"
| "settle_deposits R T groups ((index, asset_sum) # rest) transfers L =
    rbind (ok_or (get groups index) (pool_err InvalidDepositAssetIndex)) (\<lambda>group.
    if \<not> settlement_is_deposit (dg_settlement group) then Inl (pool_err InvalidSettlementAccounts)
    else rbind (if 0 < asset_sum then settle R T (dg_settlement group) asset_sum L else Inr L) (\<lambda>L1.
      settle_deposits R T groups rest
        (transfers @ [\<lparr>st_is_deposit = True, st_amount = asset_sum, st_asset = spl_asset (dg_settlement group)\<rparr>]) L1))"

definition process_deposit_internal :: "hash_fn \<Rightarrow> hash_fn \<Rightarrow> runtime \<Rightarrow> token_runtime \<Rightarrow> bool \<Rightarrow> account_view list
    \<Rightarrow> deposit_asset_kind list \<Rightarrow> processing_entry list \<Rightarrow> ledger \<Rightarrow> outcome presult" where
  "process_deposit_internal P sha R T has_ring accounts assets entries L =
    (if entries = [] then Inl (pool_err EmptyDepositBatch)
     else
     rbind (deposit_validate_and_parse P R T L has_ring accounts assets) (\<lambda>(parsed, ring).
     rbind (case ring of Some pid \<Rightarrow> hash_err (hash_bytes P pid) | None \<Rightarrow> Inr zero32) (\<lambda>ring_field.
     rbind (map_err (\<lambda>e. pool_err (pool_error_of_tree e)) (load_tree R L (da_tree parsed))) (\<lambda>l.
     let first = utxo_next_index (ta_utxo l);
         c = \<lparr>dc_tree = address_of (da_tree parsed), dc_tree_id = tree_id_array l, dc_first_leaf = first, dc_groups = da_groups parsed,
           dc_has_ring = has_ring, dc_ring = ring, dc_ring_field = ring_field\<rparr> in
     rbind (deposit_entries P sha c 0 entries [] [] []) (\<lambda>(hashes, sums, outputs).
     let (u, appended) = append_batch P hashes (clock_slot R) (ta_utxo l) in
     rbind (map_err (\<lambda>e. pool_err (pool_error_of_tree e)) appended) (\<lambda>_.
     let L1 = set_data (address_of (da_tree parsed)) (Tree_Data (l\<lparr>ta_utxo := u\<rparr>)) L in
     if length sums \<noteq> length (da_groups parsed) then Inl (pool_err UnreferencedDepositAsset)
     else rbind (settle_deposits R T (da_groups parsed) sums [] L1) (\<lambda>(transfers, L2).
       emit_event Deposit_Event (write_general_event \<lparr>ge_inputs = [], ge_outputs = outputs, ge_messages = [],
         ge_tx_viewing_pk = replicate 33 0, ge_salt = replicate 16 0, ge_first_output_leaf_index = first,
         ge_output_tree = address_of (da_tree parsed), ge_spl_transfers = transfers\<rparr>) L2)))))))"

definition process_deposit :: "hash_fn \<Rightarrow> hash_fn \<Rightarrow> runtime \<Rightarrow> token_runtime \<Rightarrow> account_view list \<Rightarrow> bytes \<Rightarrow> ledger \<Rightarrow> outcome presult" where
  "process_deposit P sha R T accounts data L =
    rbind (ok_or (try_from_slice read_deposit_ix data) (pool_err InvalidInstructionData)) (\<lambda>(assets, deposits).
      process_deposit_internal P sha R T False accounts assets (map Default_Entry deposits) L)"

definition process_ring_deposit :: "hash_fn \<Rightarrow> hash_fn \<Rightarrow> runtime \<Rightarrow> token_runtime \<Rightarrow> account_view list \<Rightarrow> bytes \<Rightarrow> ledger \<Rightarrow> outcome presult" where
  "process_ring_deposit P sha R T accounts data L =
    rbind (ok_or (try_from_slice read_ring_deposit_ix data) (pool_err InvalidInstructionData)) (\<lambda>(assets, deposits).
      process_deposit_internal P sha R T True accounts assets (map Ring_Entry deposits) L)"


section \<open>The payload reads back\<close>

interpretation asset_kind: codec read_asset_kind write_asset_kind asset_kind_ok
proof
  fix k
  assume "asset_kind_ok k"
  then show "reads read_asset_kind (write_asset_kind k) k"
    unfolding read_asset_kind_def write_asset_kind_def asset_kind_ok_def
    by (cases k) (auto intro!: codec_steps reads_last[OF reads_u8] simp: reads_return)
qed

interpretation deposit_entry: codec read_deposit_entry write_deposit_entry deposit_entry_ok
  by unfold_locales
    (auto simp: read_deposit_entry_def write_deposit_entry_def deposit_entry_ok_def codec_limits
      intro!: reads_final[OF blob16.law_option] codec_steps)

interpretation encrypted_deposit: codec read_encrypted_deposit write_encrypted_deposit encrypted_deposit_ok
  by unfold_locales
    (auto simp: read_encrypted_deposit_def write_encrypted_deposit_def encrypted_deposit_ok_def intro!: codec_steps)

interpretation ring_deposit_entry: codec read_ring_deposit_entry write_ring_deposit_entry ring_deposit_entry_ok
  by unfold_locales
    (auto simp: read_ring_deposit_entry_def write_ring_deposit_entry_def ring_deposit_entry_ok_def codec_limits
      intro!: reads_final[OF encrypted_deposit.law] codec_steps)

interpretation deposit_ix: codec read_deposit_ix write_deposit_ix deposit_ix_ok
  by unfold_locales
    (auto simp: read_deposit_ix_def write_deposit_ix_def deposit_ix_ok_def
      intro!: reads_then[OF asset_kind.law_vec] reads_final[OF deposit_entry.law_vec])

interpretation ring_deposit_ix: codec read_ring_deposit_ix write_ring_deposit_ix ring_deposit_ix_ok
  by unfold_locales
    (auto simp: read_ring_deposit_ix_def write_ring_deposit_ix_def ring_deposit_ix_ok_def
      intro!: reads_then[OF asset_kind.law_vec] reads_final[OF ring_deposit_entry.law_vec])


section \<open>Totals and leaves\<close>

text \<open>What a batch deposits of the asset with the given index.\<close>

definition deposited :: "nat \<Rightarrow> processing_entry list \<Rightarrow> nat" where
  "deposited k es = sum_list (map entry_amount (filter (\<lambda>e. entry_asset_index e = k) es))"

definition totals :: "(nat \<times> nat) list \<Rightarrow> nat \<Rightarrow> nat" where
  "totals sums k = (case map_of sums k of Some n \<Rightarrow> n | None \<Rightarrow> 0)"

lemma add_asset_sum_success:
  assumes "add_asset_sum k n sums = Inr sums'" "distinct (map fst sums)"
  shows "distinct (map fst sums') \<and> fst ` set sums' = insert k (fst ` set sums)
    \<and> (\<forall>j. totals sums' j = totals sums j + (if j = k then n else 0))"
proof (cases "map_of sums k")
  case None
  have s: "sums' = sums @ [(k, n)]" using assms(1) None by (simp add: add_asset_sum_def split: if_splits)
  have k: "k \<notin> fst ` set sums" using None by (simp add: map_of_eq_None_iff)
  have "map_of sums' j = (if j = k then Some n else map_of sums j)" for j
    using None by (auto simp: s map_add_def split: option.splits)
  then show ?thesis using s k assms(2) None by (auto simp: totals_def)
next
  case (Some t)
  then have s: "sums' = map (\<lambda>(i, v). if i = k then (i, t + n) else (i, v)) sums"
    using assms(1) Some by (auto simp: add_asset_sum_def result_simps checked_add_def split: if_splits)
  have f: "map fst sums' = map fst sums" by (auto simp: s)
  have m: "map_of sums' j = (if j = k then map_option (\<lambda>_. t + n) (map_of sums k) else map_of sums j)" for j
    unfolding s by (induction sums) auto
  have "k \<in> fst ` set sums" using Some by (auto dest: map_of_SomeD intro: rev_image_eqI)
  moreover have "fst ` set sums' = fst ` set sums" using f by (metis list.set_map)
  ultimately show ?thesis using f assms(2) m Some by (auto simp: totals_def)
qed

text \<open>Entry number \<open>i\<close> of the batch, with its group, blinding and hash.\<close>

definition entry_hashed :: "hash_fn \<Rightarrow> hash_fn \<Rightarrow> deposit_context \<Rightarrow> nat \<Rightarrow> processing_entry \<Rightarrow> bytes \<Rightarrow> bool" where
  "entry_hashed P sha c i e h \<longleftrightarrow>
     (\<exists>g b. entry_asset_index e < length (dc_groups c) \<and> g = dc_groups c ! entry_asset_index e \<and> entry_blinding sha c i = Inr b
        \<and> entry_utxo_hash P c g b e = Inr h)"

lemma deposit_entries_success:
  assumes "deposit_entries P sha c i es hashes sums outputs = Inr (hashes', sums', outputs')" "distinct (map fst sums)"
  shows "(\<exists>new. hashes' = hashes @ new \<and> list_all2 (\<lambda>(j, e) h. entry_hashed P sha c j e h) (enumerate i es) new)
    \<and> (\<forall>k. totals sums' k = totals sums k + deposited k es) \<and> distinct (map fst sums')
    \<and> fst ` set sums' = fst ` set sums \<union> entry_asset_index ` set es"
  using assms
proof (induction P sha c i es hashes sums outputs rule: deposit_entries.induct)
  case (1 P sha c i hashes sums outputs)
  then show ?case by (simp add: deposited_def)
next
  case (2 P sha c i e rest hashes sums outputs)
  from 2(2) obtain u g b h sums1 out where s: "check_entry_field_elements e = Inr u" "get (dc_groups c) (entry_asset_index e) = Some g"
    "entry_blinding sha c i = Inr b" "entry_utxo_hash P c g b e = Inr h" "add_asset_sum (entry_asset_index e) (entry_amount e) sums = Inr sums1"
    "entry_output c e b h (dg_asset g) = Inr out"
    "deposit_entries P sha c (i + 1) rest (hashes @ [h]) sums1 (outputs @ [out]) = Inr (hashes', sums', outputs')"
    by (auto simp: result_simps)
  have k: "ok_or (get (dc_groups c) (entry_asset_index e)) (pool_err InvalidDepositAssetIndex) = Inr g" using s(2) by simp
  note a = add_asset_sum_success[OF s(5) 2(3)]
  have one: "entry_hashed P sha c i e h" using s(2-4) by (auto simp: entry_hashed_def result_simps)
  from 2(1)[OF s(1) k s(3-7)] a obtain new where IH: "hashes' = (hashes @ [h]) @ new"
    "list_all2 (\<lambda>(j, e) h. entry_hashed P sha c j e h) (enumerate (i + 1) rest) new"
    "\<forall>k. totals sums' k = totals sums1 k + deposited k rest" "distinct (map fst sums')"
    "fst ` set sums' = fst ` set sums1 \<union> entry_asset_index ` set rest" by blast
  have "totals sums' k = totals sums k + deposited k (e # rest)" for k
    using IH(3) a by (simp add: deposited_def)
  then show ?case using IH one a by (auto intro!: exI[of _ "h # new"])
qed


section \<open>Funding\<close>

definition sol_deposited :: "deposit_asset_group list \<Rightarrow> processing_entry list \<Rightarrow> nat" where
  "sol_deposited groups es =
    sum_list (map (\<lambda>e. if spl_asset (dg_settlement (groups ! entry_asset_index e)) = None then entry_amount e else 0) es)"

lemma deposited_by_asset:
  assumes "finite K" "entry_asset_index ` set es \<subseteq> K"
  shows "(\<Sum>k \<in> K. if p k then deposited k es else 0) = sum_list (map (\<lambda>e. if p (entry_asset_index e) then entry_amount e else 0) es)"
  using assms(2)
proof (induction es)
  case Nil
  then show ?case by (simp add: deposited_def cong: if_cong)
next
  case (Cons e es)
  have "(\<Sum>k \<in> K. if p k then deposited k (e # es) else 0)
      = (\<Sum>k \<in> K. (if entry_asset_index e = k then (if p k then entry_amount e else 0) else 0) + (if p k then deposited k es else 0))"
    by (rule sum.cong) (auto simp: deposited_def)
  also have "\<dots> = (if p (entry_asset_index e) then entry_amount e else 0) + (\<Sum>k \<in> K. if p k then deposited k es else 0)"
    using Cons.prems assms(1) by (simp add: sum.distrib sum.delta')
  finally show ?case using Cons by simp
qed

definition group_checked :: "hash_fn \<Rightarrow> deposit_asset_group \<Rightarrow> bool" where
  "group_checked P g \<longleftrightarrow> settlement_checked (dg_settlement g) \<and> settlement_is_deposit (dg_settlement g)
     \<and> asset_field P (dg_settlement g) = Inr (dg_asset_field g)"

lemma deposit_group_checked:
  assumes "deposit_group P R T L depositor kind it = Inr (g, it')"
  shows "group_checked P g"
  using assms
  by (cases kind)
    (auto simp: deposit_group_def result_simps group_checked_def deposit_validate_sol_def validate_sol_settlement_def asset_field_def
      deposit_validate_spl_def validate_spl_deposit_settlement_def validate_spl_settlement_def read_token_account_def
      validate_token_program_eq_Inr read_token_mint_def)

lemma deposit_groups_checked:
  assumes "deposit_groups P R T L depositor kinds groups it = Inr (groups', it')" "list_all (group_checked P) groups"
  shows "list_all (group_checked P) groups'"
  using assms
proof (induction P R T L depositor kinds groups it rule: deposit_groups.induct)
  case (2 P R T L depositor kind kinds groups it)
  then obtain g it1 where g: "deposit_group P R T L depositor kind it = Inr (g, it1)" "\<not> (\<exists>x \<in> set groups. dg_asset x = dg_asset g)"
    "deposit_groups P R T L depositor kinds (groups @ [g]) it1 = Inr (groups', it')"
    by (auto simp: result_simps split: if_splits)
  show ?case by (rule 2(1)[OF g(1) refl g(2,3)]) (use 2(3) deposit_group_checked[OF g(1)] in simp)
qed simp

lemma settle_deposits_success:
  assumes run: "settle_deposits R T groups sums transfers L = Inr (transfers', L')"
    and ok: "system_ok R" "token_ok T" "custody_ok R" "token_ids_ok R" "rt_program_id R \<noteq> system_program_id"
    and groups: "list_all (group_checked P) groups" and sol: "acc_owner (L SOL_INTERFACE) = system_program_id"
  shows "acc_owner (L' SOL_INTERFACE) = system_program_id
    \<and> lamports L' SOL_INTERFACE = lamports L SOL_INTERFACE
        + sum_list (map (\<lambda>(k, n). if spl_asset (dg_settlement (groups ! k)) = None then n else 0) sums)
    \<and> (\<forall>a. acc_owner (L a) = rt_program_id R \<longrightarrow> acc_owner (L' a) = rt_program_id R \<and> acc_data (L' a) = acc_data (L a))"
  using run sol
proof (induction sums arbitrary: transfers L)
  case (Cons s sums)
  obtain k n where s: "s = (k, n)" by (cases s)
  let ?g = "groups ! k"
  obtain L1 where k: "k < length groups" "settlement_is_deposit (dg_settlement ?g)"
    and L1: "(if 0 < n then settle R T (dg_settlement ?g) n L else Inr L) = Inr L1"
    and rest: "settle_deposits R T groups sums
      (transfers @ [\<lparr>st_is_deposit = True, st_amount = n, st_asset = spl_asset (dg_settlement ?g)\<rparr>]) L1 = Inr (transfers', L')"
    using Cons.prems(1) by (auto simp: s result_simps split: if_splits)
  have g: "settlement_checked (dg_settlement ?g)" using groups k(1) by (auto simp: list_all_iff group_checked_def)
  have "acc_owner (L1 SOL_INTERFACE) = system_program_id
    \<and> lamports L1 SOL_INTERFACE = lamports L SOL_INTERFACE + (if spl_asset (dg_settlement ?g) = None then n else 0)
    \<and> (\<forall>a. acc_owner (L a) = rt_program_id R \<longrightarrow> acc_owner (L1 a) = rt_program_id R \<and> acc_data (L1 a) = acc_data (L a))"
  proof (cases "0 < n")
    case True
    then have st: "settle R T (dg_settlement ?g) n L = Inr L1" using L1 by simp
    have "\<not> withdraws_to_custody (dg_settlement ?g)" using k(2) by (cases "dg_settlement ?g") (auto simp: withdraws_to_custody_def)
    then show ?thesis
      using settle_custody(1,3)[OF ok(1,2,3) g Cons.prems(2) st, of "SolDeposit n"] settle_keeps_pool_data[OF ok(1,2,4) g st] k(2)
      by (auto simp: signed_amount_def split: if_splits)
  next
    case False
    then show ?thesis using L1 Cons.prems(2) by simp
  qed
  then show ?case using Cons.IH[OF rest] by (auto simp: s)
qed simp

lemma deposit_success:
  assumes "process_deposit_internal P sha R T has_ring accounts assets entries L = Inr (L', events)"
  obtains a ring field l c hashes sums outputs u transfers where "entries \<noteq> []"
    "deposit_validate_and_parse P R T L has_ring accounts assets = Inr (a, ring)"
    "(case ring of Some pid \<Rightarrow> hash_err (hash_bytes P pid) | None \<Rightarrow> Inr zero32) = Inr field"
    "load_tree R L (da_tree a) = Inr l"
    "c = \<lparr>dc_tree = address_of (da_tree a), dc_tree_id = tree_id_array l, dc_first_leaf = utxo_next_index (ta_utxo l), dc_groups = da_groups a,
       dc_has_ring = has_ring, dc_ring = ring, dc_ring_field = field\<rparr>"
    "deposit_entries P sha c 0 entries [] [] [] = Inr (hashes, sums, outputs)"
    "append_batch P hashes (clock_slot R) (ta_utxo l) = (u, Inr ())" "length sums = length (da_groups a)"
    "settle_deposits R T (da_groups a) sums [] (set_data (address_of (da_tree a)) (Tree_Data (l\<lparr>ta_utxo := u\<rparr>)) L) = Inr (transfers, L')"
    "events = [encode_event_instruction Deposit_Event (write_general_event \<lparr>ge_inputs = [], ge_outputs = outputs, ge_messages = [],
       ge_tx_viewing_pk = replicate 33 0, ge_salt = replicate 16 0, ge_first_output_leaf_index = utxo_next_index (ta_utxo l),
       ge_output_tree = address_of (da_tree a), ge_spl_transfers = transfers\<rparr>)]"
  using assms
  by (auto simp: process_deposit_internal_def result_simps Let_def emit_event_def case_prod_beta split: if_splits)
    (metis prod.collapse)

lemma parsed_groups_checked:
  assumes "deposit_validate_and_parse P R T L has_ring accounts assets = Inr (a, ring)"
  shows "list_all (group_checked P) (da_groups a)"
proof -
  obtain depositor it it' where "deposit_groups P R T L depositor assets [] it = Inr (da_groups a, it')"
    using assms by (auto simp: deposit_validate_and_parse_def result_simps split: if_splits)
  then show ?thesis using deposit_groups_checked by fastforce
qed


definition demo_deposit_accounts :: "account_view list" where
  "demo_deposit_accounts = [user_view 11, user_view 2, program_view 100, demo_system_view, sol_interface_view]"

definition demo_deposit :: processing_entry where
  "demo_deposit = Default_Entry \<lparr>de_asset_index = 0, de_view_tag = zero32, de_owner = demo_address 8, de_amount = 700, de_memo = None\<rparr>"

lemma demo_append: "\<exists>u. append_batch flat_hash [demo_address 9] 50 (ta_utxo demo_tree) = (u, Inr ())"
proof -
  have f: "field_element (demo_address 9)" by (simp add: demo_address_def leading_zero_canonical numeral_eq_Suc)
  have "tree_ok flat_hash accept_all demo_tree []" by (rule demo_tree_init(9))
  then have "utxo_reachable flat_hash (ta_utxo demo_tree) []" "utxo_capacity (ta_utxo demo_tree) = 2 ^ UTXO_TREE_HEIGHT"
    by (simp_all add: tree_ok_def utxo_capacity_def)
  then show ?thesis
    using utxo_reachable_repr[OF flat_hash_ok] append_batch_correct[OF flat_hash_ok, of "ta_utxo demo_tree" "[]" _ "[demo_address 9]" 50] f
    by (fastforce simp: UTXO_TREE_HEIGHT_def)
qed

lemma demo_deposit_parse:
  "deposit_validate_and_parse flat_hash spend_runtime demo_token spend_ledger False demo_deposit_accounts [Sol_Asset]
      = Inr (\<lparr>da_tree = user_view 11, da_groups = [\<lparr>dg_asset = zero32, dg_asset_field = SOL_ASSET_FIELD, dg_settlement = Settle_SolDeposit
          \<lparr>sa_sol_interface = sol_interface_view, sa_sol_interface_bump = SOL_INTERFACE_BUMP, sa_recipient = user_view 2\<rparr>\<rparr>]\<rparr>, None)"
  by (simp add: deposit_validate_and_parse_def deposit_group_def MAX_DEPOSIT_ASSETS_def demo_deposit_accounts_def next_mut_def next_signer_def next_checked_def
        next_account_def check_mut_def check_signer_def deposit_validate_sol_def validate_sol_settlement_def owned_by_def
        demo_ledger_def SOL_INTERFACE_other iterator_is_empty_def iter_new_def)

lemma demo_deposit_entries:
  assumes "dc_groups c = [g]" "\<not> dc_has_ring c" "dc_first_leaf c < 2 ^ 40" "length (dg_asset g) = 32"
  shows "\<exists>outputs. deposit_entries flat_hash flat_hash c 0 [demo_deposit] [] [] [] = Inr ([demo_address 9], [(0, 700)], outputs)"
proof -
  have "check_field_element (demo_address 8) e = Inr ()" for e
    by (simp add: check_field_element_def demo_address_def leading_zero_canonical numeral_eq_Suc)
  moreover have "checked_add (dc_first_leaf c) 0 = Some (dc_first_leaf c)"
    using assms(3) by (simp add: checked_add_def u64_limit_def)
  moreover obtain out where "proofless_output_utxo \<lparr>de_asset_index = 0, de_view_tag = zero32, de_owner = demo_address 8, de_amount = 700,
      de_memo = None\<rparr> ((demo_address 9)[0 := 0]) (demo_address 9) (dg_asset g) = Inr out"
  proof -
    have "length (demo_address n) = 32" for n by (simp add: demo_address_def)
    then have "\<exists>bs. encode_output_data \<lparr>po_owner = demo_address 8, po_blinding = (demo_address 9)[0 := 0], po_asset = dg_asset g, po_amount = 700,
        po_data_hash = None, po_utxo_data = None, po_ring_program_id = None, po_ring_data_hash = None, po_ring_data = None, po_memo = None\<rparr> = Some bs"
      using assms(4) by (simp add: encode_output_data_def encode_tagged_body_def write_proofless_output_def write_option_def Let_def BODY_OFFSET_def
        BODY_LEN_OFFSET_def)
    then show thesis using that by (auto simp: proofless_output_utxo_def)
  qed
  ultimately show ?thesis using assms(1,2)
    by (auto simp: demo_deposit_def check_entry_field_elements_def entry_blinding_def deposit_blinding_def sha256be_hashv_def flat_hash_def get_def
        entry_utxo_hash_def proof_failed_def add_asset_sum_def MAX_DEPOSIT_ASSETS_def entry_output_def)
qed

lemma demo_deposit_runs:
  "\<exists>L' events. process_deposit_internal flat_hash flat_hash spend_runtime demo_token False demo_deposit_accounts [Sol_Asset] [demo_deposit] spend_ledger
     = Inr (L', events)"
proof -
  obtain u where u: "append_batch flat_hash [demo_address 9] 50 (ta_utxo demo_tree) = (u, Inr ())" using demo_append by blast
  let ?M = "set_data (demo_address 11) (Tree_Data (demo_tree\<lparr>ta_utxo := u\<rparr>)) spend_ledger"
  have idx: "utxo_next_index (ta_utxo demo_tree) < 2 ^ 40"
    using demo_tree_init(9)[of flat_hash accept_all] utxo_reachable_repr[OF flat_hash_ok] unfolding tree_ok_def utxo_repr_def utxo_core_def by fastforce
  have "lamports spend_ledger (demo_address 2) = 1000000" by (simp add: demo_ledger_def lamports_def demo_address_inj)
  then obtain N where N: "settle spend_runtime demo_token (Settle_SolDeposit
      \<lparr>sa_sol_interface = sol_interface_view, sa_sol_interface_bump = SOL_INTERFACE_BUMP, sa_recipient = user_view 2\<rparr>) 700 ?M = Inr N"
    by (simp add: settle_sol_def spend_system_def SOL_INTERFACE_other)
  let ?g = "\<lparr>dg_asset = zero32, dg_asset_field = SOL_ASSET_FIELD, dg_settlement = Settle_SolDeposit
          \<lparr>sa_sol_interface = sol_interface_view, sa_sol_interface_bump = SOL_INTERFACE_BUMP, sa_recipient = user_view 2\<rparr>\<rparr>"
  let ?c = "\<lparr>dc_tree = demo_address 11, dc_tree_id = tree_id_array demo_tree, dc_first_leaf = utxo_next_index (ta_utxo demo_tree), dc_groups = [?g],
    dc_has_ring = False, dc_ring = None, dc_ring_field = zero32\<rparr>"
  obtain outputs where o: "deposit_entries flat_hash flat_hash ?c 0 [demo_deposit] [] [] [] = Inr ([demo_address 9], [(0, 700)], outputs)"
    using demo_deposit_entries[of ?c ?g] idx by (auto simp: zero32_def)
  have s: "\<exists>transfers. settle_deposits spend_runtime demo_token [?g] [(0, 700)] [] ?M = Inr (transfers, N)"
    using N by (simp add: get_def del: settle.simps)
  show ?thesis
    using s unfolding process_deposit_internal_def demo_deposit_parse
    by (clarsimp simp: demo_tree_load[simplified] o u emit_event_def Let_def simp del: deposit_entries.simps settle_deposits.simps)
qed


end
