(* ===== verification/Spl_Interface.thy ===== *)
theory Spl_Interface
  imports Spend_Demo Ring_Config
begin

text \<open>
  Asset registration, \<open>create_asset_counter.rs\<close> and \<open>create_spl_interface\<close> of
  \<open>programs/shielded-pool/src/instructions\<close>: the singleton counter that hands out asset
  identifiers, the registry record of a mint and the custody token account.  The
  extension library of the token programs is external: unpacking a mint and the
  size of a token account are fields of \<open>mint_lib\<close>.  The lemmas show that
  registration keeps the registry injective in both directions.
\<close>

definition SPL_ASSET_COUNTER_PDA_SEED :: bytes where
  "SPL_ASSET_COUNTER_PDA_SEED = [115, 112, 108, 95, 97, 115, 115, 101, 116, 95, 99, 111, 117, 110, 116, 101, 114]"

definition SPL_ASSET_REGISTRY_PDA_SEED :: bytes where
  "SPL_ASSET_REGISTRY_PDA_SEED = [115, 112, 108, 95, 97, 115, 115, 101, 116, 95, 114, 101, 103, 105, 115, 116, 114, 121]"

abbreviation spl_asset_counter_of :: "bytes \<Rightarrow> spl_asset_counter option" where
  "spl_asset_counter_of \<equiv> layout_read spl_asset_counter_fields spl_asset_counter_of_fields"

abbreviation spl_asset_counter_bytes :: "spl_asset_counter \<Rightarrow> bytes" where
  "spl_asset_counter_bytes \<equiv> layout_bytes spl_asset_counter_to_fields"

abbreviation spl_asset_registry_bytes :: "spl_asset_registry \<Rightarrow> bytes" where
  "spl_asset_registry_bytes \<equiv> layout_bytes spl_asset_registry_to_fields"


section \<open>The counter (create\_asset\_counter.rs)\<close>

definition load_spl_asset_counter_mut :: "runtime \<Rightarrow> ledger \<Rightarrow> account_view \<Rightarrow> spl_asset_counter presult" where
  "load_spl_asset_counter_mut R L v = load_config_mut R spl_asset_counter_of InvalidSplAssetRegistry (\<lambda>_. True) L v"

definition process_create_asset_counter :: "runtime \<Rightarrow> account_view list \<Rightarrow> bytes \<Rightarrow> ledger \<Rightarrow> ledger presult" where
  "process_create_asset_counter R accounts data L =
    (if data \<noteq> [] then Inl (pool_err InvalidInstructionData)
     else rbind (acct (next_signer (iter_new accounts))) (\<lambda>(authority, it).
     rbind (acct (next_account it)) (\<lambda>(config, it).
     rbind (acct (next_mut it)) (\<lambda>(counter, it).
     rbind (acct (next_account it)) (\<lambda>(system_program, it).
     if address_of system_program \<noteq> system_program_id then Inl IncorrectProgramId
     else rbind (load_protocol_config R L config) (\<lambda>c.
     rbind (iface (check_protocol_authority c (address_of authority))) (\<lambda>_.
     rbind (verify_pda R (address_of counter) [SPL_ASSET_COUNTER_PDA_SEED] (rt_program_id R)) (\<lambda>bump.
     rbind (map_err (\<lambda>_. pool_err InvalidSplAssetRegistry)
              (create_pda_account R (address_of authority) (address_of counter) SPL_ASSET_COUNTER_SIZE (rt_program_id R)
                 [SPL_ASSET_COUNTER_PDA_SEED] bump L)) (\<lambda>L1.
     rbind (load_spl_asset_counter_mut R L1 counter) (\<lambda>n.
     rbind (iface (ac_init n)) (\<lambda>n'.
       Inr (set_data (address_of counter) (Bytes (spl_asset_counter_bytes n')) L1))))))))))))"


section \<open>The mint (validate.rs)\<close>

text \<open>The extensions the source names; every other one is \<open>Other_Extension\<close> with its number.\<close>

datatype extension_type = InterestBearingConfig | MetadataPointer | TokenMetadata | GroupPointer | TokenGroup
  | GroupMemberPointer | TokenGroupMember | ScaledUiAmount | ConfidentialTransferMint | ConfidentialTransferFeeConfig
  | ConfidentialMintBurn | TransferFeeConfig | Other_Extension nat

record unpacked_mint =
  um_is_initialized :: bool
  um_extension_types :: "extension_type list option"

record mint_lib =
  unpack_mint :: "account_data \<Rightarrow> unpacked_mint option"
  required_account_extensions :: "extension_type list \<Rightarrow> extension_type list"
  calculate_account_len :: "extension_type list \<Rightarrow> nat option"

fun is_allowed_mint_extension :: "extension_type \<Rightarrow> bool" where
  "is_allowed_mint_extension (Other_Extension n) = False"
| "is_allowed_mint_extension e = True"

definition validate_token_mint_for_interface :: "mint_lib \<Rightarrow> ledger \<Rightarrow> account_view \<Rightarrow> address \<Rightarrow> nat presult" where
  "validate_token_mint_for_interface X L mint token_program =
    (if token_program \<noteq> SPL_TOKEN_PROGRAM_ID \<and> token_program \<noteq> SPL_TOKEN_2022_PROGRAM_ID
     then Inl (pool_err UnsupportedSplTokenProgram)
     else if \<not> owned_by L mint token_program then Inl (pool_err InvalidSplTokenMint)
     else rbind (ok_or (unpack_mint X (acc_data (L (address_of mint)))) (pool_err InvalidSplTokenMint)) (\<lambda>state.
     if \<not> um_is_initialized state then Inl (pool_err InvalidSplTokenMint)
     else rbind (ok_or (um_extension_types state) (pool_err InvalidSplTokenMint)) (\<lambda>types.
     if \<not> list_all is_allowed_mint_extension types then Inl (pool_err UnsupportedToken2022Extension)
     else ok_or (calculate_account_len X (required_account_extensions X types)) (pool_err InvalidSplTokenMint))))"


section \<open>Registration (init.rs, processor.rs)\<close>

definition registry_init :: "address \<Rightarrow> nat \<Rightarrow> address \<Rightarrow> ledger \<Rightarrow> ledger presult" where
  "registry_init mint asset_id a L =
    (case acc_data (L a) of
       Tree_Data _ \<Rightarrow> Inl (pool_err InvalidSplAssetRegistry)
     | Bytes bs \<Rightarrow>
        if length bs \<noteq> SPL_ASSET_REGISTRY_SIZE \<or> (\<exists>b \<in> set bs. b \<noteq> 0) then Inl (pool_err InvalidSplAssetRegistry)
        else rbind (ok_or (spl_asset_registry_of bs) Panicked) (\<lambda>r.
          Inr (set_data a (Bytes (spl_asset_registry_bytes (ar_set mint asset_id r))) L)))"

definition spl_interface_init :: "token_runtime \<Rightarrow> address \<Rightarrow> address \<Rightarrow> address \<Rightarrow> ledger \<Rightarrow> ledger presult" where
  "spl_interface_init T token_program spl_interface mint L =
    map_err (\<lambda>_. pool_err InvalidSplAssetRegistry)
      (token_cpi T (Initialize_Account3 token_program spl_interface mint SHIELDED_POOL_CPI_AUTHORITY) L)"

definition allocate_asset_id :: "runtime \<Rightarrow> account_view \<Rightarrow> ledger \<Rightarrow> (nat \<times> ledger) presult" where
  "allocate_asset_id R counter L =
    rbind (load_spl_asset_counter_mut R L counter) (\<lambda>n.
    rbind (map_err (\<lambda>_. pool_err InvalidSplAssetRegistry) (ac_check_discriminator n)) (\<lambda>_.
    rbind (map_err (\<lambda>_. pool_err InvalidSplAssetRegistry) (allocate_id n)) (\<lambda>(n', asset_id).
      Inr (asset_id, set_data (address_of counter) (Bytes (spl_asset_counter_bytes n')) L))))"

definition create_registry_entry :: "runtime \<Rightarrow> address \<Rightarrow> address \<Rightarrow> address \<Rightarrow> nat \<Rightarrow> ledger \<Rightarrow> ledger presult" where
  "create_registry_entry R payer entry mint asset_id L =
    rbind (verify_pda R entry [SPL_ASSET_REGISTRY_PDA_SEED, mint] (rt_program_id R)) (\<lambda>bump.
    if data_len (acc_data (L entry)) \<noteq> 0 then Inl (pool_err InvalidSplAssetRegistry)
    else rbind (map_err (\<lambda>_. pool_err InvalidSplAssetRegistry)
      (create_pda_account R payer entry SPL_ASSET_REGISTRY_SIZE (rt_program_id R) [SPL_ASSET_REGISTRY_PDA_SEED, mint] bump L))
      (registry_init mint asset_id entry))"

definition create_spl_interface_account :: "runtime \<Rightarrow> token_runtime \<Rightarrow> address \<Rightarrow> address \<Rightarrow> address \<Rightarrow> address \<Rightarrow> nat
    \<Rightarrow> ledger \<Rightarrow> ledger presult" where
  "create_spl_interface_account R T payer spl_interface mint token_program len L =
    rbind (verify_pda R spl_interface [SPL_INTERFACE_PDA_SEED, mint] (rt_program_id R)) (\<lambda>bump.
    if data_len (acc_data (L spl_interface)) \<noteq> 0 then Inl (pool_err InvalidSplAssetRegistry)
    else rbind (map_err (\<lambda>_. pool_err InvalidSplAssetRegistry)
      (create_pda_account R payer spl_interface len token_program [SPL_INTERFACE_PDA_SEED, mint] bump L))
      (spl_interface_init T token_program spl_interface mint))"

definition process_create_spl_interface :: "mint_lib \<Rightarrow> runtime \<Rightarrow> token_runtime \<Rightarrow> account_view list \<Rightarrow> bytes \<Rightarrow> ledger
    \<Rightarrow> ledger presult" where
  "process_create_spl_interface X R T accounts data L =
    (if data \<noteq> [] then Inl (pool_err InvalidInstructionData)
     else rbind (acct (next_signer (iter_new accounts))) (\<lambda>(authority, it).
     rbind (acct (next_account it)) (\<lambda>(config, it).
     rbind (acct (next_mut it)) (\<lambda>(counter, it).
     rbind (acct (next_mut it)) (\<lambda>(entry, it).
     rbind (acct (next_account it)) (\<lambda>(mint, it).
     rbind (acct (next_mut it)) (\<lambda>(spl_interface, it).
     rbind (acct (next_account it)) (\<lambda>(system_program, it).
     rbind (acct (next_account it)) (\<lambda>(token_program, it).
     if address_of system_program \<noteq> system_program_id then Inl IncorrectProgramId
     else rbind (validate_token_mint_for_interface X L mint (address_of token_program)) (\<lambda>len.
     rbind (load_protocol_config R L config) (\<lambda>c.
     rbind (if allows_permissionless_spl_interface_creation c then Inr ()
            else iface (check_protocol_authority c (address_of authority))) (\<lambda>_.
     rbind (allocate_asset_id R counter L) (\<lambda>(asset_id, L1).
     rbind (create_registry_entry R (address_of authority) (address_of entry) (address_of mint) asset_id L1) (\<lambda>L2.
       create_spl_interface_account R T (address_of authority) (address_of spl_interface) (address_of mint)
         (address_of token_program) len L2))))))))))))))"


section \<open>What one call does\<close>

text \<open>Typed reading of the two records, and what the token program's initialisation may touch.\<close>

definition counter_at :: "runtime \<Rightarrow> ledger \<Rightarrow> address \<Rightarrow> spl_asset_counter \<Rightarrow> bool" where
  "counter_at R L a n \<longleftrightarrow> acc_owner (L a) = rt_program_id R \<and> acc_data (L a) = Bytes (spl_asset_counter_bytes n)
     \<and> spl_asset_counter_wf n \<and> ac_discriminator n = SPL_ASSET_COUNTER"

definition registry_at :: "runtime \<Rightarrow> ledger \<Rightarrow> address \<Rightarrow> spl_asset_registry \<Rightarrow> bool" where
  "registry_at R L a r \<longleftrightarrow> acc_owner (L a) = rt_program_id R \<and> acc_data (L a) = Bytes (spl_asset_registry_bytes r)
     \<and> spl_asset_registry_wf r \<and> ar_discriminator r = SPL_ASSET_REGISTRY"

definition token_init_ok :: "token_runtime \<Rightarrow> bool" where
  "token_init_ok T \<longleftrightarrow> (\<forall>p a m u L L' b. token_cpi T (Initialize_Account3 p a m u) L = Inr L' \<longrightarrow>
     acc_owner (L' b) = acc_owner (L b) \<and> (acc_owner (L b) \<noteq> p \<longrightarrow> L' b = L b))"

definition same_pool_data :: "runtime \<Rightarrow> ledger \<Rightarrow> ledger \<Rightarrow> bool" where
  "same_pool_data R L L' \<longleftrightarrow> (\<forall>a. (acc_owner (L' a) = rt_program_id R \<longleftrightarrow> acc_owner (L a) = rt_program_id R)
     \<and> (acc_owner (L a) = rt_program_id R \<longrightarrow> acc_data (L' a) = acc_data (L a)))"

lemma cast_counter: "spl_asset_counter_of bs = Some n \<longleftrightarrow> bs = spl_asset_counter_bytes n \<and> spl_asset_counter_wf n"
  using spl_asset_counter.dec_enc spl_asset_counter.enc_dec by blast

lemma cast_registry: "spl_asset_registry_of bs = Some r \<longleftrightarrow> bs = spl_asset_registry_bytes r \<and> spl_asset_registry_wf r"
  using spl_asset_registry.dec_enc spl_asset_registry.enc_dec by blast

lemma load_counter_eq_Inr [account_simps]:
  "load_spl_asset_counter_mut R L v = Inr n \<longleftrightarrow> is_writable v \<and> acc_owner (L (address_of v)) = rt_program_id R
     \<and> acc_data (L (address_of v)) = Bytes (spl_asset_counter_bytes n) \<and> spl_asset_counter_wf n"
  by (auto simp: load_spl_asset_counter_mut_def account_simps owned_by_def cast_counter)

lemma counter_at_unique: "counter_at R L a n \<Longrightarrow> counter_at R L a n' \<Longrightarrow> n = n'"
  unfolding counter_at_def using spl_asset_counter.enc_inj[of n n'] by auto

lemma registry_at_unique: "registry_at R L a r \<Longrightarrow> registry_at R L a r' \<Longrightarrow> r = r'"
  unfolding registry_at_def using spl_asset_registry.enc_inj[of r r'] by auto

lemma allocate_asset_id_eq_Inr:
  "allocate_asset_id R counter L = Inr (i, L') \<longleftrightarrow> is_writable counter
     \<and> (\<exists>n. counter_at R L (address_of counter) n \<and> i = next_id n \<and> FIRST_ASSET_ID \<le> i \<and> u64_ok (i + 1)
        \<and> L' = set_data (address_of counter) (Bytes (spl_asset_counter_bytes (n\<lparr>next_id := i + 1\<rparr>))) L)"
  by (auto simp: allocate_asset_id_def counter_at_def result_simps account_simps ac_check_discriminator_def allocate_id_def
      ensure_def checked_add_def Let_def split: if_splits)

lemma zeroed_registry: "spl_asset_registry_of (replicate SPL_ASSET_REGISTRY_SIZE 0) = Some ar_zeroed"
proof -
  have "replicate SPL_ASSET_REGISTRY_SIZE (0 :: byte) = replicate (1 + 7 + 32 + 8) 0" by (simp add: SPL_ASSET_REGISTRY_SIZE_def)
  also have "\<dots> = [0] @ replicate 7 0 @ replicate 32 0 @ to_le_bytes 8 0" unfolding replicate_add to_le_bytes_zero by simp
  finally show ?thesis
    unfolding cast_registry spl_asset_registry_wf_def layout_bytes_def spl_asset_registry_to_fields_def ar_zeroed_def zero32_def
    by (simp add: u64_limit_def del: to_le_bytes.simps)
qed

lemma registry_init_eq_Inr:
  assumes "acc_data (L a) = Bytes (replicate SPL_ASSET_REGISTRY_SIZE 0)"
  shows "registry_init mint i a L = Inr (set_data a (Bytes (spl_asset_registry_bytes (ar_set mint i ar_zeroed))) L)"
  using assms zeroed_registry by (simp add: registry_init_def)

lemma create_registry_entry_success:
  assumes "system_ok R" "create_registry_entry R payer entry mint i L = Inr L'"
  obtains bump n where "derive_program_address R [SPL_ASSET_REGISTRY_PDA_SEED, mint] (rt_program_id R) = Some (entry, bump)"
    "unused_account L entry"
    "L' = set_data entry (Bytes (spl_asset_registry_bytes (ar_set mint i ar_zeroed)))
       (install entry (rt_program_id R) (Bytes (replicate SPL_ASSET_REGISTRY_SIZE 0)) (move_lamports payer entry n L))"
proof -
  obtain bump L1 where 1: "derive_program_address R [SPL_ASSET_REGISTRY_PDA_SEED, mint] (rt_program_id R) = Some (entry, bump)"
    "create_pda_account R payer entry SPL_ASSET_REGISTRY_SIZE (rt_program_id R) [SPL_ASSET_REGISTRY_PDA_SEED, mint] bump L = Inr L1"
    "registry_init mint i entry L1 = Inr L'"
    using assms(2) by (auto simp: create_registry_entry_def result_simps account_simps split: if_splits)
  from create_pda_account_success[OF assms(1) 1(2)] obtain n where
    2: "unused_account L entry" "L1 = install entry (rt_program_id R) (Bytes (replicate SPL_ASSET_REGISTRY_SIZE 0)) (move_lamports payer entry n L)"
    by blast
  have "acc_data (L1 entry) = Bytes (replicate SPL_ASSET_REGISTRY_SIZE 0)" using 2(2) by simp
  from registry_init_eq_Inr[of L1 entry, OF this] 1(3)
  have "L' = set_data entry (Bytes (spl_asset_registry_bytes (ar_set mint i ar_zeroed))) L1" by simp
  then show thesis using that[OF 1(1) 2(1)] 2(2) by blast
qed

lemma create_spl_interface_account_success:
  assumes "system_ok R" "token_init_ok T" "create_spl_interface_account R T payer spl_interface mint p len L = Inr L'"
    "rt_program_id R \<noteq> p" "rt_program_id R \<noteq> system_program_id"
  shows "same_pool_data R L L'"
proof -
  obtain bump L1 where 1: "create_pda_account R payer spl_interface len p [SPL_INTERFACE_PDA_SEED, mint] bump L = Inr L1"
    "token_cpi T (Initialize_Account3 p spl_interface mint SHIELDED_POOL_CPI_AUTHORITY) L1 = Inr L'"
    using assms(3) by (auto simp: create_spl_interface_account_def spl_interface_init_def result_simps account_simps split: if_splits)
  from create_pda_account_success[OF assms(1) 1(1)] obtain n where
    2: "unused_account L spl_interface" "L1 = install spl_interface p (Bytes (replicate len 0)) (move_lamports payer spl_interface n L)" by blast
  have t: "acc_owner (L' a) = acc_owner (L1 a)" "acc_owner (L1 a) \<noteq> p \<Longrightarrow> L' a = L1 a" for a
    using assms(2) 1(2) unfolding token_init_ok_def by blast+
  have "same_pool_data R L L1" using 2 assms(4,5) by (auto simp: same_pool_data_def unused_account_def)
  moreover have "same_pool_data R L1 L'" using t assms(4) by (auto simp: same_pool_data_def)
  ultimately show ?thesis by (simp add: same_pool_data_def)
qed

lemma create_spl_interface_success:
  assumes "process_create_spl_interface X R T accounts data L = Inr L'"
  obtains authority config counter entry mint spl_interface system_program token_program rest c len n L1 L2 where
    "accounts = authority # config # counter # entry # mint # spl_interface # system_program # token_program # rest" "data = []"
    "is_signer authority" "config_at R L config c"
    "allows_permissionless_spl_interface_creation c \<or> protocol_authority c = address_of authority"
    "validate_token_mint_for_interface X L mint (address_of token_program) = Inr len"
    "counter_at R L (address_of counter) n" "FIRST_ASSET_ID \<le> next_id n" "u64_ok (next_id n + 1)"
    "L1 = set_data (address_of counter) (Bytes (spl_asset_counter_bytes (n\<lparr>next_id := next_id n + 1\<rparr>))) L"
    "create_registry_entry R (address_of authority) (address_of entry) (address_of mint) (next_id n) L1 = Inr L2"
    "create_spl_interface_account R T (address_of authority) (address_of spl_interface) (address_of mint) (address_of token_program) len L2 = Inr L'"
  using assms
  by (auto simp: process_create_spl_interface_def result_simps account_simps allocate_asset_id_eq_Inr split: if_splits)

lemma validated_mint_program:
  assumes "validate_token_mint_for_interface X L mint p = Inr len"
  shows "p \<in> {SPL_TOKEN_PROGRAM_ID, SPL_TOKEN_2022_PROGRAM_ID} \<and> acc_owner (L (address_of mint)) = p
    \<and> (\<exists>u types. unpack_mint X (acc_data (L (address_of mint))) = Some u \<and> um_is_initialized u
        \<and> um_extension_types u = Some types \<and> list_all is_allowed_mint_extension types)"
  using assms by (auto simp: validate_token_mint_for_interface_def result_simps owned_by_def split: if_splits)

lemma create_asset_counter_success:
  assumes "system_ok R" "process_create_asset_counter R accounts data L = Inr L'"
  obtains authority config counter rest c bump n k where
    "accounts = authority # config # counter # rest" "is_signer authority" "config_at R L config c"
    "protocol_authority c = address_of authority"
    "derive_program_address R [SPL_ASSET_COUNTER_PDA_SEED] (rt_program_id R) = Some (address_of counter, bump)"
    "unused_account L (address_of counter)" "counter_at R L' (address_of counter) n" "next_id n = FIRST_ASSET_ID"
    "L' = set_data (address_of counter) (Bytes (spl_asset_counter_bytes n)) (install (address_of counter) (rt_program_id R)
       (Bytes (replicate SPL_ASSET_COUNTER_SIZE 0)) (move_lamports (address_of authority) (address_of counter) k L))"
proof -
  obtain authority config counter rest c bump n0 n L1 where
    1: "accounts = authority # config # counter # rest" "is_signer authority" "config_at R L config c"
      "protocol_authority c = address_of authority"
      "derive_program_address R [SPL_ASSET_COUNTER_PDA_SEED] (rt_program_id R) = Some (address_of counter, bump)"
    and 2: "create_pda_account R (address_of authority) (address_of counter) SPL_ASSET_COUNTER_SIZE (rt_program_id R)
        [SPL_ASSET_COUNTER_PDA_SEED] bump L = Inr L1"
      "spl_asset_counter_wf n0" "ac_init n0 = Inr n" "L' = set_data (address_of counter) (Bytes (spl_asset_counter_bytes n)) L1"
    using assms(2) by (auto simp: process_create_asset_counter_def result_simps account_simps split: if_splits)
  from create_pda_account_success[OF assms(1) 2(1)] obtain k where
    3: "unused_account L (address_of counter)" "L1 = install (address_of counter) (rt_program_id R)
       (Bytes (replicate SPL_ASSET_COUNTER_SIZE 0)) (move_lamports (address_of authority) (address_of counter) k L)" by blast
  have n: "n = n0\<lparr>ac_discriminator := SPL_ASSET_COUNTER, next_id := FIRST_ASSET_ID\<rparr>"
    using 2(3) by (auto simp: ac_init_def split: if_splits)
  then have "counter_at R L' (address_of counter) n"
    using 2(2,4) 3(2) by (simp add: counter_at_def spl_asset_counter_wf_def FIRST_ASSET_ID_def u64_limit_def)
  then show thesis using that[OF 1 3(1)] n 2(4) 3(2) by simp
qed


section \<open>The registry stays injective\<close>

text \<open>
  Every counter stands at the counter's address, every registry record at the
  address of its mint with an identifier the counter has handed out, and no two
  records share an identifier.
\<close>

definition assets_ok :: "runtime \<Rightarrow> ledger \<Rightarrow> bool" where
  "assets_ok R L \<longleftrightarrow>
     (\<forall>a n. counter_at R L a n \<longrightarrow> (\<exists>bump. derive_program_address R [SPL_ASSET_COUNTER_PDA_SEED] (rt_program_id R) = Some (a, bump))) \<and>
     (\<forall>a r. registry_at R L a r \<longrightarrow>
        (\<exists>bump. derive_program_address R [SPL_ASSET_REGISTRY_PDA_SEED, ar_mint r] (rt_program_id R) = Some (a, bump)) \<and>
        (\<exists>p n. counter_at R L p n \<and> FIRST_ASSET_ID \<le> ar_asset_id r \<and> ar_asset_id r < next_id n)) \<and>
     (\<forall>a r b s. registry_at R L a r \<longrightarrow> registry_at R L b s \<longrightarrow> ar_asset_id r = ar_asset_id s \<longrightarrow> a = b)"

lemma records_differ:
  assumes "spl_asset_counter_wf n" "spl_asset_registry_wf r"
  shows "spl_asset_counter_bytes n \<noteq> spl_asset_registry_bytes r"
proof -
  have "length (spl_asset_counter_bytes n) = 16" "length (spl_asset_registry_bytes r) = 48"
    using assms by (simp_all add: layout_bytes_def spl_asset_counter_to_fields_def spl_asset_registry_to_fields_def spl_asset_counter_wf_def
        spl_asset_registry_wf_def)
  then show ?thesis by auto
qed

lemma not_both: "counter_at R L a n \<Longrightarrow> \<not> registry_at R L a r"
  using records_differ by (auto simp: counter_at_def registry_at_def)

lemma same_pool_records:
  assumes "same_pool_data R L L'"
  shows "counter_at R L' a n \<longleftrightarrow> counter_at R L a n" "registry_at R L' a r \<longleftrightarrow> registry_at R L a r"
  using assms unfolding same_pool_data_def counter_at_def registry_at_def by metis+

lemma same_pool_assets: "same_pool_data R L L' \<Longrightarrow> assets_ok R L' = assets_ok R L"
  by (simp add: assets_ok_def same_pool_records)

text \<open>Writing one record changes that record only.\<close>

lemma records_after_write:
  assumes "acc_owner (L a) = rt_program_id R" "spl_asset_counter_wf n" "spl_asset_registry_wf r" "ac_discriminator n = SPL_ASSET_COUNTER"
    "ar_discriminator r = SPL_ASSET_REGISTRY"
  shows "counter_at R (set_data a (Bytes (spl_asset_counter_bytes n)) L) b n' \<longleftrightarrow> (if b = a then n' = n else counter_at R L b n')"
    "registry_at R (set_data a (Bytes (spl_asset_counter_bytes n)) L) b r' \<longleftrightarrow> b \<noteq> a \<and> registry_at R L b r'"
    "registry_at R (set_data a (Bytes (spl_asset_registry_bytes r)) L) b r' \<longleftrightarrow> (if b = a then r' = r else registry_at R L b r')"
    "counter_at R (set_data a (Bytes (spl_asset_registry_bytes r)) L) b n' \<longleftrightarrow> b \<noteq> a \<and> counter_at R L b n'"
  using assms records_differ[of n r'] records_differ[of n' r] spl_asset_counter.enc_inj[of n n'] spl_asset_registry.enc_inj[of r r']
  by (auto simp: counter_at_def registry_at_def)

lemma records_after_install:
  assumes "unused_account L a" "rt_program_id R \<noteq> system_program_id"
  shows "b \<noteq> a \<Longrightarrow> counter_at R (install a p d (move_lamports f t k L)) b n \<longleftrightarrow> counter_at R L b n"
    "b \<noteq> a \<Longrightarrow> registry_at R (install a p d (move_lamports f t k L)) b r \<longleftrightarrow> registry_at R L b r"
    "\<not> counter_at R L a n" "\<not> registry_at R L a r"
  using assms by (auto simp: counter_at_def registry_at_def unused_account_def)

lemma create_asset_counter_keeps_assets:
  assumes "system_ok R" "rt_program_id R \<noteq> system_program_id" "assets_ok R L" "process_create_asset_counter R accounts data L = Inr L'"
  shows "assets_ok R L' \<and> (\<forall>a r. \<not> registry_at R L' a r)"
  using create_asset_counter_success[OF assms(1,4)]
proof cases
  case (1 authority config counter rest c bump n k)
  let ?a = "address_of counter"
  let ?M = "install ?a (rt_program_id R) (Bytes (replicate SPL_ASSET_COUNTER_SIZE 0)) (move_lamports (address_of authority) ?a k L)"
  have n: "spl_asset_counter_wf n" "ac_discriminator n = SPL_ASSET_COUNTER" using 1(7) by (simp_all add: counter_at_def)
  have "spl_asset_registry_wf (ar_set zero32 0 ar_zeroed)" "ar_discriminator (ar_set zero32 0 ar_zeroed) = SPL_ASSET_REGISTRY"
    by (simp_all add: ar_set_def ar_zeroed_def spl_asset_registry_wf_def zero32_def u64_limit_def)
  note w = records_after_write(1,2)[OF _ n(1) this(1) n(2) this(2), of ?M ?a R]
  have other: "\<not> counter_at R L b m" for b m
  proof
    assume "counter_at R L b m"
    moreover from this have "b = ?a" using assms(3) 1(5) by (auto simp: assets_ok_def)
    ultimately show False using records_after_install(3)[OF 1(6) assms(2)] by blast
  qed
  then have none: "\<not> registry_at R L b r" for b r using assms(3) by (auto simp: assets_ok_def)
  have r: "\<not> registry_at R L' b r" for b r
    using w(2)[of b r] none[of b r] records_after_install(2)[OF 1(6) assms(2), of b "rt_program_id R"] by (auto simp: 1(9))
  have c: "counter_at R L' b m \<longleftrightarrow> b = ?a \<and> m = n" for b m
    using w(1)[of b m] other[of b m] records_after_install(1)[OF 1(6) assms(2), of b "rt_program_id R"] by (auto simp: 1(9))
  show ?thesis using r c 1(5) by (auto simp: assets_ok_def)
qed

text \<open>What a registration does to the records, and why that keeps the registry injective.\<close>

lemma register_records:
  assumes "system_ok R" "rt_program_id R \<noteq> system_program_id" "counter_at R L c n" "u64_ok (next_id n + 1)" "length m = 32"
    "create_registry_entry R payer e m (next_id n) (set_data c (Bytes (spl_asset_counter_bytes (n\<lparr>next_id := next_id n + 1\<rparr>))) L) = Inr L2"
    "same_pool_data R L2 L'"
  obtains bump where "derive_program_address R [SPL_ASSET_REGISTRY_PDA_SEED, m] (rt_program_id R) = Some (e, bump)"
    "\<And>b k. counter_at R L' b k \<longleftrightarrow> (if b = c then k = n\<lparr>next_id := next_id n + 1\<rparr> else counter_at R L b k)"
    "\<And>b s. registry_at R L' b s \<longleftrightarrow> (if b = e then s = ar_set m (next_id n) ar_zeroed else registry_at R L b s)"
    "\<And>s. \<not> registry_at R L e s"
proof -
  let ?n = "n\<lparr>next_id := next_id n + 1\<rparr>" and ?r = "ar_set m (next_id n) ar_zeroed"
  let ?L1 = "set_data c (Bytes (spl_asset_counter_bytes ?n)) L"
  obtain bump k where e: "derive_program_address R [SPL_ASSET_REGISTRY_PDA_SEED, m] (rt_program_id R) = Some (e, bump)" "unused_account ?L1 e"
    "L2 = set_data e (Bytes (spl_asset_registry_bytes ?r))
       (install e (rt_program_id R) (Bytes (replicate SPL_ASSET_REGISTRY_SIZE 0)) (move_lamports payer e k ?L1))"
    using create_registry_entry_success[OF assms(1,6)] by blast
  let ?M = "install e (rt_program_id R) (Bytes (replicate SPL_ASSET_REGISTRY_SIZE 0)) (move_lamports payer e k ?L1)"
  have own: "acc_owner (L c) = rt_program_id R" "acc_owner (?M e) = rt_program_id R" using assms(3) by (simp_all add: counter_at_def)
  have wf: "spl_asset_counter_wf ?n" "spl_asset_registry_wf ?r" "ac_discriminator ?n = SPL_ASSET_COUNTER" "ar_discriminator ?r = SPL_ASSET_REGISTRY"
    using assms(3-5) by (simp_all add: counter_at_def spl_asset_counter_wf_def ar_set_def ar_zeroed_def spl_asset_registry_wf_def)
  note w1 = records_after_write(1,2)[of L c, OF own(1) wf] and w2 = records_after_write(3,4)[of ?M e, OF own(2) wf, folded e(3)]
  have ne: "e \<noteq> c" using e(2) own assms(2) by (auto simp: unused_account_def)
  note i = records_after_install(1,2)[OF e(2) assms(2), of _ "rt_program_id R"] and fresh = records_after_install(3,4)[OF e(2) assms(2)]
  have "counter_at R L' b k \<longleftrightarrow> (if b = c then k = ?n else counter_at R L b k)" for b k
    using w1(1)[of b k] w2(2)[of b k] i(1)[of b] fresh(1)[of k] ne by (cases "b = e") (auto simp: same_pool_records[OF assms(7)] split: if_splits)
  moreover have "registry_at R L' b s \<longleftrightarrow> (if b = e then s = ?r else registry_at R L b s)" for b s
    using w1(2)[of b s] w2(1)[of b s] i(2)[of b] not_both[OF assms(3)] by (cases "b = e") (auto simp: same_pool_records[OF assms(7)])
  moreover have "\<not> registry_at R L e s" for s using fresh(2)[of s] w1(2)[of e s] ne by auto
  ultimately show thesis using that e(1) by blast
qed

lemma assets_ok_register:
  assumes "assets_ok R L" "counter_at R L c n" "FIRST_ASSET_ID \<le> next_id n"
    "derive_program_address R [SPL_ASSET_REGISTRY_PDA_SEED, m] (rt_program_id R) = Some (e, bump)"
    and cs: "\<And>b k. counter_at R L' b k \<longleftrightarrow> (if b = c then k = n\<lparr>next_id := next_id n + 1\<rparr> else counter_at R L b k)"
    and rs: "\<And>b s. registry_at R L' b s \<longleftrightarrow> (if b = e then s = ar_set m (next_id n) ar_zeroed else registry_at R L b s)"
    and new: "\<And>s. \<not> registry_at R L e s"
  shows "assets_ok R L'" "\<forall>a s. registry_at R L a s \<longrightarrow> ar_mint s \<noteq> m \<and> ar_asset_id s \<noteq> next_id n \<and> registry_at R L' a s"
proof -
  have only: "counter_at R L b k \<Longrightarrow> b = c" for b k using assms(1,2) unfolding assets_ok_def by (metis option.inject prod.inject)
  have r: "ar_mint (ar_set m i z) = m" "ar_asset_id (ar_set m i z) = i" for i z by (simp_all add: ar_set_def)
  have ids: "ar_mint s \<noteq> m \<and> FIRST_ASSET_ID \<le> ar_asset_id s \<and> ar_asset_id s < next_id n" if s: "registry_at R L b s" for b s
  proof -
    obtain bump' p k where d: "derive_program_address R [SPL_ASSET_REGISTRY_PDA_SEED, ar_mint s] (rt_program_id R) = Some (b, bump')"
      and k: "counter_at R L p k" "FIRST_ASSET_ID \<le> ar_asset_id s" "ar_asset_id s < next_id k" using s assms(1) unfolding assets_ok_def by blast
    have "k = n" using only[OF k(1)] counter_at_unique[OF assms(2)] k(1) by blast
    moreover have "ar_mint s \<noteq> m" using d assms(4) new s by auto
    ultimately show ?thesis using k by blast
  qed
  show "\<forall>a s. registry_at R L a s \<longrightarrow> ar_mint s \<noteq> m \<and> ar_asset_id s \<noteq> next_id n \<and> registry_at R L' a s"
    using ids rs new by (metis less_irrefl)
  have inj: "registry_at R L a s \<Longrightarrow> registry_at R L b t \<Longrightarrow> ar_asset_id s = ar_asset_id t \<Longrightarrow> a = b" for a s b t
    using assms(1) unfolding assets_ok_def by blast
  show "assets_ok R L'"
    unfolding assets_ok_def
  proof (intro conjI allI impI)
    fix b k
    assume "counter_at R L' b k"
    then show "\<exists>bump. derive_program_address R [SPL_ASSET_COUNTER_PDA_SEED] (rt_program_id R) = Some (b, bump)"
      using assms(1,2) cs[of b k] unfolding assets_ok_def by (metis (full_types))
  next
    fix b s
    assume s: "registry_at R L' b s"
    then show "\<exists>bump. derive_program_address R [SPL_ASSET_REGISTRY_PDA_SEED, ar_mint s] (rt_program_id R) = Some (b, bump)"
      using assms(1,4) rs[of b s] r(1) unfolding assets_ok_def by (metis (full_types))
    have "FIRST_ASSET_ID \<le> ar_asset_id s \<and> ar_asset_id s < next_id n + 1"
      using s rs[of b s] ids[of b s] r(2) assms(3) by (cases "b = e") auto
    then show "\<exists>p k. counter_at R L' p k \<and> FIRST_ASSET_ID \<le> ar_asset_id s \<and> ar_asset_id s < next_id k"
      by (intro exI[of _ c] exI[of _ "n\<lparr>next_id := next_id n + 1\<rparr>"]) (simp add: cs)
  next
    fix a s b t
    assume "registry_at R L' a s" "registry_at R L' b t" "ar_asset_id s = ar_asset_id t"
    then show "a = b"
      using rs[of a s] rs[of b t] ids[of a s] ids[of b t] inj[of a s b t] r(2) by (cases "a = e"; cases "b = e") auto
  qed
qed

text \<open>
  C11.  Registering a mint gives it an identifier of its own.  A successful
  registration is signed by the protocol authority unless registration is open to
  everyone; it writes, at the address of the mint, a record of the mint with the
  identifier the counter stood at, and moves the counter past it.  No earlier
  record names that mint or that identifier, every earlier record is kept, and so
  the registry remains injective.
\<close>
theorem asset_ids_are_unique:
  assumes "system_ok R" "token_init_ok T" "token_ids_ok R" "rt_program_id R \<noteq> system_program_id" "assets_ok R L"
    "\<forall>v \<in> set accounts. length (address_of v) = 32" "process_create_spl_interface X R T accounts data L = Inr L'"
  shows "\<exists>authority config counter entry mint rest c n r. accounts = authority # config # counter # entry # mint # rest
    \<and> is_signer authority \<and> config_at R L config c
    \<and> (allows_permissionless_spl_interface_creation c \<or> protocol_authority c = address_of authority)
    \<and> counter_at R L (address_of counter) n \<and> counter_at R L' (address_of counter) (n\<lparr>next_id := next_id n + 1\<rparr>)
    \<and> registry_at R L' (address_of entry) r \<and> ar_mint r = address_of mint \<and> ar_asset_id r = next_id n
    \<and> (\<forall>a s. registry_at R L a s \<longrightarrow> ar_mint s \<noteq> address_of mint \<and> ar_asset_id s \<noteq> next_id n \<and> registry_at R L' a s)
    \<and> assets_ok R L'"
  using create_spl_interface_success[OF assms(7)]
proof cases
  case (1 authority config counter entry mint spl_interface system_program token_program rest c len n L1 L2)
  have same: "same_pool_data R L2 L'"
    using create_spl_interface_account_success[OF assms(1,2) 1(12) _ assms(4)] validated_mint_program[OF 1(6)] assms(3)
    by (auto simp: token_ids_ok_def)
  have m: "length (address_of mint) = 32" using assms(6) 1(1) by simp
  obtain bump where b: "derive_program_address R [SPL_ASSET_REGISTRY_PDA_SEED, address_of mint] (rt_program_id R) = Some (address_of entry, bump)"
    "\<And>b k. counter_at R L' b k \<longleftrightarrow> (if b = address_of counter then k = n\<lparr>next_id := next_id n + 1\<rparr> else counter_at R L b k)"
    "\<And>b s. registry_at R L' b s \<longleftrightarrow> (if b = address_of entry then s = ar_set (address_of mint) (next_id n) ar_zeroed else registry_at R L b s)"
    "\<And>s. \<not> registry_at R L (address_of entry) s"
    using register_records[OF assms(1,4) 1(7,9) m 1(11)[unfolded 1(10)] same] by blast
  note ok = assets_ok_register[OF assms(5) 1(7,8) b]
  have r: "ar_mint (ar_set (address_of mint) (next_id n) ar_zeroed) = address_of mint"
    "ar_asset_id (ar_set (address_of mint) (next_id n) ar_zeroed) = next_id n" by (simp_all add: ar_set_def)
  show ?thesis
    by (rule exI[of _ authority], rule exI[of _ config], rule exI[of _ counter], rule exI[of _ entry], rule exI[of _ mint],
        rule exI[of _ "spl_interface # system_program # token_program # rest"], rule exI[of _ c], rule exI[of _ n],
        rule exI[of _ "ar_set (address_of mint) (next_id n) ar_zeroed"])
      (intro conjI ok r 1(1,3,4,5,7), simp_all add: b(2,3))
qed

text \<open>A mint of the classic token program, registered as the first asset.\<close>

definition demo_mints :: mint_lib where
  "demo_mints = \<lparr>unpack_mint = (\<lambda>_. Some \<lparr>um_is_initialized = True, um_extension_types = Some [TokenMetadata]\<rparr>),
     required_account_extensions = (\<lambda>_. []), calculate_account_len = (\<lambda>_. Some 165)\<rparr>"

definition init_token :: token_runtime where
  "init_token = demo_token\<lparr>token_cpi := \<lambda>i L. case i of Initialize_Account3 p a m u \<Rightarrow> Inr L | _ \<Rightarrow> Inl (Cpi_failed 2)\<rparr>"

definition demo_pda_at :: "bytes list \<Rightarrow> account_view" where
  "demo_pda_at seeds = (user_view 0)\<lparr>address_of := take 32 (concat seeds @ replicate 32 7)\<rparr>"

definition demo_counter :: spl_asset_counter where
  "demo_counter = \<lparr>ac_discriminator = SPL_ASSET_COUNTER, ac_reserved = replicate 7 0, next_id = 2\<rparr>"

definition asset_accounts :: "account_view list" where
  "asset_accounts = [user_view 1, user_view 10, demo_pda_at [SPL_ASSET_COUNTER_PDA_SEED], demo_pda_at [SPL_ASSET_REGISTRY_PDA_SEED, demo_address 20],
     user_view 20, demo_pda_at [SPL_INTERFACE_PDA_SEED, demo_address 20], demo_system_view, (program_view 0)\<lparr>address_of := SPL_TOKEN_PROGRAM_ID\<rparr>]"

definition asset_ledger :: ledger where
  "asset_ledger = spend_ledger(address_of (demo_pda_at [SPL_ASSET_COUNTER_PDA_SEED]) := \<lparr>acc_owner = demo_address 100, acc_lamports = 5000,
       acc_data = Bytes (spl_asset_counter_bytes demo_counter)\<rparr>,
     demo_address 20 := \<lparr>acc_owner = SPL_TOKEN_PROGRAM_ID, acc_lamports = 5000, acc_data = Bytes []\<rparr>)"

lemma demo_pda_at_sel [simp]:
  "address_of (demo_pda_at seeds) = take 32 (concat seeds @ replicate 32 7)" "is_writable (demo_pda_at seeds)"
  by (simp_all add: demo_pda_at_def user_view_def)

lemma asset_pdas_distinct:
  defines "c \<equiv> take 32 (SPL_ASSET_COUNTER_PDA_SEED @ replicate 32 7)" and "e \<equiv> take 32 (SPL_ASSET_REGISTRY_PDA_SEED @ demo_address 20 @ replicate 32 7)"
    and "v \<equiv> take 32 (SPL_INTERFACE_PDA_SEED @ demo_address 20 @ replicate 32 7)"
  shows "c \<noteq> e" "c \<noteq> v" "e \<noteq> v" "c \<noteq> demo_address n" "e \<noteq> demo_address n" "v \<noteq> demo_address n"
    "length c = 32" "length e = 32" "length v = 32"
proof -
  have "hd c = 115" "hd e = 115" "hd v = 115" "hd (demo_address n) = 0"
    by (simp_all add: c_def e_def v_def SPL_ASSET_COUNTER_PDA_SEED_def SPL_ASSET_REGISTRY_PDA_SEED_def SPL_INTERFACE_PDA_SEED_def demo_address_def)
  then show "c \<noteq> demo_address n" "e \<noteq> demo_address n" "v \<noteq> demo_address n" by auto
  have "c ! 10 = 99" "e ! 10 = 114" "v ! 10 = 118"
    by (simp_all add: c_def e_def v_def SPL_ASSET_COUNTER_PDA_SEED_def SPL_ASSET_REGISTRY_PDA_SEED_def SPL_INTERFACE_PDA_SEED_def)
  then show "c \<noteq> e" "c \<noteq> v" "e \<noteq> v" by auto
  show "length c = 32" "length e = 32" "length v = 32"
    by (simp_all add: c_def e_def v_def SPL_ASSET_COUNTER_PDA_SEED_def SPL_ASSET_REGISTRY_PDA_SEED_def SPL_INTERFACE_PDA_SEED_def)
qed

lemma asset_ledger_records:
  "counter_at spend_runtime asset_ledger a n \<longleftrightarrow> a = address_of (demo_pda_at [SPL_ASSET_COUNTER_PDA_SEED]) \<and> n = demo_counter"
  "\<not> registry_at spend_runtime asset_ledger a r"
proof -
  let ?c = "address_of (demo_pda_at [SPL_ASSET_COUNTER_PDA_SEED])"
  have wf: "spl_asset_counter_wf demo_counter" by (simp add: demo_counter_def spl_asset_counter_wf_def u64_limit_def)
  have p: "hd SPL_TOKEN_PROGRAM_ID = 6" "hd (demo_address 100) = 0" by (simp_all add: SPL_TOKEN_PROGRAM_ID_def demo_address_def)
  have len: "length (protocol_config_bytes demo_config) = 166"
    by (simp add: layout_bytes_def protocol_config_to_fields_def)
  have lens: "spl_asset_counter_wf n \<Longrightarrow> length (spl_asset_counter_bytes n) = 16" "spl_asset_registry_wf r \<Longrightarrow> length (spl_asset_registry_bytes r) = 48"
    by (simp_all add: layout_bytes_def spl_asset_counter_to_fields_def spl_asset_registry_to_fields_def spl_asset_counter_wf_def
        spl_asset_registry_wf_def)
  have own: "acc_owner (asset_ledger a) = demo_address 100 \<Longrightarrow> a \<in> {?c, demo_address 10, demo_address 11}"
    using p demo_system_id[of 100]
    by (auto simp: asset_ledger_def demo_ledger_def demo_address_inj split: if_splits)
  have data: "acc_data (asset_ledger ?c) = Bytes (spl_asset_counter_bytes demo_counter)" "acc_owner (asset_ledger ?c) = demo_address 100"
    "acc_data (asset_ledger (demo_address 10)) = Bytes (protocol_config_bytes demo_config)" "acc_data (asset_ledger (demo_address 11)) = Tree_Data demo_tree"
    using asset_pdas_distinct(4) asset_pdas_distinct(4)[THEN not_sym] by (auto simp: asset_ledger_def demo_ledger_def demo_address_inj)
  show "counter_at spend_runtime asset_ledger a n \<longleftrightarrow> a = ?c \<and> n = demo_counter"
    using own data len lens(1) wf spl_asset_counter.enc_inj[of n demo_counter]
    by (auto simp: counter_at_def demo_counter_def)
  show "\<not> registry_at spend_runtime asset_ledger a r"
    using own data len lens(2) records_differ[OF wf, of r] records_differ[OF wf, of r, THEN not_sym]
    by (auto simp: registry_at_def)
qed

lemma asset_ledger_ok: "assets_ok spend_runtime asset_ledger"
  by (auto simp: assets_ok_def asset_ledger_records demo_pda_def)

lemma demo_registration_runs: "\<exists>L'. process_create_spl_interface demo_mints spend_runtime init_token asset_accounts [] asset_ledger = Inr L'"
proof -
  let ?c = "address_of (demo_pda_at [SPL_ASSET_COUNTER_PDA_SEED])" and ?n = "demo_counter\<lparr>next_id := 3\<rparr>"
  let ?e = "address_of (demo_pda_at [SPL_ASSET_REGISTRY_PDA_SEED, demo_address 20])"
  let ?v = "address_of (demo_pda_at [SPL_INTERFACE_PDA_SEED, demo_address 20])"
  define L1 where "L1 = set_data ?c (Bytes (spl_asset_counter_bytes ?n)) asset_ledger"
  define M where "M = install ?e (demo_address 100) (Bytes (replicate SPL_ASSET_REGISTRY_SIZE 0)) (move_lamports (demo_address 1) ?e (demo_rent SPL_ASSET_REGISTRY_SIZE - lamports L1 ?e) L1)"
  define L2 where "L2 = set_data ?e (Bytes (spl_asset_registry_bytes (ar_set (demo_address 20) 2 ar_zeroed))) M"
  note d = asset_pdas_distinct(1-6) asset_pdas_distinct(1-6)[THEN not_sym]
  have allocate: "allocate_asset_id spend_runtime (demo_pda_at [SPL_ASSET_COUNTER_PDA_SEED]) asset_ledger = Inr (2, L1)"
    unfolding allocate_asset_id_eq_Inr asset_ledger_records L1_def by (simp add: demo_counter_def FIRST_ASSET_ID_def u64_limit_def)
  have e: "unused_account L1 ?e" "lamports L1 (demo_address 1) = 1000000" "lamports L1 ?e = 1000000"
    using d by (auto simp: L1_def asset_ledger_def demo_ledger_def unused_account_def lamports_def demo_address_inj set_data_def)
  have entry: "create_registry_entry spend_runtime (demo_address 1) ?e (demo_address 20) 2 L1 = Inr L2"
    using e registry_init_eq_Inr[of M ?e "demo_address 20" 2]
    by (simp add: create_registry_entry_def verify_pda_def demo_pda_def unused_account_def create_pda_account_def spend_system_def M_def L2_def Let_def
        demo_rent_def SPL_ASSET_REGISTRY_SIZE_def)
  have v: "unused_account L2 ?v"
    using d by (auto simp: L2_def M_def L1_def asset_ledger_def demo_ledger_def unused_account_def set_data_def install_def demo_address_inj)
  have "lamports L1 ?v = 1000000"
    using d by (auto simp: L1_def asset_ledger_def demo_ledger_def lamports_def set_data_def)
  then have v2: "lamports L2 ?v = 1000000"
    using e(3) by (auto simp: L2_def M_def lamports_move_lamports demo_rent_def SPL_ASSET_REGISTRY_SIZE_def)
  have interface: "\<exists>L'. create_spl_interface_account spend_runtime init_token (demo_address 1) ?v (demo_address 20) SPL_TOKEN_PROGRAM_ID 165 L2 = Inr L'"
    using v v2
    by (simp add: create_spl_interface_account_def spl_interface_init_def verify_pda_def demo_pda_def unused_account_def create_pda_account_def
        spend_system_def Let_def demo_rent_def init_token_def)
  have mint: "validate_token_mint_for_interface demo_mints asset_ledger (user_view 20) SPL_TOKEN_PROGRAM_ID = Inr 165"
    by (simp add: validate_token_mint_for_interface_def demo_mints_def owned_by_def asset_ledger_def)
  have config: "load_protocol_config spend_runtime asset_ledger (user_view 10) = Inr demo_config"
    unfolding load_protocol_config_eq_Inr config_at_def
    using d by (auto simp: asset_ledger_def demo_ledger_def demo_config_wf demo_address_inj)
  show ?thesis
    using interface allocate entry mint config
    by (simp add: process_create_spl_interface_def asset_accounts_def next_signer_def next_mut_def next_checked_def next_account_def check_signer_def
        check_mut_def iter_new_def check_protocol_authority_def)
qed

theorem asset_ids_are_unique_witness:
  "\<exists>L' r. process_create_spl_interface demo_mints spend_runtime init_token asset_accounts [] asset_ledger = Inr L'
    \<and> registry_at spend_runtime L' (address_of (asset_accounts ! 3)) r \<and> ar_mint r = demo_address 20 \<and> ar_asset_id r = 2
    \<and> assets_ok spend_runtime L'"
proof -
  obtain L' where run: "process_create_spl_interface demo_mints spend_runtime init_token asset_accounts [] asset_ledger = Inr L'"
    using demo_registration_runs by blast
  have R: "system_ok spend_runtime" "rt_program_id spend_runtime \<noteq> system_program_id"
    using spend_runtime_ok_demo by (simp_all add: spend_runtime_ok_def)
  have T: "token_init_ok init_token" by (simp add: token_init_ok_def init_token_def)
  have len: "\<forall>v \<in> set asset_accounts. length (address_of v) = 32"
    using asset_pdas_distinct(7-9) by (simp add: asset_accounts_def system_program_id_def zero32_def SPL_TOKEN_PROGRAM_ID_def)
  show ?thesis
    using asset_ids_are_unique[OF R(1) T demo_token_ok(2) R(2) asset_ledger_ok len run] run
    by (auto simp: asset_ledger_records demo_counter_def asset_accounts_def)
qed

end
