(* ===== verification/User_Registry.thy ===== *)
theory User_Registry
  imports Spend_Demo
begin

text \<open>
  The user registry, \<open>programs/user-registry/src\<close> with its interface crate
  \<open>program-libs/user-registry-interface/src\<close>: one record per owner at a derived address,
  holding the owner's shielded keys and the merge encryption scheme it accepts.
  The program's own address is an argument, as in its entry point.  The lemmas
  show that a record belongs to its owner: nobody else changes it, and the
  nullifier key is never changed at all.
\<close>

definition USER_REGISTRY_PROGRAM_ID :: address where
  "USER_REGISTRY_PROGRAM_ID = [12, 184, 19, 39, 34, 169, 197, 80, 173, 230, 213, 235, 238, 72, 165, 105, 147, 8, 241, 138,
     37, 86, 197, 220, 174, 68, 119, 97, 14, 189, 93, 23]"

definition USER_RECORD_SEED :: bytes where
  "USER_RECORD_SEED = [122, 111, 108, 97, 110, 97, 47, 114, 101, 103, 105, 115, 116, 114, 121, 47, 118, 48]"

definition VIEWING_PUBKEY_LEN :: nat where "VIEWING_PUBKEY_LEN = 33"
definition NULLIFIER_PUBKEY_LEN :: nat where "NULLIFIER_PUBKEY_LEN = 32"


section \<open>Records and payloads (state.rs, instruction.rs)\<close>

datatype merge_encryption_scheme = Merge_Disabled | Merge_PoseidonCtrV1

record user_record =
  ur_owner :: address
  ur_bump :: nat
  ur_nullifier_pubkey :: bytes
  ur_viewing_pubkey :: bytes
  ur_merge_encryption :: merge_encryption_scheme

definition USER_RECORD_DISCRIMINATOR :: byte where "USER_RECORD_DISCRIMINATOR = 1"

definition USER_RECORD_SIZE :: nat where
  "USER_RECORD_SIZE = 1 + 32 + 1 + NULLIFIER_PUBKEY_LEN + VIEWING_PUBKEY_LEN + 1"

primrec scheme_byte :: "merge_encryption_scheme \<Rightarrow> byte" where
  "scheme_byte Merge_Disabled = 0"
| "scheme_byte Merge_PoseidonCtrV1 = 1"

definition read_scheme :: "merge_encryption_scheme reader" where
  "read_scheme = read_then read_u8 (\<lambda>t.
    if t = 0 then read_return Merge_Disabled else if t = 1 then read_return Merge_PoseidonCtrV1 else read_fail)"

definition write_user_record :: "user_record \<Rightarrow> bytes" where
  "write_user_record u = ur_owner u @ write_u8 (ur_bump u) @ ur_nullifier_pubkey u @ ur_viewing_pubkey u @ [scheme_byte (ur_merge_encryption u)]"

definition read_user_record :: "user_record reader" where
  "read_user_record =
    read_then (read_bytes 32) (\<lambda>owner. read_then read_u8 (\<lambda>bump. read_then (read_bytes NULLIFIER_PUBKEY_LEN) (\<lambda>n.
    read_then (read_bytes VIEWING_PUBKEY_LEN) (\<lambda>v. read_then read_scheme (\<lambda>s.
      read_return \<lparr>ur_owner = owner, ur_bump = bump, ur_nullifier_pubkey = n, ur_viewing_pubkey = v, ur_merge_encryption = s\<rparr>)))))"

definition user_record_ok :: "user_record \<Rightarrow> bool" where
  "user_record_ok u \<longleftrightarrow> length (ur_owner u) = 32 \<and> ur_bump u < 256 \<and> length (ur_nullifier_pubkey u) = NULLIFIER_PUBKEY_LEN
     \<and> length (ur_viewing_pubkey u) = VIEWING_PUBKEY_LEN"

definition try_from_account_data :: "account_data \<Rightarrow> user_record option" where
  "try_from_account_data d =
    (case d of
       Tree_Data _ \<Rightarrow> None
     | Bytes bs \<Rightarrow>
        if length bs \<noteq> USER_RECORD_SIZE then None
        else case bs of
          [] \<Rightarrow> None
        | b # body \<Rightarrow> if b = USER_RECORD_DISCRIMINATOR then map_option fst (read_user_record body) else None)"

text \<open>The payloads: a nullifier and a viewing key; a viewing key; a scheme.\<close>

definition read_register :: "(bytes \<times> bytes) reader" where
  "read_register = read_then (read_bytes NULLIFIER_PUBKEY_LEN) (\<lambda>n. read_then (read_bytes VIEWING_PUBKEY_LEN) (\<lambda>v. read_return (n, v)))"

definition read_update_keys :: "bytes reader" where
  "read_update_keys = read_bytes VIEWING_PUBKEY_LEN"

definition REGISTER :: nat where "REGISTER = 0"
definition SET_MERGE_ENCRYPTION :: nat where "SET_MERGE_ENCRYPTION = 1"
definition UPDATE_KEYS :: nat where "UPDATE_KEYS = 2"


section \<open>Errors (error.rs)\<close>

datatype user_registry_error = Registry_InvalidInstructionData | UnauthorizedSigner | InvalidRecordPda | OwnerMismatch
  | InvalidRecordAccount | Registry_InvalidSystemProgram

primrec user_registry_error_code :: "user_registry_error \<Rightarrow> nat" where
  "user_registry_error_code Registry_InvalidInstructionData = 0"
| "user_registry_error_code UnauthorizedSigner = 1"
| "user_registry_error_code InvalidRecordPda = 2"
| "user_registry_error_code OwnerMismatch = 3"
| "user_registry_error_code InvalidRecordAccount = 4"
| "user_registry_error_code Registry_InvalidSystemProgram = 5"

definition registry_fail :: "user_registry_error \<Rightarrow> program_error" where
  "registry_fail e = Custom (user_registry_error_code e)"


section \<open>Shared steps (common.rs)\<close>

definition check_system_program :: "account_view \<Rightarrow> unit presult" where
  "check_system_program v = (if address_of v \<noteq> system_program_id then Inl (registry_fail Registry_InvalidSystemProgram) else Inr ())"

definition check_record_pda :: "runtime \<Rightarrow> account_view \<Rightarrow> address \<Rightarrow> address \<Rightarrow> nat presult" where
  "check_record_pda R rec owner pid =
    rbind (ok_or (derive_program_address R [USER_RECORD_SEED, owner] pid) Panicked) (\<lambda>(expected, bump).
      if address_of rec \<noteq> expected then Inl (registry_fail InvalidRecordPda) else Inr bump)"

definition check_record_pda_with_bump :: "token_runtime \<Rightarrow> account_view \<Rightarrow> address \<Rightarrow> nat \<Rightarrow> address \<Rightarrow> unit presult" where
  "check_record_pda_with_bump T rec owner bump pid =
    (if address_of rec \<noteq> derive_address T [USER_RECORD_SEED, owner] bump pid then Inl (registry_fail InvalidRecordPda) else Inr ())"

definition read_record :: "ledger \<Rightarrow> account_view \<Rightarrow> address \<Rightarrow> user_record presult" where
  "read_record L rec pid =
    (if \<not> owned_by L rec pid \<or> \<not> is_writable rec then Inl (registry_fail InvalidRecordAccount)
     else ok_or (try_from_account_data (acc_data (L (address_of rec)))) (registry_fail InvalidRecordAccount))"

definition write_record :: "account_view \<Rightarrow> user_record \<Rightarrow> ledger \<Rightarrow> ledger presult" where
  "write_record rec state L =
    (let body = write_user_record state; needed = 1 + length body; len = data_len (acc_data (L (address_of rec))) in
     if len \<noteq> USER_RECORD_SIZE \<or> len < needed then Inl (registry_fail InvalidRecordAccount)
     else Inr (set_data (address_of rec) (Bytes (USER_RECORD_DISCRIMINATOR # body @ replicate (len - needed) 0)) L))"

definition create_record_account :: "runtime \<Rightarrow> account_view \<Rightarrow> account_view \<Rightarrow> address \<Rightarrow> nat \<Rightarrow> nat \<Rightarrow> address \<Rightarrow> ledger \<Rightarrow> ledger presult" where
  "create_record_account R rec payer owner bump space pid L =
    rbind (minimum_balance R space) (\<lambda>required.
    let seeds = [USER_RECORD_SEED, owner, [of_nat bump]]; top_up = saturating_sub required (lamports L (address_of rec)) in
    rbind (if 0 < top_up then system_cpi R (Transfer (address_of payer) (address_of rec) top_up) L else Inr L) (\<lambda>L1.
    rbind (system_cpi R (Allocate (address_of rec) space seeds) L1) (\<lambda>L2.
      system_cpi R (Assign (address_of rec) pid seeds) L2)))"


section \<open>Handlers (register.rs, update\_keys.rs, set\_merge\_encryption.rs, processor.rs)\<close>

definition process_register :: "runtime \<Rightarrow> address \<Rightarrow> account_view list \<Rightarrow> bytes \<times> bytes \<Rightarrow> ledger \<Rightarrow> ledger presult" where
  "process_register R pid accounts data L =
    (case accounts of
       rec # owner # payer # system_program # _ \<Rightarrow>
         if \<not> is_signer owner \<or> \<not> is_signer payer then Inl Program_MissingRequiredSignature
         else if \<not> is_writable rec then Inl (registry_fail InvalidRecordAccount)
         else rbind (check_system_program system_program) (\<lambda>_.
         rbind (check_record_pda R rec (address_of owner) pid) (\<lambda>bump.
         if owned_by L rec pid \<or> data_len (acc_data (L (address_of rec))) \<noteq> 0 then Inl Program_AccountAlreadyInitialized
         else rbind (create_record_account R rec payer (address_of owner) bump USER_RECORD_SIZE pid L)
           (write_record rec \<lparr>ur_owner = address_of owner, ur_bump = bump, ur_nullifier_pubkey = fst data, ur_viewing_pubkey = snd data,
             ur_merge_encryption = Merge_Disabled\<rparr>)))
     | _ \<Rightarrow> Inl Program_NotEnoughAccountKeys)"

definition process_update_keys :: "token_runtime \<Rightarrow> address \<Rightarrow> account_view list \<Rightarrow> bytes \<Rightarrow> ledger \<Rightarrow> ledger presult" where
  "process_update_keys T pid accounts viewing_pubkey L =
    (case accounts of
       rec # owner # _ \<Rightarrow>
         if \<not> is_signer owner then Inl Program_MissingRequiredSignature
         else rbind (read_record L rec pid) (\<lambda>state.
         rbind (check_record_pda_with_bump T rec (ur_owner state) (ur_bump state) pid) (\<lambda>_.
         if ur_owner state \<noteq> address_of owner then Inl (registry_fail OwnerMismatch)
         else write_record rec (state\<lparr>ur_viewing_pubkey := viewing_pubkey\<rparr>) L))
     | _ \<Rightarrow> Inl Program_NotEnoughAccountKeys)"

definition process_set_merge_encryption :: "token_runtime \<Rightarrow> address \<Rightarrow> account_view list \<Rightarrow> merge_encryption_scheme \<Rightarrow> ledger \<Rightarrow> ledger presult" where
  "process_set_merge_encryption T pid accounts scheme L =
    (case accounts of
       rec # signer # _ \<Rightarrow>
         if \<not> is_signer signer then Inl Program_MissingRequiredSignature
         else rbind (read_record L rec pid) (\<lambda>state.
         rbind (check_record_pda_with_bump T rec (ur_owner state) (ur_bump state) pid) (\<lambda>_.
         if address_of signer \<noteq> ur_owner state then Inl (registry_fail UnauthorizedSigner)
         else write_record rec (state\<lparr>ur_merge_encryption := scheme\<rparr>) L))
     | _ \<Rightarrow> Inl Program_NotEnoughAccountKeys)"

definition registry_process_instruction :: "runtime \<Rightarrow> token_runtime \<Rightarrow> address \<Rightarrow> account_view list \<Rightarrow> bytes \<Rightarrow> ledger \<Rightarrow> ledger presult" where
  "registry_process_instruction R T pid accounts instruction_data L =
    (case instruction_data of
       [] \<Rightarrow> Inl Program_InvalidInstructionData
     | tag # payload \<Rightarrow>
        if unat tag = REGISTER
        then rbind (ok_or (try_from_slice read_register payload) (registry_fail Registry_InvalidInstructionData)) (\<lambda>d. process_register R pid accounts d L)
        else if unat tag = SET_MERGE_ENCRYPTION
        then rbind (ok_or (try_from_slice read_scheme payload) (registry_fail Registry_InvalidInstructionData)) (\<lambda>s.
          process_set_merge_encryption T pid accounts s L)
        else if unat tag = UPDATE_KEYS
        then rbind (ok_or (try_from_slice read_update_keys payload) (registry_fail Registry_InvalidInstructionData)) (\<lambda>v.
          process_update_keys T pid accounts v L)
        else Inl Program_InvalidInstructionData)"


section \<open>The record reads back\<close>

lemma reads_scheme: "reads read_scheme [scheme_byte s] s"
  by (cases s) (simp_all add: reads_def read_scheme_def read_u8_def read_uint_def read_then_def read_bytes_def read_return_def)

interpretation user_record: codec read_user_record write_user_record user_record_ok
  by unfold_locales
    (auto simp: read_user_record_def write_user_record_def user_record_ok_def intro!: codec_steps reads_final[OF reads_scheme])

lemma length_write_user_record: "user_record_ok u \<Longrightarrow> 1 + length (write_user_record u) = USER_RECORD_SIZE"
  by (simp add: write_user_record_def user_record_ok_def USER_RECORD_SIZE_def write_u8_def)

lemma record_reads_back:
  "user_record_ok u \<Longrightarrow> try_from_account_data (Bytes (USER_RECORD_DISCRIMINATOR # write_user_record u)) = Some u"
  using user_record.law[of u] length_write_user_record[of u]
  by (simp add: try_from_account_data_def reads_def) (metis append.right_neutral fst_conv option.map(2))

lemma read_user_record_ok: "read_user_record bs = Some (u, rest) \<Longrightarrow> user_record_ok u"
  by (auto simp: read_user_record_def read_then_def read_bytes_def read_u8_def read_uint_def read_return_def user_record_ok_def
      split: option.splits prod.splits if_splits)
    (use from_le_bytes_less[of "take (Suc 0) (drop 32 bs)"] in simp)

lemma try_from_account_data_ok: "try_from_account_data d = Some u \<Longrightarrow> user_record_ok u"
  using read_user_record_ok by (fastforce simp: try_from_account_data_def split: account_data.splits if_splits list.splits)

section \<open>A record belongs to its owner\<close>

definition record_at :: "address \<Rightarrow> ledger \<Rightarrow> address \<Rightarrow> user_record \<Rightarrow> bool" where
  "record_at pid L a u \<longleftrightarrow> acc_owner (L a) = pid \<and> try_from_account_data (acc_data (L a)) = Some u"

definition owner_signed :: "account_view list \<Rightarrow> address \<Rightarrow> bool" where
  "owner_signed accounts a \<longleftrightarrow> (\<exists>v \<in> set accounts. is_signer v \<and> address_of v = a)"

lemma record_at_ok: "record_at pid L a u \<Longrightarrow> user_record_ok u"
  by (auto simp: record_at_def try_from_account_data_ok)

lemma write_record_eq_Inr:
  assumes "user_record_ok u"
  shows "write_record rec u L = Inr L' \<longleftrightarrow> data_len (acc_data (L (address_of rec))) = USER_RECORD_SIZE
    \<and> L' = set_data (address_of rec) (Bytes (USER_RECORD_DISCRIMINATOR # write_user_record u)) L"
  using length_write_user_record[OF assms] by (auto simp: write_record_def Let_def split: if_splits)

lemma record_at_write:
  assumes "user_record_ok u" "acc_owner (L r) = pid"
  shows "record_at pid (set_data r (Bytes (USER_RECORD_DISCRIMINATOR # write_user_record u)) L) a v \<longleftrightarrow>
    (if a = r then v = u else record_at pid L a v)"
  using assms record_reads_back[OF assms(1)] by (auto simp: record_at_def)

lemma read_record_eq_Inr: "read_record L rec pid = Inr u \<longleftrightarrow> is_writable rec \<and> record_at pid L (address_of rec) u"
  by (auto simp: read_record_def record_at_def owned_by_def result_simps)

text \<open>Both updates rewrite one record of a signing owner; registration creates one.\<close>

lemma update_keys_success:
  assumes "process_update_keys T pid accounts v L = Inr L'" "length v = VIEWING_PUBKEY_LEN"
  obtains r u where "record_at pid L r u" "owner_signed accounts (ur_owner u)"
    "\<And>a w. record_at pid L' a w \<longleftrightarrow> (if a = r then w = u\<lparr>ur_viewing_pubkey := v\<rparr> else record_at pid L a w)"
proof -
  obtain rec owner rest u where a: "accounts = rec # owner # rest" "is_signer owner" "record_at pid L (address_of rec) u" "ur_owner u = address_of owner"
    "write_record rec (u\<lparr>ur_viewing_pubkey := v\<rparr>) L = Inr L'"
    using assms(1) by (auto simp: process_update_keys_def result_simps read_record_eq_Inr split: list.splits if_splits)
  have ok: "user_record_ok (u\<lparr>ur_viewing_pubkey := v\<rparr>)" using record_at_ok[OF a(3)] assms(2) by (simp add: user_record_ok_def)
  show thesis
    using that[OF a(3)] a(1,2,4,5) record_at_write[OF ok, of L "address_of rec" pid] a(3)
    by (auto simp: write_record_eq_Inr[OF ok] owner_signed_def record_at_def)
qed

lemma set_merge_encryption_success:
  assumes "process_set_merge_encryption T pid accounts s L = Inr L'"
  obtains r u where "record_at pid L r u" "owner_signed accounts (ur_owner u)"
    "\<And>a w. record_at pid L' a w \<longleftrightarrow> (if a = r then w = u\<lparr>ur_merge_encryption := s\<rparr> else record_at pid L a w)"
proof -
  obtain rec owner rest u where a: "accounts = rec # owner # rest" "is_signer owner" "record_at pid L (address_of rec) u" "ur_owner u = address_of owner"
    "write_record rec (u\<lparr>ur_merge_encryption := s\<rparr>) L = Inr L'"
    using assms by (auto simp: process_set_merge_encryption_def result_simps read_record_eq_Inr split: list.splits if_splits)
  have ok: "user_record_ok (u\<lparr>ur_merge_encryption := s\<rparr>)" using record_at_ok[OF a(3)] by (simp add: user_record_ok_def)
  show thesis
    using that[OF a(3)] a(1,2,4,5) record_at_write[OF ok, of L "address_of rec" pid] a(3)
    by (auto simp: write_record_eq_Inr[OF ok] owner_signed_def record_at_def)
qed

lemma create_record_account_success:
  assumes "system_ok R" "create_record_account R rec payer owner bump space pid L = Inr L'"
  shows "unused_account L (address_of rec) \<and> acc_owner (L' (address_of rec)) = pid
    \<and> acc_data (L' (address_of rec)) = Bytes (replicate space 0)
    \<and> (\<forall>a. a \<noteq> address_of rec \<longrightarrow> acc_owner (L' a) = acc_owner (L a) \<and> acc_data (L' a) = acc_data (L a))"
  using assms(2)
  by (auto simp: create_record_account_def result_simps Let_def unused_account_def split: if_splits
      dest!: system_transfer[OF assms(1)] system_allocate[OF assms(1)] system_assign[OF assms(1)])

lemma register_success:
  assumes "system_ok R" "process_register R pid accounts data L = Inr L'"
    "length (fst data) = NULLIFIER_PUBKEY_LEN" "length (snd data) = VIEWING_PUBKEY_LEN" "\<forall>v \<in> set accounts. length (address_of v) = 32"
    "\<forall>seeds a bump. derive_program_address R seeds pid = Some (a, bump) \<longrightarrow> bump < 256"
  obtains r u where "unused_account L r" "owner_signed accounts (ur_owner u)" "ur_merge_encryption u = Merge_Disabled"
    "derive_program_address R [USER_RECORD_SEED, ur_owner u] pid = Some (r, ur_bump u)"
    "\<And>a w. record_at pid L' a w \<longleftrightarrow> (if a = r then w = u else record_at pid L a w)"
proof -
  obtain rec owner payer system_program rest bump L1 where a: "accounts = rec # owner # payer # system_program # rest" "is_signer owner"
      "derive_program_address R [USER_RECORD_SEED, address_of owner] pid = Some (address_of rec, bump)"
    and L1: "create_record_account R rec payer (address_of owner) bump USER_RECORD_SIZE pid L = Inr L1"
    and w: "write_record rec \<lparr>ur_owner = address_of owner, ur_bump = bump, ur_nullifier_pubkey = fst data, ur_viewing_pubkey = snd data,
        ur_merge_encryption = Merge_Disabled\<rparr> L1 = Inr L'"
    using assms(2) by (auto simp: process_register_def check_record_pda_def result_simps split: list.splits if_splits)
  define u where "u = \<lparr>ur_owner = address_of owner, ur_bump = bump, ur_nullifier_pubkey = fst data, ur_viewing_pubkey = snd data,
        ur_merge_encryption = Merge_Disabled\<rparr>"
  have ok: "user_record_ok u" using assms(3-6) a(1,3) by (auto simp: u_def user_record_ok_def)
  note c = create_record_account_success[OF assms(1) L1]
  have L': "L' = set_data (address_of rec) (Bytes (USER_RECORD_DISCRIMINATOR # write_user_record u)) L1"
    using w[folded u_def] by (simp add: write_record_eq_Inr[OF ok])
  have "record_at pid L' a v \<longleftrightarrow> (if a = address_of rec then v = u else record_at pid L a v)" for a v
    using record_at_write[OF ok, of L1 "address_of rec" pid a v] c by (auto simp: L' record_at_def)
  then show thesis using that[of "address_of rec" u] c a by (auto simp: u_def owner_signed_def)
qed

lemma rewritten_record:
  assumes "record_at pid L r u" "owner_signed accounts (ur_owner u)"
    "\<And>a w. record_at pid L' a w \<longleftrightarrow> (if a = r then w = v else record_at pid L a w)"
    "ur_owner v = ur_owner u" "ur_bump v = ur_bump u" "ur_nullifier_pubkey v = ur_nullifier_pubkey u"
  shows "record_at pid L a w \<Longrightarrow> \<exists>w'. record_at pid L' a w' \<and> ur_owner w' = ur_owner w \<and> ur_bump w' = ur_bump w
      \<and> ur_nullifier_pubkey w' = ur_nullifier_pubkey w \<and> (w' = w \<or> owner_signed accounts (ur_owner w))"
    "record_at pid L' a w' \<Longrightarrow> \<exists>w. record_at pid L a w"
proof -
  show "\<exists>w. record_at pid L a w" if "record_at pid L' a w'" using that assms(1,3) by (auto split: if_splits)
  assume w: "record_at pid L a w"
  then have "a = r \<Longrightarrow> w = u" using assms(1) by (simp add: record_at_def)
  then show "\<exists>w'. record_at pid L' a w' \<and> ur_owner w' = ur_owner w \<and> ur_bump w' = ur_bump w
      \<and> ur_nullifier_pubkey w' = ur_nullifier_pubkey w \<and> (w' = w \<or> owner_signed accounts (ur_owner w))"
    using assms w by (intro exI[of _ "if a = r then v else w"]) auto
qed

lemma payload_lengths:
  "try_from_slice read_register bs = Some d \<Longrightarrow> length (fst d) = NULLIFIER_PUBKEY_LEN \<and> length (snd d) = VIEWING_PUBKEY_LEN"
  "try_from_slice read_update_keys bs = Some v \<Longrightarrow> length v = VIEWING_PUBKEY_LEN"
  by (auto simp: try_from_slice_def read_register_def read_update_keys_def read_then_def read_bytes_def read_return_def
      split: list.splits if_splits option.splits prod.splits)


definition registry_token :: token_runtime where
  "registry_token = demo_token\<lparr>derive_address := \<lambda>seeds _ _. take 32 (concat seeds @ replicate 32 7)\<rparr>"

definition demo_user :: user_record where
  "demo_user = \<lparr>ur_owner = demo_address 2, ur_bump = 255, ur_nullifier_pubkey = demo_address 5, ur_viewing_pubkey = replicate 33 0,
     ur_merge_encryption = Merge_Disabled\<rparr>"

definition user_record_view :: account_view where
  "user_record_view = (user_view 0)\<lparr>address_of := take 32 (USER_RECORD_SEED @ demo_address 2 @ replicate 32 7)\<rparr>"

definition registry_ledger :: "user_record \<Rightarrow> ledger" where
  "registry_ledger u = spend_ledger(address_of user_record_view := \<lparr>acc_owner = USER_REGISTRY_PROGRAM_ID, acc_lamports = 5000,
     acc_data = Bytes (USER_RECORD_DISCRIMINATOR # write_user_record u)\<rparr>)"

lemma demo_user_ok: "user_record_ok demo_user"
  by (simp add: demo_user_def user_record_ok_def NULLIFIER_PUBKEY_LEN_def VIEWING_PUBKEY_LEN_def)

lemma registry_ledger_record: "user_record_ok u \<Longrightarrow> record_at USER_REGISTRY_PROGRAM_ID (registry_ledger u) (address_of user_record_view) u"
  by (simp add: record_at_def registry_ledger_def record_reads_back)


end
