(* ===== verification/Spec2Isabelle.thy ===== *)
theory Spec2Isabelle
  imports Hash_Encodings Spend_Safety Deposit Spl_Interface User_Registry
begin

text \<open>
  A verification library for the on-chain side of the shielded pool.
\<close>

end
